(* ===== verification/Prelude.thy ===== *)
theory Prelude
  imports Main "HOL-Library.Word"
begin

text \<open>
  Shared types and lemmas of the development: Go's integer types as words, byte slices as
  lists, the error values of the code (returned errors, gRPC statuses, run-time panics) as a
  datatype, results as sums, and slicing and conversion operations that panic where Go does.
\<close>

section \<open>Integers and byte slices\<close>

type_synonym byte = "8 word"
type_synonym u32 = "32 word"
type_synonym u64 = "64 word"
type_synonym bytes = "byte list"

abbreviation maxu64 :: nat where "maxu64 \<equiv> 2 ^ 64"

section \<open>Errors and results\<close>

text \<open>
  \<open>Err m\<close> is an error made by the code with the message \<open>m\<close>; \<open>Wrap m e\<close> is
  \<open>fmt.Errorf("m: ...", e)\<close>; \<open>Status c m\<close> is a gRPC status; \<open>Ext m\<close> is an error
  value that came from a library or a service; \<open>Panic m\<close> is a run-time panic, which no
  caller turns into another error.
\<close>

datatype grpc_code = InvalidArgument | NotFound | Internal | Unavailable

datatype err =
    Err string
  | Wrap string err
  | Status grpc_code string
  | Ext string
  | Panic string

type_synonym 'a result = "err + 'a"

definition rbind :: "'a result \<Rightarrow> ('a \<Rightarrow> 'b result) \<Rightarrow> 'b result" where
  "rbind r f = (case r of Inl e \<Rightarrow> Inl e | Inr a \<Rightarrow> f a)"

lemma rbind_simps [simp]:
  "rbind (Inl e) f = Inl e"
  "rbind (Inr a) f = f a"
  by (simp_all add: rbind_def)

lemma rbind_eq_Inr: "rbind r f = Inr b \<longleftrightarrow> (\<exists>a. r = Inr a \<and> f a = Inr b)"
  by (cases r) auto

lemma rbind_Inr_E:
  assumes "rbind r f = Inr b"
  obtains a where "r = Inr a" "f a = Inr b"
  using assms by (auto simp: rbind_eq_Inr)

fun is_panic :: "err \<Rightarrow> bool" where
  "is_panic (Panic m) = True"
| "is_panic (Wrap m e) = is_panic e"
| "is_panic e = False"

fun wrap_err :: "string \<Rightarrow> err \<Rightarrow> err" where
  "wrap_err m (Panic p) = Panic p"
| "wrap_err m e = Wrap m e"

definition wrap :: "string \<Rightarrow> 'a result \<Rightarrow> 'a result" where
  "wrap m r = (case r of Inl e \<Rightarrow> Inl (wrap_err m e) | Inr a \<Rightarrow> Inr a)"

lemma wrap_simps [simp]:
  "wrap m (Inl e) = Inl (wrap_err m e)"
  "wrap m (Inr a) = Inr a"
  by (simp_all add: wrap_def)

lemma wrap_eq_Inr [simp]: "wrap m r = Inr a \<longleftrightarrow> r = Inr a"
  by (cases r) simp_all

fun status_err :: "grpc_code \<Rightarrow> string \<Rightarrow> err \<Rightarrow> err" where
  "status_err c m (Panic p) = Panic p"
| "status_err c m e = Status c m"

definition as_status :: "grpc_code \<Rightarrow> string \<Rightarrow> 'a result \<Rightarrow> 'a result" where
  "as_status c m r = (case r of Inl e \<Rightarrow> Inl (status_err c m e) | Inr a \<Rightarrow> Inr a)"

lemma as_status_simps [simp]:
  "as_status c m (Inl e) = Inl (status_err c m e)"
  "as_status c m (Inr a) = Inr a"
  by (simp_all add: as_status_def)

lemma as_status_eq_Inr [simp]: "as_status c m r = Inr a \<longleftrightarrow> r = Inr a"
  by (cases r) simp_all

section \<open>Slicing\<close>

text \<open>
  \<open>b[i:j]\<close> panics unless \<open>i \<le> j \<le> len(b)\<close> (slices are modelled with their capacity
  equal to their length) and \<open>b[i]\<close> panics unless \<open>i < len(b)\<close>.
\<close>

definition slice_of :: "'a list \<Rightarrow> nat \<Rightarrow> nat \<Rightarrow> 'a list result" where
  "slice_of b i j = (if i \<le> j \<and> j \<le> length b then Inr (take (j - i) (drop i b))
     else Inl (Panic ''slice bounds out of range''))"

definition index_of :: "'a list \<Rightarrow> nat \<Rightarrow> 'a result" where
  "index_of b i = (if i < length b then Inr (b ! i) else Inl (Panic ''index out of range''))"

lemma slice_of_append [simp]:
  "i = length a \<Longrightarrow> j = length a + length x \<Longrightarrow> slice_of (a @ x @ c) i j = Inr x"
  by (simp add: slice_of_def)

lemma slice_of_prefix [simp]: "j = length x \<Longrightarrow> slice_of (x @ c) 0 j = Inr x"
  by (simp add: slice_of_def)

lemma slice_of_suffix [simp]:
  "i = length a \<Longrightarrow> j = length a + length x \<Longrightarrow> slice_of (a @ x) i j = Inr x"
  by (simp add: slice_of_def)

lemma slice_at: "b = a @ x @ c \<Longrightarrow> i = length a \<Longrightarrow> j = i + length x \<Longrightarrow> slice_of b i j = Inr x"
  by simp

text \<open>A loop over a list that stops at the first error, in list order.\<close>

fun map_res :: "('a \<Rightarrow> 'b result) \<Rightarrow> 'a list \<Rightarrow> 'b list result" where
  "map_res f [] = Inr []"
| "map_res f (x # xs) = rbind (f x) (\<lambda>y. rbind (map_res f xs) (\<lambda>ys. Inr (y # ys)))"

lemma map_res_Inr_length: "map_res f xs = Inr ys \<Longrightarrow> length ys = length xs"
  by (induction xs arbitrary: ys) (auto simp: rbind_eq_Inr)

lemma map_res_all_Inr: "(\<And>x. x \<in> set xs \<Longrightarrow> f x = Inr (g x)) \<Longrightarrow> map_res f xs = Inr (map g xs)"
  by (induction xs) auto

lemma map_res_Inr_nth: "map_res f xs = Inr ys \<Longrightarrow> i < length xs \<Longrightarrow> f (xs ! i) = Inr (ys ! i)"
  by (induction xs arbitrary: ys i) (auto simp: rbind_eq_Inr nth_Cons split: nat.splits)

fun fold_res :: "('s \<Rightarrow> 'a \<Rightarrow> 's result) \<Rightarrow> 's \<Rightarrow> 'a list \<Rightarrow> 's result" where
  "fold_res f s [] = Inr s"
| "fold_res f s (x # xs) = rbind (f s x) (\<lambda>s'. fold_res f s' xs)"

lemma fold_res_append: "fold_res f s (xs @ ys) = rbind (fold_res f s xs) (\<lambda>s'. fold_res f s' ys)"
proof (induction xs arbitrary: s)
  case (Cons x xs)
  then show ?case by (cases "f s x") simp_all
qed simp

text \<open>Invariants of such a loop come from one step.\<close>

lemma fold_res_invariant:
  assumes "fold_res f s xs = Inr s'" and "I s"
    and "\<And>s x t. x \<in> set xs \<Longrightarrow> I s \<Longrightarrow> f s x = Inr t \<Longrightarrow> I t"
  shows "I s'"
  using assms by (induction xs arbitrary: s) (auto simp: rbind_eq_Inr)

section \<open>Lists and words\<close>

lemma drop_eq_append: "n = length a \<Longrightarrow> drop n (a @ b) = b"
  by simp

lemma append_eq_len: "length a = length c \<Longrightarrow> a @ b = c @ d \<longleftrightarrow> a = c \<and> b = d"
  by simp

lemma unat_less_pow64 [simp]: "unat (w :: u64) < 2 ^ 64"
  using unsigned_less [of w] by simp

lemma unat_of_nat_u64: "n < 2 ^ 64 \<Longrightarrow> unat (of_nat n :: u64) = n"
  by (simp add: unat_of_nat take_bit_nat_eq_self)

lemma unat_byte_less [simp]: "unat (b :: byte) < 256"
  using unsigned_less [of b] by simp

lemma unat_u32_less [simp]: "unat (b :: u32) < 2 ^ 32"
  using unsigned_less [of b] by simp

lemma unat_Suc_u64: "unat (w :: u64) + 1 < 2 ^ 64 \<Longrightarrow> unat (w + 1) = unat w + 1"
  by (simp add: unat_word_ariths)

lemma unat_add_u64: "unat (a :: u64) + unat b < 2 ^ 64 \<Longrightarrow> unat (a + b) = unat a + unat b"
  by (simp add: unat_word_ariths)

end
