(* ===== verification/Retry.thy ===== *)
theory Retry
  imports Prelude
begin

text \<open>
  Retrying an operation: \<open>pkg/util/retry.go\<close>. The operation runs on a state \<open>'s\<close> of the outside. The
  context is the two predicates of \<open>context\<close>: whether it is found cancelled before an attempt, and
  whether it ends the wait after it. The lengths of the waits (floating point, random) are not modelled.
\<close>

section \<open>Network errors\<close>

text \<open>\<open>err.Error()\<close>, as far as the messages of errors are modelled.\<close>

fun err_text :: "err \<Rightarrow> string" where
  "err_text (Err m) = m"
| "err_text (Wrap m e) = m @ '': '' @ err_text e"
| "err_text (Status c m) = m"
| "err_text (Ext m) = m"
| "err_text (Panic m) = m"

definition lower :: "char \<Rightarrow> char" where
  "lower c = (if 65 \<le> (of_char c :: nat) \<and> (of_char c :: nat) \<le> 90 then char_of ((of_char c :: nat) + 32) else c)"

fun Contains :: "string \<Rightarrow> string \<Rightarrow> bool" where
  "Contains [] p = (p = [])"
| "Contains (c # s) p = (take (length p) (c # s) = p \<or> Contains s p)"

definition networkErrors :: "string list" where
  "networkErrors = [''connection refused'', ''connection reset'', ''connection closed'', ''no such host'', ''timeout'',
     ''too many open files'', ''network is unreachable'', ''i/o timeout'', ''temporary failure'', ''broken pipe'',
     ''syncing in progress'']"

definition IsNetworkError :: "err \<Rightarrow> bool" where
  "IsNetworkError e \<longleftrightarrow> list_ex (Contains (map lower (err_text e))) networkErrors"

section \<open>The loop\<close>

record retry_config =
  MaxAttempts :: int
  RetryableErrors :: "err \<Rightarrow> bool"

definition DefaultRetryConfig :: retry_config where
  "DefaultRetryConfig = \<lparr>MaxAttempts = 250, RetryableErrors = IsNetworkError\<rparr>"

record retry_ctx =
  ctx_cancelled :: "nat \<Rightarrow> bool"
  ctx_ends_wait :: "nat \<Rightarrow> bool"

definition ctx_err :: err where "ctx_err = Ext ''context canceled''"

function retry_loop ::
  "retry_ctx \<Rightarrow> retry_config \<Rightarrow> ('s \<Rightarrow> 'a result \<times> 's) \<Rightarrow> nat \<Rightarrow> err \<Rightarrow> 's \<Rightarrow> 'a result \<times> 's" where
  "retry_loop C config operation attempt lastErr s =
     (if int attempt < MaxAttempts config then
        (if ctx_cancelled C attempt then (Inl (Wrap ''context canceled during retry'' ctx_err), s)
         else case operation s of
             (Inr result, s) \<Rightarrow> (Inr result, s)
           | (Inl e, s) \<Rightarrow>
               if is_panic e then (Inl e, s)
               else if \<not> RetryableErrors config e then (Inl (Wrap ''non-retryable error'' e), s)
               else if int attempt = MaxAttempts config - 1 then (Inl (Wrap ''operation failed after attempts'' e), s)
               else if ctx_ends_wait C attempt then (Inl (Wrap ''context canceled during retry backoff'' ctx_err), s)
               else retry_loop C config operation (attempt + 1) e s)
      else (Inl (Wrap ''operation failed after attempts'' lastErr), s))"
  by pat_completeness auto
termination by (relation "measure (\<lambda>(C, config, operation, attempt, lastErr, s). nat (MaxAttempts config - int attempt))") auto

declare retry_loop.simps [simp del]

text \<open>Without any attempt the last error is nil.\<close>

definition RetryWithResult :: "retry_ctx \<Rightarrow> retry_config \<Rightarrow> ('s \<Rightarrow> 'a result \<times> 's) \<Rightarrow> 's \<Rightarrow> 'a result \<times> 's" where
  "RetryWithResult C config operation s = retry_loop C config operation 0 (Err ''%!w(<nil>)'') s"

definition Retry :: "retry_ctx \<Rightarrow> retry_config \<Rightarrow> ('s \<Rightarrow> unit result \<times> 's) \<Rightarrow> 's \<Rightarrow> unit result \<times> 's" where
  "Retry C config operation s = retry_loop C config operation 0 (Err ''%!w(<nil>)'') s"

section \<open>What the loop does\<close>

text \<open>The state after \<open>n\<close> attempts that all failed.\<close>

fun after :: "('s \<Rightarrow> 'a result \<times> 's) \<Rightarrow> nat \<Rightarrow> 's \<Rightarrow> 's" where
  "after operation 0 s = s"
| "after operation (Suc n) s = after operation n (snd (operation s))"

definition attempt_result :: "('s \<Rightarrow> 'a result \<times> 's) \<Rightarrow> nat \<Rightarrow> 's \<Rightarrow> 'a result" where
  "attempt_result operation n s = fst (operation (after operation n s))"

definition retried :: "retry_config \<Rightarrow> 'a result \<Rightarrow> bool" where
  "retried config r \<longleftrightarrow> (\<exists>e. r = Inl e \<and> \<not> is_panic e \<and> RetryableErrors config e)"

lemma attempt_result_Suc [simp]: "attempt_result operation (Suc n) s = attempt_result operation n (snd (operation s))"
  by (simp add: attempt_result_def)

text \<open>The operation runs until its first result that is not retried, and at most \<open>MaxAttempts\<close> times.\<close>

lemma retry_loop_trace:
  assumes "retry_loop C config operation attempt e0 s = (r, s')" "int attempt \<le> MaxAttempts config"
  shows "\<exists>n. int attempt + int n \<le> MaxAttempts config \<and> s' = after operation n s
    \<and> (\<forall>k. Suc k < n \<longrightarrow> retried config (attempt_result operation k s))
    \<and> (\<forall>a. r = Inr a \<longrightarrow> 0 < n \<and> attempt_result operation (n - 1) s = Inr a)"
  using assms
proof (induction C config operation attempt e0 s rule: retry_loop.induct)
  case (1 C config operation attempt e0 s)
  show ?case
  proof (cases "int attempt < MaxAttempts config \<and> \<not> ctx_cancelled C attempt")
    case False
    with 1(2,3) have "s' = s" "\<exists>e. r = Inl e" by (auto simp: retry_loop.simps split: if_splits)
    with 1(3) show ?thesis by (intro exI [of _ 0]) auto
  next
    case go: True
    obtain x s1 where op: "operation s = (x, s1)" by (cases "operation s")
    let ?again = "retried config x \<and> int attempt \<noteq> MaxAttempts config - 1 \<and> \<not> ctx_ends_wait C attempt"
    show ?thesis
    proof (cases ?again)
      case False
      with 1(2) go op have "s' = s1" "\<forall>a. r = Inr a \<longrightarrow> x = Inr a"
        by (auto simp: retry_loop.simps retried_def split: if_splits sum.splits)
      with go op show ?thesis by (intro exI [of _ 1]) (auto simp: attempt_result_def)
    next
      case True
      then obtain e where e: "x = Inl e" "\<not> is_panic e" "RetryableErrors config e" by (auto simp: retried_def)
      with 1(2) go op True have rec: "retry_loop C config operation (attempt + 1) e s1 = (r, s')"
        by (subst (asm) retry_loop.simps) simp
      have "int (attempt + 1) \<le> MaxAttempts config" using go True by simp
      with 1(1) [of x s1 e] rec go op e True obtain n where n: "int (attempt + 1) + int n \<le> MaxAttempts config"
        "s' = after operation n s1" "\<forall>k. Suc k < n \<longrightarrow> retried config (attempt_result operation k s1)"
        "\<forall>a. r = Inr a \<longrightarrow> 0 < n \<and> attempt_result operation (n - 1) s1 = Inr a"
        by auto
      have "retried config (attempt_result operation k s)" if "Suc k < Suc n" for k
        using n(3) that True op by (cases k) (auto simp: attempt_result_def)
      moreover have "attempt_result operation n s = Inr a" if "r = Inr a" for a
        using n(4) that op by (cases n) auto
      ultimately show ?thesis using n(1,2) op by (intro exI [of _ "Suc n"]) auto
    qed
  qed
qed

text \<open>It returns a result exactly when an attempt succeeds before the loop gives up.\<close>

definition succeeds :: "retry_ctx \<Rightarrow> retry_config \<Rightarrow> ('s \<Rightarrow> 'a result \<times> 's) \<Rightarrow> nat \<Rightarrow> 's \<Rightarrow> nat \<Rightarrow> 'a \<Rightarrow> bool" where
  "succeeds C config operation attempt s n a \<longleftrightarrow> int (attempt + n) < MaxAttempts config
     \<and> (\<forall>k\<le>n. \<not> ctx_cancelled C (attempt + k))
     \<and> (\<forall>k<n. retried config (attempt_result operation k s) \<and> \<not> ctx_ends_wait C (attempt + k))
     \<and> attempt_result operation n s = Inr a"

lemma succeeds_0: "succeeds C config operation attempt s 0 a \<longleftrightarrow> int attempt < MaxAttempts config \<and> \<not> ctx_cancelled C attempt
    \<and> fst (operation s) = Inr a"
  by (simp add: succeeds_def attempt_result_def)

lemma all_le_Suc: "(\<forall>k\<le>Suc n. P k) \<longleftrightarrow> P 0 \<and> (\<forall>k\<le>n. P (Suc k))"
  by (metis Suc_le_mono le0 not0_implies_Suc)

lemma succeeds_Suc: "succeeds C config operation attempt s (Suc n) a \<longleftrightarrow> \<not> ctx_cancelled C attempt \<and> retried config (fst (operation s))
    \<and> \<not> ctx_ends_wait C attempt \<and> succeeds C config operation (attempt + 1) (snd (operation s)) n a"
  unfolding succeeds_def all_le_Suc All_less_Suc2
  by (auto simp: attempt_result_def [of _ 0])

lemma retry_loop_success:
  "fst (retry_loop C config operation attempt e0 s) = Inr a \<longleftrightarrow> (\<exists>n. succeeds C config operation attempt s n a)"
proof (induction C config operation attempt e0 s rule: retry_loop.induct)
  case (1 C config operation attempt e0 s)
  have split: "(\<exists>n. succeeds C config operation attempt s n a) \<longleftrightarrow> succeeds C config operation attempt s 0 a
      \<or> (\<exists>n. succeeds C config operation attempt s (Suc n) a)"
    by (metis not0_implies_Suc)
  obtain x s1 where op: "operation s = (x, s1)" by (cases "operation s")
  show ?case
  proof (cases "int attempt < MaxAttempts config \<and> \<not> ctx_cancelled C attempt")
    case False
    then show ?thesis unfolding split
      by (auto simp: retry_loop.simps succeeds_0 succeeds_Suc) (auto simp: succeeds_def)
  next
    case go: True
    show ?thesis
    proof (cases "retried config x \<and> int attempt \<noteq> MaxAttempts config - 1 \<and> \<not> ctx_ends_wait C attempt")
      case False
      have "\<not> succeeds C config operation (attempt + 1) s1 n a" if "int attempt = MaxAttempts config - 1" for n
        using that by (simp add: succeeds_def)
      with False go op show ?thesis unfolding split
        by (subst retry_loop.simps) (auto simp: succeeds_0 succeeds_Suc retried_def split: sum.splits)
    next
      case True
      then obtain e where e: "x = Inl e" "\<not> is_panic e" "RetryableErrors config e" by (auto simp: retried_def)
      with go op True have rec: "retry_loop C config operation attempt e0 s = retry_loop C config operation (attempt + 1) e s1"
        by (subst retry_loop.simps) simp
      have "fst (retry_loop C config operation (attempt + 1) e s1) = Inr a \<longleftrightarrow> (\<exists>n. succeeds C config operation (attempt + 1) s1 n a)"
        using 1 [of x s1 e] go op e True by simp
      with rec go op True e(1) show ?thesis unfolding split by (simp add: succeeds_0 succeeds_Suc)
    qed
  qed
qed

end
