(* ===== verification/Bytes.thy ===== *)
theory Bytes
  imports Prelude
begin

text \<open>
  \<open>pkg/util/bytes.go\<close>, \<open>pkg/util/uint.go\<close> and \<open>ShortStringFromBytes\<close> of
  \<open>pkg/util/string.go\<close>: little- and big-endian integers and length-prefixed short strings.
  The interface of a fixed-width codec is a locale; the integer codecs provide it.
\<close>

section \<open>Little-endian digits\<close>

fun le_bytes :: "nat \<Rightarrow> nat \<Rightarrow> bytes" where
  "le_bytes 0 v = []"
| "le_bytes (Suc n) v = of_nat (v mod 256) # le_bytes n (v div 256)"

fun le_val :: "bytes \<Rightarrow> nat" where
  "le_val [] = 0"
| "le_val (b # bs) = unat b + 256 * le_val bs"

lemma length_le_bytes [simp]: "length (le_bytes n v) = n"
  by (induction n arbitrary: v) auto

lemma unat_byte_mod [simp]: "unat (of_nat (v mod 256) :: byte) = v mod 256"
  by (simp add: unat_of_nat)

lemma le_val_le_bytes: "v < 256 ^ n \<Longrightarrow> le_val (le_bytes n v) = v"
proof (induction n arbitrary: v)
  case (Suc n)
  then have "v div 256 < 256 ^ n" by (simp add: less_mult_imp_div_less mult.commute)
  with Suc.IH show ?case by simp
qed simp

lemma le_val_bound: "le_val bs < 256 ^ length bs"
proof (induction bs)
  case (Cons b bs)
  have "unat b < 256" by simp
  with Cons.IH have "unat b + 256 * le_val bs < 256 * 256 ^ length bs" by linarith
  then show ?case by simp
qed simp

lemma le_bytes_le_val: "le_bytes (length bs) (le_val bs) = bs"
proof (induction bs)
  case (Cons b bs)
  have b: "unat b < 256" by simp
  then have "(unat b + 256 * le_val bs) div 256 = le_val bs"
    and "(unat b + 256 * le_val bs) mod 256 = unat b" by auto
  with Cons.IH show ?case by simp
qed simp

section \<open>Fixed-width codecs\<close>

locale fixed_codec =
  fixes enc :: "'a \<Rightarrow> bytes" and dec :: "bytes \<Rightarrow> 'a result" and width :: nat
  assumes enc_length [simp]: "length (enc x) = width"
    and dec_enc [simp]: "dec (enc x) = Inr x"
begin

lemma enc_inj: "enc x = enc y \<longleftrightarrow> x = y"
  by (metis dec_enc sum.inject(2))

lemma enc_append_inj: "enc x @ a = enc y @ b \<longleftrightarrow> x = y \<and> a = b"
  by (simp add: append_eq_len enc_inj)

lemma concat_length: "length (concat (map enc xs)) = length xs * width"
  by (induction xs) simp_all

lemma concat_slice:
  assumes "i < length xs"
  shows "slice_of (concat (map enc xs) @ rest) (i * width) (i * width + width)
    = Inr (enc (xs ! i))"
proof -
  have "concat (map enc xs) = concat (map enc (take i xs)) @ enc (xs ! i)
      @ concat (map enc (drop (Suc i) xs))"
    using id_take_nth_drop [OF assms] by (metis concat.simps(2) concat_append map_append list.map(2))
  moreover have "length (concat (map enc (take i xs))) = i * width"
    using assms by (simp add: concat_length)
  ultimately show ?thesis by simp
qed

lemma concat_inj: "length xs = length ys \<Longrightarrow> concat (map enc xs) = concat (map enc ys) \<Longrightarrow> xs = ys"
  by (induction xs ys rule: list_induct2) (auto simp: enc_append_inj)

end

section \<open>The integer codecs\<close>

definition BytesFromUint32 :: "u32 \<Rightarrow> bytes" where
  "BytesFromUint32 v = le_bytes 4 (unat v)"

definition BytesFromUint64 :: "u64 \<Rightarrow> bytes" where
  "BytesFromUint64 v = le_bytes 8 (unat v)"

definition BytesFromUint64Key :: "u64 \<Rightarrow> bytes" where
  "BytesFromUint64Key v = rev (le_bytes 8 (unat v))"

text \<open>The readers take the first bytes of the slice and panic on a shorter one.\<close>

definition Uint32FromBytes :: "bytes \<Rightarrow> u32 result" where
  "Uint32FromBytes b = rbind (slice_of b 0 4) (\<lambda>s. Inr (of_nat (le_val s)))"

definition Uint64FromBytes :: "bytes \<Rightarrow> u64 result" where
  "Uint64FromBytes b = rbind (slice_of b 0 8) (\<lambda>s. Inr (of_nat (le_val s)))"

definition Uint64FromBytesKey :: "bytes \<Rightarrow> u64 result" where
  "Uint64FromBytesKey b = rbind (slice_of b 0 8) (\<lambda>s. Inr (of_nat (le_val (rev s))))"

lemma length_int_bytes [simp]:
  "length (BytesFromUint32 v) = 4"
  "length (BytesFromUint64 w) = 8"
  "length (BytesFromUint64Key w) = 8"
  by (simp_all add: BytesFromUint32_def BytesFromUint64_def BytesFromUint64Key_def)

lemma le_val_u32: "le_val (le_bytes 4 (unat (v :: u32))) = unat v"
  by (rule le_val_le_bytes) (use unsigned_less [of v] in simp)

lemma le_val_u64: "le_val (le_bytes 8 (unat (v :: u64))) = unat v"
  by (rule le_val_le_bytes) (use unsigned_less [of v] in simp)

lemma read_int_append [simp]:
  "Uint32FromBytes (BytesFromUint32 v @ rest) = Inr v"
  "Uint64FromBytes (BytesFromUint64 w @ rest) = Inr w"
  "Uint64FromBytesKey (BytesFromUint64Key w @ rest) = Inr w"
  by (simp_all add: Uint32FromBytes_def Uint64FromBytes_def Uint64FromBytesKey_def
      BytesFromUint32_def BytesFromUint64_def BytesFromUint64Key_def le_val_u32 le_val_u64)

lemma read_int [simp]:
  "Uint32FromBytes (BytesFromUint32 v) = Inr v"
  "Uint64FromBytes (BytesFromUint64 w) = Inr w"
  "Uint64FromBytesKey (BytesFromUint64Key w) = Inr w"
  using read_int_append [where rest = "[]"] by simp_all

interpretation u32le: fixed_codec BytesFromUint32 Uint32FromBytes 4
  by unfold_locales simp_all

interpretation u64le: fixed_codec BytesFromUint64 Uint64FromBytes 8
  by unfold_locales simp_all

interpretation u64be: fixed_codec BytesFromUint64Key Uint64FromBytesKey 8
  by unfold_locales simp_all

section \<open>Big-endian keys are ordered\<close>

text \<open>
  The byte order of the database's keys (\<open>bytes.Compare\<close>): the first difference decides,
  a proper prefix is smaller.
\<close>

fun bytes_less :: "bytes \<Rightarrow> bytes \<Rightarrow> bool" where
  "bytes_less [] ys \<longleftrightarrow> ys \<noteq> []"
| "bytes_less (x # xs) [] \<longleftrightarrow> False"
| "bytes_less (x # xs) (y # ys) \<longleftrightarrow> x < y \<or> x = y \<and> bytes_less xs ys"

lemma bytes_less_irrefl [simp]: "\<not> bytes_less xs xs"
  by (induction xs) auto

lemma bytes_less_trans: "bytes_less a b \<Longrightarrow> bytes_less b c \<Longrightarrow> bytes_less a c"
proof (induction a c arbitrary: b rule: bytes_less.induct)
  case (3 x xs y ys)
  then show ?case by (cases b) auto
next
  case (1 ys)
  then show ?case by (cases b; cases ys) auto
next
  case (2 x xs)
  then show ?case by (cases b) auto
qed

lemma bytes_less_linear: "bytes_less a b \<or> a = b \<or> bytes_less b a"
proof (induction a b rule: bytes_less.induct)
  case (3 x xs y ys)
  then show ?case by (cases x y rule: linorder_cases) auto
qed auto

lemma bytes_less_append_same [simp]: "bytes_less (p @ xs) (p @ ys) \<longleftrightarrow> bytes_less xs ys"
  by (induction p) auto

lemma bytes_less_append_len:
  "length a = length b \<Longrightarrow> bytes_less (a @ xs) (b @ ys) \<longleftrightarrow> bytes_less a b \<or> a = b \<and> bytes_less xs ys"
  by (induction a b rule: list_induct2) auto

lemma digit_less:
  "r < 256 \<Longrightarrow> s < 256 \<Longrightarrow> 256 * a + r < 256 * b + (s :: nat) \<longleftrightarrow> a < b \<or> a = b \<and> r < s"
proof (cases a b rule: linorder_cases)
  case less
  moreover assume "r < 256"
  ultimately have "256 * a + r < 256 * b + s" by linarith
  with less show ?thesis by simp
next
  case greater
  moreover assume "s < 256"
  ultimately have "256 * b + s < 256 * a + r" by linarith
  with greater show ?thesis by simp
qed simp

lemma rev_le_bytes_less:
  "v < 256 ^ n \<Longrightarrow> w < 256 ^ n \<Longrightarrow> bytes_less (rev (le_bytes n v)) (rev (le_bytes n w)) \<longleftrightarrow> v < w"
proof (induction n arbitrary: v w)
  case (Suc n)
  have d: "v div 256 < 256 ^ n" "w div 256 < 256 ^ n"
    using Suc.prems by (simp_all add: less_mult_imp_div_less mult.commute)
  have byte_less: "(of_nat (v mod 256) :: byte) < of_nat (w mod 256) \<longleftrightarrow> v mod 256 < w mod 256"
    by (simp add: word_less_nat_alt)
  have "rev (le_bytes n (v div 256)) = rev (le_bytes n (w div 256)) \<longleftrightarrow> v div 256 = w div 256"
    by (metis le_val_le_bytes d rev_rev_ident)
  moreover have "v < w \<longleftrightarrow> v div 256 < w div 256 \<or> v div 256 = w div 256 \<and> v mod 256 < w mod 256"
    using digit_less [of "v mod 256" "w mod 256" "v div 256" "w div 256"] by simp
  ultimately show ?case
    by (simp add: bytes_less_append_len Suc.IH [OF d] byte_less)
qed simp

lemma Uint64Key_less: "bytes_less (BytesFromUint64Key v) (BytesFromUint64Key w) \<longleftrightarrow> v < w"
proof -
  have "unat v < 256 ^ 8" "unat w < 256 ^ 8"
    using unat_less_pow64 [of v] unat_less_pow64 [of w] by simp_all
  then show ?thesis
    by (simp add: BytesFromUint64Key_def rev_le_bytes_less word_less_nat_alt)
qed

section \<open>Short strings\<close>

text \<open>Strings are byte sequences in Go: they are \<open>bytes\<close> here too.\<close>

definition BytesFromShortString :: "bytes \<Rightarrow> bytes" where
  "BytesFromShortString s =
     (let s = (if length s > 255 then take 255 s else s)
      in (of_nat (length s) :: byte) # s)"

definition ShortStringFromBytes :: "bytes \<Rightarrow> bytes" where
  "ShortStringFromBytes b = (if length b = 0 then [] else drop 1 b)"

lemma ShortString_round_trip: "ShortStringFromBytes (BytesFromShortString s) = take 255 s"
  by (simp add: BytesFromShortString_def ShortStringFromBytes_def Let_def)

lemma BytesFromShortString_Cons:
  "BytesFromShortString s = of_nat (length (take 255 s)) # take 255 s"
  by (simp add: BytesFromShortString_def)

lemma unat_short_length [simp]: "unat (of_nat (min (length s) 255) :: byte) = min (length s) 255"
  by (simp add: unat_of_nat take_bit_nat_eq_self)

section \<open>Times\<close>

text \<open>
  A \<open>time.Time\<close> as its Unix seconds (an \<open>int64\<close>, here its 64 bits) and its nanoseconds;
  only the seconds are encoded.
\<close>

record gotime =
  unix_sec :: u64
  nsec :: nat

definition BytesFromTime :: "gotime \<Rightarrow> bytes" where
  "BytesFromTime t = BytesFromUint64 (unix_sec t)"

lemma length_BytesFromTime [simp]: "length (BytesFromTime t) = 8"
  by (simp add: BytesFromTime_def)

end
