(* ===== verification/Crypto.thy ===== *)
theory Crypto
  imports Bytes
begin

text \<open>
  \<open>pkg/crypto/crypto.go\<close>. A \<open>Hash\<close> is a \<open>[32]byte\<close> array: it is kept as the 256-bit
  word whose little-endian bytes are the array (so its length is part of its type), and
  \<open>hash_Bytes\<close> reads the array back. BLAKE3 (\<open>lukechampine.com/blake3\<close>) is not code of this
  repository: \<open>Sum256\<close> is the parameter \<open>B\<close> of every definition that hashes.
\<close>

type_synonym hash = "256 word"
type_synonym blake3 = "bytes \<Rightarrow> hash"

definition hash_Bytes :: "hash \<Rightarrow> bytes" where
  "hash_Bytes h = le_bytes 32 (unat h)"

text \<open>The conversion \<open>crypto.Hash(slice)\<close> panics on fewer than 32 bytes and drops the rest.\<close>

definition to_hash :: "bytes \<Rightarrow> hash result" where
  "to_hash b = rbind (slice_of b 0 32) (\<lambda>s. Inr (of_nat (le_val s)))"

definition hash_IsZero :: "hash \<Rightarrow> bool" where
  "hash_IsZero h \<longleftrightarrow> h = 0"

definition hash_Equal :: "hash \<Rightarrow> hash \<Rightarrow> bool" where
  "hash_Equal h other \<longleftrightarrow> hash_Bytes h = hash_Bytes other"

definition hash_EqualBytes :: "hash \<Rightarrow> bytes \<Rightarrow> bool" where
  "hash_EqualBytes h other \<longleftrightarrow> hash_Bytes h = other"

fun HashBytes :: "blake3 \<Rightarrow> bytes list \<Rightarrow> hash" where
  "HashBytes B [d] = B d"
| "HashBytes B ds = B (concat ds)"

lemma HashBytes_concat: "HashBytes B ds = B (concat ds)"
  by (cases "(B, ds)" rule: HashBytes.cases) auto

lemma length_hash_Bytes [simp]: "length (hash_Bytes h) = 32"
  by (simp add: hash_Bytes_def)

lemma le_val_hash: "le_val (le_bytes 32 (unat (h :: hash))) = unat h"
  by (rule le_val_le_bytes) (use unsigned_less [of h] in simp)

lemma to_hash_append [simp]: "to_hash (hash_Bytes h @ rest) = Inr h"
  by (simp add: to_hash_def hash_Bytes_def le_val_hash)

lemma to_hash_hash_Bytes [simp]: "to_hash (hash_Bytes h) = Inr h"
  using to_hash_append [of h "[]"] by simp

interpretation hash32: fixed_codec hash_Bytes to_hash 32
  by unfold_locales simp_all

lemmas hash_eq_simps [simp] = hash32.enc_inj hash32.enc_append_inj

lemma hash_Equal_iff [simp]: "hash_Equal h g \<longleftrightarrow> h = g"
  by (simp add: hash_Equal_def)

lemma hash_EqualBytes_hash_Bytes [simp]: "hash_EqualBytes h (hash_Bytes g) \<longleftrightarrow> h = g"
  by (simp add: hash_EqualBytes_def)

text \<open>A slice of exactly 32 bytes converts to the hash with those bytes; a shorter one panics.\<close>

lemma to_hash_32: "length b = 32 \<Longrightarrow> \<exists>h. to_hash b = Inr h \<and> hash_Bytes h = b"
proof -
  assume len: "length b = 32"
  have "le_val b < 2 ^ 256" using le_val_bound [of b] len by simp
  then have "unat (of_nat (le_val b) :: hash) = le_val b"
    by (simp add: unat_of_nat take_bit_nat_eq_self)
  then show ?thesis using le_bytes_le_val [of b] len
    by (simp add: to_hash_def slice_of_def hash_Bytes_def)
qed

lemma to_hash_short: "length b < 32 \<Longrightarrow> to_hash b = Inl (Panic ''slice bounds out of range'')"
  by (simp add: to_hash_def slice_of_def)

lemma to_hash_Inr_length: "to_hash b = Inr h \<Longrightarrow> 32 \<le> length b"
  by (cases "length b < 32") (auto simp: to_hash_short)

section \<open>A concrete hash function for evaluation\<close>

text \<open>
  Witnesses evaluate the model with this function in place of BLAKE3: the first 31 bytes of
  its input, shifted by one byte so that it is never zero.
\<close>

definition toy_hash :: blake3 where
  "toy_hash x = of_nat (1 + 256 * le_val (take 31 x))"

lemma unat_toy_hash: "unat (toy_hash x) = 1 + 256 * le_val (take 31 x)"
proof -
  have "le_val (take 31 x) < 256 ^ length (take 31 x)" by (rule le_val_bound)
  also have "(256 :: nat) ^ length (take 31 x) \<le> 256 ^ 31" by (rule power_increasing) simp_all
  finally have "1 + 256 * le_val (take 31 x) < 2 ^ 256" by simp
  then show ?thesis unfolding toy_hash_def
    by (subst unat_of_nat) (simp add: take_bit_nat_eq_self)
qed

lemma toy_hash_nonzero [simp]: "toy_hash x \<noteq> 0"
proof
  assume "toy_hash x = 0"
  then have "unat (toy_hash x) = 0" by simp
  then show False by (simp add: unat_toy_hash)
qed

lemma toy_hash_eqD: "toy_hash x = toy_hash y \<Longrightarrow> length x = length y \<Longrightarrow> take 31 x = take 31 y"
proof -
  assume eq: "toy_hash x = toy_hash y" and len: "length x = length y"
  from arg_cong [OF eq, of unat] have "le_val (take 31 x) = le_val (take 31 y)"
    by (simp add: unat_toy_hash)
  with len le_bytes_le_val [of "take 31 x"] le_bytes_le_val [of "take 31 y"] show ?thesis by simp
qed

end
