(* ===== verification/Merkle.thy ===== *)
theory Merkle
  imports Crypto
begin

text \<open>
  \<open>pkg/crypto/merkle/merkle.go\<close>: the Merkle root of a list of leaves. Leaves are hashed with
  an 8-byte little-endian index; a level with an odd number of nodes repeats its last one.
  The lemmas show that the root binds the whole list of leaves.
\<close>

section \<open>The code\<close>

datatype merkle_node = MerkleNode
  (node_Left: "merkle_node option") (node_Right: "merkle_node option") (node_Hash: hash)

definition leaf_input :: "nat \<Rightarrow> bytes \<Rightarrow> bytes" where
  "leaf_input i leaf = BytesFromUint64 (of_nat i) @ leaf"

definition merkle_leaf :: "blake3 \<Rightarrow> nat \<Rightarrow> bytes \<Rightarrow> merkle_node" where
  "merkle_leaf B i leaf =
     MerkleNode None None (HashBytes B [BytesFromUint64 (of_nat i), leaf])"

definition merkle_parent :: "blake3 \<Rightarrow> merkle_node \<Rightarrow> merkle_node \<Rightarrow> merkle_node" where
  "merkle_parent B left right = MerkleNode (Some left) (Some right)
     (HashBytes B [hash_Bytes (node_Hash left), hash_Bytes (node_Hash right)])"

fun merkle_level :: "blake3 \<Rightarrow> merkle_node list \<Rightarrow> merkle_node list" where
  "merkle_level B (left # right # rest) = merkle_parent B left right # merkle_level B rest"
| "merkle_level B [left] = [merkle_parent B left left]"
| "merkle_level B [] = []"

lemma length_merkle_level: "length (merkle_level B ns) = (length ns + 1) div 2"
  by (induction B ns rule: merkle_level.induct) auto

function merkle_loop :: "blake3 \<Rightarrow> merkle_node list \<Rightarrow> merkle_node list" where
  "merkle_loop B nodes = (if length nodes > 1 then merkle_loop B (merkle_level B nodes) else nodes)"
  by pat_completeness auto
termination
  by (relation "measure (\<lambda>(B, ns). length ns)") (auto simp: length_merkle_level)

declare merkle_loop.simps [simp del]

definition CalculateMerkleRoot :: "blake3 \<Rightarrow> bytes list \<Rightarrow> hash" where
  "CalculateMerkleRoot B leaves =
     (if length leaves = 0 then 0
      else node_Hash (hd (merkle_loop B
        (map (\<lambda>(i, leaf). merkle_leaf B i leaf) (enumerate 0 leaves)))))"

section \<open>Levels of hashes\<close>

text \<open>What the root depends on: the hashes of a level, and the byte strings hashed on the way.\<close>

definition node_input :: "hash \<Rightarrow> hash \<Rightarrow> bytes" where
  "node_input l r = hash_Bytes l @ hash_Bytes r"

fun pair_inputs :: "hash list \<Rightarrow> bytes list" where
  "pair_inputs (l # r # rest) = node_input l r # pair_inputs rest"
| "pair_inputs [l] = [node_input l l]"
| "pair_inputs [] = []"

lemma length_pair_inputs [simp]: "length (pair_inputs hs) = (length hs + 1) div 2"
  by (induction hs rule: pair_inputs.induct) auto

lemma pair_inputs_Nil_iff [simp]: "pair_inputs hs = [] \<longleftrightarrow> hs = []"
  by (cases hs rule: pair_inputs.cases) auto

function level_root :: "blake3 \<Rightarrow> hash list \<Rightarrow> hash" where
  "level_root B hs = (if length hs > 1 then level_root B (map B (pair_inputs hs)) else hd hs)"
  by pat_completeness auto
termination by (relation "measure (\<lambda>(B, hs). length hs)") auto

function level_inputs :: "blake3 \<Rightarrow> hash list \<Rightarrow> bytes list" where
  "level_inputs B hs = (if length hs > 1
     then pair_inputs hs @ level_inputs B (map B (pair_inputs hs)) else [])"
  by pat_completeness auto
termination by (relation "measure (\<lambda>(B, hs). length hs)") auto

declare level_root.simps [simp del] level_inputs.simps [simp del]

definition leaf_inputs :: "bytes list \<Rightarrow> bytes list" where
  "leaf_inputs leaves = map (\<lambda>(i, leaf). leaf_input i leaf) (enumerate 0 leaves)"

text \<open>Every byte string that \<open>CalculateMerkleRoot\<close> hashes.\<close>

definition merkle_inputs :: "blake3 \<Rightarrow> bytes list \<Rightarrow> bytes list" where
  "merkle_inputs B leaves = leaf_inputs leaves @ level_inputs B (map B (leaf_inputs leaves))"

lemma level_root_1: "length hs \<le> 1 \<Longrightarrow> level_root B hs = hd hs"
  by (subst level_root.simps) simp

lemma level_root_step: "length hs > 1 \<Longrightarrow> level_root B hs = level_root B (map B (pair_inputs hs))"
  by (subst level_root.simps) simp

lemma level_inputs_step:
  "length hs > 1 \<Longrightarrow> level_inputs B hs = pair_inputs hs @ level_inputs B (map B (pair_inputs hs))"
  by (subst level_inputs.simps) simp

lemma merkle_level_hashes:
  "map node_Hash (merkle_level B ns) = map B (pair_inputs (map node_Hash ns))"
  by (induction B ns rule: merkle_level.induct)
     (auto simp: merkle_parent_def node_input_def)

lemma merkle_loop_root:
  "ns \<noteq> [] \<Longrightarrow> node_Hash (hd (merkle_loop B ns)) = level_root B (map node_Hash ns)"
proof (induction B ns rule: merkle_loop.induct)
  case (1 B ns)
  show ?case
  proof (cases "length ns > 1")
    case True
    then have "merkle_level B ns \<noteq> []" using length_merkle_level [of B ns] by auto
    with 1 True show ?thesis
      by (simp add: merkle_loop.simps [of B ns] level_root_step [of "map node_Hash ns"]
          merkle_level_hashes)
  next
    case False
    with "1.prems" show ?thesis
      by (simp add: merkle_loop.simps [of B ns] level_root_1 hd_map)
  qed
qed

lemma CalculateMerkleRoot_level_root:
  "leaves \<noteq> [] \<Longrightarrow> CalculateMerkleRoot B leaves = level_root B (map B (leaf_inputs leaves))"
proof -
  assume "leaves \<noteq> []"
  moreover have "map node_Hash (map (\<lambda>(i, leaf). merkle_leaf B i leaf) (enumerate 0 leaves))
      = map B (leaf_inputs leaves)"
    by (simp add: merkle_leaf_def leaf_inputs_def leaf_input_def split_beta)
  ultimately show ?thesis
    by (simp only: CalculateMerkleRoot_def) (simp add: merkle_loop_root enumerate_eq_zip)
qed

lemma CalculateMerkleRoot_Nil [simp]: "CalculateMerkleRoot B [] = 0"
  by (simp add: CalculateMerkleRoot_def)

section \<open>The root binds the leaves\<close>

text \<open>
  \<open>S\<close> is a set of byte strings on which the hash has no collision. The rank of a hash is
  its height above the leaves; an input of 64 bytes is that of an inner node.
\<close>

fun has_rank :: "blake3 \<Rightarrow> bytes set \<Rightarrow> nat \<Rightarrow> hash \<Rightarrow> bool" where
  "has_rank B S 0 h \<longleftrightarrow> (\<exists>x\<in>S. length x \<noteq> 64 \<and> h = B x)"
| "has_rank B S (Suc k) h \<longleftrightarrow> (\<exists>l r. node_input l r \<in> S \<and> h = B (node_input l r) \<and> has_rank B S k l)"

lemma length_node_input [simp]: "length (node_input l r) = 64"
  by (simp add: node_input_def)

lemma node_input_inj [simp]: "node_input l r = node_input l' r' \<longleftrightarrow> l = l' \<and> r = r'"
  by (simp add: node_input_def)

lemma inj_node_input:
  assumes "inj_on B S" "x \<in> S" "node_input l r \<in> S" "B x = B (node_input l r)"
  shows "x = node_input l r"
  using assms by (simp add: inj_on_eq_iff)

lemma has_rank_0_Suc:
  assumes inj: "inj_on B S" and zero: "has_rank B S 0 h" and suc: "has_rank B S (Suc k) h"
  shows False
proof -
  from zero obtain x where x: "x \<in> S" "length x \<noteq> 64" "h = B x" by auto
  from suc obtain l r where "node_input l r \<in> S" "h = B (node_input l r)" by auto
  with x inj_node_input [OF inj x(1)] have "x = node_input l r" by simp
  with x(2) show False by simp
qed

lemma has_rank_Suc_D:
  assumes inj: "inj_on B S" and "has_rank B S (Suc k) (B (node_input l r))" "node_input l r \<in> S"
  shows "has_rank B S k l"
proof -
  from assms(2) obtain l' r' where *: "node_input l' r' \<in> S"
    "B (node_input l r) = B (node_input l' r')" "has_rank B S k l'" by auto
  with inj_node_input [OF inj assms(3)] show ?thesis by simp
qed

lemma has_rank_unique: "inj_on B S \<Longrightarrow> has_rank B S k h \<Longrightarrow> has_rank B S k' h \<Longrightarrow> k = k'"
proof (induction k arbitrary: h k')
  case 0
  then show ?case using has_rank_0_Suc by (cases k') blast+
next
  case (Suc k)
  from Suc.prems(2) obtain l r where l: "node_input l r \<in> S" "h = B (node_input l r)" "has_rank B S k l"
    by auto
  show ?case
  proof (cases k')
    case 0
    with Suc.prems show ?thesis using has_rank_0_Suc by blast
  next
    case (Suc j)
    with Suc.prems(3) l Suc.prems(1) have "has_rank B S j l" using has_rank_Suc_D by blast
    with Suc.IH [OF Suc.prems(1) l(3)] Suc show ?thesis by simp
  qed
qed

lemma has_rank_pairs:
  "set (pair_inputs hs) \<subseteq> S \<Longrightarrow> \<forall>h\<in>set hs. has_rank B S k h \<Longrightarrow>
   \<forall>h\<in>set (map B (pair_inputs hs)). has_rank B S (Suc k) h"
  by (induction hs rule: pair_inputs.induct) auto

lemma has_rank_root:
  assumes "hs \<noteq> []" "set (level_inputs B hs) \<subseteq> S" "\<forall>h\<in>set hs. has_rank B S k h"
  shows "\<exists>d. has_rank B S (k + d) (level_root B hs) \<and> (length hs > 1 \<longleftrightarrow> 0 < d)"
  using assms
proof (induction B hs arbitrary: k rule: level_root.induct)
  case (1 B hs)
  show ?case
  proof (cases "length hs > 1")
    case True
    let ?ps = "map B (pair_inputs hs)"
    from True have "?ps \<noteq> []" by auto
    moreover from True "1.prems"(2) have "set (pair_inputs hs) \<subseteq> S" "set (level_inputs B ?ps) \<subseteq> S"
      by (simp_all add: level_inputs_step)
    ultimately obtain d where "has_rank B S (Suc k + d) (level_root B ?ps)"
      using "1.IH" [OF True, of "Suc k"] has_rank_pairs [OF _ "1.prems"(3)] by blast
    with True show ?thesis
      by (intro exI [of _ "Suc d"]) (simp add: level_root_step)
  next
    case False
    with "1.prems" show ?thesis
      by (intro exI [of _ 0]) (auto simp: level_root_1)
  qed
qed

text \<open>Two levels of the same rank never hold the same hash at two different positions.\<close>

definition aligned :: "hash list \<Rightarrow> hash list \<Rightarrow> bool" where
  "aligned hs gs \<longleftrightarrow> (\<forall>i<length hs. \<forall>j<length gs. hs ! i = gs ! j \<longrightarrow> i = j)"

lemma pair_inputs_nth:
  "i < length (pair_inputs hs) \<Longrightarrow>
   pair_inputs hs ! i = node_input (hs ! (2 * i)) (hs ! (if 2 * i + 1 < length hs then 2 * i + 1 else 2 * i))"
proof (induction hs arbitrary: i rule: pair_inputs.induct)
  case (1 l r rest)
  then show ?case by (cases i) auto
qed auto

lemma inj_nth_pairs:
  assumes "inj_on B S" "set (pair_inputs hs) \<subseteq> S" "set (pair_inputs gs) \<subseteq> S"
    and "i < length (pair_inputs hs)" "j < length (pair_inputs gs)"
    and "B (pair_inputs hs ! i) = B (pair_inputs gs ! j)"
  shows "pair_inputs hs ! i = pair_inputs gs ! j"
  by (rule inj_onD [OF assms(1,6)]) (use assms(2-5) nth_mem in blast)+

lemma aligned_pairs:
  assumes "inj_on B S" "set (pair_inputs hs) \<subseteq> S" "set (pair_inputs gs) \<subseteq> S" "aligned hs gs"
  shows "aligned (map B (pair_inputs hs)) (map B (pair_inputs gs))"
  unfolding aligned_def
proof (intro allI impI)
  fix i j
  assume ij: "i < length (map B (pair_inputs hs))" "j < length (map B (pair_inputs gs))"
    and "map B (pair_inputs hs) ! i = map B (pair_inputs gs) ! j"
  then have "pair_inputs hs ! i = pair_inputs gs ! j"
    by (intro inj_nth_pairs [OF assms(1-3)]) simp_all
  with ij have "hs ! (2 * i) = gs ! (2 * j)" by (simp add: pair_inputs_nth)
  moreover from ij have "2 * i < length hs" "2 * j < length gs" by auto
  ultimately have "2 * i = 2 * j" using assms(4) unfolding aligned_def by blast
  then show "i = j" by simp
qed

lemma halves_differ:
  assumes "(m + 1) div 2 = (n + 1) div 2" "m < (n :: nat)"
  obtains i where "m = 2 * i + 1" "n = 2 * i + 2"
proof -
  define q where "q = (m + 1) div 2"
  have "m + 1 = 2 * q + (m + 1) mod 2" "n + 1 = 2 * q + (n + 1) mod 2"
    using mult_div_mod_eq [of 2 "m + 1"] mult_div_mod_eq [of 2 "n + 1"] assms(1)
    unfolding q_def by (simp_all only: )
  moreover have "(m + 1) mod 2 < 2" "(n + 1) mod 2 < 2" by simp_all
  ultimately have "m + 1 = 2 * q" "n + 1 = 2 * q + 1" using assms(2) by linarith+
  moreover from this obtain i where "q = Suc i" by (cases q) auto
  ultimately show ?thesis using that by simp
qed

lemma aligned_length:
  assumes al: "aligned hs gs" and eq: "pair_inputs hs = pair_inputs gs"
  shows "length gs \<le> length hs"
proof (rule ccontr)
  assume less: "\<not> length gs \<le> length hs"
  from arg_cong [OF eq, of length] have "(length hs + 1) div 2 = (length gs + 1) div 2" by simp
  with less obtain i where i: "length hs = 2 * i + 1" "length gs = 2 * i + 2"
    by (metis halves_differ not_le)
  have "pair_inputs hs ! i = pair_inputs gs ! i" using eq by simp
  with i have "hs ! (2 * i) = gs ! (2 * i + 1)" by (auto simp: pair_inputs_nth)
  with al i show False unfolding aligned_def by force
qed

lemma aligned_sym: "aligned hs gs \<Longrightarrow> aligned gs hs"
  unfolding aligned_def by metis

lemma pair_inputs_eqD:
  assumes al: "aligned hs gs" and eq: "pair_inputs hs = pair_inputs gs"
  shows "hs = gs"
proof -
  have len: "length hs = length gs"
    using aligned_length [OF al eq] aligned_length [OF aligned_sym [OF al] eq [symmetric]] by simp
  show ?thesis
  proof (rule nth_equalityI [OF len])
    fix k assume k: "k < length hs"
    define i where "i = k div 2"
    have i: "i < length (pair_inputs hs)" "k = 2 * i \<or> k = 2 * i + 1"
      using k unfolding i_def by auto
    then have "node_input (hs ! (2 * i)) (hs ! (if 2 * i + 1 < length hs then 2 * i + 1 else 2 * i))
        = node_input (gs ! (2 * i)) (gs ! (if 2 * i + 1 < length gs then 2 * i + 1 else 2 * i))"
      using pair_inputs_nth [of i hs] pair_inputs_nth [of i gs] eq by simp
    with i(2) k len show "hs ! k = gs ! k" by auto
  qed
qed

lemma level_root_inj:
  assumes "inj_on B S" "hs \<noteq> []" "gs \<noteq> []"
    and "set (level_inputs B hs) \<subseteq> S" "set (level_inputs B gs) \<subseteq> S"
    and "\<forall>h\<in>set hs. has_rank B S k h" "\<forall>h\<in>set gs. has_rank B S k h"
    and "aligned hs gs" "level_root B hs = level_root B gs"
  shows "hs = gs"
  using assms
proof (induction B hs arbitrary: gs k rule: level_root.induct)
  case (1 B hs)
  from has_rank_root [OF "1.prems"(2,4,6)] obtain d where
    d: "has_rank B S (k + d) (level_root B hs)" "length hs > 1 \<longleftrightarrow> 0 < d" by blast
  from has_rank_root [OF "1.prems"(3,5,7)] obtain e where
    e: "has_rank B S (k + e) (level_root B gs)" "length gs > 1 \<longleftrightarrow> 0 < e" by blast
  show ?case
  proof (cases "length hs > 1 \<and> length gs > 1")
    case True
    let ?ph = "map B (pair_inputs hs)" and ?pg = "map B (pair_inputs gs)"
    from True "1.prems" have sub: "set (pair_inputs hs) \<subseteq> S" "set (pair_inputs gs) \<subseteq> S"
      "set (level_inputs B ?ph) \<subseteq> S" "set (level_inputs B ?pg) \<subseteq> S"
      by (simp_all add: level_inputs_step)
    from True have ne: "?ph \<noteq> []" "?pg \<noteq> []" by auto
    from True "1.prems"(9) have "level_root B ?ph = level_root B ?pg" by (simp add: level_root_step)
    with "1.IH" True "1.prems"(1) ne sub(3,4) has_rank_pairs [OF sub(1) "1.prems"(6)]
      has_rank_pairs [OF sub(2) "1.prems"(7)] aligned_pairs [OF "1.prems"(1) sub(1,2) "1.prems"(8)]
    have "?ph = ?pg" by blast
    then have "pair_inputs hs = pair_inputs gs"
      using inj_on_subset [OF "1.prems"(1), of "set (pair_inputs hs) \<union> set (pair_inputs gs)"] sub
      by (meson Un_least inj_on_map_eq_map)
    with "1.prems"(8) show ?thesis by (rule pair_inputs_eqD)
  next
    case False
    from d(1) e(1) "1.prems"(9) have "k + d = k + e"
      using has_rank_unique [OF "1.prems"(1)] by metis
    with False d(2) e(2) have "\<not> length hs > 1" "\<not> length gs > 1" by auto
    moreover have "length hs \<noteq> 0" "length gs \<noteq> 0" using "1.prems"(2,3) by simp_all
    ultimately have "length hs = 1" "length gs = 1" by linarith+
    with "1.prems"(9) show ?thesis by (auto simp: length_Suc_conv level_root_1)
  qed
qed

lemma leaf_inputs_nth: "i < length leaves \<Longrightarrow> leaf_inputs leaves ! i = leaf_input i (leaves ! i)"
  by (simp add: leaf_inputs_def nth_enumerate_eq)

lemma length_leaf_inputs [simp]: "length (leaf_inputs leaves) = length leaves"
  by (simp add: leaf_inputs_def)

lemma leaf_inputs_Nil_iff [simp]: "leaf_inputs leaves = [] \<longleftrightarrow> leaves = []"
  by (simp add: leaf_inputs_def enumerate_eq_zip)

lemma leaf_input_inj:
  assumes "i < 2 ^ 64" "j < 2 ^ 64" "leaf_input i x = leaf_input j y"
  shows "i = j \<and> x = y"
proof -
  from assms(3) have eq: "(of_nat i :: u64) = of_nat j" and "x = y"
    by (simp_all add: leaf_input_def u64le.enc_append_inj)
  have "i = unat (of_nat i :: u64)" using assms(1) by (simp add: unat_of_nat_u64)
  also have "\<dots> = j" using assms(2) by (simp only: eq unat_of_nat_u64)
  finally show ?thesis using \<open>x = y\<close> by simp
qed

lemma rank_0_leaves:
  assumes "set (leaf_inputs leaves) \<subseteq> S" "\<forall>l\<in>set leaves. length l \<noteq> 56"
  shows "\<forall>h\<in>set (map B (leaf_inputs leaves)). has_rank B S 0 h"
proof
  fix h assume "h \<in> set (map B (leaf_inputs leaves))"
  then obtain i where i: "i < length leaves" "h = B (leaf_input i (leaves ! i))"
    by (auto simp: in_set_conv_nth leaf_inputs_nth)
  then have "leaf_input i (leaves ! i) \<in> S"
    using assms(1) nth_mem [of i "leaf_inputs leaves"] by (auto simp: leaf_inputs_nth)
  moreover have "length (leaf_input i (leaves ! i)) \<noteq> 64"
    using assms(2) i(1) by (simp add: leaf_input_def)
  ultimately show "has_rank B S 0 h" using i(2) by auto
qed

lemma leaf_hash_eqD:
  assumes inj: "inj_on B S" and sub: "set (leaf_inputs xs) \<subseteq> S" "set (leaf_inputs ys) \<subseteq> S"
    and len: "length xs < 2 ^ 64" "length ys < 2 ^ 64" and ij: "i < length xs" "j < length ys"
    and eq: "map B (leaf_inputs xs) ! i = map B (leaf_inputs ys) ! j"
  shows "i = j \<and> xs ! i = ys ! j"
proof -
  have "leaf_inputs xs ! i = leaf_inputs ys ! j"
  proof (rule inj_onD [OF inj])
    show "B (leaf_inputs xs ! i) = B (leaf_inputs ys ! j)" using eq ij by simp
    show "leaf_inputs xs ! i \<in> S" by (rule subsetD [OF sub(1)]) (simp add: ij)
    show "leaf_inputs ys ! j \<in> S" by (rule subsetD [OF sub(2)]) (simp add: ij)
  qed
  then have "leaf_input i (xs ! i) = leaf_input j (ys ! j)" using ij by (simp add: leaf_inputs_nth)
  moreover have "i < 2 ^ 64" "j < 2 ^ 64" using ij len by linarith+
  ultimately show ?thesis using leaf_input_inj by blast
qed

text \<open>Two non-empty lists of leaves with the same root are the same list.\<close>

lemma merkle_root_binding_aux:
  assumes inj: "inj_on B (set (merkle_inputs B xs) \<union> set (merkle_inputs B ys))"
    and len: "length xs < 2 ^ 64" "length ys < 2 ^ 64"
    and leaf: "\<forall>l\<in>set xs \<union> set ys. length l \<noteq> 56"
    and ne: "xs \<noteq> []" "ys \<noteq> []"
    and root: "CalculateMerkleRoot B xs = CalculateMerkleRoot B ys"
  shows "xs = ys"
proof -
  let ?S = "set (merkle_inputs B xs) \<union> set (merkle_inputs B ys)"
  let ?h = "map B (leaf_inputs xs)" and ?g = "map B (leaf_inputs ys)"
  have sub: "set (leaf_inputs xs) \<subseteq> ?S" "set (leaf_inputs ys) \<subseteq> ?S"
    "set (level_inputs B ?h) \<subseteq> ?S" "set (level_inputs B ?g) \<subseteq> ?S"
    by (auto simp: merkle_inputs_def)
  note leaf_eqD = leaf_hash_eqD [OF inj sub(1,2) len]
  have al: "aligned ?h ?g" unfolding aligned_def length_map length_leaf_inputs
    using leaf_eqD by blast
  from leaf have l56: "\<forall>l\<in>set xs. length l \<noteq> 56" "\<forall>l\<in>set ys. length l \<noteq> 56" by auto
  have ne': "?h \<noteq> []" "?g \<noteq> []" using ne by simp_all
  have "level_root B ?h = level_root B ?g"
    using root CalculateMerkleRoot_level_root [OF ne(1)] CalculateMerkleRoot_level_root [OF ne(2)]
    by metis
  with level_root_inj [OF inj ne' sub(3,4) rank_0_leaves [OF sub(1) l56(1)]
      rank_0_leaves [OF sub(2) l56(2)] al]
  have eq: "?h = ?g" by blast
  from map_eq_imp_length_eq [OF eq] have len_eq: "length xs = length ys" by simp
  show ?thesis
  proof (rule nth_equalityI [OF len_eq])
    fix i assume "i < length xs"
    with leaf_eqD [of i i] eq len_eq show "xs ! i = ys ! i" by simp
  qed
qed

lemma CalculateMerkleRoot_nonzero:
  assumes "leaves \<noteq> []" "\<And>x. B x \<noteq> 0"
  shows "CalculateMerkleRoot B leaves \<noteq> 0"
proof -
  have "hs \<noteq> [] \<Longrightarrow> \<forall>h\<in>set hs. h \<noteq> 0 \<Longrightarrow> level_root B hs \<noteq> 0" for hs
  proof (induction "length hs" arbitrary: hs rule: less_induct)
    case less
    show ?case
    proof (cases "length hs > 1")
      case True
      then have "length (map B (pair_inputs hs)) < length hs" by simp
      with less.hyps [of "map B (pair_inputs hs)"] assms(2) less.prems(1)
      have "level_root B (map B (pair_inputs hs)) \<noteq> 0" by simp
      with True show ?thesis by (simp add: level_root_step)
    next
      case False
      with less.prems show ?thesis by (auto simp: level_root_1 hd_in_set)
    qed
  qed
  from this [of "map B (leaf_inputs leaves)"] assms show ?thesis
    by (simp add: CalculateMerkleRoot_level_root)
qed

end
