(* ===== verification/Blob.thy ===== *)
theory Blob
  imports Merkle
begin

text \<open>
  \<open>pkg/types/blob.go\<close>: blob identifiers (a Celestia height and a share commitment), their
  40-byte encoding, their textual form \<open>bc\<close>+base36 and URL, and the Merkle root of a list of
  them. Base36 (\<open>multiformats/go-base36\<close>) is the parameter \<open>b36\<close>, a pair of the encoder
  \<open>EncodeToStringLc\<close> and the decoder \<open>DecodeString\<close>; strings are byte sequences.
\<close>

record BlobIdentifier =
  bi_Height :: u64
  bi_Commitment :: hash

text \<open>The protobuf message \<open>blobcast.primitives.v1.BlobIdentifier\<close>.\<close>

record pbBlobIdentifier =
  pb_Height :: u64
  pb_Commitment :: bytes

record base36 =
  b36_encode :: "bytes \<Rightarrow> bytes"
  b36_decode :: "bytes \<Rightarrow> bytes result"

text \<open>The documented law of the library: decoding an encoding gives the bytes back.\<close>

definition base36_ok :: "base36 \<Rightarrow> bool" where
  "base36_ok c \<longleftrightarrow> (\<forall>b. b36_decode c (b36_encode c b) = Inr b)"

definition ascii :: "string \<Rightarrow> bytes" where
  "ascii s = map (\<lambda>ch. of_nat (of_char ch)) s"

definition HasPrefix :: "bytes \<Rightarrow> bytes \<Rightarrow> bool" where
  "HasPrefix s p \<longleftrightarrow> take (length p) s = p"

definition TrimPrefix :: "bytes \<Rightarrow> bytes \<Rightarrow> bytes" where
  "TrimPrefix s p = (if HasPrefix s p then drop (length p) s else s)"

lemma HasPrefix_append [simp]: "HasPrefix (p @ s) p"
  by (simp add: HasPrefix_def)

lemma TrimPrefix_append [simp]: "TrimPrefix (p @ s) p = s"
  by (simp add: TrimPrefix_def)

lemma HasPrefix_iff: "HasPrefix s p \<longleftrightarrow> (\<exists>t. s = p @ t)"
  by (metis HasPrefix_append HasPrefix_def append_take_drop_id)

definition bi_zero :: BlobIdentifier where
  "bi_zero = \<lparr>bi_Height = 0, bi_Commitment = 0\<rparr>"

definition bi_Bytes :: "BlobIdentifier \<Rightarrow> bytes" where
  "bi_Bytes b = BytesFromUint64 (bi_Height b) @ hash_Bytes (bi_Commitment b)"

text \<open>A slice of any other length than 40 gives the zero identifier, not an error.\<close>

definition BlobIdentifierFromBytes :: "bytes \<Rightarrow> BlobIdentifier result" where
  "BlobIdentifierFromBytes b =
     (if length b \<noteq> 40 then Inr bi_zero
      else rbind (slice_of b 0 8) (\<lambda>hb. rbind (Uint64FromBytes hb) (\<lambda>h.
           rbind (slice_of b 8 (length b)) (\<lambda>cb. rbind (to_hash cb) (\<lambda>c.
           Inr \<lparr>bi_Height = h, bi_Commitment = c\<rparr>)))))"

definition bi_ID :: "base36 \<Rightarrow> BlobIdentifier \<Rightarrow> bytes" where
  "bi_ID c b = ascii ''bc'' @ b36_encode c (bi_Bytes b)"

definition bi_String :: "base36 \<Rightarrow> BlobIdentifier \<Rightarrow> bytes" where
  "bi_String c b = bi_ID c b"

definition bi_URL :: "base36 \<Rightarrow> BlobIdentifier \<Rightarrow> bytes" where
  "bi_URL c b = ascii ''blobcast://'' @ bi_String c b"

definition BlobIdentifierFromString :: "base36 \<Rightarrow> bytes \<Rightarrow> BlobIdentifier result" where
  "BlobIdentifierFromString c encoded =
     (if \<not> HasPrefix encoded (ascii ''bc'') then Inl (Err ''invalid identifier'')
      else rbind (wrap ''error decoding base36 data'' (b36_decode c (TrimPrefix encoded (ascii ''bc''))))
        BlobIdentifierFromBytes)"

definition BlobIdentifierFromURL :: "base36 \<Rightarrow> bytes \<Rightarrow> BlobIdentifier result" where
  "BlobIdentifierFromURL c url =
     (if \<not> HasPrefix url (ascii ''blobcast://'') then Inl (Err ''invalid URL'')
      else BlobIdentifierFromString c (TrimPrefix url (ascii ''blobcast://'')))"

text \<open>\<open>proto\<close> is a pointer: a nil message (\<open>None\<close>) is dereferenced, which panics.\<close>

definition BlobIdentifierFromProto :: "pbBlobIdentifier option \<Rightarrow> BlobIdentifier result" where
  "BlobIdentifierFromProto p =
     (case p of None \<Rightarrow> Inl (Panic ''nil pointer dereference'')
      | Some m \<Rightarrow> rbind (to_hash (pb_Commitment m)) (\<lambda>c.
          Inr \<lparr>bi_Height = pb_Height m, bi_Commitment = c\<rparr>))"

definition bi_Proto :: "BlobIdentifier \<Rightarrow> pbBlobIdentifier" where
  "bi_Proto b = \<lparr>pb_Height = bi_Height b, pb_Commitment = hash_Bytes (bi_Commitment b)\<rparr>"

definition BlobIdentifiersMerkleRoot :: "blake3 \<Rightarrow> BlobIdentifier list \<Rightarrow> hash" where
  "BlobIdentifiersMerkleRoot B blobs = CalculateMerkleRoot B (map bi_Bytes blobs)"

section \<open>Codecs\<close>

lemma length_bi_Bytes [simp]: "length (bi_Bytes b) = 40"
  by (simp add: bi_Bytes_def)

lemma BlobIdentifierFromBytes_bi_Bytes [simp]: "BlobIdentifierFromBytes (bi_Bytes b) = Inr b"
proof -
  have "slice_of (bi_Bytes b) 0 8 = Inr (BytesFromUint64 (bi_Height b))"
    by (simp add: bi_Bytes_def)
  moreover have "slice_of (bi_Bytes b) 8 40 = Inr (hash_Bytes (bi_Commitment b))"
    by (simp add: bi_Bytes_def)
  ultimately show ?thesis by (simp add: BlobIdentifierFromBytes_def)
qed

interpretation blob_id: fixed_codec bi_Bytes BlobIdentifierFromBytes 40
  by unfold_locales simp_all

lemma BlobIdentifierFromProto_bi_Proto [simp]: "BlobIdentifierFromProto (Some (bi_Proto b)) = Inr b"
  by (simp add: BlobIdentifierFromProto_def bi_Proto_def)

lemma BlobIdentifierFromString_bi_ID:
  "base36_ok c \<Longrightarrow> BlobIdentifierFromString c (bi_ID c b) = Inr b"
  by (simp add: BlobIdentifierFromString_def bi_ID_def base36_ok_def)

lemma BlobIdentifierFromURL_bi_URL:
  "base36_ok c \<Longrightarrow> BlobIdentifierFromURL c (bi_URL c b) = Inr b"
  by (simp add: BlobIdentifierFromURL_def bi_URL_def bi_String_def BlobIdentifierFromString_bi_ID)

lemma bi_ID_inj: "base36_ok c \<Longrightarrow> bi_ID c a = bi_ID c b \<Longrightarrow> a = b"
  by (metis BlobIdentifierFromString_bi_ID sum.inject(2))

text \<open>A base36 code for evaluation: the identity.\<close>

definition id_base36 :: base36 where
  "id_base36 = \<lparr>b36_encode = (\<lambda>b. b), b36_decode = Inr\<rparr>"

lemma id_base36_ok [simp]: "base36_ok id_base36"
  by (simp add: base36_ok_def id_base36_def)

text \<open>The Merkle root of a block's identifiers determines them, in order.\<close>

lemma blob_root_binding:
  assumes "inj_on B (set (merkle_inputs B (map bi_Bytes xs)) \<union> set (merkle_inputs B (map bi_Bytes ys)))"
    and "length xs < 2 ^ 64" "length ys < 2 ^ 64" "\<And>x. B x \<noteq> 0"
    and root: "BlobIdentifiersMerkleRoot B xs = BlobIdentifiersMerkleRoot B ys"
  shows "xs = ys"
proof (cases "xs = [] \<or> ys = []")
  case True
  then show ?thesis
    using root CalculateMerkleRoot_nonzero [of "map bi_Bytes xs" B]
      CalculateMerkleRoot_nonzero [of "map bi_Bytes ys" B] assms(4)
    by (cases "xs = []"; cases "ys = []") (simp_all add: BlobIdentifiersMerkleRoot_def)
next
  case False
  then have "map bi_Bytes xs = map bi_Bytes ys"
    using assms by (intro merkle_root_binding_aux [of B]) (auto simp: BlobIdentifiersMerkleRoot_def)
  moreover have "inj bi_Bytes" by (rule injI) (simp add: blob_id.enc_inj)
  ultimately show ?thesis by (simp add: inj_map_eq_map)
qed

end
