(* ===== verification/Submit.thy ===== *)
theory Submit
  imports Blob "HOL-Library.Multiset"
begin

text \<open>
  The submitter of \<open>pkg/sync/submit.go\<close>: callers put payloads on two channels, one goroutine
  collects them into batches and stores a batch when it would grow beyond the transaction size,
  when no payload came for a while, and when it ends. Every payload has a result channel, named
  here by the number of the submission; \<open>sm_results\<close> is what was sent on it, and \<open>sm_submitted\<close> lists
  all payloads. Each \<open>select\<close> is a
  step for each of its cases that is ready. \<open>sm_stored\<close> records the calls of \<open>StoreBatch\<close>.
\<close>

section \<open>The state\<close>

record item =
  it_id :: nat
  it_Payload :: bytes

record sstate =
  sm_queue :: "item list"
  sm_priority :: "item list"
  sm_queueClosed :: bool
  sm_priorityClosed :: bool
  sm_prioNil :: bool
  sm_cancelled :: bool
  sm_batch :: "item list"
  sm_size :: int
  sm_timer :: bool
  sm_running :: bool
  sm_results :: "nat \<rightharpoonup> BlobIdentifier result"
  sm_submitted :: "bytes list"
  sm_stored :: "item list list"

abbreviation sm_next :: "sstate \<Rightarrow> nat" where "sm_next s \<equiv> length (sm_submitted s)"

definition NewSubmitter :: sstate where
  "NewSubmitter = \<lparr>sm_queue = [], sm_priority = [], sm_queueClosed = False, sm_priorityClosed = False, sm_prioNil = False, sm_cancelled = False,
     sm_batch = [], sm_size = 0, sm_timer = False, sm_running = True, sm_results = Map.empty, sm_submitted = [],
     sm_stored = []\<rparr>"

definition chan_size :: nat where "chan_size = 1000"

section \<open>Submitting a batch\<close>

text \<open>\<open>StoreBatch\<close> of Celestia: a commitment for each message, and the height.\<close>

type_synonym store_batch = "bytes list \<Rightarrow> (bytes list \<times> u64) result"

fun send_results :: "bytes list \<Rightarrow> u64 \<Rightarrow> nat \<Rightarrow> item list \<Rightarrow> sstate \<Rightarrow> sstate result" where
  "send_results commitments height i [] s = Inr s"
| "send_results commitments height i (item # items) s =
     rbind (index_of commitments i) (\<lambda>commitment. rbind (to_hash commitment) (\<lambda>commitment.
     send_results commitments height (i + 1) items
       (s\<lparr>sm_results := (sm_results s)(it_id item \<mapsto> Inr \<lparr>bi_Height = height, bi_Commitment = commitment\<rparr>)\<rparr>)))"

definition send_error :: "err \<Rightarrow> item list \<Rightarrow> sstate \<Rightarrow> sstate" where
  "send_error e items s = s\<lparr>sm_results := fold (\<lambda>item r. r(it_id item \<mapsto> Inl e)) items (sm_results s)\<rparr>"

definition submitBatch :: "store_batch \<Rightarrow> item list \<Rightarrow> sstate \<Rightarrow> sstate result" where
  "submitBatch store batch s =
     (let msgs = map it_Payload batch; s = s\<lparr>sm_stored := sm_stored s @ [batch]\<rparr>
      in case store msgs of
           Inl e \<Rightarrow> Inr (send_error e batch s)
         | Inr (commitments, height) \<Rightarrow> send_results commitments height 0 batch s)"

section \<open>The loop\<close>

definition estimatedItemSize :: "item \<Rightarrow> int" where
  "estimatedItemSize item = int (length (it_Payload item)) + 100"

definition add_item :: "int \<Rightarrow> store_batch \<Rightarrow> item \<Rightarrow> sstate \<Rightarrow> sstate result" where
  "add_item maxTxSize store item s =
     (let size = estimatedItemSize item in
      if sm_size s + size > maxTxSize
      then rbind (submitBatch store (sm_batch s) s) (\<lambda>s. Inr (s\<lparr>sm_batch := [item], sm_size := size, sm_timer := True\<rparr>))
      else Inr (s\<lparr>sm_batch := sm_batch s @ [item], sm_size := sm_size s + size, sm_timer := True\<rparr>))"

text \<open>The goroutine returns; what it still holds is submitted first.\<close>

definition finish :: "store_batch \<Rightarrow> sstate \<Rightarrow> sstate result" where
  "finish store s =
     (if sm_batch s \<noteq> []
      then rbind (submitBatch store (sm_batch s) s) (\<lambda>s. Inr (s\<lparr>sm_batch := [], sm_size := 0, sm_running := False\<rparr>))
      else Inr (s\<lparr>sm_running := False\<rparr>))"

definition flush :: "store_batch \<Rightarrow> sstate \<Rightarrow> sstate result" where
  "flush store s =
     (if sm_batch s \<noteq> []
      then rbind (submitBatch store (sm_batch s) s) (\<lambda>s. Inr (s\<lparr>sm_batch := [], sm_size := 0, sm_timer := False\<rparr>))
      else Inr (s\<lparr>sm_timer := False\<rparr>))"

text \<open>
  The steps. \<open>Submit\<close> and \<open>SubmitWithPriority\<close> send their item or, once the context is
  cancelled, answer it; a send on a closed channel panics. A receive takes the oldest item, and
  fails on a closed channel only when it is empty.
\<close>

inductive sm_step :: "int \<Rightarrow> store_batch \<Rightarrow> sstate \<Rightarrow> sstate result \<Rightarrow> bool" for M store where
  Submit: "\<lbrakk>item = \<lparr>it_id = sm_next s, it_Payload = payload\<rparr>; \<not> sm_queueClosed s; length (sm_queue s) < chan_size\<rbrakk> \<Longrightarrow>
    sm_step M store s (Inr (s\<lparr>sm_queue := sm_queue s @ [item], sm_submitted := sm_submitted s @ [payload]\<rparr>))"
| SubmitWithPriority: "\<lbrakk>item = \<lparr>it_id = sm_next s, it_Payload = payload\<rparr>; \<not> sm_priorityClosed s; \<not> sm_prioNil s;
    length (sm_priority s) < chan_size\<rbrakk> \<Longrightarrow>
    sm_step M store s (Inr (s\<lparr>sm_priority := sm_priority s @ [item], sm_submitted := sm_submitted s @ [payload]\<rparr>))"
| SubmitCancelled: "sm_cancelled s \<Longrightarrow>
    sm_step M store s (Inr (s\<lparr>sm_results := (sm_results s)(sm_next s \<mapsto> Inl (Err ''context cancelled'')),
      sm_submitted := sm_submitted s @ [payload]\<rparr>))"
| SubmitClosed: "sm_queueClosed s \<or> sm_priorityClosed s \<and> \<not> sm_prioNil s \<Longrightarrow>
    sm_step M store s (Inl (Panic ''send on closed channel''))"
| CloseQueue: "\<not> sm_queueClosed s \<Longrightarrow> sm_step M store s (Inr (s\<lparr>sm_queueClosed := True\<rparr>))"
| ClosePriority: "\<lbrakk>sm_queueClosed s; \<not> sm_priorityClosed s\<rbrakk> \<Longrightarrow> sm_step M store s (Inr (s\<lparr>sm_priorityClosed := True\<rparr>))"
| Cancel: "sm_priorityClosed s \<Longrightarrow> sm_step M store s (Inr (s\<lparr>sm_cancelled := True\<rparr>))"
| CloseTwice: "sm_queueClosed s \<Longrightarrow> sm_step M store s (Inl (Panic ''close of closed channel''))"
| TakePriority: "\<lbrakk>sm_running s; \<not> sm_prioNil s; sm_priority s = item # items\<rbrakk> \<Longrightarrow>
    sm_step M store s (add_item M store item (s\<lparr>sm_priority := items\<rparr>))"
| PriorityClosed: "\<lbrakk>sm_running s; \<not> sm_prioNil s; sm_priority s = []; sm_priorityClosed s\<rbrakk> \<Longrightarrow>
    sm_step M store s (Inr (s\<lparr>sm_prioNil := True\<rparr>))"
| Take: "\<lbrakk>sm_running s; sm_queue s = item # items\<rbrakk> \<Longrightarrow>
    sm_step M store s (add_item M store item (s\<lparr>sm_queue := items\<rparr>))"
| QueueClosed: "\<lbrakk>sm_running s; sm_queue s = []; sm_queueClosed s\<rbrakk> \<Longrightarrow> sm_step M store s (finish store s)"
| Tick: "\<lbrakk>sm_running s; sm_timer s\<rbrakk> \<Longrightarrow> sm_step M store s (flush store s)"
| Cancelled: "\<lbrakk>sm_running s; sm_cancelled s\<rbrakk> \<Longrightarrow> sm_step M store s (finish store s)"

text \<open>The states of a submitter; \<open>StoreBatch\<close> may answer differently at every step, within \<open>S\<close>.\<close>

inductive sm_reach :: "int \<Rightarrow> store_batch set \<Rightarrow> sstate \<Rightarrow> bool" for M S where
  Start: "sm_reach M S NewSubmitter"
| Step: "\<lbrakk>sm_reach M S s; store \<in> S; sm_step M store s (Inr s')\<rbrakk> \<Longrightarrow> sm_reach M S s'"

section \<open>Nothing is lost or answered twice\<close>

definition waiting :: "sstate \<Rightarrow> item list" where
  "waiting s = sm_queue s @ sm_priority s @ sm_batch s"

definition batch_fits :: "int \<Rightarrow> item list \<Rightarrow> bool" where
  "batch_fits M batch \<longleftrightarrow> sum_list (map estimatedItemSize batch) \<le> M \<or> length batch \<le> 1"

definition ids_ok :: "item list \<Rightarrow> sstate \<Rightarrow> bool" where
  "ids_ok items s \<longleftrightarrow> distinct (map it_id items) \<and> it_id ` set items \<inter> dom (sm_results s) = {}
     \<and> it_id ` set items \<union> dom (sm_results s) = {0..<sm_next s}"

definition batches_ok :: "int \<Rightarrow> sstate \<Rightarrow> bool" where
  "batches_ok M s \<longleftrightarrow> sm_size s = sum_list (map estimatedItemSize (sm_batch s)) \<and> batch_fits M (sm_batch s)
     \<and> (\<forall>batch\<in>set (sm_stored s). batch_fits M batch)"

definition sm_inv :: "int \<Rightarrow> sstate \<Rightarrow> bool" where
  "sm_inv M s \<longleftrightarrow> ids_ok (waiting s) s \<and> batches_ok M s"

lemma batch_fits_Nil [simp]: "batch_fits M []" and batch_fits_one [simp]: "batch_fits M [item]"
  by (simp_all add: batch_fits_def)

lemma send_results_effect:
  "send_results commitments height i items s = Inr s' \<Longrightarrow>
   \<exists>R. s' = s\<lparr>sm_results := R\<rparr> \<and> dom R = dom (sm_results s) \<union> it_id ` set items
     \<and> (\<forall>j. j \<notin> it_id ` set items \<longrightarrow> R j = sm_results s j)"
proof (induction items arbitrary: i s)
  case (Cons item items)
  then obtain x where "send_results commitments height (i + 1) items (s\<lparr>sm_results := (sm_results s)(it_id item \<mapsto> x)\<rparr>) = Inr s'"
    by (auto simp: rbind_eq_Inr)
  from Cons.IH [OF this] obtain R where
    R: "s' = s\<lparr>sm_results := R\<rparr>" "dom R = insert (it_id item) (dom (sm_results s)) \<union> it_id ` set items"
    "\<forall>j. j \<notin> it_id ` set items \<longrightarrow> R j = ((sm_results s)(it_id item \<mapsto> x)) j"
    by (auto simp del: fun_upd_apply)
  have "dom R = dom (sm_results s) \<union> it_id ` set (item # items)" using R(2) by auto
  moreover have "R j = sm_results s j" if "j \<notin> it_id ` set (item # items)" for j using R(3) that by simp
  ultimately show ?case using R(1) by blast
next
  case Nil
  then show ?case by (intro exI [of _ "sm_results s"]) simp
qed

lemma send_error_effect:
  "\<exists>R. send_error e items s = s\<lparr>sm_results := R\<rparr> \<and> dom R = dom (sm_results s) \<union> it_id ` set items
     \<and> (\<forall>j. j \<notin> it_id ` set items \<longrightarrow> R j = sm_results s j)"
proof -
  have "dom (fold (\<lambda>item r. r(it_id item \<mapsto> Inl e)) items r) = dom r \<union> it_id ` set items
      \<and> (\<forall>j. j \<notin> it_id ` set items \<longrightarrow> fold (\<lambda>item r. r(it_id item \<mapsto> Inl e)) items r j = r j)" for r
    by (induction items arbitrary: r) auto
  then show ?thesis unfolding send_error_def by blast
qed

lemma submitBatch_effect:
  assumes "submitBatch store batch s = Inr s'"
  shows "\<exists>R. s' = s\<lparr>sm_stored := sm_stored s @ [batch], sm_results := R\<rparr> \<and> dom R = dom (sm_results s) \<union> it_id ` set batch
     \<and> (\<forall>j. j \<notin> it_id ` set batch \<longrightarrow> R j = sm_results s j)"
proof -
  let ?s = "s\<lparr>sm_stored := sm_stored s @ [batch]\<rparr>"
  from assms consider e where "s' = send_error e batch ?s"
    | commitments height where "send_results commitments height 0 batch ?s = Inr s'"
    by (auto simp: submitBatch_def Let_def split: sum.splits)
  then show ?thesis
  proof cases
    case 1
    with send_error_effect [of e batch ?s] show ?thesis by auto
  next
    case 2
    from send_results_effect [OF this] show ?thesis by auto
  qed
qed

text \<open>Only the numbers of the items count, and a new submission takes the next one.\<close>

lemma ids_ok_perm:
  assumes "ids_ok items s" "mset items = mset items'" "sm_results s' = sm_results s" "sm_next s' = sm_next s"
  shows "ids_ok items' s'"
proof -
  have "set items = set items'" using assms(2) by (rule mset_eq_setD)
  moreover have "mset (map it_id items) = mset (map it_id items')" using assms(2) by (metis mset_map)
  then have "distinct (map it_id items) = distinct (map it_id items')" by (rule mset_eq_imp_distinct_iff)
  ultimately show ?thesis using assms(1,3,4) by (simp add: ids_ok_def)
qed

lemma ids_ok_new: "ids_ok items s \<Longrightarrow> sm_next s \<notin> it_id ` set items \<and> sm_next s \<notin> dom (sm_results s)"
proof -
  assume "ids_ok items s"
  then have "it_id ` set items \<union> dom (sm_results s) = {0..<sm_next s}" by (simp add: ids_ok_def)
  moreover have "sm_next s \<notin> {0..<sm_next s}" by simp
  ultimately show ?thesis by blast
qed

lemma ids_ok_submit:
  assumes "ids_ok items s" "it_id item = sm_next s" "sm_results s' = sm_results s" "sm_next s' = Suc (sm_next s)"
  shows "ids_ok (item # items) s'"
  using assms ids_ok_new [OF assms(1)] unfolding ids_ok_def by (simp add: atLeast0_lessThan_Suc)

lemma ids_ok_answered:
  assumes "ids_ok (items @ batch) s" "dom R = dom (sm_results s) \<union> it_id ` set batch" "sm_results s' = R" "sm_next s' = sm_next s"
  shows "ids_ok items s'"
proof -
  have d: "distinct (map it_id items @ map it_id batch)"
    and i: "(it_id ` set items \<union> it_id ` set batch) \<inter> dom (sm_results s) = {}"
    and u: "(it_id ` set items \<union> it_id ` set batch) \<union> dom (sm_results s) = {0..<sm_next s}"
    using assms(1) by (simp_all only: ids_ok_def map_append set_append image_Un)
  from d have "distinct (map it_id items)" "it_id ` set items \<inter> it_id ` set batch = {}"
    by (simp_all only: distinct_append set_map)
  moreover from this(2) i have disj: "it_id ` set items \<inter> dom R = {}" unfolding assms(2) by blast
  moreover from u have all: "it_id ` set items \<union> (dom (sm_results s) \<union> it_id ` set batch) = {0..<sm_next s}" by blast
  ultimately show ?thesis unfolding ids_ok_def assms(2-4) by blast
qed

text \<open>Answering the batch, with or without an item in hand.\<close>

lemma submit_current_ok:
  assumes run: "submitBatch store (sm_batch s) s = Inr s'" and ids: "ids_ok (items @ sm_batch s) s" and b: "batches_ok M s"
  shows "ids_ok items s' \<and> (\<forall>batch\<in>set (sm_stored s'). batch_fits M batch)
     \<and> sm_queue s' = sm_queue s \<and> sm_priority s' = sm_priority s \<and> sm_results s \<subseteq>\<^sub>m sm_results s'"
proof -
  obtain R where R: "s' = s\<lparr>sm_stored := sm_stored s @ [sm_batch s], sm_results := R\<rparr>"
    "dom R = dom (sm_results s) \<union> it_id ` set (sm_batch s)" "\<forall>j. j \<notin> it_id ` set (sm_batch s) \<longrightarrow> R j = sm_results s j"
    using submitBatch_effect [OF run] by blast
  have "ids_ok items s'" by (rule ids_ok_answered [OF ids R(2)]) (simp_all add: R(1))
  moreover have "sm_results s \<subseteq>\<^sub>m R"
    unfolding map_le_def
  proof
    fix j assume j: "j \<in> dom (sm_results s)"
    have "it_id ` set (items @ sm_batch s) \<inter> dom (sm_results s) = {}" using ids by (simp only: ids_ok_def)
    with j have "j \<notin> it_id ` set (sm_batch s)" by auto
    with R(3) show "sm_results s j = R j" by simp
  qed
  ultimately show ?thesis using b by (simp add: R(1) batches_ok_def)
qed

lemma add_item_ok:
  assumes run: "add_item M store item s = Inr s'" and ids: "ids_ok (item # waiting s) s" and b: "batches_ok M s"
  shows "sm_inv M s' \<and> sm_results s \<subseteq>\<^sub>m sm_results s'"
proof (cases "sm_size s + estimatedItemSize item > M")
  case True
  with run obtain s1 where s1: "submitBatch store (sm_batch s) s = Inr s1"
    "s' = s1\<lparr>sm_batch := [item], sm_size := estimatedItemSize item, sm_timer := True\<rparr>"
    by (auto simp: add_item_def Let_def rbind_eq_Inr)
  have "ids_ok ((item # sm_queue s @ sm_priority s) @ sm_batch s) s"
    using ids by (rule ids_ok_perm) (simp_all add: waiting_def)
  note sub = submit_current_ok [OF s1(1) this b]
  then have "ids_ok (waiting s') s'" by (intro ids_ok_perm [OF conjunct1 [OF sub]]) (simp_all add: waiting_def s1(2))
  moreover have "batches_ok M s'" using sub by (simp add: batches_ok_def s1(2))
  ultimately show ?thesis using sub by (simp add: sm_inv_def s1(2))
next
  case False
  with run have s': "s' = s\<lparr>sm_batch := sm_batch s @ [item], sm_size := sm_size s + estimatedItemSize item, sm_timer := True\<rparr>"
    by (auto simp: add_item_def Let_def)
  have "batches_ok M s'" using False b by (simp add: batches_ok_def batch_fits_def s')
  moreover have "ids_ok (waiting s') s'" by (rule ids_ok_perm [OF ids]) (simp_all add: s' waiting_def)
  ultimately show ?thesis by (simp add: s' sm_inv_def)
qed

lemma empty_batch_ok:
  assumes run: "submitBatch store (sm_batch s) s = Inr s1" and inv: "sm_inv M s"
    and s': "s' = s1\<lparr>sm_batch := [], sm_size := 0, sm_running := r, sm_timer := t\<rparr>"
  shows "sm_inv M s' \<and> sm_results s \<subseteq>\<^sub>m sm_results s'"
proof -
  have "ids_ok ((sm_queue s @ sm_priority s) @ sm_batch s) s" "batches_ok M s" using inv by (simp_all add: sm_inv_def waiting_def)
  note sub = submit_current_ok [OF run this]
  have "ids_ok (waiting s') s'" by (rule ids_ok_perm [OF conjunct1 [OF sub]]) (use sub in \<open>simp_all add: s' waiting_def\<close>)
  moreover have "batches_ok M s'" using sub by (simp add: s' batches_ok_def)
  ultimately show ?thesis using sub by (simp add: s' sm_inv_def)
qed

text \<open>Steps that touch neither the items nor the batches.\<close>

lemma sm_inv_frame:
  "sm_inv M s \<Longrightarrow> waiting s' = waiting s \<Longrightarrow> sm_results s' = sm_results s \<Longrightarrow> sm_next s' = sm_next s \<Longrightarrow>
   sm_size s' = sm_size s \<Longrightarrow> sm_batch s' = sm_batch s \<Longrightarrow> sm_stored s' = sm_stored s \<Longrightarrow>
   sm_inv M s' \<and> sm_results s \<subseteq>\<^sub>m sm_results s'"
  by (simp add: sm_inv_def ids_ok_def batches_ok_def)

lemma finish_ok:
  assumes "finish store s = Inr s'" "sm_inv M s"
  shows "sm_inv M s' \<and> sm_results s \<subseteq>\<^sub>m sm_results s'"
proof (cases "sm_batch s = []")
  case True
  with assms show ?thesis by (intro sm_inv_frame) (auto simp: finish_def waiting_def)
next
  case False
  with assms(1) obtain s1 where "submitBatch store (sm_batch s) s = Inr s1"
    "s' = s1\<lparr>sm_batch := [], sm_size := 0, sm_running := False, sm_timer := sm_timer s1\<rparr>"
    by (auto simp: finish_def rbind_eq_Inr)
  from empty_batch_ok [OF this(1) assms(2) this(2)] show ?thesis .
qed

lemma flush_ok:
  assumes "flush store s = Inr s'" "sm_inv M s"
  shows "sm_inv M s' \<and> sm_results s \<subseteq>\<^sub>m sm_results s'"
proof (cases "sm_batch s = []")
  case True
  with assms show ?thesis by (intro sm_inv_frame) (auto simp: flush_def waiting_def)
next
  case False
  with assms(1) obtain s1 where "submitBatch store (sm_batch s) s = Inr s1"
    "s' = s1\<lparr>sm_batch := [], sm_size := 0, sm_running := sm_running s1, sm_timer := False\<rparr>"
    by (auto simp: flush_def rbind_eq_Inr)
  from empty_batch_ok [OF this(1) assms(2) this(2)] show ?thesis .
qed

lemma sm_inv_submit:
  assumes "sm_inv M s" "it_id item = sm_next s" "mset (waiting s') = mset (item # waiting s)"
    and "sm_results s' = sm_results s" "sm_next s' = Suc (sm_next s)" "sm_size s' = sm_size s" "sm_batch s' = sm_batch s"
    and "sm_stored s' = sm_stored s"
  shows "sm_inv M s' \<and> sm_results s \<subseteq>\<^sub>m sm_results s'"
proof -
  have "ids_ok (item # waiting s) s'" by (rule ids_ok_submit) (use assms in \<open>simp_all add: sm_inv_def\<close>)
  then have "ids_ok (waiting s') s'" by (rule ids_ok_perm) (simp_all add: assms(3))
  with assms(1,4-8) show ?thesis by (simp add: sm_inv_def batches_ok_def)
qed

lemma sm_step_inv:
  assumes "sm_step M store s r" "r = Inr s'" "sm_inv M s"
  shows "sm_inv M s' \<and> sm_results s \<subseteq>\<^sub>m sm_results s'"
  using assms
proof (induction rule: sm_step.induct)
  case (Submit item s payload)
  then show ?case by (intro sm_inv_submit [where item = item]) (auto simp: waiting_def)
next
  case (SubmitWithPriority item s payload)
  then show ?case by (intro sm_inv_submit [where item = item]) (auto simp: waiting_def)
next
  case (SubmitCancelled s payload)
  let ?r = "(sm_results s)(sm_next s \<mapsto> Inl (Err ''context cancelled''))"
  have s': "s' = s\<lparr>sm_results := ?r, sm_submitted := sm_submitted s @ [payload]\<rparr>" using SubmitCancelled by simp
  have ids: "ids_ok (waiting s) s" using SubmitCancelled by (simp add: sm_inv_def)
  have "ids_ok (waiting s') s'"
    using ids ids_ok_new [OF ids] by (simp add: s' ids_ok_def waiting_def atLeast0_lessThan_Suc)
  moreover have "sm_results s \<subseteq>\<^sub>m ?r" using ids_ok_new [OF ids] by (auto simp: map_le_def)
  moreover have "batches_ok M s'" using SubmitCancelled by (simp add: s' sm_inv_def batches_ok_def)
  ultimately show ?case by (simp add: s' sm_inv_def del: fun_upd_apply)
next
  case (TakePriority s item items)
  let ?s = "s\<lparr>sm_priority := items\<rparr>"
  have "ids_ok (item # waiting ?s) ?s"
    by (rule ids_ok_perm [of "waiting s" s]) (use TakePriority in \<open>simp_all add: sm_inv_def waiting_def\<close>)
  moreover have "batches_ok M ?s" using TakePriority by (simp add: sm_inv_def batches_ok_def)
  ultimately show ?case using add_item_ok [OF TakePriority.prems(1)] by simp
next
  case (Take s item items)
  let ?s = "s\<lparr>sm_queue := items\<rparr>"
  have "ids_ok (item # waiting ?s) ?s"
    by (rule ids_ok_perm [of "waiting s" s]) (use Take in \<open>simp_all add: sm_inv_def waiting_def\<close>)
  moreover have "batches_ok M ?s" using Take by (simp add: sm_inv_def batches_ok_def)
  ultimately show ?case using add_item_ok [OF Take.prems(1)] by simp
next
  case (QueueClosed s)
  then show ?case using finish_ok by blast
next
  case (Cancelled s)
  then show ?case using finish_ok by blast
next
  case (Tick s)
  then show ?case using flush_ok by blast
next
  case (CloseQueue s)
  then show ?case by (intro sm_inv_frame) (auto simp: waiting_def)
next
  case (ClosePriority s)
  then show ?case by (intro sm_inv_frame) (auto simp: waiting_def)
next
  case (Cancel s)
  then show ?case by (intro sm_inv_frame) (auto simp: waiting_def)
next
  case (PriorityClosed s)
  then show ?case by (intro sm_inv_frame) (auto simp: waiting_def)
qed simp_all

lemma sm_reach_inv: "sm_reach M S s \<Longrightarrow> sm_inv M s"
proof (induction rule: sm_reach.induct)
  case Start
  then show ?case by (simp add: sm_inv_def NewSubmitter_def waiting_def ids_ok_def batches_ok_def)
next
  case (Step s store s')
  then show ?case using sm_step_inv by blast
qed

section \<open>An identifier that is returned names the payload\<close>

text \<open>What \<open>StoreBatch\<close> promises: \<open>placed\<close> is what Celestia holds under an identifier.\<close>

definition store_ok :: "(BlobIdentifier \<Rightarrow> bytes option) \<Rightarrow> store_batch \<Rightarrow> bool" where
  "store_ok placed store \<longleftrightarrow> (\<forall>msgs cs h. store msgs = Inr (cs, h) \<longrightarrow> length cs = length msgs
     \<and> (\<forall>k<length msgs. \<exists>c. to_hash (cs ! k) = Inr c \<and> placed \<lparr>bi_Height = h, bi_Commitment = c\<rparr> = Some (msgs ! k)))"

definition payloads_ok :: "item list \<Rightarrow> sstate \<Rightarrow> bool" where
  "payloads_ok items s \<longleftrightarrow> (\<forall>item\<in>set items. it_id item < sm_next s \<and> sm_submitted s ! it_id item = it_Payload item)"

definition results_ok :: "(BlobIdentifier \<Rightarrow> bytes option) \<Rightarrow> sstate \<Rightarrow> bool" where
  "results_ok placed s \<longleftrightarrow> (\<forall>j i. sm_results s j = Some (Inr i) \<longrightarrow> j < sm_next s \<and> placed i = Some (sm_submitted s ! j))"

lemma send_results_ok:
  assumes "\<forall>k<length items. \<exists>c. to_hash (cs ! (n + k)) = Inr c \<and> placed \<lparr>bi_Height = h, bi_Commitment = c\<rparr> = Some (it_Payload (items ! k))"
    and "n + length items = length cs" "payloads_ok items s" "results_ok placed s"
  shows "\<exists>s'. send_results cs h n items s = Inr s' \<and> results_ok placed s'"
  using assms
proof (induction items arbitrary: n s)
  case (Cons item items)
  obtain c where c: "to_hash (cs ! n) = Inr c" "placed \<lparr>bi_Height = h, bi_Commitment = c\<rparr> = Some (it_Payload item)"
    using Cons.prems(1) by force
  let ?s = "s\<lparr>sm_results := (sm_results s)(it_id item \<mapsto> Inr \<lparr>bi_Height = h, bi_Commitment = c\<rparr>)\<rparr>"
  have n: "n < length cs" using Cons.prems(2) by simp
  have "\<forall>k<length items. \<exists>c. to_hash (cs ! (n + 1 + k)) = Inr c \<and> placed \<lparr>bi_Height = h, bi_Commitment = c\<rparr> = Some (it_Payload (items ! k))"
  proof (intro allI impI)
    fix k assume "k < length items"
    then show "\<exists>c. to_hash (cs ! (n + 1 + k)) = Inr c \<and> placed \<lparr>bi_Height = h, bi_Commitment = c\<rparr> = Some (it_Payload (items ! k))"
      using Cons.prems(1) [rule_format, of "Suc k"] by simp
  qed
  moreover have "n + 1 + length items = length cs" using Cons.prems(2) by simp
  moreover have "payloads_ok items ?s" using Cons.prems(3) by (simp add: payloads_ok_def)
  moreover have "results_ok placed ?s"
    using Cons.prems(3,4) c(2) by (auto simp: results_ok_def payloads_ok_def)
  ultimately obtain s' where "send_results cs h (n + 1) items ?s = Inr s'" "results_ok placed s'"
    using Cons.IH [of "n + 1" ?s] by blast
  with c(1) n show ?case by (simp add: index_of_def)
qed simp

lemma submitBatch_ok:
  assumes "store_ok placed store" "payloads_ok batch s" "results_ok placed s"
  shows "\<exists>s'. submitBatch store batch s = Inr s' \<and> results_ok placed s' \<and> sm_submitted s' = sm_submitted s"
proof -
  let ?s = "s\<lparr>sm_stored := sm_stored s @ [batch]\<rparr>"
  have "\<exists>s'. submitBatch store batch s = Inr s' \<and> results_ok placed s'"
  proof (cases "store (map it_Payload batch)")
    case (Inl e)
    have "results_ok placed (send_error e items s)" if "results_ok placed s" for items s
      unfolding results_ok_def
    proof (intro allI impI)
      fix j i assume "sm_results (send_error e items s) j = Some (Inr i)"
      moreover have "fold (\<lambda>item r. r(it_id item \<mapsto> Inl e)) items r j = Some (Inr i) \<Longrightarrow> r j = Some (Inr i)"
        for r :: "nat \<rightharpoonup> BlobIdentifier result"
        by (induction items arbitrary: r) (fastforce split: if_splits)+
      ultimately have "sm_results s j = Some (Inr i)" by (simp add: send_error_def)
      with that show "j < sm_next (send_error e items s) \<and> placed i = Some (sm_submitted (send_error e items s) ! j)"
        by (simp add: results_ok_def send_error_def)
    qed
    moreover have "results_ok placed ?s" using assms(3) by (simp add: results_ok_def)
    ultimately show ?thesis using Inl by (simp add: submitBatch_def Let_def)
  next
    case (Inr r)
    then obtain cs h where r: "store (map it_Payload batch) = Inr (cs, h)" by (cases r) simp
    have len: "length cs = length batch"
      and named: "\<forall>k<length batch. \<exists>c. to_hash (cs ! k) = Inr c \<and> placed \<lparr>bi_Height = h, bi_Commitment = c\<rparr> = Some (map it_Payload batch ! k)"
      using assms(1) r unfolding store_ok_def by (metis length_map)+
    have "\<exists>s'. send_results cs h 0 batch ?s = Inr s' \<and> results_ok placed s'"
    proof (rule send_results_ok)
      show "\<forall>k<length batch. \<exists>c. to_hash (cs ! (0 + k)) = Inr c \<and> placed \<lparr>bi_Height = h, bi_Commitment = c\<rparr> = Some (it_Payload (batch ! k))"
        using named by simp
      show "0 + length batch = length cs" using len by simp
      show "payloads_ok batch ?s" using assms(2) by (simp add: payloads_ok_def)
      show "results_ok placed ?s" using assms(3) by (simp add: results_ok_def)
    qed
    with r show ?thesis by (simp add: submitBatch_def Let_def)
  qed
  with submitBatch_effect show ?thesis by fastforce
qed

lemma payloads_ok_sub: "payloads_ok items s \<Longrightarrow> set items' \<subseteq> set items \<Longrightarrow> sm_submitted s' = sm_submitted s \<Longrightarrow> payloads_ok items' s'"
  by (auto simp: payloads_ok_def)

lemma results_ok_frame: "results_ok placed s \<Longrightarrow> sm_results s' = sm_results s \<Longrightarrow> sm_submitted s' = sm_submitted s \<Longrightarrow> results_ok placed s'"
  by (simp add: results_ok_def)

text \<open>Every step but a send or a close on a closed channel succeeds, and keeps the answers right.\<close>

definition answers_ok :: "(BlobIdentifier \<Rightarrow> bytes option) \<Rightarrow> sstate \<Rightarrow> bool" where
  "answers_ok placed s \<longleftrightarrow> payloads_ok (waiting s) s \<and> results_ok placed s"

lemma submit_current_answers:
  assumes "store_ok placed store" "payloads_ok (items @ sm_batch s) s" "results_ok placed s"
  shows "\<exists>s'. submitBatch store (sm_batch s) s = Inr s' \<and> payloads_ok items s' \<and> results_ok placed s'
     \<and> sm_queue s' = sm_queue s \<and> sm_priority s' = sm_priority s"
proof -
  have "payloads_ok (sm_batch s) s" using assms(2) by (rule payloads_ok_sub) auto
  from submitBatch_ok [OF assms(1) this assms(3)] obtain s' where s': "submitBatch store (sm_batch s) s = Inr s'"
    "results_ok placed s'" "sm_submitted s' = sm_submitted s" by blast
  moreover have "payloads_ok items s'" by (rule payloads_ok_sub [OF assms(2)]) (simp_all add: s'(3))
  ultimately show ?thesis using submitBatch_effect [OF s'(1)] by auto
qed

lemma add_item_answers:
  assumes "store_ok placed store" "payloads_ok (item # waiting s) s" "results_ok placed s"
  shows "\<exists>s'. add_item M store item s = Inr s' \<and> answers_ok placed s'"
proof (cases "sm_size s + estimatedItemSize item > M")
  case True
  have "payloads_ok ((item # sm_queue s @ sm_priority s) @ sm_batch s) s"
    using assms(2) by (rule payloads_ok_sub) (auto simp: waiting_def)
  from submit_current_answers [OF assms(1) this assms(3)] obtain s1 where
    s1: "submitBatch store (sm_batch s) s = Inr s1" "payloads_ok (item # sm_queue s @ sm_priority s) s1"
    "results_ok placed s1" "sm_queue s1 = sm_queue s" "sm_priority s1 = sm_priority s" by blast
  let ?s = "s1\<lparr>sm_batch := [item], sm_size := estimatedItemSize item, sm_timer := True\<rparr>"
  have "payloads_ok (waiting ?s) ?s" by (rule payloads_ok_sub [OF s1(2)]) (auto simp: waiting_def s1(4,5))
  moreover have "results_ok placed ?s" by (rule results_ok_frame [OF s1(3)]) simp_all
  ultimately show ?thesis using True s1(1) by (simp add: add_item_def Let_def answers_ok_def)
next
  case False
  let ?s = "s\<lparr>sm_batch := sm_batch s @ [item], sm_size := sm_size s + estimatedItemSize item, sm_timer := True\<rparr>"
  have "payloads_ok (waiting ?s) ?s" by (rule payloads_ok_sub [OF assms(2)]) (auto simp: waiting_def)
  moreover have "results_ok placed ?s" by (rule results_ok_frame [OF assms(3)]) simp_all
  ultimately show ?thesis using False by (simp add: add_item_def Let_def answers_ok_def)
qed

lemma answers_ok_frame:
  "answers_ok placed s \<Longrightarrow> set (waiting s') \<subseteq> set (waiting s) \<Longrightarrow> sm_results s' = sm_results s \<Longrightarrow>
   sm_submitted s' = sm_submitted s \<Longrightarrow> answers_ok placed s'"
  by (auto simp: answers_ok_def payloads_ok_def results_ok_def)

lemma empty_batch_answers:
  assumes "store_ok placed store" "answers_ok placed s"
  obtains s1 where "submitBatch store (sm_batch s) s = Inr s1" "answers_ok placed (s1\<lparr>sm_batch := []\<rparr>)"
proof -
  have p: "payloads_ok ((sm_queue s @ sm_priority s) @ sm_batch s) s" "results_ok placed s"
    using assms(2) by (simp_all add: answers_ok_def waiting_def)
  from submit_current_answers [OF assms(1) p] obtain s1 where
    s1: "submitBatch store (sm_batch s) s = Inr s1" "payloads_ok (sm_queue s @ sm_priority s) s1"
    "results_ok placed s1" "sm_queue s1 = sm_queue s" "sm_priority s1 = sm_priority s" by blast
  then have "answers_ok placed (s1\<lparr>sm_batch := []\<rparr>)" by (simp add: answers_ok_def waiting_def payloads_ok_def results_ok_def)
  with s1(1) show ?thesis by (rule that)
qed

lemma finish_answers:
  assumes "store_ok placed store" "answers_ok placed s"
  shows "\<exists>s'. finish store s = Inr s' \<and> answers_ok placed s'"
proof (cases "sm_batch s = []")
  case True
  have "answers_ok placed (s\<lparr>sm_running := False\<rparr>)" by (rule answers_ok_frame [OF assms(2)]) (simp_all add: waiting_def)
  with True show ?thesis by (simp add: finish_def)
next
  case False
  obtain s1 where s1: "submitBatch store (sm_batch s) s = Inr s1" "answers_ok placed (s1\<lparr>sm_batch := []\<rparr>)"
    by (rule empty_batch_answers [OF assms])
  have "answers_ok placed (s1\<lparr>sm_batch := [], sm_size := 0, sm_running := False\<rparr>)"
    by (rule answers_ok_frame [OF s1(2)]) (simp_all add: waiting_def)
  with s1(1) False show ?thesis by (simp add: finish_def)
qed

lemma flush_answers:
  assumes "store_ok placed store" "answers_ok placed s"
  shows "\<exists>s'. flush store s = Inr s' \<and> answers_ok placed s'"
proof (cases "sm_batch s = []")
  case True
  have "answers_ok placed (s\<lparr>sm_timer := False\<rparr>)" by (rule answers_ok_frame [OF assms(2)]) (simp_all add: waiting_def)
  with True show ?thesis by (simp add: flush_def)
next
  case False
  obtain s1 where s1: "submitBatch store (sm_batch s) s = Inr s1" "answers_ok placed (s1\<lparr>sm_batch := []\<rparr>)"
    by (rule empty_batch_answers [OF assms])
  have "answers_ok placed (s1\<lparr>sm_batch := [], sm_size := 0, sm_timer := False\<rparr>)"
    by (rule answers_ok_frame [OF s1(2)]) (simp_all add: waiting_def)
  with s1(1) False show ?thesis by (simp add: flush_def)
qed

lemma answers_ok_submit:
  assumes "answers_ok placed s" "item = \<lparr>it_id = sm_next s, it_Payload = payload\<rparr>" "set (waiting s') = insert item (set (waiting s))"
    and "sm_results s' = sm_results s" "sm_submitted s' = sm_submitted s @ [payload]"
  shows "answers_ok placed s'"
  using assms by (fastforce simp: answers_ok_def payloads_ok_def results_ok_def nth_append)

lemma sm_step_answers:
  assumes "sm_step M store s r" "store_ok placed store" "answers_ok placed s"
  shows "(\<exists>s'. r = Inr s' \<and> answers_ok placed s') \<or> r = Inl (Panic ''send on closed channel'') \<or> r = Inl (Panic ''close of closed channel'')"
  using assms
proof (induction rule: sm_step.induct)
  case (Submit item s payload)
  then show ?case using answers_ok_submit [of placed s item payload] by (simp add: waiting_def)
next
  case (SubmitWithPriority item s payload)
  then show ?case using answers_ok_submit [of placed s item payload] by (simp add: waiting_def)
next
  case (SubmitCancelled s payload)
  then show ?case by (auto simp: answers_ok_def payloads_ok_def results_ok_def waiting_def nth_append less_Suc_eq)
next
  case (TakePriority s item items)
  let ?s = "s\<lparr>sm_priority := items\<rparr>"
  have "payloads_ok (item # waiting ?s) ?s"
    using TakePriority by (auto simp: answers_ok_def payloads_ok_def waiting_def)
  moreover have "results_ok placed ?s" using TakePriority by (simp add: answers_ok_def results_ok_def)
  ultimately show ?case using add_item_answers [OF TakePriority.prems(1)] by blast
next
  case (Take s item items)
  let ?s = "s\<lparr>sm_queue := items\<rparr>"
  have "payloads_ok (item # waiting ?s) ?s"
    using Take by (auto simp: answers_ok_def payloads_ok_def waiting_def)
  moreover have "results_ok placed ?s" using Take by (simp add: answers_ok_def results_ok_def)
  ultimately show ?case using add_item_answers [OF Take.prems(1)] by blast
next
  case (QueueClosed s)
  then show ?case using finish_answers by blast
next
  case (Cancelled s)
  then show ?case using finish_answers by blast
next
  case (Tick s)
  then show ?case using flush_answers by blast
next
  case (CloseQueue s)
  have "answers_ok placed (s\<lparr>sm_queueClosed := True\<rparr>)" by (rule answers_ok_frame [OF CloseQueue.prems(2)]) (simp_all add: waiting_def)
  then show ?case by simp
next
  case (ClosePriority s)
  have "answers_ok placed (s\<lparr>sm_priorityClosed := True\<rparr>)" by (rule answers_ok_frame [OF ClosePriority.prems(2)]) (simp_all add: waiting_def)
  then show ?case by simp
next
  case (Cancel s)
  have "answers_ok placed (s\<lparr>sm_cancelled := True\<rparr>)" by (rule answers_ok_frame [OF Cancel.prems(2)]) (simp_all add: waiting_def)
  then show ?case by simp
next
  case (PriorityClosed s)
  have "answers_ok placed (s\<lparr>sm_prioNil := True\<rparr>)" by (rule answers_ok_frame [OF PriorityClosed.prems(2)]) (simp_all add: waiting_def)
  then show ?case by simp
qed simp_all

lemma sm_reach_answers:
  assumes "sm_reach M S s" "\<And>store. store \<in> S \<Longrightarrow> store_ok placed store"
  shows "answers_ok placed s"
  using assms(1)
proof (induction rule: sm_reach.induct)
  case Start
  then show ?case by (simp add: answers_ok_def payloads_ok_def results_ok_def NewSubmitter_def waiting_def)
next
  case (Step s store s')
  from sm_step_answers [OF Step.hyps(3) assms(2) [OF Step.hyps(2)] Step.IH] show ?case by simp
qed

end
