(* ===== verification/Paths.thy ===== *)
theory Paths
  imports Blob
begin

text \<open>
  The functions of Go's \<open>path/filepath\<close> and \<open>strings\<close> on Unix that the code applies to paths: splitting
  and joining at a separator, \<open>Clean\<close>, \<open>Join\<close>, \<open>Dir\<close>, \<open>Base\<close> and \<open>Rel\<close>. A path is its bytes.
\<close>

abbreviation slash :: byte where "slash \<equiv> 47"

section \<open>Splitting and joining\<close>

fun split_on :: "'a \<Rightarrow> 'a list \<Rightarrow> 'a list list" where
  "split_on c [] = [[]]"
| "split_on c (x # xs) = (if x = c then [] # split_on c xs
     else (case split_on c xs of [] \<Rightarrow> [[x]] | w # ws \<Rightarrow> (x # w) # ws))"

fun join_with :: "'a \<Rightarrow> 'a list list \<Rightarrow> 'a list" where
  "join_with c [] = []"
| "join_with c [w] = w"
| "join_with c (w # ws) = w @ c # join_with c ws"

lemma split_on_not_Nil [simp]: "split_on c xs \<noteq> []"
  by (cases xs) (auto split: list.splits)

lemma join_with_Cons: "ws \<noteq> [] \<Longrightarrow> join_with c (w # ws) = w @ c # join_with c ws"
  by (cases ws) simp_all

lemma join_split [simp]: "join_with c (split_on c xs) = xs"
proof (induction xs)
  case (Cons x xs)
  obtain w ws where s: "split_on c xs = w # ws" using split_on_not_Nil [of c xs] by (cases "split_on c xs") auto
  with Cons.IH show ?case by (cases ws) auto
qed simp

lemma split_on_word [simp]: "c \<notin> set w \<Longrightarrow> split_on c w = [w]"
  by (induction w) auto

lemma split_on_append: "c \<notin> set w \<Longrightarrow> split_on c (w @ c # xs) = w # split_on c xs"
  by (induction w) auto

lemma split_join: "ws \<noteq> [] \<Longrightarrow> \<forall>w\<in>set ws. c \<notin> set w \<Longrightarrow> split_on c (join_with c ws) = ws"
proof (induction ws)
  case (Cons w ws)
  then show ?case by (cases ws) (simp_all add: split_on_append)
qed simp

lemma split_on_words: "w \<in> set (split_on c xs) \<Longrightarrow> c \<notin> set w"
proof (induction xs arbitrary: w)
  case (Cons x xs)
  obtain v vs where "split_on c xs = v # vs" using split_on_not_Nil [of c xs] by (cases "split_on c xs") auto
  with Cons show ?case by (auto split: if_splits)
qed simp

lemma split_on_concat: "split_on c (xs @ c # ys) = split_on c xs @ split_on c ys"
proof (induction xs)
  case (Cons x xs)
  obtain v vs where "split_on c xs = v # vs" using split_on_not_Nil [of c xs] by (cases "split_on c xs") auto
  with Cons show ?case by simp
qed simp

section \<open>Cleaning\<close>

text \<open>
  Empty elements and \<open>.\<close> are dropped, \<open>..\<close> drops the element before it; at the root it is dropped, and
  at the start of a relative path it stays.
\<close>

abbreviation dot :: bytes where "dot \<equiv> [46]"
abbreviation dotdot :: bytes where "dotdot \<equiv> [46, 46]"

definition rooted :: "bytes \<Rightarrow> bool" where
  "rooted p \<longleftrightarrow> p \<noteq> [] \<and> hd p = slash"

definition clean_step :: "bool \<Rightarrow> bytes \<Rightarrow> bytes list \<Rightarrow> bytes list" where
  "clean_step r w stack =
     (if w = [] \<or> w = dot then stack
      else if w = dotdot then
        (case stack of [] \<Rightarrow> (if r then [] else [dotdot])
         | prev # rest \<Rightarrow> if prev = dotdot then dotdot # stack else rest)
      else w # stack)"

definition clean_words :: "bool \<Rightarrow> bytes list \<Rightarrow> bytes list" where
  "clean_words r ws = rev (fold (clean_step r) ws [])"

definition elements :: "bytes \<Rightarrow> bytes list" where
  "elements p = clean_words (rooted p) (split_on slash p)"

definition rebuild :: "bool \<Rightarrow> bytes list \<Rightarrow> bytes" where
  "rebuild r ws = (if r then slash # join_with slash ws else if join_with slash ws = [] then dot else join_with slash ws)"

definition path_Clean :: "bytes \<Rightarrow> bytes" where
  "path_Clean p = rebuild (rooted p) (elements p)"

definition path_Join :: "bytes \<Rightarrow> bytes \<Rightarrow> bytes" where
  "path_Join a b = (if a \<noteq> [] then path_Clean (a @ slash # b) else if b \<noteq> [] then path_Clean b else [])"

definition path_Dir :: "bytes \<Rightarrow> bytes" where
  "path_Dir p = path_Clean (rev (dropWhile (\<lambda>c. c \<noteq> slash) (rev p)))"

definition path_Base :: "bytes \<Rightarrow> bytes" where
  "path_Base p =
     (if p = [] then dot
      else let p = rev (dropWhile (\<lambda>c. c = slash) (rev p)) in
        if p = [] then [slash] else last (split_on slash p))"

text \<open>\<open>Rel\<close>: the words of the two cleaned paths without their common beginning.\<close>

fun drop_common :: "'a list \<Rightarrow> 'a list \<Rightarrow> 'a list \<times> 'a list" where
  "drop_common (x # xs) (y # ys) = (if x = y then drop_common xs ys else (x # xs, y # ys))"
| "drop_common xs ys = (xs, ys)"

definition path_words :: "bytes \<Rightarrow> bytes list" where
  "path_words p = (if p = [] \<or> p = [slash] then [] else split_on slash (if rooted p then tl p else p))"

definition path_Rel :: "bytes \<Rightarrow> bytes \<Rightarrow> bytes result" where
  "path_Rel basePath targPath =
     (let base = path_Clean basePath; targ = path_Clean targPath in
      if targ = base then Inr dot
      else let base = (if base = dot then [] else base) in
        if rooted base \<noteq> rooted targ then Inl (Ext ''Rel: can't make path relative'')
        else case drop_common (path_words base) (path_words targ) of
          (up, down) \<Rightarrow>
            if up \<noteq> [] \<and> down \<noteq> [] \<and> hd up = dotdot then Inl (Ext ''Rel: can't make path relative'')
            else Inr (join_with slash (replicate (length up) dotdot @ down)))"

section \<open>A clean path is its elements\<close>

definition plain :: "bytes \<Rightarrow> bool" where
  "plain w \<longleftrightarrow> w \<noteq> [] \<and> w \<noteq> dot \<and> w \<noteq> dotdot \<and> slash \<notin> set w"

definition clean_elements :: "bool \<Rightarrow> bytes list \<Rightarrow> bool" where
  "clean_elements r ws \<longleftrightarrow> (\<exists>n vs. ws = replicate n dotdot @ vs \<and> (\<forall>v\<in>set vs. plain v) \<and> (r \<longrightarrow> n = 0))"

lemma clean_step_ok:
  assumes "clean_elements r (rev stack)" "slash \<notin> set w"
  shows "clean_elements r (rev (clean_step r w stack))"
proof -
  obtain n vs where ws: "rev stack = replicate n dotdot @ vs" "\<forall>v\<in>set vs. plain v" "r \<longrightarrow> n = 0"
    using assms(1) by (auto simp: clean_elements_def)
  consider "w = [] \<or> w = dot" | "w = dotdot" "vs = []" | u v where "w = dotdot" "vs = u @ [v]" | "plain w"
    using assms(2) by (cases vs rule: rev_cases) (auto simp: plain_def)
  then show ?thesis
  proof cases
    case 1
    with assms(1) show ?thesis by (simp add: clean_step_def)
  next
    case 2
    then have "rev stack = rev (replicate n dotdot)" using ws(1) by simp
    then have st: "stack = replicate n dotdot" by (simp only: rev_is_rev_conv)
    show ?thesis
    proof (cases n)
      case 0
      have "clean_elements r (if r then [] else [dotdot])"
        unfolding clean_elements_def by (intro exI [of _ "if r then 0 else 1"] exI [of _ "[]"]) simp
      with 0 2 st show ?thesis by (simp add: clean_step_def split: if_splits)
    next
      case (Suc k)
      then have "clean_step r w stack = replicate (Suc n) dotdot" using 2 st by (simp add: clean_step_def)
      then have "rev (clean_step r w stack) = replicate (Suc n) dotdot" by (simp only: rev_replicate)
      then show ?thesis using ws(3) Suc
        unfolding clean_elements_def by (intro exI [of _ "Suc n"] exI [of _ "[]"]) simp
    qed
  next
    case (3 u v)
    have "rev (rev stack) = rev (replicate n dotdot @ u @ [v])" using ws(1) 3 by simp
    then have "stack = v # rev u @ replicate n dotdot" by simp
    moreover have "plain v" using ws(2) 3 by simp
    ultimately have "rev (clean_step r w stack) = replicate n dotdot @ u" using 3 by (simp add: clean_step_def plain_def)
    then show ?thesis using ws(2,3) 3 unfolding clean_elements_def by auto
  next
    case 4
    then have "rev (clean_step r w stack) = replicate n dotdot @ (vs @ [w])" using ws(1) by (simp add: clean_step_def plain_def)
    moreover have "\<forall>v\<in>set (vs @ [w]). plain v" using ws(2) 4 by simp
    ultimately show ?thesis using ws(3) unfolding clean_elements_def by blast
  qed
qed

lemma fold_clean_ok:
  "clean_elements r (rev stack) \<Longrightarrow> \<forall>w\<in>set ws. slash \<notin> set w \<Longrightarrow> clean_elements r (rev (fold (clean_step r) ws stack))"
  by (induction ws arbitrary: stack) (simp_all add: clean_step_ok)

lemma clean_elements_Nil: "clean_elements r []"
  by (simp add: clean_elements_def)

lemma elements_clean: "clean_elements (rooted p) (elements p)"
  unfolding elements_def clean_words_def by (rule fold_clean_ok) (auto simp: clean_elements_Nil dest: split_on_words)

text \<open>Cleaning keeps clean elements.\<close>

lemma fold_plain: "\<forall>w\<in>set ws. plain w \<Longrightarrow> fold (clean_step r) ws stack = rev ws @ stack"
  by (induction ws arbitrary: stack) (auto simp: clean_step_def plain_def)

lemma fold_dotdots: "\<not> r \<Longrightarrow> fold (clean_step r) (replicate n dotdot) (replicate k dotdot) = replicate (n + k) dotdot"
proof (induction n arbitrary: k)
  case (Suc n)
  then have "clean_step r dotdot (replicate k dotdot) = replicate (Suc k) dotdot"
    by (cases k) (simp_all add: clean_step_def)
  with Suc show ?case using Suc.IH [of "Suc k"] by simp
qed simp

lemma clean_words_clean: "clean_elements r ws \<Longrightarrow> clean_words r ws = ws"
proof -
  assume "clean_elements r ws"
  then obtain n vs where ws: "ws = replicate n dotdot @ vs" "\<forall>v\<in>set vs. plain v" "r \<longrightarrow> n = 0"
    by (auto simp: clean_elements_def)
  have "fold (clean_step r) (replicate n dotdot) [] = replicate n dotdot"
    using ws(3) fold_dotdots [of r n 0] by (cases r) simp_all
  then show ?thesis using ws(1,2) by (simp add: clean_words_def fold_plain)
qed

lemma clean_elements_words:
  assumes "clean_elements r ws" "w \<in> set ws"
  shows "w \<noteq> [] \<and> w \<noteq> dot \<and> slash \<notin> set w"
proof -
  obtain n vs where ws: "ws = replicate n dotdot @ vs" "\<forall>v\<in>set vs. plain v" using assms(1) unfolding clean_elements_def by blast
  have "w \<in> set (replicate n dotdot) \<or> w \<in> set vs" using assms(2) unfolding ws(1) by simp
  then have "w = dotdot \<or> plain w" using ws(2) by (simp only: in_set_replicate) blast
  then show ?thesis unfolding plain_def by (elim disjE) simp_all
qed

lemma clean_words_skip: "clean_words r ([] # ws) = clean_words r ws"
  by (simp add: clean_words_def clean_step_def)

lemma join_with_Nil: "\<forall>w\<in>set ws. w \<noteq> [] \<Longrightarrow> join_with c ws = [] \<longleftrightarrow> ws = []"
proof (cases ws)
  case (Cons w vs)
  assume "\<forall>w\<in>set ws. w \<noteq> []"
  with Cons show ?thesis by (cases vs) simp_all
qed simp

lemma hd_join: "ws \<noteq> [] \<Longrightarrow> hd ws \<noteq> [] \<Longrightarrow> hd (join_with c ws) = hd (hd ws)"
proof (cases ws)
  case (Cons w vs)
  assume "hd ws \<noteq> []"
  with Cons show ?thesis by (cases vs) simp_all
qed simp

lemma elements_rebuild:
  assumes "clean_elements r ws"
  shows "elements (rebuild r ws) = ws \<and> rooted (rebuild r ws) = r"
proof (cases "ws = []")
  case True
  then show ?thesis by (simp add: rebuild_def rooted_def elements_def clean_words_def clean_step_def)
next
  case False
  let ?body = "join_with slash ws"
  have words: "w \<noteq> [] \<and> w \<noteq> dot \<and> slash \<notin> set w" if "w \<in> set ws" for w using clean_elements_words [OF assms that] .
  then have body: "?body \<noteq> []" using False by (subst join_with_Nil) auto
  have "hd ws \<in> set ws" using False by simp
  with words have "hd ws \<noteq> []" "slash \<notin> set (hd ws)" by blast+
  then have "hd ?body \<noteq> slash" using False hd_join [of ws slash] hd_in_set [of "hd ws"] by metis
  with body have root: "rooted (rebuild r ws) = r" by (simp add: rebuild_def rooted_def)
  have split: "split_on slash ?body = ws" by (rule split_join [OF False]) (use words in blast)
  have "clean_words r (split_on slash (rebuild r ws)) = ws"
    using clean_words_clean [OF assms] split body by (cases r) (simp_all add: rebuild_def clean_words_skip)
  with root show ?thesis by (simp add: elements_def)
qed

lemma elements_Clean [simp]: "elements (path_Clean p) = elements p"
  and rooted_Clean [simp]: "rooted (path_Clean p) = rooted p"
  using elements_rebuild [OF elements_clean [of p]] by (simp_all add: path_Clean_def)

lemma path_Clean_idem [simp]: "path_Clean (path_Clean p) = path_Clean p"
  unfolding path_Clean_def [of "path_Clean p"] elements_Clean rooted_Clean by (simp only: path_Clean_def)

text \<open>Two paths are cleaned alike when they agree on the root and on the elements.\<close>

lemma path_Clean_eq: "path_Clean p = path_Clean q \<longleftrightarrow> rooted p = rooted q \<and> elements p = elements q"
proof
  assume "path_Clean p = path_Clean q"
  then have "elements (path_Clean p) = elements (path_Clean q)" "rooted (path_Clean p) = rooted (path_Clean q)" by simp_all
  then show "rooted p = rooted q \<and> elements p = elements q" by simp
next
  assume "rooted p = rooted q \<and> elements p = elements q"
  then show "path_Clean p = path_Clean q" by (simp add: path_Clean_def)
qed

section \<open>Joined paths\<close>

definition downward :: "bytes \<Rightarrow> bool" where
  "downward p \<longleftrightarrow> dotdot \<notin> set (split_on slash p)"

lemma fold_downward:
  "\<forall>w\<in>set ws. slash \<notin> set w \<and> w \<noteq> dotdot \<Longrightarrow> fold (clean_step r) ws stack = rev (filter plain ws) @ stack"
  by (induction ws arbitrary: stack) (auto simp: clean_step_def plain_def)

lemma elements_Join:
  assumes "a \<noteq> []" "downward b"
  shows "elements (path_Join a b) = elements a @ filter plain (split_on slash b)" and "rooted (path_Join a b) = rooted a"
proof -
  have words: "\<forall>w\<in>set (split_on slash b). slash \<notin> set w \<and> w \<noteq> dotdot"
    using assms(2) by (auto simp: downward_def dest: split_on_words)
  have root: "rooted (a @ slash # b) = rooted a" using assms(1) by (simp add: rooted_def)
  then have "elements (a @ slash # b) = elements a @ filter plain (split_on slash b)"
    using fold_downward [OF words] by (simp add: elements_def clean_words_def split_on_concat)
  with assms(1) root show "elements (path_Join a b) = elements a @ filter plain (split_on slash b)"
    "rooted (path_Join a b) = rooted a" by (simp_all add: path_Join_def)
qed

end
