(* ===== verification/Block.thy ===== *)
theory Block
  imports Blob
begin

text \<open>
  \<open>pkg/types/block.go\<close>: blocks, their byte encoding and decoding, their protobuf form, the
  construction of a block from its identifiers, and the header hash with its process-wide
  cache keyed by height.
\<close>

record BlockHeader =
  bh_Version :: u32
  bh_ChainID :: bytes
  bh_Height :: u64
  bh_CelestiaBlockHeight :: u64
  bh_Timestamp :: gotime
  bh_ParentHash :: hash
  bh_DirsRoot :: hash
  bh_FilesRoot :: hash
  bh_ChunksRoot :: hash
  bh_StateRoot :: hash

record BlockBody =
  bb_Dirs :: "BlobIdentifier list"
  bb_Files :: "BlobIdentifier list"
  bb_Chunks :: "BlobIdentifier list"

record Block =
  b_Header :: BlockHeader
  b_Body :: BlockBody

section \<open>Construction\<close>

definition gotime_zero :: gotime where
  "gotime_zero = \<lparr>unix_sec = - 62135596800, nsec = 0\<rparr>"

definition bh_zero :: BlockHeader where
  "bh_zero = \<lparr>bh_Version = 0, bh_ChainID = [], bh_Height = 0, bh_CelestiaBlockHeight = 0,
     bh_Timestamp = gotime_zero, bh_ParentHash = 0, bh_DirsRoot = 0, bh_FilesRoot = 0,
     bh_ChunksRoot = 0, bh_StateRoot = 0\<rparr>"

definition CopyBlockHeader :: "BlockHeader \<Rightarrow> BlockHeader" where
  "CopyBlockHeader bh = \<lparr>bh_Version = bh_Version bh, bh_ChainID = bh_ChainID bh,
     bh_Height = bh_Height bh, bh_CelestiaBlockHeight = bh_CelestiaBlockHeight bh,
     bh_Timestamp = bh_Timestamp bh, bh_ParentHash = bh_ParentHash bh,
     bh_DirsRoot = bh_DirsRoot bh, bh_FilesRoot = bh_FilesRoot bh,
     bh_ChunksRoot = bh_ChunksRoot bh, bh_StateRoot = bh_StateRoot bh\<rparr>"

definition NewBlockFromHeader ::
  "blake3 \<Rightarrow> BlockHeader \<Rightarrow> BlobIdentifier list \<Rightarrow> BlobIdentifier list \<Rightarrow> BlobIdentifier list \<Rightarrow> Block"
where
  "NewBlockFromHeader B header dirs files chunks =
     \<lparr>b_Header = (CopyBlockHeader header)\<lparr>bh_Version := 1,
        bh_DirsRoot := BlobIdentifiersMerkleRoot B dirs,
        bh_FilesRoot := BlobIdentifiersMerkleRoot B files,
        bh_ChunksRoot := BlobIdentifiersMerkleRoot B chunks\<rparr>,
      b_Body = \<lparr>bb_Dirs = dirs, bb_Files = files, bb_Chunks = chunks\<rparr>\<rparr>"

definition NewBlock ::
  "blake3 \<Rightarrow> BlobIdentifier list \<Rightarrow> BlobIdentifier list \<Rightarrow> BlobIdentifier list \<Rightarrow> Block" where
  "NewBlock B dirs files chunks = NewBlockFromHeader B bh_zero dirs files chunks"

definition b_Height :: "Block \<Rightarrow> u64" where
  "b_Height b = bh_Height (b_Header b)"

section \<open>Encoding\<close>

definition bh_Bytes :: "BlockHeader \<Rightarrow> bytes" where
  "bh_Bytes bh = BytesFromUint32 (bh_Version bh) @ BytesFromShortString (bh_ChainID bh)
     @ BytesFromUint64 (bh_Height bh) @ BytesFromUint64 (bh_CelestiaBlockHeight bh)
     @ BytesFromTime (bh_Timestamp bh) @ hash_Bytes (bh_ParentHash bh)
     @ hash_Bytes (bh_DirsRoot bh) @ hash_Bytes (bh_FilesRoot bh)
     @ hash_Bytes (bh_ChunksRoot bh) @ hash_Bytes (bh_StateRoot bh)"

definition bb_Bytes :: "BlockBody \<Rightarrow> bytes" where
  "bb_Bytes bb = BytesFromUint32 (of_nat (length (bb_Dirs bb)))
     @ BytesFromUint32 (of_nat (length (bb_Files bb)))
     @ BytesFromUint32 (of_nat (length (bb_Chunks bb)))
     @ concat (map bi_Bytes (bb_Dirs bb)) @ concat (map bi_Bytes (bb_Files bb))
     @ concat (map bi_Bytes (bb_Chunks bb))"

definition b_Bytes :: "Block \<Rightarrow> bytes" where
  "b_Bytes b = (let headerBytes = bh_Bytes (b_Header b)
     in BytesFromUint32 (of_nat (length headerBytes)) @ headerBytes @ bb_Bytes (b_Body b))"

section \<open>Decoding\<close>

text \<open>One field at \<open>offset\<close>: the slice of its width, read, and the offset after it.\<close>

definition read_field :: "(bytes \<Rightarrow> 'a result) \<Rightarrow> nat \<Rightarrow> bytes \<Rightarrow> nat \<Rightarrow> ('a \<times> nat) result" where
  "read_field rd w b offset =
     rbind (slice_of b offset (offset + w)) (\<lambda>s. rbind (rd s) (\<lambda>x. Inr (x, offset + w)))"

definition BlockHeaderFromBytes :: "bytes \<Rightarrow> BlockHeader result" where
  "BlockHeaderFromBytes b =
     rbind (read_field Uint32FromBytes 4 b 0) (\<lambda>(version, offset).
     rbind (index_of b offset) (\<lambda>n.
     let chainIdLength = unat n; offset = offset + 1 in
     rbind (slice_of b (offset - 1) (offset + chainIdLength)) (\<lambda>cs.
     let chainID = ShortStringFromBytes cs; offset = offset + chainIdLength in
     rbind (read_field Uint64FromBytes 8 b offset) (\<lambda>(height, offset).
     rbind (read_field Uint64FromBytes 8 b offset) (\<lambda>(celestia, offset).
     rbind (read_field Uint64FromBytes 8 b offset) (\<lambda>(secs, offset).
     rbind (read_field to_hash 32 b offset) (\<lambda>(parent, offset).
     rbind (read_field to_hash 32 b offset) (\<lambda>(dirs, offset).
     rbind (read_field to_hash 32 b offset) (\<lambda>(files, offset).
     rbind (read_field to_hash 32 b offset) (\<lambda>(chunks, offset).
     rbind (read_field to_hash 32 b offset) (\<lambda>(state, offset).
     Inr \<lparr>bh_Version = version, bh_ChainID = chainID, bh_Height = height,
       bh_CelestiaBlockHeight = celestia, bh_Timestamp = \<lparr>unix_sec = secs, nsec = 0\<rparr>,
       bh_ParentHash = parent, bh_DirsRoot = dirs, bh_FilesRoot = files,
       bh_ChunksRoot = chunks, bh_StateRoot = state\<rparr>)))))))))))"

text \<open>The loops that read \<open>n\<close> identifiers of 40 bytes each.\<close>

fun read_ids :: "nat \<Rightarrow> bytes \<Rightarrow> nat \<Rightarrow> (BlobIdentifier list \<times> nat) result" where
  "read_ids 0 b offset = Inr ([], offset)"
| "read_ids (Suc n) b offset =
     rbind (read_field BlobIdentifierFromBytes 40 b offset) (\<lambda>(x, offset).
     rbind (read_ids n b offset) (\<lambda>(xs, offset). Inr (x # xs, offset)))"

definition BlockBodyFromBytes :: "bytes \<Rightarrow> BlockBody result" where
  "BlockBodyFromBytes b =
     rbind (read_field Uint32FromBytes 4 b 0) (\<lambda>(dirsCount, offset).
     rbind (read_field Uint32FromBytes 4 b offset) (\<lambda>(filesCount, offset).
     rbind (read_field Uint32FromBytes 4 b offset) (\<lambda>(chunksCount, offset).
     rbind (read_ids (unat dirsCount) b offset) (\<lambda>(dirs, offset).
     rbind (read_ids (unat filesCount) b offset) (\<lambda>(files, offset).
     rbind (read_ids (unat chunksCount) b offset) (\<lambda>(chunks, offset).
     Inr \<lparr>bb_Dirs = dirs, bb_Files = files, bb_Chunks = chunks\<rparr>))))))"

text \<open>\<open>4+headerLength\<close> is computed in \<open>uint32\<close>.\<close>

definition BlockFromBytes :: "bytes \<Rightarrow> Block result" where
  "BlockFromBytes b =
     rbind (slice_of b 0 4) (\<lambda>lb. rbind (Uint32FromBytes lb) (\<lambda>headerLength.
     rbind (slice_of b 4 (unat (4 + headerLength))) (\<lambda>hb.
     rbind (BlockHeaderFromBytes hb) (\<lambda>header.
     rbind (slice_of b (unat (4 + headerLength)) (length b)) (\<lambda>bb.
     rbind (BlockBodyFromBytes bb) (\<lambda>body.
     Inr \<lparr>b_Header = header, b_Body = body\<rparr>))))))"

section \<open>Round trips\<close>

text \<open>What the encoding keeps of a header: 255 bytes of chain id, whole seconds.\<close>

definition bh_canon :: "BlockHeader \<Rightarrow> BlockHeader" where
  "bh_canon bh = bh\<lparr>bh_ChainID := take 255 (bh_ChainID bh),
     bh_Timestamp := (bh_Timestamp bh)\<lparr>nsec := 0\<rparr>\<rparr>"

definition b_canon :: "Block \<Rightarrow> Block" where
  "b_canon b = b\<lparr>b_Header := bh_canon (b_Header b)\<rparr>"

text \<open>The counts of the body fit the 32 bits they are written in.\<close>

definition bb_fits :: "BlockBody \<Rightarrow> bool" where
  "bb_fits bb \<longleftrightarrow> length (bb_Dirs bb) < 2 ^ 32 \<and> length (bb_Files bb) < 2 ^ 32
     \<and> length (bb_Chunks bb) < 2 ^ 32"

lemma read_field_append:
  assumes "offset = length a" "length x = w" "rd x = Inr v"
  shows "read_field rd w (a @ x @ c) offset = Inr (v, offset + w)"
  using assms by (simp add: read_field_def)

lemma read_field_at:
  assumes "b = a @ x @ c" "offset = length a" "length x = w" "rd x = Inr v" "offset' = offset + w"
  shows "read_field rd w b offset = Inr (v, offset')"
  using assms by (simp add: read_field_append)

lemma read_ids_append:
  "offset = length a \<Longrightarrow>
   read_ids (length xs) (a @ concat (map bi_Bytes xs) @ c) offset = Inr (xs, offset + 40 * length xs)"
proof (induction xs arbitrary: a offset)
  case (Cons x xs)
  have "read_field BlobIdentifierFromBytes 40 (a @ bi_Bytes x @ (concat (map bi_Bytes xs) @ c)) offset
      = Inr (x, offset + 40)"
    using Cons.prems by (intro read_field_append) simp_all
  moreover have "read_ids (length xs) ((a @ bi_Bytes x) @ concat (map bi_Bytes xs) @ c) (offset + 40)
      = Inr (xs, offset + 40 + 40 * length xs)"
    using Cons.prems by (intro Cons.IH) simp
  ultimately show ?case by simp
qed simp

lemma read_ids_at:
  assumes "b = a @ concat (map bi_Bytes xs) @ c" "offset = length a" "n = length xs"
  shows "read_ids n b offset = Inr (xs, offset + 40 * n)"
  using assms read_ids_append by simp

lemma length_ids [simp]: "length (concat (map bi_Bytes xs)) = 40 * length xs"
  using blob_id.concat_length [of xs] by simp

lemma unat_count [simp]: "n < 2 ^ 32 \<Longrightarrow> unat (of_nat n :: u32) = n"
  by (simp add: unat_of_nat take_bit_nat_eq_self)

lemma BlockBodyFromBytes_bb_Bytes:
  assumes "bb_fits bb"
  shows "BlockBodyFromBytes (bb_Bytes bb) = Inr bb"
proof -
  let ?d = "BytesFromUint32 (of_nat (length (bb_Dirs bb)))"
  let ?f = "BytesFromUint32 (of_nat (length (bb_Files bb)))"
  let ?c = "BytesFromUint32 (of_nat (length (bb_Chunks bb)))"
  let ?D = "concat (map bi_Bytes (bb_Dirs bb))" and ?F = "concat (map bi_Bytes (bb_Files bb))"
  let ?C = "concat (map bi_Bytes (bb_Chunks bb))" and ?b = "bb_Bytes bb"
  note fits = assms [unfolded bb_fits_def]
  have b: "?b = ?d @ ?f @ ?c @ ?D @ ?F @ ?C" by (simp add: bb_Bytes_def)
  have "read_field Uint32FromBytes 4 ?b 0 = Inr (of_nat (length (bb_Dirs bb)), 4)"
    by (rule read_field_at [of ?b "[]" ?d "?f @ ?c @ ?D @ ?F @ ?C"]) (simp_all add: b)
  moreover have "read_field Uint32FromBytes 4 ?b 4 = Inr (of_nat (length (bb_Files bb)), 8)"
    by (rule read_field_at [of ?b ?d ?f "?c @ ?D @ ?F @ ?C"]) (simp_all add: b)
  moreover have "read_field Uint32FromBytes 4 ?b 8 = Inr (of_nat (length (bb_Chunks bb)), 12)"
    by (rule read_field_at [of ?b "?d @ ?f" ?c "?D @ ?F @ ?C"]) (simp_all add: b)
  moreover have "read_ids (length (bb_Dirs bb)) ?b 12 = Inr (bb_Dirs bb, 12 + 40 * length (bb_Dirs bb))"
    by (rule read_ids_at [of ?b "?d @ ?f @ ?c" _ "?F @ ?C"]) (simp_all add: b)
  moreover have "read_ids (length (bb_Files bb)) ?b (12 + 40 * length (bb_Dirs bb))
      = Inr (bb_Files bb, 12 + 40 * length (bb_Dirs bb) + 40 * length (bb_Files bb))"
    by (rule read_ids_at [of ?b "?d @ ?f @ ?c @ ?D" _ ?C]) (simp_all add: b)
  moreover have "read_ids (length (bb_Chunks bb)) ?b
      (12 + 40 * length (bb_Dirs bb) + 40 * length (bb_Files bb)) = Inr (bb_Chunks bb,
        12 + 40 * length (bb_Dirs bb) + 40 * length (bb_Files bb) + 40 * length (bb_Chunks bb))"
    by (rule read_ids_at [of ?b "?d @ ?f @ ?c @ ?D @ ?F" _ "[]"]) (simp_all add: b)
  ultimately show ?thesis using fits by (simp add: BlockBodyFromBytes_def)
qed

lemma length_short_string [simp]: "length (BytesFromShortString s) = Suc (min (length s) 255)"
  by (simp add: BytesFromShortString_Cons)

lemma length_bh_Bytes: "length (bh_Bytes bh) = 189 + min (length (bh_ChainID bh)) 255"
  by (simp add: bh_Bytes_def)

lemma BlockHeaderFromBytes_bh_Bytes: "BlockHeaderFromBytes (bh_Bytes bh) = Inr (bh_canon bh)"
proof -
  define s where "s = take 255 (bh_ChainID bh)"
  let ?b = "bh_Bytes bh" and ?l = "length s"
  let ?v = "BytesFromUint32 (bh_Version bh)" and ?n = "[of_nat (length s)] :: bytes"
  let ?h = "BytesFromUint64 (bh_Height bh)" and ?c = "BytesFromUint64 (bh_CelestiaBlockHeight bh)"
  let ?t = "BytesFromUint64 (unix_sec (bh_Timestamp bh))" and ?p = "hash_Bytes (bh_ParentHash bh)"
  let ?d = "hash_Bytes (bh_DirsRoot bh)" and ?f = "hash_Bytes (bh_FilesRoot bh)"
  let ?k = "hash_Bytes (bh_ChunksRoot bh)" and ?r = "hash_Bytes (bh_StateRoot bh)"
  let ?pre = "?v @ ?n @ s"
  have "?l < 256" by (simp add: s_def)
  then have n: "unat (of_nat ?l :: byte) = ?l" by (simp add: unat_of_nat take_bit_nat_eq_self)
  have at: "?b = ?v @ ?n @ s @ ?h @ ?c @ ?t @ ?p @ ?d @ ?f @ ?k @ ?r"
    by (simp add: bh_Bytes_def BytesFromShortString_Cons BytesFromTime_def s_def)
  have f1: "read_field Uint32FromBytes 4 ?b 0 = Inr (bh_Version bh, 4)"
    by (rule read_field_at [of _ "[]" ?v]) (simp_all add: at)
  have f2: "index_of ?b 4 = Inr (of_nat ?l)" by (simp add: index_of_def at nth_append)
  have f3: "slice_of ?b 4 (5 + ?l) = Inr (?n @ s)"
    by (rule slice_at [of _ ?v "?n @ s"]) (simp_all add: at)
  have f4: "read_field Uint64FromBytes 8 ?b (5 + ?l) = Inr (bh_Height bh, 13 + ?l)"
    by (rule read_field_at [of _ ?pre ?h]) (simp_all add: at)
  have f5: "read_field Uint64FromBytes 8 ?b (13 + ?l) = Inr (bh_CelestiaBlockHeight bh, 21 + ?l)"
    by (rule read_field_at [of _ "?pre @ ?h" ?c]) (simp_all add: at)
  have f6: "read_field Uint64FromBytes 8 ?b (21 + ?l) = Inr (unix_sec (bh_Timestamp bh), 29 + ?l)"
    by (rule read_field_at [of _ "?pre @ ?h @ ?c" ?t]) (simp_all add: at)
  have f7: "read_field to_hash 32 ?b (29 + ?l) = Inr (bh_ParentHash bh, 61 + ?l)"
    by (rule read_field_at [of _ "?pre @ ?h @ ?c @ ?t" ?p]) (simp_all add: at)
  have f8: "read_field to_hash 32 ?b (61 + ?l) = Inr (bh_DirsRoot bh, 93 + ?l)"
    by (rule read_field_at [of _ "?pre @ ?h @ ?c @ ?t @ ?p" ?d]) (simp_all add: at)
  have f9: "read_field to_hash 32 ?b (93 + ?l) = Inr (bh_FilesRoot bh, 125 + ?l)"
    by (rule read_field_at [of _ "?pre @ ?h @ ?c @ ?t @ ?p @ ?d" ?f]) (simp_all add: at)
  have f10: "read_field to_hash 32 ?b (125 + ?l) = Inr (bh_ChunksRoot bh, 157 + ?l)"
    by (rule read_field_at [of _ "?pre @ ?h @ ?c @ ?t @ ?p @ ?d @ ?f" ?k]) (simp_all add: at)
  have f11: "read_field to_hash 32 ?b (157 + ?l) = Inr (bh_StateRoot bh, 189 + ?l)"
    by (rule read_field_at [of _ "?pre @ ?h @ ?c @ ?t @ ?p @ ?d @ ?f @ ?k" ?r "[]"]) (simp_all add: at)
  show ?thesis
    unfolding BlockHeaderFromBytes_def bh_canon_def s_def [symmetric]
    using f1 f2 f3 f4 f5 f6 f7 f8 f9 f10 f11 n
    by (simp add: Let_def ShortStringFromBytes_def)
qed

lemma BlockFromBytes_b_Bytes:
  assumes "bb_fits (b_Body b)"
  shows "BlockFromBytes (b_Bytes b) = Inr (b_canon b)"
proof -
  let ?h = "bh_Bytes (b_Header b)" and ?bb = "bb_Bytes (b_Body b)"
  let ?l = "BytesFromUint32 (of_nat (length ?h))"
  have len: "length ?h < 2 ^ 32 - 4" by (simp add: length_bh_Bytes)
  have b: "b_Bytes b = ?l @ ?h @ ?bb" by (simp add: b_Bytes_def Let_def)
  have n: "unat (4 + of_nat (length ?h) :: u32) = 4 + length ?h"
    using len by (simp add: unat_word_ariths)
  have s1: "slice_of (b_Bytes b) 0 4 = Inr ?l" by (simp add: b)
  have s2: "slice_of (b_Bytes b) 4 (4 + length ?h) = Inr ?h" by (simp add: b)
  have s3: "slice_of (b_Bytes b) (4 + length ?h) (length (b_Bytes b)) = Inr ?bb"
    using slice_of_suffix [of "4 + length ?h" "?l @ ?h" "length (b_Bytes b)" ?bb] by (simp add: b)
  show ?thesis
    unfolding BlockFromBytes_def using s1 s2 s3 n BlockBodyFromBytes_bb_Bytes [OF assms]
    by (simp add: BlockHeaderFromBytes_bh_Bytes b_canon_def)
qed

text \<open>Re-encoding what was decoded gives the same bytes, hence the same hash input.\<close>

lemma bh_Bytes_canon [simp]: "bh_Bytes (bh_canon bh) = bh_Bytes bh"
  by (simp add: bh_Bytes_def bh_canon_def BytesFromShortString_Cons BytesFromTime_def)

lemma bh_canon_simps [simp]:
  "bh_Version (bh_canon h) = bh_Version h"
  "bh_Height (bh_canon h) = bh_Height h"
  "bh_CelestiaBlockHeight (bh_canon h) = bh_CelestiaBlockHeight h"
  "bh_ParentHash (bh_canon h) = bh_ParentHash h"
  "bh_DirsRoot (bh_canon h) = bh_DirsRoot h"
  "bh_FilesRoot (bh_canon h) = bh_FilesRoot h"
  "bh_ChunksRoot (bh_canon h) = bh_ChunksRoot h"
  "bh_StateRoot (bh_canon h) = bh_StateRoot h"
  by (simp_all add: bh_canon_def)

lemma b_canon_simps [simp]:
  "b_Body (b_canon b) = b_Body b"
  "b_Header (b_canon b) = bh_canon (b_Header b)"
  "b_Height (b_canon b) = b_Height b"
  by (simp_all add: b_canon_def b_Height_def)

lemma bh_Bytes_inj: "bh_Bytes g = bh_Bytes h \<longleftrightarrow> bh_canon g = bh_canon h"
  by (metis BlockHeaderFromBytes_bh_Bytes bh_Bytes_canon sum.inject(2))

section \<open>The header hash and its cache\<close>

text \<open>
  \<open>blockHeaderHashCache\<close> is one map for the whole process. \<open>bh_Hash\<close> returns the hash
  and the cache after the call: a height in the cache is answered from it, whatever the header.
\<close>

type_synonym hash_cache = "u64 \<Rightarrow> hash option"

definition bh_Hash :: "blake3 \<Rightarrow> hash_cache \<Rightarrow> BlockHeader \<Rightarrow> hash \<times> hash_cache" where
  "bh_Hash B cache bh =
     (case cache (bh_Height bh) of
        Some hash \<Rightarrow> (hash, cache)
      | None \<Rightarrow> let hash = HashBytes B [bh_Bytes bh] in (hash, cache(bh_Height bh \<mapsto> hash)))"

definition UpdateHashCache :: "hash_cache \<Rightarrow> BlockHeader \<Rightarrow> hash \<Rightarrow> hash_cache" where
  "UpdateHashCache cache bh hash = cache(bh_Height bh \<mapsto> hash)"

definition b_Hash :: "blake3 \<Rightarrow> hash_cache \<Rightarrow> Block \<Rightarrow> hash \<times> hash_cache" where
  "b_Hash B cache b = bh_Hash B cache (b_Header b)"

text \<open>The header's own hash, without the cache.\<close>

definition header_hash :: "blake3 \<Rightarrow> BlockHeader \<Rightarrow> hash" where
  "header_hash B bh = B (bh_Bytes bh)"

lemma header_hash_canon [simp]: "header_hash B (bh_canon bh) = header_hash B bh"
  by (simp add: header_hash_def)

lemma bh_Hash_fst:
  "fst (bh_Hash B cache bh) = (case cache (bh_Height bh) of Some h \<Rightarrow> h | None \<Rightarrow> header_hash B bh)"
  by (simp add: bh_Hash_def header_hash_def Let_def split: option.splits)

lemma bh_Hash_snd:
  "snd (bh_Hash B cache bh) = cache(bh_Height bh \<mapsto> fst (bh_Hash B cache bh))"
  by (auto simp: bh_Hash_def Let_def fun_eq_iff split: option.splits)

section \<open>Protobuf\<close>

text \<open>
  A protobuf timestamp has seconds and nanoseconds; \<open>timestamppb.New\<close> and \<open>AsTime\<close>
  keep both. Message fields are pointers: \<open>None\<close> is nil.
\<close>

record pbBlockHeader =
  pbh_Version :: u32
  pbh_ChainId :: bytes
  pbh_Height :: u64
  pbh_CelestiaBlockHeight :: u64
  pbh_Timestamp :: gotime
  pbh_ParentHash :: bytes
  pbh_DirsRoot :: bytes
  pbh_FilesRoot :: bytes
  pbh_ChunksRoot :: bytes
  pbh_StateRoot :: bytes

record pbBlockBody =
  pbb_Dirs :: "pbBlobIdentifier list"
  pbb_Files :: "pbBlobIdentifier list"
  pbb_Chunks :: "pbBlobIdentifier list"

record pbBlock =
  pb_Header :: "pbBlockHeader option"
  pb_Body :: "pbBlockBody option"
  pb_Hash :: bytes

definition bh_Proto :: "BlockHeader \<Rightarrow> pbBlockHeader" where
  "bh_Proto bh = \<lparr>pbh_Version = bh_Version bh, pbh_ChainId = bh_ChainID bh,
     pbh_Height = bh_Height bh, pbh_CelestiaBlockHeight = bh_CelestiaBlockHeight bh,
     pbh_Timestamp = bh_Timestamp bh, pbh_ParentHash = hash_Bytes (bh_ParentHash bh),
     pbh_DirsRoot = hash_Bytes (bh_DirsRoot bh), pbh_FilesRoot = hash_Bytes (bh_FilesRoot bh),
     pbh_ChunksRoot = hash_Bytes (bh_ChunksRoot bh), pbh_StateRoot = hash_Bytes (bh_StateRoot bh)\<rparr>"

definition bb_Proto :: "BlockBody \<Rightarrow> pbBlockBody" where
  "bb_Proto bb = \<lparr>pbb_Dirs = map bi_Proto (bb_Dirs bb), pbb_Files = map bi_Proto (bb_Files bb),
     pbb_Chunks = map bi_Proto (bb_Chunks bb)\<rparr>"

definition b_Proto :: "blake3 \<Rightarrow> hash_cache \<Rightarrow> Block \<Rightarrow> pbBlock \<times> hash_cache" where
  "b_Proto B cache b =
     (let (hash, cache') = bh_Hash B cache (b_Header b)
      in (\<lparr>pb_Header = Some (bh_Proto (b_Header b)), pb_Body = Some (bb_Proto (b_Body b)),
           pb_Hash = hash_Bytes hash\<rparr>, cache'))"

definition BlockHeaderFromProto :: "pbBlockHeader option \<Rightarrow> BlockHeader result" where
  "BlockHeaderFromProto p =
     (case p of None \<Rightarrow> Inl (Panic ''nil pointer dereference'')
      | Some m \<Rightarrow>
        rbind (to_hash (pbh_ParentHash m)) (\<lambda>parent.
        rbind (to_hash (pbh_DirsRoot m)) (\<lambda>dirs.
        rbind (to_hash (pbh_FilesRoot m)) (\<lambda>files.
        rbind (to_hash (pbh_ChunksRoot m)) (\<lambda>chunks.
        rbind (to_hash (pbh_StateRoot m)) (\<lambda>state.
        Inr \<lparr>bh_Version = pbh_Version m, bh_ChainID = pbh_ChainId m, bh_Height = pbh_Height m,
          bh_CelestiaBlockHeight = pbh_CelestiaBlockHeight m, bh_Timestamp = pbh_Timestamp m,
          bh_ParentHash = parent, bh_DirsRoot = dirs, bh_FilesRoot = files,
          bh_ChunksRoot = chunks, bh_StateRoot = state\<rparr>))))))"

definition BlockBodyFromProto :: "pbBlockBody option \<Rightarrow> BlockBody result" where
  "BlockBodyFromProto p =
     (case p of None \<Rightarrow> Inl (Panic ''nil pointer dereference'')
      | Some m \<Rightarrow>
        rbind (map_res (\<lambda>x. BlobIdentifierFromProto (Some x)) (pbb_Dirs m)) (\<lambda>dirs.
        rbind (map_res (\<lambda>x. BlobIdentifierFromProto (Some x)) (pbb_Files m)) (\<lambda>files.
        rbind (map_res (\<lambda>x. BlobIdentifierFromProto (Some x)) (pbb_Chunks m)) (\<lambda>chunks.
        Inr \<lparr>bb_Dirs = dirs, bb_Files = files, bb_Chunks = chunks\<rparr>))))"

definition BlockFromProto :: "pbBlock \<Rightarrow> Block result" where
  "BlockFromProto p =
     rbind (BlockHeaderFromProto (pb_Header p)) (\<lambda>header.
     rbind (BlockBodyFromProto (pb_Body p)) (\<lambda>body.
     Inr \<lparr>b_Header = header, b_Body = body\<rparr>))"

lemma map_res_bi_Proto [simp]:
  "map_res (\<lambda>x. BlobIdentifierFromProto (Some x)) (map bi_Proto xs) = Inr xs"
  by (induction xs) auto

lemma BlockFromProto_b_Proto [simp]: "BlockFromProto (fst (b_Proto B cache b)) = Inr b"
  by (simp add: BlockFromProto_def b_Proto_def BlockHeaderFromProto_def BlockBodyFromProto_def
      bh_Proto_def bb_Proto_def split_beta Let_def)

end
