(* ===== verification/Mmr_Arith.thy ===== *)
theory Mmr_Arith
  imports Crypto
begin

text \<open>
  Position arithmetic of the Merkle mountain range, \<open>pkg/crypto/mmr/proofs.go\<close>
  (\<open>countOnes\<close>, \<open>leafIndextoMMRIndex\<close>, \<open>peakMapHeight\<close>, \<open>isLeaf\<close>, \<open>family\<close>, \<open>isLeftSibling\<close>,
  \<open>peakPositionsAtSize\<close>), and its meaning. The node of height \<open>h\<close> completed by leaf \<open>e\<close>
  (which exists when \<open>2^h\<close> divides \<open>e + 1\<close>) sits at position \<open>mpos e + h\<close>.
\<close>

unbundle bit_operations_syntax

section \<open>The code\<close>

lemma clear_lowest_less: "(n :: u64) \<noteq> 0 \<Longrightarrow> unat (n AND (n - 1)) < unat n"
proof -
  assume "n \<noteq> 0"
  then have "unat (n - 1) < unat n" by (simp add: unat_minus_one unat_gt_0)
  moreover have "unat (n AND (n - 1)) \<le> unat (n - 1)"
    using word_and_le1 [of n "n - 1"] by (simp add: word_le_nat_alt)
  ultimately show ?thesis by simp
qed

function countOnes_loop :: "u64 \<Rightarrow> u64 \<Rightarrow> u64" where
  "countOnes_loop n count = (if n \<noteq> 0 then countOnes_loop (n AND (n - 1)) (count + 1) else count)"
  by pat_completeness auto
termination
  by (relation "measure (\<lambda>(n, count). unat n)") (auto simp: clear_lowest_less)

declare countOnes_loop.simps [simp del]

definition countOnes :: "u64 \<Rightarrow> u64" where
  "countOnes n = countOnes_loop n 0"

definition leafIndextoMMRIndex :: "u64 \<Rightarrow> u64" where
  "leafIndextoMMRIndex leafIndex = 2 * leafIndex - countOnes leafIndex"

text \<open>\<open>bits.LeadingZeros64\<close>.\<close>

fun bit_len :: "nat \<Rightarrow> nat" where
  "bit_len n = (if n = 0 then 0 else Suc (bit_len (n div 2)))"

declare bit_len.simps [simp del]

definition LeadingZeros64 :: "u64 \<Rightarrow> nat" where
  "LeadingZeros64 x = 64 - bit_len (unat x)"

lemma unat_half [simp]: "unat (drop_bit 1 (w :: u64)) = unat w div 2"
  by (simp only: unat_drop_bit_eq) (simp add: drop_bit_eq_div)

function peakMapHeight_loop :: "u64 \<Rightarrow> u64 \<Rightarrow> u64 \<Rightarrow> u64 \<times> u64" where
  "peakMapHeight_loop peakSize peakMap sz =
     (if peakSize \<noteq> 0 then
        let peakMap = push_bit 1 peakMap in
        if sz \<ge> peakSize
        then peakMapHeight_loop (drop_bit 1 peakSize) (peakMap OR 1) (sz - peakSize)
        else peakMapHeight_loop (drop_bit 1 peakSize) peakMap sz
      else (peakMap, sz))"
  by pat_completeness auto
termination
  by (relation "measure (\<lambda>(p, m, s). unat p)")
     (auto simp: unat_gt_0 simp del: drop_bit_eq_div One_nat_def)

declare peakMapHeight_loop.simps [simp del]

definition peakMapHeight :: "u64 \<Rightarrow> u64 \<times> u64" where
  "peakMapHeight sz =
     (if sz = 0 then (0, 0)
      else peakMapHeight_loop (drop_bit (LeadingZeros64 sz) (NOT 0)) 0 sz)"

definition isLeaf :: "u64 \<Rightarrow> bool" where
  "isLeaf pos = (let (_, height) = peakMapHeight pos in height = 0)"

definition family :: "u64 \<Rightarrow> u64 \<times> u64" where
  "family pos =
     (let (peakMap, height) = peakMapHeight pos; peak = push_bit (unat height) 1 in
      if peakMap AND peak \<noteq> 0
      then (pos + 1, pos + 1 - 2 * peak)
      else (pos + 2 * peak, pos + 2 * peak - 1))"

definition isLeftSibling :: "u64 \<Rightarrow> bool" where
  "isLeftSibling pos =
     (let (peakMap, height) = peakMapHeight pos; peak = push_bit (unat height) 1 in
      peakMap AND peak = 0)"

text \<open>
  \<open>int(math.Floor(math.Log2(float64(remaining+1))))\<close> is the integer logarithm: the conversion
  and \<open>Log2\<close> are exact enough for it below \<open>2^48\<close>, far above the sizes that occur.
\<close>

fun floor_log2 :: "nat \<Rightarrow> nat" where
  "floor_log2 n = (if n < 2 then 0 else Suc (floor_log2 (n div 2)))"

declare floor_log2.simps [simp del]

lemma floor_log2_bounds: "n > 0 \<Longrightarrow> 2 ^ floor_log2 n \<le> n \<and> n < 2 ^ Suc (floor_log2 n)"
proof (induction n rule: floor_log2.induct)
  case (1 n)
  show ?case
  proof (cases "n < 2")
    case True
    with "1.prems" show ?thesis by (simp add: floor_log2.simps)
  next
    case False
    with "1.IH" have "2 ^ floor_log2 (n div 2) \<le> n div 2 \<and> n div 2 < 2 * 2 ^ floor_log2 (n div 2)"
      by simp
    with False show ?thesis by (subst (1 2) floor_log2.simps) auto
  qed
qed

lemma floor_log2_Suc: "0 < r \<Longrightarrow> Suc 0 < 2 ^ floor_log2 (Suc r)"
proof -
  assume "0 < r"
  then have "floor_log2 (Suc r) = Suc (floor_log2 (Suc r div 2))"
    by (simp add: floor_log2.simps [of "Suc r"])
  moreover have "(1 :: nat) \<le> 2 ^ floor_log2 (Suc r div 2)" by simp
  ultimately show ?thesis by (simp only: power_Suc)
qed

function peakPositions_loop :: "nat \<Rightarrow> nat \<Rightarrow> nat list" where
  "peakPositions_loop pos remaining =
     (if remaining > 0 then
        let h1 = floor_log2 (remaining + 1); treeSize = 2 ^ h1 - 1; peakPos = pos + treeSize - 1
        in (peakPos - 1) # peakPositions_loop (pos + treeSize) (remaining - treeSize)
      else [])"
  by pat_completeness auto
termination
proof (relation "measure (\<lambda>(p, r). r)")
  fix pos remaining h1 treeSize peakPos :: nat
  assume "0 < remaining" "h1 = floor_log2 (remaining + 1)" "treeSize = 2 ^ h1 - 1"
  with floor_log2_Suc [of remaining] show
    "((pos + treeSize, remaining - treeSize), pos, remaining) \<in> measure (\<lambda>(p, r). r)" by simp
qed simp

declare peakPositions_loop.simps [simp del]

definition peakPositionsAtSize :: "u64 \<Rightarrow> u64 list" where
  "peakPositionsAtSize sz = map of_nat (peakPositions_loop 1 (unat sz))"

section \<open>Counting bits\<close>

fun pop :: "nat \<Rightarrow> nat" where
  "pop n = (if n = 0 then 0 else n mod 2 + pop (n div 2))"

declare pop.simps [simp del]

lemma pop_0 [simp]: "pop 0 = 0"
  by (simp add: pop.simps)

lemma pop_double [simp]: "pop (2 * n) = pop n"
  by (cases "n = 0") (simp_all add: pop.simps [of "2 * n"])

lemma pop_double_Suc [simp]: "pop (Suc (2 * n)) = Suc (pop n)"
  by (simp add: pop.simps [of "Suc (2 * n)"])

lemma pop_le: "pop n \<le> n"
proof (induction n rule: pop.induct)
  case (1 n)
  show ?case
  proof (cases "n = 0")
    case False
    with 1 have "pop (n div 2) \<le> n div 2" by simp
    then have "n mod 2 + pop (n div 2) \<le> n" by presburger
    with False show ?thesis by (simp add: pop.simps [of n])
  qed simp
qed

lemma pop_add: "b < 2 ^ h \<Longrightarrow> pop (2 ^ h * a + b) = pop a + pop b"
proof (induction h arbitrary: b)
  case (Suc h)
  then have b: "b div 2 < 2 ^ h" by auto
  have pop_b: "pop (2 * c + b mod 2) = pop c + b mod 2" for c
    by (cases "even b") (auto simp: odd_iff_mod_2_eq_one)
  have "2 ^ Suc h * a + b = 2 * (2 ^ h * a + b div 2) + b mod 2" by simp
  then have "pop (2 ^ Suc h * a + b) = pop (2 ^ h * a + b div 2) + b mod 2"
    by (simp only: pop_b)
  also have "\<dots> = pop a + (pop (b div 2) + b mod 2)" by (simp add: Suc.IH [OF b])
  also have "pop (b div 2) + b mod 2 = pop (2 * (b div 2) + b mod 2)" by (rule pop_b [symmetric])
  finally show ?case by simp
qed simp

lemma pop_ones: "pop (2 ^ h - 1) = h"
proof (induction h)
  case (Suc h)
  have "(1 :: nat) \<le> 2 ^ h" by simp
  then have "(2 :: nat) ^ Suc h - 1 = Suc (2 * (2 ^ h - 1))" unfolding power_Suc by linarith
  with Suc show ?case by (simp only: pop_double_Suc)
qed simp

section \<open>Positions\<close>

definition mpos :: "nat \<Rightarrow> nat" where
  "mpos n = 2 * n - pop n"

lemma mpos_0 [simp]: "mpos 0 = 0"
  by (simp add: mpos_def)

lemma mpos_ge: "n \<le> mpos n"
  using pop_le [of n] by (simp add: mpos_def)

lemma mpos_le: "mpos n \<le> 2 * n"
  by (simp add: mpos_def)

lemma mpos_add: "b < 2 ^ h \<Longrightarrow> mpos (2 ^ h * a + b) = mpos (2 ^ h * a) + mpos b"
  using pop_le [of b] pop_le [of "2 ^ h * a"] pop_add [of b h a] pop_add [of 0 h a]
  by (simp add: mpos_def)

lemma mpos_pow: "mpos (2 ^ k) = 2 ^ Suc k - 1"
  using pop_add [of 0 k 1] by (simp add: mpos_def pop.simps [of "Suc 0"])

lemma mpos_pow_add: "b < 2 ^ k \<Longrightarrow> mpos (2 ^ k + b) = mpos b + (2 ^ Suc k - 1)"
  using mpos_add [of b k 1] mpos_pow [of k] by simp

lemma two_adic:
  assumes "(n :: nat) > 0"
  obtains h c where "n = 2 ^ h * c" "odd c"
proof -
  have "\<exists>h c. n = 2 ^ h * c \<and> odd c"
    using assms
  proof (induction n rule: less_induct)
    case (less n)
    show ?case
    proof (cases "even n")
      case True
      then obtain m where m: "n = 2 * m" by blast
      with less.IH [of m] less.prems obtain h c where "m = 2 ^ h * c" "odd c" by auto
      with m show ?thesis by (intro exI [of _ "Suc h"] exI [of _ c]) simp
    next
      case False
      then show ?thesis by (intro exI [of _ 0] exI [of _ n]) simp
    qed
  qed
  with that show ?thesis by blast
qed

lemma mpos_Suc_odd:
  assumes "Suc e = 2 ^ h * c" "odd c"
  shows "mpos (Suc e) = mpos e + h + 1"
proof -
  from assms(2) obtain d where c: "c = Suc (2 * d)" by (metis oddE Suc_eq_plus1)
  have pow: "(1 :: nat) \<le> 2 ^ h" by simp
  have e: "e = 2 ^ h * (2 * d) + (2 ^ h - 1)"
    using assms(1) c pow by (simp add: algebra_simps)
  have "pop e = pop d + h"
    unfolding e using pop_add [of "2 ^ h - 1" h "2 * d"] pop_ones [of h] by simp
  moreover have "pop (Suc e) = Suc (pop d)"
    unfolding assms(1) using pop_add [of 0 h c] c by simp
  ultimately show ?thesis using pop_le [of e] pop_le [of "Suc e"] by (simp add: mpos_def)
qed

lemma mpos_Suc_less: "mpos e < mpos (Suc e)"
proof -
  obtain h c where "Suc e = 2 ^ h * c" "odd c" by (rule two_adic [of "Suc e"]) simp
  then show ?thesis using mpos_Suc_odd by simp
qed

lemma mpos_strict_mono: "strict_mono mpos"
  by (simp add: strict_mono_Suc_iff mpos_Suc_less)

lemma mpos_mono: "m \<le> n \<Longrightarrow> mpos m \<le> mpos n"
  using mpos_strict_mono by (simp add: strict_mono_less_eq)

lemma mpos_less_iff [simp]: "mpos m < mpos n \<longleftrightarrow> m < n"
  using mpos_strict_mono by (simp add: strict_mono_less)

lemma mpos_eq_iff [simp]: "mpos m = mpos n \<longleftrightarrow> m = n"
  using mpos_strict_mono by (simp add: strict_mono_eq)

text \<open>Leaf \<open>e\<close> completes exactly the nodes of the heights \<open>h\<close> with \<open>2^h\<close> dividing \<open>e + 1\<close>.\<close>

lemma node_iff: "2 ^ h dvd Suc e \<longleftrightarrow> mpos e + h < mpos (Suc e)"
proof -
  obtain k c where kc: "Suc e = 2 ^ k * c" "odd c" by (rule two_adic [of "Suc e"]) simp
  have "2 ^ h dvd Suc e \<longleftrightarrow> h \<le> k"
  proof
    assume dvd: "2 ^ h dvd Suc e"
    show "h \<le> k"
    proof (rule ccontr)
      assume "\<not> h \<le> k"
      then have "(2 :: nat) ^ Suc k dvd 2 ^ k * c"
        using dvd kc(1) by (metis le_imp_power_dvd not_less_eq_eq dvd_trans)
      with kc(2) show False by simp
    qed
  next
    assume "h \<le> k"
    then show "2 ^ h dvd Suc e" unfolding kc(1) by (simp add: le_imp_power_dvd)
  qed
  then show ?thesis using mpos_Suc_odd [OF kc] by auto
qed

text \<open>Every position of a range holds a node.\<close>

lemma position_node:
  assumes "p < mpos n"
  obtains e h where "e < n" "2 ^ h dvd Suc e" "p = mpos e + h"
proof -
  have "\<exists>e h. e < n \<and> 2 ^ h dvd Suc e \<and> p = mpos e + h"
    using assms
  proof (induction n)
    case (Suc n)
    show ?case
    proof (cases "p < mpos n")
      case True
      with Suc.IH show ?thesis by (meson less_SucI)
    next
      case False
      then have "p = mpos n + (p - mpos n)" by simp
      with Suc.prems node_iff [of "p - mpos n" n] show ?thesis by (metis lessI)
    qed
  qed simp
  with that show thesis by blast
qed

section \<open>peakMapHeight\<close>

fun pmh :: "nat \<Rightarrow> nat \<Rightarrow> nat \<Rightarrow> nat \<times> nat" where
  "pmh 0 m s = (m, s)"
| "pmh (Suc k) m s = (if 2 ^ Suc k - 1 \<le> s then pmh k (2 * m + 1) (s - (2 ^ Suc k - 1))
     else pmh k (2 * m) s)"

lemma pmh_node:
  "n < 2 ^ k \<Longrightarrow> mpos n + h < mpos (Suc n) \<or> n = 2 ^ k - 1 \<Longrightarrow> pmh k m (mpos n + h) = (m * 2 ^ k + n, h)"
proof (induction k arbitrary: n m)
  case (Suc k)
  show ?case
  proof (cases "2 ^ k \<le> n")
    case True
    then obtain b where n: "n = 2 ^ k + b" by (metis le_iff_add)
    with Suc.prems(1) have b: "b < 2 ^ k" by simp
    have mn: "mpos n = mpos b + (2 ^ Suc k - 1)" unfolding n using mpos_pow_add [OF b] .
    have "mpos b + h < mpos (Suc b) \<or> b = 2 ^ k - 1"
    proof (cases "b = 2 ^ k - 1")
      case False
      with b have "Suc b < 2 ^ k" by simp
      then have "mpos (Suc n) = mpos (Suc b) + (2 ^ Suc k - 1)"
        using mpos_pow_add [of "Suc b" k] n by simp
      moreover have "(1 :: nat) \<le> 2 ^ k" by simp
      moreover have "n \<noteq> 2 ^ Suc k - 1" using False b n by simp
      ultimately have "mpos b + h < mpos (Suc b)" using Suc.prems(2) mn
        unfolding power_Suc by linarith
      then show ?thesis ..
    qed simp
    then have "pmh k (2 * m + 1) (mpos b + h) = ((2 * m + 1) * 2 ^ k + b, h)"
      by (intro Suc.IH b)
    moreover have "2 ^ Suc k - 1 \<le> mpos n + h" "mpos n + h - (2 ^ Suc k - 1) = mpos b + h"
      using mn by linarith+
    ultimately have "pmh (Suc k) m (mpos n + h) = ((2 * m + 1) * 2 ^ k + b, h)"
      by (simp only: pmh.simps if_True)
    then show ?thesis using n by (simp add: algebra_simps)
  next
    case False
    then have "n \<noteq> 2 ^ Suc k - 1" by simp
    with Suc.prems(2) have h: "mpos n + h < mpos (Suc n)" by simp
    also have "\<dots> \<le> mpos (2 ^ k)" using False by (intro mpos_mono) simp
    finally have "mpos n + h < 2 ^ Suc k - 1" by (simp add: mpos_pow)
    then have "pmh (Suc k) m (mpos n + h) = pmh k (2 * m) (mpos n + h)" by simp
    also have "\<dots> = (2 * m * 2 ^ k + n, h)" using False h by (intro Suc.IH) simp_all
    finally show ?thesis by simp
  qed
qed simp

section \<open>The words compute these numbers\<close>

lemma and_pred_nat: "(n :: nat) > 0 \<Longrightarrow> pop (n AND (n - 1)) + 1 = pop n"
proof (induction n rule: less_induct)
  case (less n)
  show ?case
  proof (cases "even n")
    case True
    then obtain m where m: "n = 2 * m" "m > 0" using less.prems by (auto elim: evenE)
    then have "n - 1 = Suc (2 * (m - 1))" by simp
    then have "n AND (n - 1) = 2 * (m AND (m - 1))"
      using m by (simp add: and_nat_rec [of "2 * m"] and_rec [of "2 * m"])
    with less.IH [of m] m show ?thesis by simp
  next
    case False
    then obtain m where m: "n = Suc (2 * m)" by (metis oddE Suc_eq_plus1)
    then have "n AND (n - 1) = 2 * m" by (simp add: and_rec [of "Suc (2 * m)"])
    with m show ?thesis by simp
  qed
qed

lemma countOnes_loop_pop:
  "unat c + pop (unat n) < 2 ^ 64 \<Longrightarrow> unat (countOnes_loop n c) = unat c + pop (unat n)"
proof (induction n c rule: countOnes_loop.induct)
  case (1 n c)
  show ?case
  proof (cases "n = 0")
    case False
    then have pos: "unat n > 0" by (simp add: unat_gt_0)
    have "unat (n AND (n - 1)) = unat n AND (unat n - 1)"
      using False by (simp add: unsigned_and_eq unat_minus_one)
    with and_pred_nat [OF pos] have p: "pop (unat (n AND (n - 1))) + 1 = pop (unat n)" by simp
    moreover from p "1.prems" have "unat (c + 1) = unat c + 1" by (intro unat_Suc_u64) linarith
    ultimately have "unat (countOnes_loop (n AND (n - 1)) (c + 1)) = unat c + 1 + pop (unat (n AND (n - 1)))"
      using "1.IH" [OF False] "1.prems" by simp
    with p False show ?thesis by (subst countOnes_loop.simps) simp
  next
    case True
    then show ?thesis by (subst countOnes_loop.simps) simp
  qed
qed

lemma unat_countOnes: "unat (countOnes n) = pop (unat n)"
  using countOnes_loop_pop [of 0 n] pop_le [of "unat n"] unat_less_pow64 [of n]
  by (simp add: countOnes_def)

text \<open>The position of a leaf.\<close>

lemma unat_leafIndextoMMRIndex:
  assumes "unat i < 2 ^ 63"
  shows "unat (leafIndextoMMRIndex i) = mpos (unat i)"
proof -
  have two: "unat (2 * i) = 2 * unat i" using assms by (simp add: unat_word_ariths)
  then have "countOnes i \<le> 2 * i"
    using pop_le [of "unat i"] by (simp add: word_le_nat_alt unat_countOnes)
  then show ?thesis
    by (simp add: leafIndextoMMRIndex_def unat_sub unat_countOnes two mpos_def)
qed

lemma bit_len_bounds: "n < 2 ^ bit_len n"
proof (induction n rule: bit_len.induct)
  case (1 n)
  show ?case
  proof (cases "n = 0")
    case False
    with 1 have "n div 2 < 2 ^ bit_len (n div 2)" by simp
    with False show ?thesis by (simp add: bit_len.simps [of n])
  qed simp
qed

lemma bit_len_le: "n < 2 ^ k \<Longrightarrow> bit_len n \<le> k"
proof (induction k arbitrary: n)
  case (Suc k)
  then have "bit_len (n div 2) \<le> k" by (intro Suc.IH) auto
  then show ?case by (simp add: bit_len.simps [of n])
qed (simp add: bit_len.simps)

lemma bit_len_le_iff: "bit_len n \<le> k \<longleftrightarrow> n < 2 ^ k"
  using bit_len_le [of n k] bit_len_bounds [of n] power_increasing [of "bit_len n" k "2 :: nat"]
  by linarith

section \<open>Carries\<close>

text \<open>What adding leaf \<open>n\<close> does to the bits of the leaf count.\<close>

lemma full_below: "2 ^ h dvd Suc n \<Longrightarrow> Suc n = 2 ^ h * Suc (n div 2 ^ h)"
proof -
  assume "2 ^ h dvd Suc n"
  then obtain c where c: "Suc n = 2 ^ h * c" by blast
  then have pos: "0 < c" by (cases c) simp_all
  have pow: "(1 :: nat) \<le> 2 ^ h" by simp
  from c pos pow have n: "n = (2 ^ h - 1) + 2 ^ h * (c - 1)"
    by (cases c) simp_all
  have "n div 2 ^ h = (c - 1) + (2 ^ h - 1) div 2 ^ h"
    unfolding n by (rule div_mult_self2) simp
  moreover have "(2 ^ h - 1) div 2 ^ h = (0 :: nat)" using pow by (intro div_less) linarith
  ultimately have "n div 2 ^ h = c - 1" by linarith
  with c pos show ?thesis by simp
qed

lemma carry_stop: "2 ^ h dvd Suc n \<Longrightarrow> even (n div 2 ^ h) \<Longrightarrow> \<exists>c. Suc n = 2 ^ h * c \<and> odd c"
  using full_below [of h n] by (intro exI [of _ "Suc (n div 2 ^ h)"]) (simp only: even_Suc simp_thms)

lemma carry_on: "2 ^ h dvd Suc n \<Longrightarrow> odd (n div 2 ^ h) \<Longrightarrow> 2 ^ Suc h dvd Suc n"
proof -
  assume "2 ^ h dvd Suc n" "odd (n div 2 ^ h)"
  with full_below [of h n] have "Suc n = 2 ^ h * Suc (n div 2 ^ h)" "even (Suc (n div 2 ^ h))" by simp_all
  then show ?thesis by (metis mult_dvd_mono dvd_refl power_Suc2)
qed

lemma div_above:
  assumes "Suc n = 2 ^ h * c" "odd c" "h < j"
  shows "Suc n div 2 ^ j = n div 2 ^ j"
proof -
  obtain d where c: "c = Suc (2 * d)" using assms(2) by (metis oddE Suc_eq_plus1)
  obtain i where j: "j = h + Suc i" using assms(3) by (metis less_iff_Suc_add add_Suc_right)
  have q: "x div 2 ^ j = (x div 2 ^ h) div 2 div 2 ^ i" for x :: nat
    unfolding j power_add power_Suc by (simp only: div_mult2_eq)
  have "n div 2 ^ h = 2 * d"
    using full_below [of h n] assms(1) c by simp
  moreover have "Suc n div 2 ^ h = Suc (2 * d)" using assms(1) c by simp
  ultimately show ?thesis by (simp add: q)
qed

lemma div_below:
  assumes "2 ^ h dvd Suc n" "j < h"
  shows "even (Suc n div 2 ^ j)"
proof -
  obtain i where h: "h = j + Suc i" using assms(2) by (metis less_iff_Suc_add add_Suc_right)
  obtain c where "Suc n = 2 ^ h * c" using assms(1) by blast
  then have "Suc n div 2 ^ j = 2 * (2 ^ i * c)" by (simp add: h power_add)
  then show ?thesis by simp
qed

lemma bit_len_Suc:
  assumes "Suc n = 2 ^ h * c" "odd c" "h < bit_len n"
  shows "bit_len (Suc n) = bit_len n"
proof -
  have big: "2 ^ h \<le> n" using assms(3) bit_len_le_iff [of n h] by simp
  have "n < 2 ^ k \<longleftrightarrow> Suc n < 2 ^ k" for k
  proof -
    have "Suc n \<noteq> 2 ^ k"
    proof
      assume eq: "Suc n = 2 ^ k"
      with big have "(2 :: nat) ^ h < 2 ^ k" by linarith
      then have "h < k" by (rule power_less_imp_less_exp [rotated]) simp
      then have "even (2 ^ k div 2 ^ h :: nat)" by (simp flip: power_diff)
      with assms(1,2) eq show False by (metis nonzero_mult_div_cancel_left power_not_zero zero_neq_numeral)
    qed
    then show ?thesis by linarith
  qed
  then have "bit_len n \<le> k \<longleftrightarrow> bit_len (Suc n) \<le> k" for k by (simp add: bit_len_le_iff)
  then show ?thesis by (metis le_antisym order_refl)
qed

lemma bit_len_pow: "Suc n = 2 ^ h \<Longrightarrow> bit_len (Suc n) = Suc h"
proof -
  assume "Suc n = 2 ^ h"
  then have "\<not> bit_len (Suc n) \<le> h" "bit_len (Suc n) \<le> Suc h" by (simp_all only: bit_len_le_iff) simp_all
  then show ?thesis by linarith
qed

section \<open>peakMapHeight of a node\<close>

lemma double_word: "unat (m :: u64) < 2 ^ 63 \<Longrightarrow> unat (push_bit 1 m) = 2 * unat m"
proof -
  assume "unat m < 2 ^ 63"
  then have "unat (2 * m) = 2 * unat m" by (simp add: unat_word_ariths)
  moreover have "push_bit 1 m = 2 * m" by (simp add: push_bit_eq_mult)
  ultimately show ?thesis by (simp only:)
qed

lemma double_or_one: "unat (m :: u64) < 2 ^ 63 \<Longrightarrow> unat (push_bit 1 m OR 1) = 2 * unat m + 1"
proof -
  assume "unat m < 2 ^ 63"
  then have "unat (push_bit 1 m OR 1) = 2 * unat m OR 1"
    by (simp only: unsigned_or_eq double_word) simp
  also have "\<dots> = 2 * unat m + 1" by (simp only: or_one_eq) simp
  finally show ?thesis .
qed

lemma peakMapHeight_loop_pmh:
  "unat ps = 2 ^ k - 1 \<Longrightarrow> (unat m + 1) * 2 ^ k \<le> 2 ^ 64 \<Longrightarrow>
   map_prod unat unat (peakMapHeight_loop ps m sz) = pmh k (unat m) (unat sz)"
proof (induction k arbitrary: ps m sz)
  case 0
  then have "ps = 0" by (simp add: unat_eq_0)
  then show ?case by (subst peakMapHeight_loop.simps) simp
next
  case (Suc k)
  have pow: "(1 :: nat) \<le> 2 ^ k" by simp
  from Suc.prems(1) pow have "unat ps \<noteq> 0" unfolding power_Suc by linarith
  then have ps: "ps \<noteq> 0" by auto
  have half: "unat (drop_bit 1 ps) = 2 ^ k - 1"
    using Suc.prems(1) pow unfolding power_Suc unat_half by linarith
  have fit: "2 * (unat m + 1) * 2 ^ k \<le> 2 ^ 64" using Suc.prems(2) by (simp add: ac_simps)
  then have "2 * (unat m + 1) * 1 \<le> 2 ^ 64"
    using pow by (meson le_trans mult_le_mono2)
  then have m63: "unat m < 2 ^ 63" by simp
  have cmp: "ps \<le> sz \<longleftrightarrow> 2 ^ Suc k - 1 \<le> unat sz"
    using Suc.prems(1) by (simp add: word_le_nat_alt)
  show ?case
  proof (cases "ps \<le> sz")
    case True
    have "map_prod unat unat (peakMapHeight_loop (drop_bit 1 ps) (push_bit 1 m OR 1) (sz - ps))
        = pmh k (2 * unat m + 1) (unat sz - (2 ^ Suc k - 1))"
    proof -
      have "(unat (push_bit 1 m OR 1) + 1) * 2 ^ k \<le> 2 ^ 64"
        using fit by (simp only: double_or_one [OF m63]) simp
      from Suc.IH [OF half this, of "sz - ps"] True Suc.prems(1) show ?thesis
        by (simp only: double_or_one [OF m63] unat_sub)
    qed
    moreover have "peakMapHeight_loop ps m sz
        = peakMapHeight_loop (drop_bit 1 ps) (push_bit 1 m OR 1) (sz - ps)"
      using True ps by (subst peakMapHeight_loop.simps) (simp only: Let_def if_True not_False_eq_True)
    ultimately show ?thesis using True cmp by (simp only: pmh.simps if_True)
  next
    case False
    have "(2 * unat m + 1) * 2 ^ k \<le> 2 ^ 64"
      by (rule le_trans [OF _ fit]) (simp add: mult_le_mono)
    then have "map_prod unat unat (peakMapHeight_loop (drop_bit 1 ps) (push_bit 1 m) sz)
        = pmh k (2 * unat m) (unat sz)"
    proof -
      assume "(2 * unat m + 1) * 2 ^ k \<le> 2 ^ 64"
      then have "(unat (push_bit 1 m) + 1) * 2 ^ k \<le> 2 ^ 64" by (simp only: double_word [OF m63])
      from Suc.IH [OF half this, of sz] show ?thesis by (simp only: double_word [OF m63])
    qed
    moreover have "peakMapHeight_loop ps m sz
        = peakMapHeight_loop (drop_bit 1 ps) (push_bit 1 m) sz"
      using False ps by (subst peakMapHeight_loop.simps) (simp only: Let_def if_True if_False not_False_eq_True)
    ultimately show ?thesis using False cmp by (simp only: pmh.simps if_False)
  qed
qed

text \<open>\<open>peakMapHeight\<close> of a node's position is the leaf that completed it, and its height.\<close>

lemma peakMapHeight_node:
  assumes node: "2 ^ h dvd Suc e" and pos: "unat p = mpos e + h"
  shows "map_prod unat unat (peakMapHeight p) = (e, h)"
proof (cases "p = 0")
  case True
  with pos mpos_ge [of e] show ?thesis by (simp add: peakMapHeight_def)
next
  case False
  define k where "k = bit_len (unat p)"
  have k: "k \<le> 64" "unat p < 2 ^ k"
    using bit_len_le [of "unat p" 64] bit_len_bounds [of "unat p"] unat_less_pow64 [of p]
    by (simp_all add: k_def)
  have "unat (NOT 0 :: u64) = 2 ^ 64 - 1"
    by (simp add: unsigned_minus_1_eq_mask mask_eq_exp_minus_1)
  then have "unat (drop_bit (64 - k) (NOT 0 :: u64)) = (2 ^ 64 - 1) div 2 ^ (64 - k)"
    by (simp only: unat_drop_bit_eq) (simp only: drop_bit_eq_div)
  also have "\<dots> = 2 ^ k - 1"
  proof -
    have split: "(2 :: nat) ^ 64 = 2 ^ k * 2 ^ (64 - k)"
      using k(1) by (simp only: power_add [symmetric]) simp
    have ones: "a * b - 1 = (a - 1) * b + (b - 1)" "(b - 1) div b = 0" if "1 \<le> a" "1 \<le> b" for a b :: nat
      using that by (cases a; simp)+
    have "(2 :: nat) ^ 64 - 1 = (2 ^ k - 1) * 2 ^ (64 - k) + (2 ^ (64 - k) - 1)"
      unfolding split by (rule ones) simp_all
    also have "\<dots> div 2 ^ (64 - k) = (2 ^ k - 1) + (2 ^ (64 - k) - 1) div 2 ^ (64 - k)"
      by (rule div_mult_self3) simp
    also have "(2 ^ (64 - k) - 1) div 2 ^ (64 - k) = (0 :: nat)" by (rule ones(2) [of 1]) simp_all
    finally show ?thesis by (simp only: add_0_right)
  qed
  finally have ps: "unat (drop_bit (LeadingZeros64 p) (NOT 0 :: u64)) = 2 ^ k - 1"
    by (simp only: LeadingZeros64_def k_def)
  have fit: "(unat (0 :: u64) + 1) * 2 ^ k \<le> 2 ^ 64"
    using power_increasing [OF k(1), of "2 :: nat"] by simp
  have "e < 2 ^ k" using k(2) pos mpos_ge [of e] by linarith
  moreover have "mpos e + h < mpos (Suc e)" using node node_iff by blast
  ultimately have "pmh k 0 (unat p) = (e, h)"
    unfolding pos using pmh_node [of e k h 0] by simp
  with False peakMapHeight_loop_pmh [OF ps fit, of p] show ?thesis
    by (simp add: peakMapHeight_def)
qed

text \<open>The bit that tells left from right nodes.\<close>

lemma bit_test: "((m :: u64) AND push_bit h 1 = 0) \<longleftrightarrow> even (unat m div 2 ^ h)" if "h < 64"
proof -
  have "(m AND push_bit h 1 = 0) \<longleftrightarrow> \<not> bit m h"
    using that by (simp only: bit_iff_and_push_bit_not_eq_0 not_not)
  also have "\<dots> \<longleftrightarrow> \<not> bit (unat m) h"
    using that by (simp add: bit_unsigned_iff)
  also have "\<dots> \<longleftrightarrow> even (unat m div 2 ^ h)" by (simp add: bit_iff_odd)
  finally show ?thesis .
qed

end
