(* ===== verification/Mmr.thy ===== *)
theory Mmr
  imports Mmr_Arith
begin

text \<open>
  The Merkle mountain range of \<open>pkg/crypto/mmr/mmr.go\<close>: the record \<open>mmr\<close> is the struct
  \<open>MMR\<close>, \<open>AddLeaf\<close> with its carry loop and \<open>Root\<close> with the bagging of peaks are the
  methods, with the state passed explicitly. \<open>mmr_repr B ls m\<close> is the abstraction: \<open>m\<close>
  holds exactly the leaf hashes \<open>ls\<close>; \<open>AddLeaf\<close> implements appending to \<open>ls\<close>.
\<close>

section \<open>The code\<close>

record mmr =
  m_peaks :: "hash list"
  m_nodes :: "u64 \<rightharpoonup> hash"
  m_leafIndexes :: "hash \<rightharpoonup> u64"
  m_numLeaves :: u64
  m_size :: u64

definition NewMMR :: mmr where
  "NewMMR = \<lparr>m_peaks = [], m_nodes = Map.empty, m_leafIndexes = Map.empty, m_numLeaves = 0, m_size = 0\<rparr>"

definition NumLeaves :: "mmr \<Rightarrow> u64" where
  "NumLeaves m = m_numLeaves m"

definition NumPeaks :: "mmr \<Rightarrow> u64" where
  "NumPeaks m = of_nat (length (m_peaks m))"

definition Size :: "mmr \<Rightarrow> u64" where
  "Size m = m_size m"

definition LeafIndex :: "blake3 \<Rightarrow> mmr \<Rightarrow> bytes \<Rightarrow> u64 result" where
  "LeafIndex B m leaf =
     (let leafHash = HashBytes B [leaf] in
      case m_leafIndexes m leafHash of
        None \<Rightarrow> Inl (Err ''leaf not found'')
      | Some index \<Rightarrow> Inr index)"

definition hashWithPosition :: "blake3 \<Rightarrow> u64 \<Rightarrow> bytes list \<Rightarrow> hash" where
  "hashWithPosition B pos data = HashBytes B (BytesFromUint64 pos # data)"

fun bagPeaks_loop :: "blake3 \<Rightarrow> hash list \<Rightarrow> hash \<Rightarrow> hash" where
  "bagPeaks_loop B [] accum = accum"
| "bagPeaks_loop B (peak # ps) accum =
     (if hash_IsZero peak then bagPeaks_loop B ps accum
      else if hash_IsZero accum then bagPeaks_loop B ps peak
      else bagPeaks_loop B ps (HashBytes B [hash_Bytes peak, hash_Bytes accum]))"

definition bagPeaks :: "blake3 \<Rightarrow> hash list \<Rightarrow> hash" where
  "bagPeaks B ps = bagPeaks_loop B (rev ps) 0"

definition bagPeaksWithSize :: "blake3 \<Rightarrow> hash list \<Rightarrow> u64 \<Rightarrow> hash" where
  "bagPeaksWithSize B ps sz = HashBytes B [BytesFromUint64 sz, hash_Bytes (bagPeaks B ps)]"

fun peaksLR_loop :: "hash list \<Rightarrow> hash list \<Rightarrow> hash list" where
  "peaksLR_loop [] acc = acc"
| "peaksLR_loop (peak # ps) acc =
     (if \<not> hash_IsZero peak then peaksLR_loop ps (peak # acc) else peaksLR_loop ps acc)"

definition peaksLR :: "mmr \<Rightarrow> hash list" where
  "peaksLR m = peaksLR_loop (m_peaks m) []"

definition Root :: "blake3 \<Rightarrow> mmr \<Rightarrow> hash" where
  "Root B m = (if m_size m = 0 then 0 else bagPeaksWithSize B (peaksLR m) (m_size m))"

text \<open>The loop of \<open>AddLeaf\<close>; \<open>height\<close> never passes the number of peaks.\<close>

function AddLeaf_loop :: "blake3 \<Rightarrow> hash \<Rightarrow> nat \<Rightarrow> mmr \<Rightarrow> mmr" where
  "AddLeaf_loop B carry height m =
     (if height \<ge> length (m_peaks m) then m\<lparr>m_peaks := m_peaks m @ [carry]\<rparr>
      else if hash_IsZero (m_peaks m ! height)
      then m\<lparr>m_peaks := (m_peaks m)[height := carry]\<rparr>
      else
        let leftHash = m_peaks m ! height;
            rightHash = carry;
            parentPos = m_size m;
            parentHash = hashWithPosition B parentPos [hash_Bytes leftHash, hash_Bytes rightHash]
        in AddLeaf_loop B parentHash (height + 1)
             (m\<lparr>m_size := m_size m + 1,
                m_nodes := (m_nodes m)(parentPos \<mapsto> parentHash),
                m_peaks := (m_peaks m)[height := 0]\<rparr>))"
  by pat_completeness auto
termination
  by (relation "measure (\<lambda>(B, c, h, m). length (m_peaks m) - h)") auto

declare AddLeaf_loop.simps [simp del]

definition AddLeaf :: "blake3 \<Rightarrow> bytes \<Rightarrow> mmr \<Rightarrow> hash \<times> mmr" where
  "AddLeaf B leaf m =
     (let leafHash = HashBytes B [leaf];
          leafIndex = m_numLeaves m;
          leafPos = m_size m;
          m1 = m\<lparr>m_size := m_size m + 1\<rparr>;
          leafPosHash = hashWithPosition B leafPos [hash_Bytes leafHash];
          m2 = m1\<lparr>m_nodes := (m_nodes m1)(leafPos \<mapsto> leafPosHash),
                  m_leafIndexes := (m_leafIndexes m1)(leafHash \<mapsto> leafIndex)\<rparr>;
          m3 = AddLeaf_loop B leafPosHash 0 m2;
          m4 = m3\<lparr>m_numLeaves := m_numLeaves m3 + 1\<rparr>
      in (Root B m4, m4))"

section \<open>The abstract mountain range\<close>

text \<open>The hash of the node of height \<open>h\<close> that leaf \<open>e\<close> completes.\<close>

fun nodeh :: "blake3 \<Rightarrow> (nat \<Rightarrow> hash) \<Rightarrow> nat \<Rightarrow> nat \<Rightarrow> hash" where
  "nodeh B L 0 e = hashWithPosition B (of_nat (mpos e)) [hash_Bytes (L e)]"
| "nodeh B L (Suc h) e = hashWithPosition B (of_nat (mpos e + Suc h))
     [hash_Bytes (nodeh B L h (e - 2 ^ h)), hash_Bytes (nodeh B L h e)]"

text \<open>The last leaf below the peak of height \<open>h\<close>, when bit \<open>h\<close> of the number of leaves is set.\<close>

definition peak_end :: "nat \<Rightarrow> nat \<Rightarrow> nat" where
  "peak_end n h = (n div 2 ^ h) * 2 ^ h - 1"

definition peak_at :: "blake3 \<Rightarrow> (nat \<Rightarrow> hash) \<Rightarrow> nat \<Rightarrow> nat \<Rightarrow> hash" where
  "peak_at B L n h = (if odd (n div 2 ^ h) then nodeh B L h (peak_end n h) else 0)"

definition leaf_map :: "hash list \<Rightarrow> hash \<rightharpoonup> u64" where
  "leaf_map ls = map_of (rev (zip ls (map of_nat [0..<length ls])))"

definition nodes_repr :: "blake3 \<Rightarrow> (nat \<Rightarrow> hash) \<Rightarrow> (nat \<Rightarrow> nat \<Rightarrow> bool) \<Rightarrow> nat \<Rightarrow> (u64 \<rightharpoonup> hash) \<Rightarrow> bool" where
  "nodes_repr B L P sz nd \<longleftrightarrow>
     (\<forall>e h. P e h \<longrightarrow> 2 ^ h dvd Suc e \<longrightarrow> nd (of_nat (mpos e + h)) = Some (nodeh B L h e))
     \<and> (\<forall>p. nd p \<noteq> None \<longleftrightarrow> unat p < sz)"

definition mmr_repr :: "blake3 \<Rightarrow> hash list \<Rightarrow> mmr \<Rightarrow> bool" where
  "mmr_repr B ls m \<longleftrightarrow>
     m_numLeaves m = of_nat (length ls)
     \<and> m_size m = of_nat (mpos (length ls))
     \<and> m_peaks m = map (peak_at B ((!) ls) (length ls)) [0..<bit_len (length ls)]
     \<and> m_leafIndexes m = leaf_map ls
     \<and> nodes_repr B ((!) ls) (\<lambda>e h. e < length ls) (mpos (length ls)) (m_nodes m)"

lemma mmr_reprD:
  assumes "mmr_repr B ls m"
  shows "m_numLeaves m = of_nat (length ls)" "m_size m = of_nat (mpos (length ls))"
    "m_peaks m = map (peak_at B ((!) ls) (length ls)) [0..<bit_len (length ls)]"
    "m_leafIndexes m = leaf_map ls"
    "nodes_repr B ((!) ls) (\<lambda>e h. e < length ls) (mpos (length ls)) (m_nodes m)"
  using assms by (simp_all add: mmr_repr_def)

lemma leaf_map_append: "leaf_map (ls @ [l]) = (leaf_map ls)(l \<mapsto> of_nat (length ls))"
  by (simp add: leaf_map_def)

lemma nodeh_cong: "(\<And>i. i \<le> e \<Longrightarrow> L i = L' i) \<Longrightarrow> nodeh B L h e = nodeh B L' h e"
proof (induction h arbitrary: e)
  case (Suc h)
  then have "nodeh B L h (e - 2 ^ h) = nodeh B L' h (e - 2 ^ h)" "nodeh B L h e = nodeh B L' h e"
    by simp_all
  then show ?case by simp
qed simp

lemma nodeh_append: "e < length ls \<Longrightarrow> nodeh B ((!) (ls @ xs)) h e = nodeh B ((!) ls) h e"
  by (rule nodeh_cong) (simp add: nth_append)

lemma peak_end_less: "n div 2 ^ h \<noteq> 0 \<Longrightarrow> peak_end n h < n"
proof -
  assume "n div 2 ^ h \<noteq> 0"
  then have "0 < n div 2 ^ h * 2 ^ h" by simp
  moreover have "n div 2 ^ h * 2 ^ h \<le> n" by (rule div_times_less_eq_dividend)
  ultimately show ?thesis unfolding peak_end_def by linarith
qed

lemma odd_nonzero: "odd (x :: nat) \<Longrightarrow> x \<noteq> 0"
  by (cases x) simp_all

lemma peak_at_append: "n \<le> length ls \<Longrightarrow> peak_at B ((!) (ls @ xs)) n h = peak_at B ((!) ls) n h"
  using peak_end_less [of n h] odd_nonzero [of "n div 2 ^ h"]
  by (auto simp: peak_at_def intro!: nodeh_append)

lemma mmr_repr_NewMMR: "mmr_repr B [] NewMMR"
  by (simp add: mmr_repr_def NewMMR_def leaf_map_def nodes_repr_def bit_len.simps)

section \<open>AddLeaf appends\<close>

text \<open>The state of the loop when the carry has reached height \<open>h\<close>, with \<open>n\<close> leaves before.\<close>

definition carry_inv :: "blake3 \<Rightarrow> (nat \<Rightarrow> hash) \<Rightarrow> nat \<Rightarrow> nat \<Rightarrow> hash \<Rightarrow> mmr \<Rightarrow> bool" where
  "carry_inv B L n h carry m \<longleftrightarrow>
     2 ^ h dvd Suc n \<and> h \<le> bit_len n \<and> carry = nodeh B L h n
     \<and> m_size m = of_nat (mpos n + h + 1)
     \<and> m_peaks m = replicate h 0 @ map (peak_at B L n) [h..<bit_len n]
     \<and> nodes_repr B L (\<lambda>e j. e < n \<or> e = n \<and> j \<le> h) (mpos n + h + 1) (m_nodes m)"

definition range_of :: "blake3 \<Rightarrow> (nat \<Rightarrow> hash) \<Rightarrow> nat \<Rightarrow> mmr \<Rightarrow> bool" where
  "range_of B L n m \<longleftrightarrow>
     m_size m = of_nat (mpos n)
     \<and> m_peaks m = map (peak_at B L n) [0..<bit_len n]
     \<and> nodes_repr B L (\<lambda>e h. e < n) (mpos n) (m_nodes m)"

lemma of_nat_unat_u64: "of_nat (unat (p :: u64)) = p"
  by simp

lemma unat_of_nat_less: "p < 2 ^ 64 \<Longrightarrow> (of_nat p = (q :: u64)) \<longleftrightarrow> p = unat q"
  using unat_of_nat_u64 [of p] by (metis of_nat_unat_u64)

text \<open>One more node at the end.\<close>

lemma nodes_repr_upd:
  assumes "nodes_repr B L P sz nd" and "sz = mpos e + h" "Suc sz < 2 ^ 64"
    and "\<And>e' h'. P e' h' \<Longrightarrow> 2 ^ h' dvd Suc e' \<Longrightarrow> mpos e' + h' < sz"
    and "\<And>e' h'. Q e' h' \<Longrightarrow> 2 ^ h' dvd Suc e' \<Longrightarrow> P e' h' \<or> e' = e \<and> h' = h"
  shows "nodes_repr B L Q (Suc sz) (nd(of_nat sz \<mapsto> nodeh B L h e))"
proof -
  have lt: "sz < 2 ^ 64" using assms(3) by linarith
  have "(nd(of_nat sz \<mapsto> nodeh B L h e)) (of_nat (mpos e' + h')) = Some (nodeh B L h' e')"
    if "Q e' h'" "2 ^ h' dvd Suc e'" for e' h'
    using assms(5) [OF that]
  proof
    assume P: "P e' h'"
    with assms(4) that have below: "mpos e' + h' < sz" by blast
    then have "(of_nat (mpos e' + h') :: u64) \<noteq> of_nat sz"
      using lt by (metis unat_of_nat_u64 less_trans less_irrefl)
    with P that assms(1) show ?thesis by (simp add: nodes_repr_def)
  qed (use assms(2) in simp)
  moreover have "(nd(of_nat sz \<mapsto> nodeh B L h e)) p \<noteq> None \<longleftrightarrow> unat p < Suc sz" for p
  proof (cases "p = of_nat sz")
    case True
    then have "unat p = sz" using lt by (simp add: unat_of_nat_u64)
    with True show ?thesis by simp
  next
    case False
    then have "unat p \<noteq> sz" by (metis of_nat_unat_u64)
    with False assms(1) show ?thesis by (auto simp: nodes_repr_def)
  qed
  ultimately show ?thesis by (simp add: nodes_repr_def)
qed

lemma nodes_repr_mono:
  "nodes_repr B L P sz nd \<Longrightarrow> (\<And>e h. Q e h \<Longrightarrow> 2 ^ h dvd Suc e \<Longrightarrow> P e h) \<Longrightarrow> nodes_repr B L Q sz nd"
  by (simp add: nodes_repr_def)

lemma node_below: "e < n \<Longrightarrow> 2 ^ h dvd Suc e \<Longrightarrow> mpos e + h < mpos n"
  using node_iff [of h e] mpos_mono [of "Suc e" n] by simp

lemma hashWithPosition_nonzero: "\<forall>x. B x \<noteq> 0 \<Longrightarrow> hashWithPosition B p ds \<noteq> 0"
  by (simp add: hashWithPosition_def HashBytes_concat)

lemma nodeh_nonzero: "\<forall>x. B x \<noteq> 0 \<Longrightarrow> nodeh B L h e \<noteq> 0"
  by (cases h) (simp_all add: hashWithPosition_nonzero)

lemma peak_at_zero_iff: "\<forall>x. B x \<noteq> 0 \<Longrightarrow> peak_at B L n h = 0 \<longleftrightarrow> even (n div 2 ^ h)"
  by (simp add: peak_at_def nodeh_nonzero)

text \<open>The loop stops at the height where the carry finds an empty slot.\<close>

lemma peak_at_Suc:
  assumes "Suc n = 2 ^ h * c" "odd c"
  shows "j < h \<Longrightarrow> peak_at B L (Suc n) j = 0"
    and "peak_at B L (Suc n) h = nodeh B L h n"
    and "h < j \<Longrightarrow> peak_at B L (Suc n) j = peak_at B L n j"
proof -
  show "j < h \<Longrightarrow> peak_at B L (Suc n) j = 0"
    using div_below [of h n j] assms(1) by (simp add: peak_at_def)
  have "Suc n div 2 ^ h = c" "peak_end (Suc n) h = n"
    by (simp_all add: peak_end_def assms(1) mult.commute [of c])
       (simp flip: assms(1))
  with assms(2) show "peak_at B L (Suc n) h = nodeh B L h n"
    by (simp only: peak_at_def not_False_eq_True if_True)
  show "h < j \<Longrightarrow> peak_at B L (Suc n) j = peak_at B L n j"
    using div_above [OF assms] by (simp add: peak_at_def peak_end_def)
qed

lemma peaks_Suc:
  assumes "Suc n = 2 ^ h * c" "odd c" "h < k"
  shows "(replicate h 0 @ map (peak_at B L n) [h..<k])[h := nodeh B L h n]
     = map (peak_at B L (Suc n)) [0..<k]"
proof (rule nth_equalityI)
  fix i
  assume "i < length ((replicate h 0 @ map (peak_at B L n) [h..<k])[h := nodeh B L h n])"
  with assms(3) have "i < k" by simp
  with assms(3) show "(replicate h 0 @ map (peak_at B L n) [h..<k])[h := nodeh B L h n] ! i
      = map (peak_at B L (Suc n)) [0..<k] ! i"
    by (cases i h rule: linorder_cases)
       (simp_all add: nth_append nth_list_update peak_at_Suc [OF assms(1,2)])
qed (use assms(3) in simp)

lemma AddLeaf_loop_append:
  assumes "carry_inv B L n h carry m" "h = bit_len n" "mpos (Suc n) < 2 ^ 64"
  shows "range_of B L (Suc n) (m\<lparr>m_peaks := m_peaks m @ [carry]\<rparr>)"
proof -
  have dvd: "2 ^ h dvd Suc n" using assms(1) by (simp add: carry_inv_def)
  have "n < 2 ^ h" using assms(2) bit_len_le_iff [of n h] by simp
  then have pow: "Suc n = 2 ^ h" using dvd dvd_imp_le [OF dvd] by simp
  then have one: "Suc n = 2 ^ h * 1" "odd (1 :: nat)" by simp_all
  have "map (peak_at B L (Suc n)) [0..<Suc h] = replicate h 0 @ [nodeh B L h n]"
    by (intro nth_equalityI)
       (auto simp: nth_append less_Suc_eq peak_at_Suc [OF one] simp del: upt_Suc)
  moreover have "mpos (Suc n) = mpos n + h + 1" by (rule mpos_Suc_odd [OF one])
  moreover have "nodes_repr B L (\<lambda>e h. e < Suc n) (mpos n + h + 1) (m_nodes m)"
  proof (rule nodes_repr_mono)
    show "nodes_repr B L (\<lambda>e j. e < n \<or> e = n \<and> j \<le> h) (mpos n + h + 1) (m_nodes m)"
      using assms(1) by (simp add: carry_inv_def)
    fix e j
    assume "e < Suc n" "2 ^ j dvd Suc e"
    then show "e < n \<or> e = n \<and> j \<le> h"
      using pow by (metis less_Suc_eq power_dvd_imp_le one_less_numeral_iff semiring_norm(76))
  qed
  ultimately show ?thesis
    using assms(1,2) bit_len_pow [OF pow] by (simp add: carry_inv_def range_of_def)
qed

lemma AddLeaf_loop_place:
  assumes "carry_inv B L n h carry m" "h < bit_len n" "even (n div 2 ^ h)"
  shows "range_of B L (Suc n) (m\<lparr>m_peaks := (m_peaks m)[h := carry]\<rparr>)"
proof -
  have "2 ^ h dvd Suc n" using assms(1) by (simp add: carry_inv_def)
  with carry_stop assms(3) obtain c where c: "Suc n = 2 ^ h * c" "odd c" by blast
  have sz: "mpos (Suc n) = mpos n + h + 1" by (rule mpos_Suc_odd [OF c])
  have "nodes_repr B L (\<lambda>e h. e < Suc n) (mpos n + h + 1) (m_nodes m)"
  proof (rule nodes_repr_mono)
    show "nodes_repr B L (\<lambda>e j. e < n \<or> e = n \<and> j \<le> h) (mpos n + h + 1) (m_nodes m)"
      using assms(1) by (simp add: carry_inv_def)
    fix e j
    assume "e < Suc n" "2 ^ j dvd Suc e"
    then show "e < n \<or> e = n \<and> j \<le> h"
      using node_iff [of j e] sz by (cases "e = n") auto
  qed
  with sz assms(1) show ?thesis
    by (simp add: carry_inv_def range_of_def bit_len_Suc [OF c assms(2)] peaks_Suc [OF c assms(2)])
qed

lemma peak_end_full: "2 ^ h dvd Suc n \<Longrightarrow> peak_end n h = n - 2 ^ h"
  using full_below [of h n] by (simp add: peak_end_def mult.commute)

lemma AddLeaf_loop_merge:
  assumes inv: "carry_inv B L n h carry m" and h: "h < bit_len n" "odd (n div 2 ^ h)"
    and fit: "mpos (Suc n) < 2 ^ 64"
    and parent: "parentHash = hashWithPosition B (m_size m) [hash_Bytes (m_peaks m ! h), hash_Bytes carry]"
  shows "carry_inv B L n (Suc h) parentHash
    (m\<lparr>m_size := m_size m + 1, m_nodes := (m_nodes m)(m_size m \<mapsto> parentHash),
       m_peaks := (m_peaks m)[h := 0]\<rparr>)"
proof -
  have dvd: "2 ^ h dvd Suc n" using inv by (simp add: carry_inv_def)
  then have dvd': "2 ^ Suc h dvd Suc n" using h(2) by (rule carry_on)
  have sz: "m_size m = of_nat (mpos n + Suc h)" using inv by (simp add: carry_inv_def)
  have "m_peaks m ! h = nodeh B L h (n - 2 ^ h)"
    using inv h by (simp add: carry_inv_def nth_append peak_at_def peak_end_full)
  then have ph: "parentHash = nodeh B L (Suc h) n"
    using inv by (simp add: parent sz carry_inv_def)
  have peaks: "(m_peaks m)[h := 0] = replicate (Suc h) 0 @ map (peak_at B L n) [Suc h..<bit_len n]"
    using inv h(1) by (simp add: carry_inv_def list_update_append replicate_append_same upt_conv_Cons)
  have "mpos n + Suc h < mpos (Suc n)" using dvd' node_iff by blast
  with fit have fit': "Suc (mpos n + Suc h) < 2 ^ 64" by linarith
  have "nodes_repr B L (\<lambda>e j. e < n \<or> e = n \<and> j \<le> Suc h) (Suc (mpos n + Suc h))
      ((m_nodes m)(of_nat (mpos n + Suc h) \<mapsto> nodeh B L (Suc h) n))"
  proof (rule nodes_repr_upd [OF _ refl fit'])
    show "nodes_repr B L (\<lambda>e j. e < n \<or> e = n \<and> j \<le> h) (mpos n + Suc h) (m_nodes m)"
      using inv by (simp add: carry_inv_def)
    show "mpos e + j < mpos n + Suc h" if "e < n \<or> e = n \<and> j \<le> h" "2 ^ j dvd Suc e" for e j
      using that(1) node_below [OF _ that(2), of n] by auto
  qed (auto simp: le_Suc_eq)
  with inv dvd' h(1) sz ph peaks show ?thesis by (simp add: carry_inv_def add.assoc)
qed

lemma AddLeaf_loop_frame:
  "m_numLeaves (AddLeaf_loop B c h m) = m_numLeaves m"
  "m_leafIndexes (AddLeaf_loop B c h m) = m_leafIndexes m"
  by (induction B c h m rule: AddLeaf_loop.induct)
     (subst AddLeaf_loop.simps; simp add: Let_def)+

lemma AddLeaf_loop_range:
  assumes B: "\<forall>x. B x \<noteq> 0" and fit: "mpos (Suc n) < 2 ^ 64"
  shows "carry_inv B L n h carry m \<Longrightarrow> range_of B L (Suc n) (AddLeaf_loop B carry h m)"
proof (induction "bit_len n - h" arbitrary: h carry m rule: less_induct)
  case less
  then have len: "length (m_peaks m) = bit_len n" "h \<le> bit_len n" by (auto simp: carry_inv_def)
  show ?case
  proof (cases "h = bit_len n")
    case True
    with AddLeaf_loop_append [OF less.prems True fit] len show ?thesis
      by (subst AddLeaf_loop.simps) simp
  next
    case False
    with len have h: "h < bit_len n" by simp
    then have peak: "m_peaks m ! h = 0 \<longleftrightarrow> even (n div 2 ^ h)"
      using less.prems by (simp add: carry_inv_def nth_append peak_at_zero_iff [OF B])
    show ?thesis
    proof (cases "even (n div 2 ^ h)")
      case True
      with AddLeaf_loop_place [OF less.prems h True] len h peak show ?thesis
        by (subst AddLeaf_loop.simps) (simp add: hash_IsZero_def)
    next
      case False
      have "range_of B L (Suc n) (AddLeaf_loop B
          (hashWithPosition B (m_size m) [hash_Bytes (m_peaks m ! h), hash_Bytes carry]) (Suc h)
          (m\<lparr>m_size := m_size m + 1, m_nodes := (m_nodes m)(m_size m \<mapsto>
               hashWithPosition B (m_size m) [hash_Bytes (m_peaks m ! h), hash_Bytes carry]),
             m_peaks := (m_peaks m)[h := 0]\<rparr>))"
        using h by (intro less.hyps AddLeaf_loop_merge [OF less.prems h False fit refl]) simp
      with len h peak False show ?thesis
        by (subst AddLeaf_loop.simps) (simp add: hash_IsZero_def Let_def)
    qed
  qed
qed

text \<open>Adding a leaf implements appending its hash.\<close>

lemma AddLeaf_repr:
  assumes B: "\<forall>x. B x \<noteq> 0" and repr: "mmr_repr B ls m" and n: "length ls < 2 ^ 62"
  shows "mmr_repr B (ls @ [B leaf]) (snd (AddLeaf B leaf m))"
proof -
  let ?n = "length ls" and ?L = "(!) (ls @ [B leaf])"
  let ?m = "m\<lparr>m_size := m_size m + 1,
      m_nodes := (m_nodes m)(m_size m \<mapsto> nodeh B ?L 0 ?n),
      m_leafIndexes := (m_leafIndexes m)(B leaf \<mapsto> m_numLeaves m)\<rparr>"
  note m = mmr_reprD [OF repr]
  have fit: "mpos (Suc ?n) < 2 ^ 64" using mpos_le [of "Suc ?n"] n by simp
  have fit0: "Suc (mpos ?n + 0) < 2 ^ 64" using fit mpos_Suc_less [of ?n] by linarith
  have "nodes_repr B ?L (\<lambda>e j. e < ?n \<or> e = ?n \<and> j \<le> 0) (Suc (mpos ?n + 0))
      ((m_nodes m)(of_nat (mpos ?n + 0) \<mapsto> nodeh B ?L 0 ?n))"
  proof (rule nodes_repr_upd [OF _ refl fit0])
    show "nodes_repr B ?L (\<lambda>e j. e < ?n) (mpos ?n + 0) (m_nodes m)"
      using m(5) by (simp add: nodes_repr_def nodeh_append)
  qed (auto dest: node_below)
  then have "carry_inv B ?L ?n 0 (nodeh B ?L 0 ?n) ?m"
    using m by (simp add: carry_inv_def peak_at_append)
  from AddLeaf_loop_range [OF B fit this]
  have "range_of B ?L (Suc ?n) (AddLeaf_loop B (nodeh B ?L 0 ?n) 0 ?m)" .
  moreover have "snd (AddLeaf B leaf m)
      = (AddLeaf_loop B (nodeh B ?L 0 ?n) 0 ?m)\<lparr>m_numLeaves := m_numLeaves m + 1\<rparr>"
    using m(2) by (simp add: AddLeaf_def Let_def AddLeaf_loop_frame)
  ultimately show ?thesis
    using m by (simp add: mmr_repr_def range_of_def AddLeaf_loop_frame leaf_map_append)
qed

text \<open>The range after adding a sequence of leaves to the empty range.\<close>

definition add_leaves :: "blake3 \<Rightarrow> bytes list \<Rightarrow> mmr" where
  "add_leaves B ds = fold (\<lambda>d m. snd (AddLeaf B d m)) ds NewMMR"

lemma add_leaves_snoc: "add_leaves B (ds @ [d]) = snd (AddLeaf B d (add_leaves B ds))"
  by (simp add: add_leaves_def)

lemma add_leaves_repr:
  "\<forall>x. B x \<noteq> 0 \<Longrightarrow> length ds < 2 ^ 62 \<Longrightarrow> mmr_repr B (map B ds) (add_leaves B ds)"
proof (induction ds rule: rev_induct)
  case Nil
  then show ?case by (simp add: add_leaves_def mmr_repr_NewMMR)
next
  case (snoc d ds)
  then have "mmr_repr B (map B ds) (add_leaves B ds)" by simp
  from AddLeaf_repr [OF snoc.prems(1) this] snoc.prems(2) show ?case
    by (simp add: add_leaves_snoc)
qed

text \<open>The root is a function of the leaf hashes.\<close>

definition peak_hashes :: "blake3 \<Rightarrow> hash list \<Rightarrow> hash list" where
  "peak_hashes B ls = peaksLR_loop (map (peak_at B ((!) ls) (length ls)) [0..<bit_len (length ls)]) []"

definition root_of :: "blake3 \<Rightarrow> hash list \<Rightarrow> hash" where
  "root_of B ls = (if ls = [] then 0
     else bagPeaksWithSize B (peak_hashes B ls) (of_nat (2 * length ls - pop (length ls))))"

lemma Root_repr:
  assumes "mmr_repr B ls m" "length ls < 2 ^ 62"
  shows "Root B m = root_of B ls"
proof -
  note m = mmr_reprD [OF assms(1)]
  have "unat (m_size m) = mpos (length ls)"
    using m(2) mpos_le [of "length ls"] assms(2) by (simp add: unat_of_nat_u64)
  then have "m_size m = 0 \<longleftrightarrow> ls = []"
    using mpos_ge [of "length ls"] by (cases ls) (auto simp: unat_eq_0 [symmetric])
  then show ?thesis
    using m(2,3) by (simp add: Root_def root_of_def peaksLR_def peak_hashes_def flip: mpos_def)
qed

lemma fst_AddLeaf: "fst (AddLeaf B d m) = Root B (snd (AddLeaf B d m))"
  by (simp add: AddLeaf_def Let_def)

end
