(* ===== verification/Mmr_Proofs.thy ===== *)
theory Mmr_Proofs
  imports Mmr
begin

text \<open>
  Inclusion proofs of the mountain range, \<open>GenerateInclusionProof\<close> and
  \<open>VerifyInclusionProof\<close> of \<open>pkg/crypto/mmr/proofs.go\<close>. Generation returns, and its proof
  verifies in the same range and in every later one (completeness); an accepted proof with a
  nonempty path shows the leaf that its index names (soundness), and one with an empty path
  shows nothing about the index.
\<close>

section \<open>The code\<close>

record InclusionProof =
  ip_LeafIndex :: u64
  ip_LeafHash :: hash
  ip_Siblings :: "hash list"
  ip_Peaks :: "hash list"
  ip_MMRSize :: u64

text \<open>The loop that collects the siblings; \<open>None\<close> would be a loop that does not end.\<close>

partial_function (option) siblings_loop :: "mmr \<Rightarrow> u64 \<Rightarrow> hash list \<Rightarrow> hash list result option" where
  "siblings_loop m currentPos siblings =
     (let (parentPos, siblingPos) = family currentPos in
      if parentPos \<ge> m_size m then Some (Inr siblings)
      else case m_nodes m siblingPos of
        Some siblingHash \<Rightarrow> siblings_loop m parentPos (siblings @ [siblingHash])
      | None \<Rightarrow> Some (Inl (Err ''missing sibling'')))"

definition GenerateInclusionProof :: "mmr \<Rightarrow> u64 \<Rightarrow> InclusionProof result option" where
  "GenerateInclusionProof m leafIndex =
     (if leafIndex \<ge> m_numLeaves m then Some (Inl (Err ''leaf index out of range''))
      else let leafPos = leafIndextoMMRIndex leafIndex in
        if \<not> isLeaf leafPos then Some (Inl (Err ''position is not a leaf''))
        else case m_nodes m leafPos of
          None \<Rightarrow> Some (Inl (Err ''no element at position''))
        | Some leafHash \<Rightarrow>
            map_option (\<lambda>r. rbind r (\<lambda>siblings. Inr
              \<lparr>ip_LeafIndex = leafIndex, ip_LeafHash = leafHash, ip_Siblings = siblings,
               ip_Peaks = peaksLR m, ip_MMRSize = m_size m\<rparr>))
            (siblings_loop m leafPos []))"

fun verify_climb :: "blake3 \<Rightarrow> hash list \<Rightarrow> hash \<Rightarrow> u64 \<Rightarrow> hash" where
  "verify_climb B [] currentHash currentPos = currentHash"
| "verify_climb B (sibling # siblings) currentHash currentPos =
     (let (parentPos, siblingPos) = family currentPos in
      verify_climb B siblings
        (if isLeftSibling siblingPos
         then hashWithPosition B parentPos [hash_Bytes sibling, hash_Bytes currentHash]
         else hashWithPosition B parentPos [hash_Bytes currentHash, hash_Bytes sibling])
        parentPos)"

fun expected_peaks :: "(u64 \<rightharpoonup> hash) \<Rightarrow> u64 list \<Rightarrow> hash list option" where
  "expected_peaks nd [] = Some []"
| "expected_peaks nd (peakPos # ps) =
     (case nd peakPos of
        Some peakHash \<Rightarrow> map_option ((#) peakHash) (expected_peaks nd ps)
      | None \<Rightarrow> None)"

definition VerifyInclusionProof :: "blake3 \<Rightarrow> mmr \<Rightarrow> InclusionProof \<Rightarrow> bool" where
  "VerifyInclusionProof B m proof =
     (let nodePos = leafIndextoMMRIndex (ip_LeafIndex proof);
          currentHash = verify_climb B (ip_Siblings proof) (ip_LeafHash proof) nodePos;
          peakFound = list_ex (\<lambda>peak. hash_Equal peak currentHash) (ip_Peaks proof)
      in if \<not> peakFound then False
         else case expected_peaks (m_nodes m) (peakPositionsAtSize (ip_MMRSize proof)) of
           None \<Rightarrow> False
         | Some expectedPeaks \<Rightarrow>
             if ip_Peaks proof \<noteq> expectedPeaks then False
             else hash_Equal (bagPeaksWithSize B expectedPeaks (ip_MMRSize proof))
                    (bagPeaksWithSize B (ip_Peaks proof) (ip_MMRSize proof)))"

section \<open>Families\<close>

lemma node_shift: "2 ^ h dvd Suc e \<Longrightarrow> e = 2 ^ h * (e div 2 ^ h) + (2 ^ h - 1)"
  using full_below [of h e] by simp

lemma mpos_right:
  assumes "2 ^ h dvd Suc e" "odd (e div 2 ^ h)"
  shows "mpos e + 1 = mpos (e - 2 ^ h) + 2 ^ Suc h" and "2 ^ h dvd Suc (e - 2 ^ h)"
    and "even ((e - 2 ^ h) div 2 ^ h)" and "2 ^ h \<le> e"
proof -
  obtain a where a: "e div 2 ^ h = Suc (2 * a)" using assms(2) by (metis oddE Suc_eq_plus1)
  have pow: "(2 :: nat) ^ h - 1 < 2 ^ h" "(1 :: nat) \<le> 2 ^ h" by simp_all
  have e: "e = 2 ^ h * Suc (2 * a) + (2 ^ h - 1)" using node_shift [OF assms(1)] a by simp
  then have e': "e - 2 ^ h = 2 ^ h * (2 * a) + (2 ^ h - 1)" by simp
  have "pop e = Suc (pop a) + h"
    unfolding e using pop_add [OF pow(1), of "Suc (2 * a)"] pop_ones [of h] by (simp only: pop_double_Suc)
  moreover have "pop (e - 2 ^ h) = pop a + h"
    unfolding e' using pop_add [OF pow(1), of "2 * a"] pop_ones [of h] by (simp only: pop_double)
  ultimately
  have p: "pop e = Suc (pop (e - 2 ^ h))" by simp
  show big: "2 ^ h \<le> e" unfolding e by simp
  show "mpos e + 1 = mpos (e - 2 ^ h) + 2 ^ Suc h"
    using p pop_le [of e] pop_le [of "e - 2 ^ h"] big by (simp add: mpos_def)
  have "Suc (e - 2 ^ h) = 2 ^ h * Suc (2 * a)" unfolding e' using pow(2) by simp
  then show "2 ^ h dvd Suc (e - 2 ^ h)" by simp
  have "(e - 2 ^ h) div 2 ^ h = 2 * a + (2 ^ h - 1) div 2 ^ h"
    unfolding e' by (subst add.commute, subst div_mult_self2) simp_all
  then have "(e - 2 ^ h) div 2 ^ h = 2 * a" using pow(1) by (simp only: div_less add_0_right)
  then show "even ((e - 2 ^ h) div 2 ^ h)" by simp
qed

lemma mpos_left:
  assumes "2 ^ h dvd Suc e" "even (e div 2 ^ h)"
  shows "mpos e + 2 ^ Suc h = mpos (e + 2 ^ h) + 1" and "2 ^ h dvd Suc (e + 2 ^ h)"
    and "odd ((e + 2 ^ h) div 2 ^ h)"
proof -
  show dvd: "2 ^ h dvd Suc (e + 2 ^ h)" using dvd_add [OF assms(1) dvd_refl] by simp
  have "(e + 2 ^ h) div 2 ^ h = Suc (e div 2 ^ h)" by (simp add: div_add_self2)
  with assms(2) show odd: "odd ((e + 2 ^ h) div 2 ^ h)" by (simp only: even_Suc not_not)
  show "mpos e + 2 ^ Suc h = mpos (e + 2 ^ h) + 1" using mpos_right(1) [OF dvd odd] by simp
qed

text \<open>What \<open>family\<close> returns at a node: its parent and its sibling.\<close>

lemma height_bound: "2 ^ h dvd Suc e \<Longrightarrow> e < 2 ^ k \<Longrightarrow> h \<le> k"
proof -
  assume "2 ^ h dvd Suc e" "e < 2 ^ k"
  then have "2 ^ h \<le> Suc e" "Suc e \<le> 2 ^ k" by (auto dest: dvd_imp_le)
  then have "(2 :: nat) ^ h \<le> 2 ^ k" by linarith
  then show ?thesis by simp
qed

lemma pmh_at:
  assumes "2 ^ h dvd Suc e" "unat p = mpos e + h" "e < 2 ^ 61"
  obtains pm ht where "peakMapHeight p = (pm, ht)" "unat pm = e" "unat ht = h"
    "unat (push_bit (unat ht) (1 :: u64)) = 2 ^ h" "h < 63"
    "pm AND push_bit (unat ht) 1 = 0 \<longleftrightarrow> even (e div 2 ^ h)"
proof -
  have h: "h < 63" using height_bound [OF assms(1,3)] by simp
  obtain pm ht where pm: "peakMapHeight p = (pm, ht)" by fastforce
  with peakMapHeight_node [OF assms(1,2)] have "unat pm = e" "unat ht = h" by simp_all
  moreover have "unat (push_bit h (1 :: u64)) = 2 ^ h"
  proof -
    have "(2 :: nat) ^ h < 2 ^ 64" using h by (intro power_strict_increasing) simp_all
    then show ?thesis
      using h by (simp only: unsigned_push_bit_eq) (simp add: push_bit_eq_mult take_bit_nat_eq_self del: push_bit_of_1)
  qed
  ultimately show thesis using that pm h bit_test [of h pm] by simp
qed

lemma family_right:
  assumes "2 ^ h dvd Suc e" "unat p = mpos e + h" "e < 2 ^ 61" "odd (e div 2 ^ h)"
  shows "map_prod unat unat (family p) = (mpos e + Suc h, mpos (e - 2 ^ h) + h)"
    and "\<not> isLeftSibling p"
proof -
  obtain pm ht where pm: "peakMapHeight p = (pm, ht)" "unat (push_bit (unat ht) (1 :: u64)) = 2 ^ h" "h < 63"
    "pm AND push_bit (unat ht) 1 = 0 \<longleftrightarrow> even (e div 2 ^ h)"
    using pmh_at [OF assms(1-3)] by metis
  let ?peak = "push_bit (unat ht) (1 :: u64)"
  have "mpos e + h < 2 ^ 64 - 1" using mpos_le [of e] assms(3) pm(3) by simp
  then have p1: "unat (p + 1) = mpos e + Suc h" using assms(2) by (subst unat_Suc_u64) simp_all
  have "2 * (2 :: nat) ^ h < 2 ^ 64" using pm(3) power_strict_increasing [of "Suc h" 64 "2 :: nat"] by simp
  then have pk: "unat (2 * ?peak) = 2 ^ Suc h"
    by (simp only: unat_word_ariths pm(2)) simp
  have d: "mpos e + Suc h = mpos (e - 2 ^ h) + h + 2 ^ Suc h"
    using mpos_right(1) [OF assms(1,4)] by simp
  then have "2 * ?peak \<le> p + 1" by (simp only: word_le_nat_alt p1 pk le_add2)
  then have "unat (p + 1 - 2 * ?peak) = mpos (e - 2 ^ h) + h"
    by (simp only: unat_sub p1 pk d add_diff_cancel_right')
  with pm assms(4) p1 show "map_prod unat unat (family p) = (mpos e + Suc h, mpos (e - 2 ^ h) + h)"
    by (simp add: family_def Let_def)
  from pm assms(4) show "\<not> isLeftSibling p" by (simp add: isLeftSibling_def Let_def)
qed

lemma family_left:
  assumes "2 ^ h dvd Suc e" "unat p = mpos e + h" "e < 2 ^ 61" "even (e div 2 ^ h)"
  shows "map_prod unat unat (family p) = (mpos (e + 2 ^ h) + Suc h, mpos (e + 2 ^ h) + h)"
    and "isLeftSibling p"
proof -
  obtain pm ht where pm: "peakMapHeight p = (pm, ht)" "unat (push_bit (unat ht) (1 :: u64)) = 2 ^ h" "h < 63"
    "pm AND push_bit (unat ht) 1 = 0 \<longleftrightarrow> even (e div 2 ^ h)"
    using pmh_at [OF assms(1-3)] by metis
  let ?peak = "push_bit (unat ht) (1 :: u64)"
  have h: "2 ^ h \<le> Suc e" using assms(1) by (auto dest: dvd_imp_le)
  have "2 * (2 :: nat) ^ h < 2 ^ 64" using pm(3) power_strict_increasing [of "Suc h" 64 "2 :: nat"] by simp
  then have pk: "unat (2 * ?peak) = 2 ^ Suc h"
    by (simp only: unat_word_ariths pm(2)) simp
  have sum: "mpos e + h + 2 ^ Suc h = mpos (e + 2 ^ h) + Suc h"
    using mpos_left(1) [OF assms(1,4)] by simp
  have "mpos e + h + 2 ^ Suc h < 2 ^ 64"
    using h mpos_le [of e] assms(3) pm(3) unfolding power_Suc by simp
  then have p2: "unat (p + 2 * ?peak) = mpos (e + 2 ^ h) + Suc h"
    using assms(2) sum by (subst unat_add_u64) (simp_all only: pk)
  then have "unat (p + 2 * ?peak - 1) = mpos (e + 2 ^ h) + h"
    by (subst unat_minus_one) (auto simp: unat_eq_0 [symmetric])
  with pm assms(4) p2 show "map_prod unat unat (family p)
      = (mpos (e + 2 ^ h) + Suc h, mpos (e + 2 ^ h) + h)"
    by (simp add: family_def Let_def)
  from pm assms(4) show "isLeftSibling p" by (simp add: isLeftSibling_def Let_def)
qed

section \<open>The siblings of a leaf\<close>

text \<open>
  Climbing from a node of the range collects hashes with which verification climbs to the peak
  over it, in the range itself and in every range that extends it.
\<close>

lemma parent_right:
  assumes "2 ^ h dvd Suc e" "odd (e div 2 ^ h)"
  shows "2 ^ Suc h dvd Suc e"
    and "nodeh B L (Suc h) e = hashWithPosition B (of_nat (mpos e + Suc h))
      [hash_Bytes (nodeh B L h (e - 2 ^ h)), hash_Bytes (nodeh B L h e)]"
  using carry_on [OF assms] by simp_all

lemma parent_left:
  assumes "2 ^ h dvd Suc e" "even (e div 2 ^ h)"
  shows "2 ^ Suc h dvd Suc (e + 2 ^ h)"
    and "nodeh B L (Suc h) (e + 2 ^ h) = hashWithPosition B (of_nat (mpos (e + 2 ^ h) + Suc h))
      [hash_Bytes (nodeh B L h e), hash_Bytes (nodeh B L h (e + 2 ^ h))]"
  using carry_on [OF mpos_left(2,3) [OF assms]] by simp_all

lemma top_is_peak:
  assumes "2 ^ h dvd Suc e" "even (e div 2 ^ h)" "e < n" "n \<le> e + 2 ^ h"
  shows "odd (n div 2 ^ h)" and "peak_end n h = e"
proof -
  have pow: "(1 :: nat) \<le> 2 ^ h" by simp
  have e: "Suc e = 2 ^ h * Suc (e div 2 ^ h)" by (rule full_below [OF assms(1)])
  have "n = (n - Suc e) + 2 ^ h * Suc (e div 2 ^ h)" using e assms(3) by simp
  moreover have "n - Suc e < 2 ^ h" using assms(4) pow by linarith
  ultimately have q: "n div 2 ^ h = Suc (e div 2 ^ h)"
    by (metis div_less div_mult_self2 add_0_right pow not_one_le_zero)
  with assms(2) show "odd (n div 2 ^ h)" by simp
  show "peak_end n h = e" using e by (simp add: peak_end_def q ac_simps)
qed

lemma family_cases:
  assumes "2 ^ h dvd Suc e" "unat p = mpos e + h" "e < 2 ^ 61"
  obtains (right) pp sp where "family p = (pp, sp)" "odd (e div 2 ^ h)" "unat pp = mpos e + Suc h"
      "unat sp = mpos (e - 2 ^ h) + h" "isLeftSibling sp"
    | (left) pp sp where "family p = (pp, sp)" "even (e div 2 ^ h)"
      "unat pp = mpos (e + 2 ^ h) + Suc h" "unat sp = mpos (e + 2 ^ h) + h"
      "e + 2 ^ h < 2 ^ 61 \<Longrightarrow> \<not> isLeftSibling sp"
proof -
  obtain pp sp where f: "family p = (pp, sp)" by fastforce
  show thesis
  proof (cases "odd (e div 2 ^ h)")
    case True
    with family_right(1) [OF assms True] f have sp: "unat sp = mpos (e - 2 ^ h) + h" by simp
    note r = mpos_right [OF assms(1) True]
    have "isLeftSibling sp"
      using family_left(2) [OF r(2) sp _ r(3)] assms(3) by simp
    with family_right(1) [OF assms True] f True sp show ?thesis by (intro right) simp_all
  next
    case False
    then have ev: "even (e div 2 ^ h)" by simp
    with family_left(1) [OF assms ev] f have sp: "unat sp = mpos (e + 2 ^ h) + h" by simp
    note l = mpos_left [OF assms(1) ev]
    have "e + 2 ^ h < 2 ^ 61 \<Longrightarrow> \<not> isLeftSibling sp"
      using family_right(2) [OF l(2) sp _ l(3)] by simp
    with family_left(1) [OF assms ev] f ev sp show ?thesis by (intro left) simp_all
  qed
qed

lemma of_nat_unatI: "unat (p :: u64) = k \<Longrightarrow> p = of_nat k"
  using of_nat_unat_u64 [of p] by simp

lemma climb:
  assumes repr: "mmr_repr B ls m" and n: "length ls < 2 ^ 60"
  shows "2 ^ h dvd Suc e \<Longrightarrow> e < length ls \<Longrightarrow> unat p = mpos e + h \<Longrightarrow>
    \<exists>S k. siblings_loop m p acc = Some (Inr (acc @ S)) \<and> odd (length ls div 2 ^ k)
      \<and> verify_climb B S (nodeh B ((!) ls) h e) p = nodeh B ((!) ls) k (peak_end (length ls) k)"
proof (induction "length ls - h" arbitrary: h e p acc rule: less_induct)
  case less
  let ?n = "length ls" and ?L = "(!) ls"
  note m = mmr_reprD [OF repr]
  have sz: "unat (m_size m) = mpos ?n"
    using m(2) mpos_le [of ?n] n by (simp add: unat_of_nat_u64)
  have e61: "e < 2 ^ 61" using less.prems(2) n by simp
  have hn: "h < ?n"
    using less.prems(1,2) less_exp [of h] dvd_imp_le [OF less.prems(1)] by linarith
  from less.prems(1,3) e61 show ?case
  proof (cases rule: family_cases)
    case (right pp sp)
    note pr = parent_right [OF less.prems(1) right(2)]
    note mr = mpos_right [OF less.prems(1) right(2)]
    have node: "mpos e + Suc h < mpos ?n" using node_below [OF less.prems(2) pr(1)] .
    obtain S k where S: "siblings_loop m pp (acc @ [nodeh B ?L h (e - 2 ^ h)])
        = Some (Inr ((acc @ [nodeh B ?L h (e - 2 ^ h)]) @ S))" "odd (?n div 2 ^ k)"
      "verify_climb B S (nodeh B ?L (Suc h) e) pp = nodeh B ?L k (peak_end ?n k)"
      using less.hyps [OF _ pr(1) less.prems(2) right(3)] hn by (meson diff_less_mono2 lessI)
    have "m_nodes m sp = Some (nodeh B ?L h (e - 2 ^ h))"
      using m(5) mr(2) less.prems(2) of_nat_unatI [OF right(4)] by (simp add: nodes_repr_def)
    then have "siblings_loop m p acc = Some (Inr (acc @ nodeh B ?L h (e - 2 ^ h) # S))"
      using S(1) right(1,3) sz node
      by (subst siblings_loop.simps) (simp add: word_le_nat_alt)
    moreover have "verify_climb B (nodeh B ?L h (e - 2 ^ h) # S) (nodeh B ?L h e) p
        = nodeh B ?L k (peak_end ?n k)"
      using S(3) right(1,5) of_nat_unatI [OF right(3)] pr(2) by simp
    ultimately show ?thesis using S(2) by blast
  next
    case (left pp sp)
    show ?thesis
    proof (cases "e + 2 ^ h < ?n")
      case True
      note pl = parent_left [OF less.prems(1) left(2)]
      note ml = mpos_left [OF less.prems(1) left(2)]
      have node: "mpos (e + 2 ^ h) + Suc h < mpos ?n" using node_below [OF True pl(1)] .
      obtain S k where S: "siblings_loop m pp (acc @ [nodeh B ?L h (e + 2 ^ h)])
          = Some (Inr ((acc @ [nodeh B ?L h (e + 2 ^ h)]) @ S))" "odd (?n div 2 ^ k)"
        "verify_climb B S (nodeh B ?L (Suc h) (e + 2 ^ h)) pp = nodeh B ?L k (peak_end ?n k)"
        using less.hyps [OF _ pl(1) True left(3)] hn by (meson diff_less_mono2 lessI)
      have "m_nodes m sp = Some (nodeh B ?L h (e + 2 ^ h))"
        using m(5) ml(2) True of_nat_unatI [OF left(4)] by (simp add: nodes_repr_def)
      then have "siblings_loop m p acc = Some (Inr (acc @ nodeh B ?L h (e + 2 ^ h) # S))"
        using S(1) left(1,3) sz node
        by (subst siblings_loop.simps) (simp add: word_le_nat_alt)
      moreover have "\<not> isLeftSibling sp" using left(5) True n by simp
      then have "verify_climb B (nodeh B ?L h (e + 2 ^ h) # S) (nodeh B ?L h e) p
          = nodeh B ?L k (peak_end ?n k)"
        using S(3) left(1) of_nat_unatI [OF left(3)] pl(2) by simp
      ultimately show ?thesis using S(2) by blast
    next
      case False
      then have "mpos ?n \<le> mpos (e + 2 ^ h)" by (intro mpos_mono) simp
      with left(1,3) sz have "siblings_loop m p acc = Some (Inr acc)"
        by (subst siblings_loop.simps) (simp add: word_le_nat_alt)
      moreover note top_is_peak [OF less.prems(1) left(2) less.prems(2)]
      ultimately show ?thesis using False
        by (intro exI [of _ "[]"] exI [of _ h]) simp
    qed
  qed
qed

section \<open>The positions of the peaks\<close>

definition peak_heights :: "nat \<Rightarrow> nat list" where
  "peak_heights n = rev (filter (\<lambda>h. odd (n div 2 ^ h)) [0..<bit_len n])"

lemma peaksLR_loop_filter: "peaksLR_loop ps acc = rev (filter (\<lambda>p. p \<noteq> 0) ps) @ acc"
  by (induction ps arbitrary: acc) (simp_all add: hash_IsZero_def)

lemma peaksLR_heights:
  assumes "\<forall>x. B x \<noteq> 0" "mmr_repr B ls m"
  shows "peaksLR m = map (\<lambda>h. nodeh B ((!) ls) h (peak_end (length ls) h)) (peak_heights (length ls))"
proof -
  let ?n = "length ls"
  have "filter (\<lambda>p. p \<noteq> 0) (map (peak_at B ((!) ls) ?n) [0..<k])
      = map (\<lambda>h. nodeh B ((!) ls) h (peak_end ?n h)) (filter (\<lambda>h. odd (?n div 2 ^ h)) [0..<k])" for k
    by (induction k) (simp_all add: peak_at_def nodeh_nonzero [OF assms(1)])
  with mmr_reprD(3) [OF assms(2)] show ?thesis
    by (simp add: peaksLR_def peaksLR_loop_filter peak_heights_def rev_map)
qed

lemma bit_len_top: "b < 2 ^ k \<Longrightarrow> bit_len (2 ^ k + b) = Suc k"
proof -
  assume b: "b < 2 ^ k"
  then have "\<not> bit_len (2 ^ k + b) \<le> k" "bit_len (2 ^ k + b) \<le> Suc k"
    by (simp_all only: bit_len_le_iff) simp_all
  then show ?thesis by linarith
qed

lemma odd_top:
  assumes "b < 2 ^ k" "h < k"
  shows "odd ((2 ^ k + b) div 2 ^ h) \<longleftrightarrow> odd (b div 2 ^ h)"
    and "odd (b div 2 ^ h) \<Longrightarrow> peak_end (2 ^ k + b) h = 2 ^ k + peak_end b h"
proof -
  obtain i where k: "k = h + Suc i" using assms(2) by (metis less_iff_Suc_add add_Suc_right)
  have pk: "(2 :: nat) ^ k = 2 ^ h * (2 * 2 ^ i)" by (simp add: k power_add)
  have q: "(2 ^ k + b) div 2 ^ h = 2 * 2 ^ i + b div 2 ^ h"
    unfolding pk by (subst div_mult_self4) simp_all
  then show "odd ((2 ^ k + b) div 2 ^ h) \<longleftrightarrow> odd (b div 2 ^ h)" by simp
  assume "odd (b div 2 ^ h)"
  then have "1 \<le> b div 2 ^ h * 2 ^ h" using odd_nonzero [of "b div 2 ^ h"] by simp
  then show "peak_end (2 ^ k + b) h = 2 ^ k + peak_end b h"
    unfolding peak_end_def q by (simp add: pk algebra_simps)
qed

lemma heights_top:
  assumes "b < 2 ^ k"
  shows "peak_heights (2 ^ k + b) = k # peak_heights b"
proof -
  have odd_k: "odd ((2 ^ k + b) div 2 ^ k)" using assms by (simp add: div_add_self1)
  have "filter (\<lambda>h. odd ((2 ^ k + b) div 2 ^ h)) [0..<k] = filter (\<lambda>h. odd (b div 2 ^ h)) [0..<k]"
    by (rule filter_cong) (auto simp: odd_top [OF assms])
  also have "\<dots> = filter (\<lambda>h. odd (b div 2 ^ h)) [0..<bit_len b]"
  proof -
    have "b div 2 ^ h = 0" if "bit_len b \<le> h" for h using that bit_len_le_iff [of b h] by simp
    moreover have "[0..<k] = [0..<bit_len b] @ [bit_len b..<k]"
      using assms bit_len_le_iff [of b k] upt_add_eq_append [of 0 "bit_len b" "k - bit_len b"] by simp
    ultimately show ?thesis by (simp only: filter_append) (simp add: filter_empty_conv)
  qed
  finally show ?thesis using odd_k by (simp add: peak_heights_def bit_len_top [OF assms])
qed

lemma top_split:
  assumes "(n :: nat) > 0"
  obtains k b where "n = 2 ^ k + b" "b < 2 ^ k"
proof -
  have "2 ^ floor_log2 n \<le> n" "n < 2 ^ Suc (floor_log2 n)" using floor_log2_bounds [OF assms] by simp_all
  then show thesis using that [of "floor_log2 n" "n - 2 ^ floor_log2 n"] by simp
qed

lemma floor_log2_unique: "2 ^ k \<le> n \<Longrightarrow> n < 2 ^ Suc k \<Longrightarrow> floor_log2 n = k"
proof -
  assume n: "2 ^ k \<le> n" "n < 2 ^ Suc k"
  then have "0 < n" by (metis gr0I not_less zero_less_power zero_less_numeral)
  note b = floor_log2_bounds [OF this]
  have "(2 :: nat) ^ k < 2 ^ Suc (floor_log2 n)" "(2 :: nat) ^ floor_log2 n < 2 ^ Suc k"
    using n b by linarith+
  then have "k < Suc (floor_log2 n)" "floor_log2 n < Suc k"
    by (simp_all only: power_strict_increasing_iff one_less_numeral_iff semiring_norm)
  then show ?thesis by linarith
qed

lemma mpos_ones: "mpos (2 ^ k - 1) + k + 2 = 2 ^ Suc k"
  using pop_ones [of k] pop_le [of "2 ^ k - 1"] one_le_power [of "2 :: nat" k]
  unfolding mpos_def power_Suc by linarith

lemma floor_log2_mpos:
  assumes "n = 2 ^ j + b" "b < 2 ^ j"
  shows "floor_log2 (mpos n + 1) = Suc j" and "mpos n = mpos b + (2 ^ Suc j - 1)"
proof -
  show mn: "mpos n = mpos b + (2 ^ Suc j - 1)" unfolding assms(1) by (rule mpos_pow_add [OF assms(2)])
  have pow: "(1 :: nat) \<le> 2 ^ j" by simp
  have "mpos b + 2 \<le> 2 ^ Suc j"
    using mpos_mono [of b "2 ^ j - 1"] assms(2) mpos_ones [of j] pow by linarith
  then have "2 ^ Suc j \<le> mpos n + 1" "mpos n + 1 < 2 ^ Suc (Suc j)"
    unfolding mn power_Suc by linarith+
  then show "floor_log2 (mpos n + 1) = Suc j" by (rule floor_log2_unique)
qed

lemma mpos_top:
  assumes "c = 2 ^ j * a"
  shows "mpos (c + (2 ^ j - 1)) + j = mpos c + (2 ^ Suc j - 1) - 1"
proof -
  have pow: "(1 :: nat) \<le> 2 ^ j" "2 ^ j - 1 < (2 :: nat) ^ j" by simp_all
  show ?thesis
    using mpos_add [OF pow(2), of a] mpos_ones [of j] pow(1) unfolding assms power_Suc by linarith
qed

text \<open>The loop of \<open>peakPositionsAtSize\<close> visits exactly the peaks, the highest first.\<close>

lemma peakPositions_loop_heights:
  "\<exists>d. c = 2 ^ k * d \<Longrightarrow> n < 2 ^ k \<Longrightarrow>
   peakPositions_loop (mpos c + 1) (mpos n) = map (\<lambda>h. mpos (c + peak_end n h) + h) (peak_heights n)"
proof (induction n arbitrary: c k rule: less_induct)
  case (less n)
  show ?case
  proof (cases "n = 0")
    case True
    then show ?thesis by (simp add: peak_heights_def bit_len.simps peakPositions_loop.simps)
  next
    case False
    then have "n > 0" by simp
    then obtain j b where n: "n = 2 ^ j + b" "b < 2 ^ j" by (rule top_split)
    have jk: "j < k"
    proof -
      have "(2 :: nat) ^ j < 2 ^ k" using less.prems(2) n(1) by linarith
      then show ?thesis by (rule power_less_imp_less_exp [rotated]) simp
    qed
    then obtain i where i: "k = j + Suc i" by (metis less_iff_Suc_add add_Suc_right)
    obtain d where d: "c = 2 ^ k * d" using less.prems(1) by blast
    have c: "c = 2 ^ j * (2 * 2 ^ i * d)" unfolding d i power_add power_Suc by (simp only: ac_simps)
    note log = floor_log2_mpos(1) [OF n] and mn = floor_log2_mpos(2) [OF n]
    have pow: "(1 :: nat) \<le> 2 ^ j" by simp
    have next_c: "mpos (c + 2 ^ j) = mpos c + (2 ^ Suc j - 1)"
    proof -
      have "(2 :: nat) ^ j < 2 ^ k" using jk by (rule power_strict_increasing) simp
      from mpos_add [OF this, of d] show ?thesis unfolding d mpos_pow .
    qed
    note top = mpos_top [OF c]
    have IH: "peakPositions_loop (mpos (c + 2 ^ j) + 1) (mpos b)
        = map (\<lambda>h. mpos (c + 2 ^ j + peak_end b h) + h) (peak_heights b)"
    proof (rule less.IH)
      show "b < n" using n(1) pow by linarith
      show "\<exists>d. c + 2 ^ j = 2 ^ j * d"
        using c by (intro exI [of _ "Suc (2 * 2 ^ i * d)"]) simp
    qed (rule n(2))
    have "peakPositions_loop (mpos c + 1) (mpos n)
        = (mpos c + 1 + (2 ^ Suc j - 1) - 1 - 1) # peakPositions_loop (mpos c + 1 + (2 ^ Suc j - 1)) (mpos b)"
    proof -
      have "0 < mpos n" using False mpos_ge [of n] by linarith
      then have "peakPositions_loop (mpos c + 1) (mpos n)
          = (mpos c + 1 + (2 ^ Suc j - 1) - 1 - 1) # peakPositions_loop (mpos c + 1 + (2 ^ Suc j - 1))
              (mpos n - (2 ^ Suc j - 1))"
        by (subst peakPositions_loop.simps) (simp only: if_True Let_def log)
      then show ?thesis unfolding mn by (simp only: add_diff_cancel_right')
    qed
    moreover have "mpos c + 1 + (2 ^ Suc j - 1) - 1 - 1 = mpos (c + (2 ^ j - 1)) + j"
      using top by linarith
    moreover have "mpos c + 1 + (2 ^ Suc j - 1) = mpos (c + 2 ^ j) + 1" using next_c by linarith
    moreover have "peak_end n j = 2 ^ j - 1" using n by (simp add: peak_end_def div_add_self1)
    moreover have "map (\<lambda>h. mpos (c + 2 ^ j + peak_end b h) + h) (peak_heights b)
        = map (\<lambda>h. mpos (c + peak_end n h) + h) (peak_heights b)"
    proof (rule map_cong [OF refl])
      fix h
      assume "h \<in> set (peak_heights b)"
      then have "h < bit_len b" "odd (b div 2 ^ h)" by (simp_all add: peak_heights_def)
      moreover have "bit_len b \<le> j" using n(2) bit_len_le_iff by blast
      ultimately show "mpos (c + 2 ^ j + peak_end b h) + h = mpos (c + peak_end n h) + h"
        unfolding n(1) using odd_top(2) [OF n(2), of h] by (simp add: add.assoc)
    qed
    moreover have "peak_heights n = j # peak_heights b" unfolding n(1) by (rule heights_top [OF n(2)])
    ultimately show ?thesis by (simp only: IH list.map)
  qed
qed

section \<open>Completeness\<close>

lemma peak_node: "odd (n div 2 ^ h) \<Longrightarrow> 2 ^ h dvd Suc (peak_end n h) \<and> peak_end n h < n"
  using peak_end_less [of n h] odd_nonzero [of "n div 2 ^ h"] by (auto simp: peak_end_def)

lemma peakPositionsAtSize_heights:
  assumes "n < 2 ^ 60"
  shows "peakPositionsAtSize (of_nat (mpos n)) = map (\<lambda>h. of_nat (mpos (peak_end n h) + h)) (peak_heights n)"
proof -
  have "unat (of_nat (mpos n) :: u64) = mpos n"
    using mpos_le [of n] assms by (intro unat_of_nat_u64) simp
  with peakPositions_loop_heights [of 0 60 n] assms show ?thesis
    by (simp add: peakPositionsAtSize_def)
qed

lemma expected_peaks_heights:
  assumes "nodes_repr B L (\<lambda>e h. e < n') sz nd" and "n \<le> n'"
    and "\<And>h. h \<in> set hs \<Longrightarrow> odd (n div 2 ^ h)"
  shows "expected_peaks nd (map (\<lambda>h. of_nat (mpos (peak_end n h) + h)) hs)
    = Some (map (\<lambda>h. nodeh B L h (peak_end n h)) hs)"
  using assms(3)
proof (induction hs)
  case (Cons h hs)
  then have "2 ^ h dvd Suc (peak_end n h)" "peak_end n h < n'"
    using peak_node [of n h] assms(2) by auto
  with assms(1) Cons show ?case by (simp add: nodes_repr_def)
qed simp

lemma heights_odd: "h \<in> set (peak_heights n) \<longleftrightarrow> odd (n div 2 ^ h)"
proof -
  have "odd (n div 2 ^ h) \<Longrightarrow> h < bit_len n"
    using bit_len_le_iff [of n h] odd_nonzero [of "n div 2 ^ h"] by (cases "bit_len n \<le> h") auto
  then show ?thesis by (auto simp: peak_heights_def)
qed

text \<open>In a range that extends \<open>ls\<close>, the peaks of the size of \<open>ls\<close> are those of \<open>ls\<close>.\<close>

lemma expected_peaks_repr:
  assumes B: "\<forall>x. B x \<noteq> 0" and m: "mmr_repr B ls m" and m': "mmr_repr B (ls @ xs) m'"
    and n: "length ls < 2 ^ 60"
  shows "expected_peaks (m_nodes m') (peakPositionsAtSize (m_size m)) = Some (peaksLR m)"
proof -
  have "expected_peaks (m_nodes m') (map (\<lambda>h. of_nat (mpos (peak_end (length ls) h) + h)) (peak_heights (length ls)))
      = Some (map (\<lambda>h. nodeh B ((!) (ls @ xs)) h (peak_end (length ls) h)) (peak_heights (length ls)))"
    by (rule expected_peaks_heights [OF mmr_reprD(5) [OF m']]) (simp_all add: heights_odd)
  also have "map (\<lambda>h. nodeh B ((!) (ls @ xs)) h (peak_end (length ls) h)) (peak_heights (length ls)) = peaksLR m"
    using peak_node [of "length ls"]
    by (simp add: peaksLR_heights [OF B m] heights_odd nodeh_append)
  finally show ?thesis by (simp only: mmr_reprD(2) [OF m] peakPositionsAtSize_heights [OF n])
qed

lemma isLeaf_leaf:
  assumes "unat p = mpos e" "e < 2 ^ 61"
  shows "isLeaf p"
proof -
  have "2 ^ 0 dvd Suc e" "unat p = mpos e + 0" using assms(1) by simp_all
  then obtain pm ht where "peakMapHeight p = (pm, ht)" "unat ht = 0"
    using assms(2) by (rule pmh_at)
  then show ?thesis by (simp add: isLeaf_def unat_eq_0)
qed

lemma nodes_reprD:
  "nodes_repr B L P sz nd \<Longrightarrow> P e h \<Longrightarrow> 2 ^ h dvd Suc e \<Longrightarrow> nd (of_nat (mpos e + h)) = Some (nodeh B L h e)"
  unfolding nodes_repr_def by blast

lemma GenerateInclusionProof_complete:
  assumes B: "\<forall>x. B x \<noteq> 0" and m: "mmr_repr B ls m" and m': "mmr_repr B (ls @ xs) m'"
    and n: "length ls < 2 ^ 60" and i: "unat i < length ls"
  shows "\<exists>proof. GenerateInclusionProof m i = Some (Inr proof) \<and> ip_LeafIndex proof = i
    \<and> ip_LeafHash proof = nodeh B ((!) ls) 0 (unat i) \<and> VerifyInclusionProof B m' proof"
proof -
  let ?p = "leafIndextoMMRIndex i" and ?e = "unat i"
  have e: "?e < 2 ^ 60" using i n by simp
  have p: "unat ?p = mpos ?e" using e by (intro unat_leafIndextoMMRIndex) simp
  obtain S k where S: "siblings_loop m ?p [] = Some (Inr S)" "odd (length ls div 2 ^ k)"
    "verify_climb B S (nodeh B ((!) ls) 0 ?e) ?p = nodeh B ((!) ls) k (peak_end (length ls) k)"
    using climb [OF m n, of 0 ?e ?p "[]"] i p by auto
  have node: "m_nodes m ?p = Some (nodeh B ((!) ls) 0 ?e)"
    using nodes_reprD [OF mmr_reprD(5) [OF m] i, of 0] of_nat_unatI [OF p] by simp
  have lt: "\<not> m_numLeaves m \<le> i"
    using mmr_reprD(1) [OF m] n i by (simp add: word_le_nat_alt unat_of_nat_u64)
  have leaf: "isLeaf ?p" using e by (intro isLeaf_leaf [OF p]) simp
  have "nodeh B ((!) ls) k (peak_end (length ls) k) \<in> set (peaksLR m)"
    using S(2) by (auto simp: peaksLR_heights [OF B m] heights_odd)
  with S node lt leaf expected_peaks_repr [OF B m m' n] show ?thesis
    by (simp add: GenerateInclusionProof_def VerifyInclusionProof_def Let_def list_ex_iff)
qed

section \<open>Soundness\<close>

text \<open>The input hashed for a node, and the inputs that verification hashes.\<close>

definition node_data :: "blake3 \<Rightarrow> (nat \<Rightarrow> hash) \<Rightarrow> nat \<Rightarrow> nat \<Rightarrow> bytes" where
  "node_data B L h e = BytesFromUint64 (of_nat (mpos e + h)) @
     (case h of 0 \<Rightarrow> hash_Bytes (L e)
      | Suc j \<Rightarrow> hash_Bytes (nodeh B L j (e - 2 ^ j)) @ hash_Bytes (nodeh B L j e))"

definition tree_inputs :: "blake3 \<Rightarrow> (nat \<Rightarrow> hash) \<Rightarrow> nat \<Rightarrow> bytes set" where
  "tree_inputs B L n = (\<Union>e\<in>{..<n}. \<Union>h\<in>{h. h < n \<and> 2 ^ h dvd Suc e}. {node_data B L h e})"

fun climb_inputs :: "blake3 \<Rightarrow> hash list \<Rightarrow> hash \<Rightarrow> u64 \<Rightarrow> bytes list" where
  "climb_inputs B [] x p = []"
| "climb_inputs B (s # S) x p =
     (let (pp, sp) = family p;
          d = BytesFromUint64 pp @ (if isLeftSibling sp then hash_Bytes s @ hash_Bytes x
                else hash_Bytes x @ hash_Bytes s)
      in d # climb_inputs B S (B d) pp)"

lemma nodeh_data: "nodeh B L h e = B (node_data B L h e)"
  by (cases h) (simp_all add: node_data_def hashWithPosition_def HashBytes_concat)

lemma node_data_tree: "e < n \<Longrightarrow> 2 ^ h dvd Suc e \<Longrightarrow> node_data B L h e \<in> tree_inputs B L n"
proof -
  assume e: "e < n" "2 ^ h dvd Suc e"
  then have "h < n" using less_exp [of h] dvd_imp_le [of "2 ^ h" "Suc e"]
    by (meson le_less_trans less_Suc_eq_le less_le_trans zero_less_Suc)
  with e show ?thesis unfolding tree_inputs_def by blast
qed

lemma node_unique:
  assumes "2 ^ h dvd Suc e" "2 ^ h' dvd Suc e'" "mpos e + h = mpos e' + h'"
  shows "e = e' \<and> h = h'"
proof -
  have "mpos e < mpos (Suc e')" "mpos e' < mpos (Suc e)"
    using assms node_iff [of h e] node_iff [of h' e'] by linarith+
  then have "e = e'" by simp
  with assms(3) show ?thesis by simp
qed

lemma left_in_range:
  assumes "2 ^ h dvd Suc e" "e < 2 ^ k" "even (e div 2 ^ h)" "h < k"
  shows "e + 2 ^ h < 2 ^ k"
proof -
  obtain i where k: "k = h + Suc i" using assms(4) by (metis less_iff_Suc_add add_Suc_right)
  obtain a where a: "e div 2 ^ h = 2 * a" using assms(3) by blast
  have e: "Suc e = 2 ^ h * Suc (2 * a)" using full_below [OF assms(1)] a by simp
  have "2 ^ h * (2 * a) \<le> e"
    using e one_le_power [of "2 :: nat" h] unfolding mult_Suc_right by linarith
  then have "2 ^ h * (2 * a) < 2 ^ h * (2 * 2 ^ i)"
    using assms(2) unfolding k power_add power_Suc by linarith
  then have "a < 2 ^ i" by simp
  then have "Suc (Suc (2 * a)) \<le> 2 * 2 ^ i" by simp
  then have "2 ^ h * Suc (Suc (2 * a)) \<le> 2 ^ h * (2 * 2 ^ i)" by (rule mult_le_mono2)
  with e show ?thesis by (simp add: k power_add)
qed

text \<open>One step down: a parent of the tree has the children of the tree.\<close>

lemma step_down:
  assumes dvd: "2 ^ h dvd Suc e" "unat p = mpos e + h" "e < 2 ^ 60" and h: "h < 60"
    and f: "family p = (pp, sp)"
  obtains e' where "e \<le> e'" "e' < 2 ^ 60" "2 ^ Suc h dvd Suc e'"
    "unat pp = mpos e' + Suc h"
    "\<And>B L s x. BytesFromUint64 pp @ (if isLeftSibling sp then hash_Bytes s @ hash_Bytes x
        else hash_Bytes x @ hash_Bytes s) = node_data B L (Suc h) e' \<Longrightarrow> x = nodeh B L h e"
proof -
  have e61: "e < 2 ^ 61" using dvd(3) by simp
  from dvd(1,2) e61 show thesis
  proof (cases rule: family_cases)
    case (right pp' sp')
    with f that [of e] dvd(3) carry_on [OF dvd(1) right(2)] show thesis by (simp add: node_data_def)
  next
    case (left pp' sp')
    have "e + 2 ^ h < 2 ^ 60" using left_in_range [OF dvd(1,3) left(2) h] .
    moreover from this have "\<not> isLeftSibling sp'" using left(5) by simp
    ultimately show thesis using left f that [of "e + 2 ^ h"] carry_on [OF mpos_left(2,3) [OF dvd(1) left(2)]]
      by (simp add: node_data_def)
  qed
qed

lemma node_data_length: "length (node_data B L h e) = (if h = 0 then 40 else 72)"
  by (cases h) (simp_all add: node_data_def)

lemma node_data_pos: "take 8 (node_data B L h e) = BytesFromUint64 (of_nat (mpos e + h))"
  by (simp add: node_data_def)

lemma climb_sound:
  assumes inj: "inj_on B (tree_inputs B L n \<union> set (climb_inputs B S x p))"
    and top: "2 ^ h' dvd Suc e'" "e' < n" "verify_climb B S x p = nodeh B L h' e'"
    and n: "n < 2 ^ 60"
  shows "S \<noteq> [] \<Longrightarrow> 2 ^ h dvd Suc e \<Longrightarrow> unat p = mpos e + h \<Longrightarrow> e < 2 ^ 60 \<Longrightarrow>
    h + length S \<le> 60 \<Longrightarrow> e < n \<and> x = nodeh B L h e"
  using inj top(3)
proof (induction S arbitrary: x p h e)
  case (Cons s S)
  obtain pp sp where f: "family p = (pp, sp)" by fastforce
  have h: "h < 60" using Cons.prems(5) by simp
  obtain q where q: "e \<le> q" "q < 2 ^ 60" "2 ^ Suc h dvd Suc q"
    "unat pp = mpos q + Suc h"
    "\<And>B L s x. BytesFromUint64 pp @ (if isLeftSibling sp then hash_Bytes s @ hash_Bytes x
        else hash_Bytes x @ hash_Bytes s) = node_data B L (Suc h) q \<Longrightarrow> x = nodeh B L h e"
    by (rule step_down [OF Cons.prems(2-4) h f]) blast
  define d where "d = BytesFromUint64 pp @ (if isLeftSibling sp then hash_Bytes s @ hash_Bytes x
        else hash_Bytes x @ hash_Bytes s)"
  have vc: "verify_climb B S (B d) pp = nodeh B L h' e'"
    using Cons.prems(7) f by (simp add: d_def hashWithPosition_def HashBytes_concat split: if_splits)
  have ci: "set (climb_inputs B (s # S) x p) = insert d (set (climb_inputs B S (B d) pp))"
    using f by (simp add: d_def Let_def)
  have "q < n \<and> B d = nodeh B L (Suc h) q"
  proof (cases "S = []")
    case True
    with vc have "B d = B (node_data B L h' e')" by (simp add: nodeh_data)
    with Cons.prems(6) have d: "d = node_data B L h' e'"
      unfolding ci by (rule inj_onD) (simp_all add: node_data_tree [OF top(2,1)])
    have "take 8 d = BytesFromUint64 pp" by (simp add: d_def)
    with d have "BytesFromUint64 pp = BytesFromUint64 (of_nat (mpos e' + h'))"
      by (simp add: node_data_pos)
    then have "pp = of_nat (mpos e' + h')" by (simp only: u64le.enc_inj)
    moreover have "mpos e' + h' < mpos n" by (rule node_below [OF top(2,1)])
    then have "mpos e' + h' < 2 ^ 64" using mpos_le [of n] n by simp
    ultimately have "mpos q + Suc h = mpos e' + h'" using q(4) unat_of_nat_u64 by metis
    with node_unique [OF q(3) top(1)] have "q = e'" "Suc h = h'" by simp_all
    with top(2) d show ?thesis by (simp add: nodeh_data)
  next
    case False
    have "Suc h + length S \<le> 60" using Cons.prems(5) by simp
    moreover have "inj_on B (tree_inputs B L n \<union> set (climb_inputs B S (B d) pp))"
      using Cons.prems(6) unfolding ci by (rule inj_on_subset) blast
    ultimately show ?thesis using Cons.IH [OF False q(3,4,2) _ _ vc] by blast
  qed
  then have "q < n" "B d = B (node_data B L (Suc h) q)" by (simp_all add: nodeh_data)
  with Cons.prems(6) have "d = node_data B L (Suc h) q"
    unfolding ci by (elim inj_onD) (simp_all add: node_data_tree [OF _ q(3)])
  with q(1,5) \<open>q < n\<close> show ?case unfolding d_def by auto
qed simp

text \<open>Every stored hash is that of a node of the tree, so every expected peak is one.\<close>

lemma stored_node:
  assumes "mmr_repr B ls m" "m_nodes m p = Some x"
  shows "\<exists>e h. e < length ls \<and> 2 ^ h dvd Suc e \<and> x = nodeh B ((!) ls) h e"
proof -
  have nodes: "nodes_repr B ((!) ls) (\<lambda>e h. e < length ls) (mpos (length ls)) (m_nodes m)"
    using assms(1) by (simp add: mmr_repr_def)
  have "unat p < mpos (length ls)" using nodes assms(2) unfolding nodes_repr_def by (metis option.distinct(1))
  then obtain e h where eh: "e < length ls" "2 ^ h dvd Suc e" "unat p = mpos e + h"
    by (rule position_node)
  then have "p = of_nat (mpos e + h)" using of_nat_unat_u64 [of p] by simp
  with eh nodes assms(2) show ?thesis unfolding nodes_repr_def by (metis option.inject)
qed

lemma expected_peaks_stored: "expected_peaks nd ps = Some xs \<Longrightarrow> x \<in> set xs \<Longrightarrow> \<exists>p. nd p = Some x"
  by (induction ps arbitrary: xs) (auto split: option.splits)

text \<open>An accepted proof with at least one sibling shows the leaf its index names.\<close>

lemma VerifyInclusionProof_leaf:
  assumes repr: "mmr_repr B ls m" and ok: "VerifyInclusionProof B m proof"
    and n: "length ls < 2 ^ 60" and i: "unat (ip_LeafIndex proof) < 2 ^ 60"
    and path: "ip_Siblings proof \<noteq> []" "length (ip_Siblings proof) \<le> 60"
    and inj: "inj_on B (tree_inputs B ((!) ls) (length ls) \<union> set (climb_inputs B (ip_Siblings proof)
      (ip_LeafHash proof) (leafIndextoMMRIndex (ip_LeafIndex proof))))"
  shows "unat (ip_LeafIndex proof) < length ls"
    and "ip_LeafHash proof = nodeh B ((!) ls) 0 (unat (ip_LeafIndex proof))"
proof -
  let ?x = "verify_climb B (ip_Siblings proof) (ip_LeafHash proof) (leafIndextoMMRIndex (ip_LeafIndex proof))"
  have "?x \<in> set (ip_Peaks proof)"
    and "expected_peaks (m_nodes m) (peakPositionsAtSize (ip_MMRSize proof)) = Some (ip_Peaks proof)"
    using ok by (auto simp: VerifyInclusionProof_def Let_def list_ex_iff hash_Equal_def
        split: if_splits option.splits)
  then obtain p where "m_nodes m p = Some ?x" using expected_peaks_stored by blast
  with stored_node [OF repr] obtain e h where top: "e < length ls" "2 ^ h dvd Suc e"
    "?x = nodeh B ((!) ls) h e" by blast
  have pos: "unat (leafIndextoMMRIndex (ip_LeafIndex proof)) = mpos (unat (ip_LeafIndex proof)) + 0"
    unfolding add_0_right using i by (intro unat_leafIndextoMMRIndex) simp
  from climb_sound [OF inj top(2,1,3) n path(1) _ pos i] path(2)
  show "unat (ip_LeafIndex proof) < length ls"
    "ip_LeafHash proof = nodeh B ((!) ls) 0 (unat (ip_LeafIndex proof))" by simp_all
qed

text \<open>With no sibling the index plays no part: every peak passes as the leaf at any index.\<close>

lemma VerifyInclusionProof_no_path:
  assumes "VerifyInclusionProof B m proof"
  shows "x \<in> set (ip_Peaks proof) \<Longrightarrow>
    VerifyInclusionProof B m (proof\<lparr>ip_LeafIndex := i, ip_LeafHash := x, ip_Siblings := []\<rparr>)"
  using assms by (auto simp: VerifyInclusionProof_def Let_def list_ex_iff hash_Equal_def
      split: if_splits option.splits)

section \<open>The root commits to the leaves\<close>

fun bag_inputs :: "blake3 \<Rightarrow> hash list \<Rightarrow> hash \<Rightarrow> bytes list" where
  "bag_inputs B [] accum = []"
| "bag_inputs B (p # ps) accum =
     (hash_Bytes p @ hash_Bytes accum) # bag_inputs B ps (B (hash_Bytes p @ hash_Bytes accum))"

definition root_inputs :: "blake3 \<Rightarrow> hash list \<Rightarrow> bytes set" where
  "root_inputs B ls = tree_inputs B ((!) ls) (length ls)
     \<union> (case rev (peak_hashes B ls) of [] \<Rightarrow> {} | p # ps \<Rightarrow> set (bag_inputs B ps p))
     \<union> {BytesFromUint64 (of_nat (mpos (length ls))) @ hash_Bytes (bagPeaks B (peak_hashes B ls))}"

lemma bagPeaks_loop_inj:
  "\<forall>x. B x \<noteq> 0 \<Longrightarrow> length ps = length qs \<Longrightarrow> 0 \<notin> set ps \<Longrightarrow> 0 \<notin> set qs \<Longrightarrow> a \<noteq> 0 \<Longrightarrow> b \<noteq> 0 \<Longrightarrow>
   inj_on B (set (bag_inputs B ps a) \<union> set (bag_inputs B qs b)) \<Longrightarrow>
   bagPeaks_loop B ps a = bagPeaks_loop B qs b \<Longrightarrow> ps = qs \<and> a = b"
proof (induction ps qs arbitrary: a b rule: list_induct2')
  case (4 p ps q qs)
  let ?a = "hash_Bytes p @ hash_Bytes a" and ?b = "hash_Bytes q @ hash_Bytes b"
  have "bagPeaks_loop B ps (B ?a) = bagPeaks_loop B qs (B ?b)"
    using "4.prems" by (auto simp: hash_IsZero_def)
  moreover have "inj_on B (set (bag_inputs B ps (B ?a)) \<union> set (bag_inputs B qs (B ?b)))"
    using "4.prems"(7) by (rule inj_on_subset) auto
  ultimately have "ps = qs \<and> B ?a = B ?b" using "4.prems" by (intro "4.IH") auto
  moreover from this have "?a = ?b" using "4.prems"(7) by (elim conjE inj_onD) simp_all
  ultimately show ?case by simp
qed simp_all

lemma nodeh_inj:
  assumes "inj_on B (tree_inputs B L n \<union> tree_inputs B L' n)"
  shows "2 ^ h dvd Suc e \<Longrightarrow> e < n \<Longrightarrow> nodeh B L h e = nodeh B L' h e \<Longrightarrow>
    Suc e - 2 ^ h \<le> i \<Longrightarrow> i \<le> e \<Longrightarrow> L i = L' i"
proof (induction h arbitrary: e)
  case 0
  then have "node_data B L 0 e = node_data B L' 0 e"
    using assms node_data_tree [OF 0(2,1)] by (auto simp: nodeh_data dest: inj_onD)
  with 0 show ?case by (simp add: node_data_def)
next
  case (Suc h)
  have "node_data B L (Suc h) e = node_data B L' (Suc h) e"
    using assms node_data_tree [OF Suc.prems(2,1)] Suc.prems(3)
    by (simp add: nodeh_data inj_on_eq_iff del: nodeh.simps)
  then have eq: "nodeh B L h (e - 2 ^ h) = nodeh B L' h (e - 2 ^ h)" "nodeh B L h e = nodeh B L' h e"
    by (simp_all add: node_data_def)
  have dvd: "2 ^ h dvd Suc e" using Suc.prems(1) unfolding power_Suc by (rule dvd_mult_right)
  have le: "2 * 2 ^ h \<le> Suc e" using dvd_imp_le [OF Suc.prems(1)] by simp
  then have "2 ^ h dvd Suc e - 2 ^ h" "Suc (e - 2 ^ h) = Suc e - 2 ^ h"
    using dvd by (auto intro: dvd_diff_nat)
  then have dvd': "2 ^ h dvd Suc (e - 2 ^ h)" by simp
  show ?case
  proof (cases "Suc e - 2 ^ h \<le> i")
    case True
    then show ?thesis using Suc.IH [OF dvd Suc.prems(2) eq(2) True Suc.prems(5)] by simp
  next
    case False
    moreover have "e - 2 ^ h < n" using Suc.prems(2) by linarith
    moreover have "Suc (e - 2 ^ h) - 2 ^ h \<le> i" "i \<le> e - 2 ^ h"
      using False le Suc.prems(4) unfolding power_Suc by linarith+
    ultimately show ?thesis using Suc.IH [OF dvd' _ eq(1)] by blast
  qed
qed

text \<open>Every leaf lies below a peak.\<close>

lemma half_step: "(a :: nat) \<noteq> b \<Longrightarrow> a \<le> b \<Longrightarrow> a div 2 = b div 2 \<Longrightarrow> b = Suc a \<and> odd b"
  by presburger

lemma leaf_under_peak:
  assumes "i < n"
  obtains h where "odd (n div 2 ^ h)" "Suc (peak_end n h) - 2 ^ h \<le> i" "i \<le> peak_end n h"
proof -
  have "n < 2 ^ n" "i < 2 ^ n" using assms less_exp [of n] by linarith+
  then have "n div 2 ^ n = 0" "i div 2 ^ n = 0" by simp_all
  then have ex: "\<exists>k. i div 2 ^ k = n div 2 ^ k" by (intro exI [of _ n]) simp
  define k where "k = (LEAST k. i div 2 ^ k = n div 2 ^ k)"
  have k: "i div 2 ^ k = n div 2 ^ k" unfolding k_def using LeastI_ex [OF ex] .
  with assms have "k \<noteq> 0" by (cases k) simp_all
  then obtain h where h: "k = Suc h" by (cases k) simp_all
  have "i div 2 ^ h \<noteq> n div 2 ^ h" using not_less_Least [of h "\<lambda>k. i div 2 ^ k = n div 2 ^ k"] h
    unfolding k_def by simp
  moreover have "i div 2 ^ h \<le> n div 2 ^ h" using assms by (simp add: div_le_mono)
  moreover have "i div 2 ^ h div 2 = n div 2 ^ h div 2" using k unfolding h by (simp add: div_mult2_eq mult.commute [of 2])
  ultimately have q: "n div 2 ^ h = Suc (i div 2 ^ h)" "odd (n div 2 ^ h)"
    using half_step [of "i div 2 ^ h" "n div 2 ^ h"] by blast+
  have "i = i div 2 ^ h * 2 ^ h + i mod 2 ^ h" by (simp only: div_mult_mod_eq)
  moreover have "i mod 2 ^ h < 2 ^ h" by simp
  moreover have "peak_end n h = i div 2 ^ h * 2 ^ h + 2 ^ h - 1" by (simp add: peak_end_def q(1))
  ultimately have "i \<le> peak_end n h" "Suc (peak_end n h) - 2 ^ h \<le> i" by linarith+
  with that q show thesis by blast
qed

lemma peak_hashes_heights:
  assumes "\<forall>x. B x \<noteq> 0"
  shows "peak_hashes B ls = map (\<lambda>h. nodeh B ((!) ls) h (peak_end (length ls) h)) (peak_heights (length ls))"
proof -
  have "filter (\<lambda>p. p \<noteq> 0) (map (peak_at B ((!) ls) n) [0..<k])
      = map (\<lambda>h. nodeh B ((!) ls) h (peak_end n h)) (filter (\<lambda>h. odd (n div 2 ^ h)) [0..<k])" for n k
    by (induction k) (simp_all add: peak_at_def nodeh_nonzero [OF assms])
  then show ?thesis
    by (simp add: peak_hashes_def peaksLR_loop_filter peak_heights_def rev_map)
qed

lemma root_of_inj:
  assumes B: "\<forall>x. B x \<noteq> 0" and n: "length ls < 2 ^ 62" "length ks < 2 ^ 62"
    and inj: "inj_on B (root_inputs B ls \<union> root_inputs B ks)"
    and eq: "root_of B ls = root_of B ks" and ne: "ls \<noteq> []" "ks \<noteq> []"
  shows "ls = ks"
proof -
  let ?in = "\<lambda>ls. BytesFromUint64 (of_nat (mpos (length ls))) @ hash_Bytes (bagPeaks B (peak_hashes B ls))"
  have "B (?in ls) = B (?in ks)"
    using eq ne by (simp add: root_of_def bagPeaksWithSize_def flip: mpos_def)
  with inj have "?in ls = ?in ks" by (rule inj_onD) (simp_all add: root_inputs_def)
  then have sz: "(of_nat (mpos (length ls)) :: u64) = of_nat (mpos (length ks))"
    and bag: "bagPeaks B (peak_hashes B ls) = bagPeaks B (peak_hashes B ks)"
    by (simp_all only: u64le.enc_append_inj hash_eq_simps)
  have "mpos (length ls) < 2 ^ 64" "mpos (length ks) < 2 ^ 64"
    using mpos_le [of "length ls"] mpos_le [of "length ks"] n by simp_all
  with arg_cong [OF sz, of unat] have len: "length ls = length ks" by (simp add: unat_of_nat_u64)
  have nz: "0 \<notin> set (peak_hashes B zs)" for zs
    using nodeh_nonzero [OF B] by (auto simp: peak_hashes_heights [OF B])
  have "peak_hashes B ls = peak_hashes B ks"
  proof (cases "rev (peak_hashes B ls)")
    case Nil
    then have "peak_hashes B ls = []" "peak_hashes B ks = []"
      using len by (simp_all add: peak_hashes_heights [OF B])
    then show ?thesis by simp
  next
    case (Cons p ps)
    moreover have "length (rev (peak_hashes B ls)) = length (rev (peak_hashes B ks))"
      using len by (simp add: peak_hashes_heights [OF B])
    ultimately obtain q qs where q: "rev (peak_hashes B ks) = q # qs" "length ps = length qs"
      by (cases "rev (peak_hashes B ks)") (simp_all del: length_rev)
    have zero: "p \<noteq> 0" "q \<noteq> 0" "0 \<notin> set ps" "0 \<notin> set qs"
      using nz [of ls] nz [of ks] Cons q(1) by (metis list.set_intros set_rev)+
    have "inj_on B (set (bag_inputs B ps p) \<union> set (bag_inputs B qs q))"
      using inj by (rule inj_on_subset) (auto simp: root_inputs_def Cons q(1))
    moreover have "bagPeaks_loop B ps p = bagPeaks_loop B qs q"
      using bag zero by (simp add: bagPeaks_def Cons q(1) hash_IsZero_def)
    ultimately have "ps = qs \<and> p = q"
      using bagPeaks_loop_inj [OF B q(2) zero(3,4,1,2)] by blast
    with Cons q(1) show ?thesis by (metis rev_rev_ident)
  qed
  then have peaks: "nodeh B ((!) ls) h (peak_end (length ls) h) = nodeh B ((!) ks) h (peak_end (length ls) h)"
    if "odd (length ls div 2 ^ h)" for h
    using that len by (simp add: peak_hashes_heights [OF B] heights_odd)
  have tree: "inj_on B (tree_inputs B ((!) ls) (length ls) \<union> tree_inputs B ((!) ks) (length ls))"
    using inj by (rule inj_on_subset) (auto simp: root_inputs_def len)
  show "ls = ks"
  proof (rule nth_equalityI [OF len])
    fix i
    assume "i < length ls"
    then obtain h where h: "odd (length ls div 2 ^ h)" "Suc (peak_end (length ls) h) - 2 ^ h \<le> i"
      "i \<le> peak_end (length ls) h" by (rule leaf_under_peak)
    with peak_node [OF h(1)] peaks [OF h(1)] nodeh_inj [OF tree] show "ls ! i = ks ! i" by blast
  qed
qed

end
