(* ===== verification/Mmr_Snapshot.thy ===== *)
theory Mmr_Snapshot
  imports Mmr_Proofs "HOL-Library.Multiset"
begin

text \<open>
  Snapshots of the mountain range, \<open>pkg/crypto/mmr/snapshot.go\<close>. \<open>Snapshot\<close> ranges over the
  map \<open>leafIndexes\<close>; the order in which Go visits it is the argument \<open>iter\<close>, any list of the
  map's entries. The buffer is written front to back, so it is the concatenation of what is
  written, followed by the zeros that \<open>make\<close> left.
\<close>

section \<open>The code\<close>

definition Snapshot :: "(hash \<times> u64) list \<Rightarrow> mmr \<Rightarrow> bytes result" where
  "Snapshot iter m =
     (let hashIndexes = sort_key snd iter;
          leaves = concat (map (\<lambda>hi. hash_Bytes (fst hi)) hashIndexes);
          room = unat (m_numLeaves m) * 32
      in if length leaves > room then Inl (Panic ''slice bounds out of range'')
         else Inr (BytesFromUint64 (of_nat (length (m_peaks m)))
           @ concat (map hash_Bytes (m_peaks m))
           @ BytesFromUint64 (m_size m)
           @ concat (map (\<lambda>pos. case m_nodes m (of_nat pos) of
               Some h \<Rightarrow> hash_Bytes h | None \<Rightarrow> hash_Bytes 0) [0..<unat (m_size m)])
           @ BytesFromUint64 (m_numLeaves m)
           @ leaves @ replicate (room - length leaves) 0))"

fun read_hashes :: "string \<Rightarrow> nat \<Rightarrow> bytes \<Rightarrow> nat \<Rightarrow> (hash list \<times> nat) result" where
  "read_hashes msg 0 snapshot off = Inr ([], off)"
| "read_hashes msg (Suc k) snapshot off =
     (if off + 32 > length snapshot then Inl (Err msg)
      else rbind (slice_of snapshot off (off + 32)) (\<lambda>s.
           rbind (to_hash s) (\<lambda>h.
           rbind (read_hashes msg k snapshot (off + 32)) (\<lambda>(hs, off').
           Inr (h # hs, off')))))"

text \<open>\<open>make([]crypto.Hash, n)\<close> panics when the array is larger than the address space.\<close>

definition make_hashes :: "u64 \<Rightarrow> unit result" where
  "make_hashes n = (if unat n * 32 > 2 ^ 48 then Inl (Panic ''makeslice: len out of range'') else Inr ())"

definition store_nodes :: "hash list \<Rightarrow> u64 \<rightharpoonup> hash" where
  "store_nodes hs = (\<lambda>pos. if unat pos < length hs \<and> \<not> hash_IsZero (hs ! unat pos)
     then Some (hs ! unat pos) else None)"

fun store_leaves :: "hash list \<Rightarrow> u64 \<Rightarrow> (hash \<rightharpoonup> u64) \<Rightarrow> hash \<rightharpoonup> u64" where
  "store_leaves [] i lm = lm"
| "store_leaves (h # hs) i lm = store_leaves hs (i + 1) (lm(h \<mapsto> i))"

definition Restore :: "mmr \<Rightarrow> bytes \<Rightarrow> mmr result" where
  "Restore m snapshot =
     (if length snapshot < 24
      then Inl (Err ''invalid snapshot: expected at least 32 bytes'')
      else
        rbind (rbind (slice_of snapshot 0 8) Uint64FromBytes) (\<lambda>numPeaks.
        rbind (make_hashes numPeaks) (\<lambda>_.
        rbind (read_hashes ''invalid snapshot: not enough data for peaks'' (unat numPeaks) snapshot 8) (\<lambda>(pks, off).
        if off + 8 > length snapshot then Inl (Err ''invalid snapshot: not enough data for numNodes'')
        else
        rbind (rbind (slice_of snapshot off (off + 8)) Uint64FromBytes) (\<lambda>numNodes.
        rbind (read_hashes ''invalid snapshot: not enough data for node'' (unat numNodes) snapshot (off + 8)) (\<lambda>(nds, off).
        rbind (rbind (slice_of snapshot off (off + 8)) Uint64FromBytes) (\<lambda>numLeaves.
        rbind (read_hashes ''invalid snapshot: not enough data for leaf'' (unat numLeaves) snapshot (off + 8)) (\<lambda>(lvs, off).
        Inr (m\<lparr>m_numLeaves := numLeaves, m_size := numNodes, m_peaks := pks,
               m_nodes := store_nodes nds, m_leafIndexes := store_leaves lvs 0 Map.empty\<rparr>)))))))))"

definition NewMMRFromSnapshot :: "bytes \<Rightarrow> mmr result" where
  "NewMMRFromSnapshot snapshot = Restore NewMMR snapshot"

section \<open>Reading back what was written\<close>

lemma length_concat_hashes [simp]: "length (concat (map hash_Bytes hs)) = 32 * length hs"
  by (induction hs) simp_all

lemma read_hashes_written:
  "off = length a \<Longrightarrow>
   read_hashes msg (length hs) (a @ concat (map hash_Bytes hs) @ c) off = Inr (hs, off + 32 * length hs)"
proof (induction hs arbitrary: a off)
  case (Cons h hs)
  from Cons.IH [of "off + 32" "a @ hash_Bytes h"] Cons.prems show ?case
    by (simp add: slice_at [of _ a "hash_Bytes h"])
qed simp

definition iter_of :: "(hash \<times> u64) list \<Rightarrow> mmr \<Rightarrow> bool" where
  "iter_of iter m \<longleftrightarrow> distinct (map fst iter) \<and> map_of iter = m_leafIndexes m"

lemma store_leaves_zip:
  "distinct hs \<Longrightarrow> length hs + unat i < 2 ^ 64 \<Longrightarrow> store_leaves hs i lm
     = lm ++ map_of (zip hs (map (\<lambda>k. i + of_nat k) [0..<length hs]))"
proof (induction hs arbitrary: i lm)
  case (Cons h hs)
  have i: "unat (i + 1) = unat i + 1" using Cons.prems(2) by (intro unat_Suc_u64) simp
  have "store_leaves (h # hs) i lm
      = lm(h \<mapsto> i) ++ map_of (zip hs (map (\<lambda>k. i + 1 + of_nat k) [0..<length hs]))"
      using Cons.IH [of "i + 1" "lm(h \<mapsto> i)"] Cons.prems i
      by (simp del: fun_upd_apply map_add_upd)
  also have "map (\<lambda>k. i + 1 + of_nat k) [0..<length hs] = map (\<lambda>k. i + of_nat (Suc k)) [0..<length hs]"
    by simp
  also have "\<dots> = map (\<lambda>k. i + of_nat k) [Suc 0..<Suc (length hs)]"
    by (simp only: map_Suc_upt [symmetric] map_map comp_def)
  also have "lm(h \<mapsto> i) ++ map_of (zip hs (map (\<lambda>k. i + of_nat k) [Suc 0..<Suc (length hs)]))
      = lm ++ map_of (zip (h # hs) (map (\<lambda>k. i + of_nat k) [0..<Suc (length hs)]))"
  proof -
    have "map_of (zip hs (map (\<lambda>k. i + of_nat k) [Suc 0..<Suc (length hs)])) h = None"
      using Cons.prems(1) by (auto simp: map_of_eq_None_iff dest: set_zip_leftD)
    then show ?thesis
      by (subst upt_conv_Cons [of 0])
         (simp_all add: map_add_upd_left domIff del: upt_Suc fun_upd_apply)
  qed
  finally show ?case by (simp only: list.size add_Suc_right add_0_right)
qed simp

lemma leaf_entries_sorted:
  assumes "distinct ls" "length ls < 2 ^ 64" "distinct (map fst iter)" "map_of iter = leaf_map ls"
  shows "sort_key snd iter = zip ls (map of_nat [0..<length ls])"
proof -
  let ?z = "zip ls (map of_nat [0..<length ls] :: u64 list)"
  have z: "distinct (map fst ?z)" using assms(1) by simp
  have "leaf_map ls = map_of ?z"
    using z map_of_inject_set [of "rev ?z" ?z] by (simp add: leaf_map_def rev_map [symmetric])
  then have set: "set iter = set ?z"
    using assms(3,4) z map_of_inject_set [of iter ?z] by simp
  then have m: "mset iter = mset ?z"
    using assms(3) z distinct_map set_eq_iff_mset_eq_distinct by blast
  have nat: "unat (of_nat k :: u64) = k" if "k < length ls" for k
    using that assms(2) by (intro unat_of_nat_u64) simp
  have "inj_on snd (set ?z)"
  proof (rule inj_onI)
    fix x y assume "x \<in> set ?z" "y \<in> set ?z" "snd x = snd y"
    then obtain i j where ij: "i < length ls" "x = (ls ! i, of_nat i)" "j < length ls" "y = (ls ! j, of_nat j)"
      by (auto simp: set_zip)
    then have "i = j" using \<open>snd x = snd y\<close> nat [of i] nat [of j] by (metis snd_conv)
    with ij show "x = y" by simp
  qed
  moreover have "sorted (map snd ?z)"
  proof (rule sorted_iff_nth_mono [THEN iffD2], intro allI impI)
    fix i j
    assume "i \<le> j" "j < length (map snd ?z)"
    then have "i \<le> j" "i < length ls" "j < length ls" by simp_all
    then show "map snd ?z ! i \<le> map snd ?z ! j"
      using nat [of i] nat [of j] by (simp add: word_le_nat_alt)
  qed
  ultimately show ?thesis using set by (intro sort_key_inj_key_eq [OF m]) simp
qed

text \<open>The map of nodes is recovered from its values in position order.\<close>

lemma store_nodes_written:
  assumes "\<And>p. nd p \<noteq> None \<longleftrightarrow> unat p < unat (sz :: u64)" "\<And>p. nd p \<noteq> Some 0"
  shows "store_nodes (map (\<lambda>pos. the (nd (of_nat pos))) [0..<unat sz]) = nd"
proof (rule ext)
  fix p :: u64
  have "of_nat (unat p) = p" by simp
  then show "store_nodes (map (\<lambda>pos. the (nd (of_nat pos))) [0..<unat sz]) p = nd p"
    using assms(1,2) [of p] by (cases "nd p") (auto simp: store_nodes_def hash_IsZero_def)
qed

lemma read_hashes_at:
  "b = a @ concat (map hash_Bytes hs) @ c \<Longrightarrow> off = length a \<Longrightarrow> k = length hs \<Longrightarrow>
   off' = off + 32 * length hs \<Longrightarrow> read_hashes msg k b off = Inr (hs, off')"
  using read_hashes_written by simp

lemma Uint64_at:
  "b = a @ BytesFromUint64 w @ c \<Longrightarrow> off = length a \<Longrightarrow> off' = off + 8 \<Longrightarrow>
   rbind (slice_of b off off') Uint64FromBytes = Inr w"
  by (simp add: slice_at [of _ a "BytesFromUint64 w" c])

lemma Restore_written:
  assumes len: "32 * length pks \<le> 2 ^ 48" "unat sz = length nds" "unat nl = length lvs"
    and s: "s = BytesFromUint64 (of_nat (length pks)) @ concat (map hash_Bytes pks)
      @ BytesFromUint64 sz @ concat (map hash_Bytes nds) @ BytesFromUint64 nl @ concat (map hash_Bytes lvs)"
  shows "Restore m0 s = Inr (m0\<lparr>m_numLeaves := nl, m_size := sz, m_peaks := pks,
    m_nodes := store_nodes nds, m_leafIndexes := store_leaves lvs 0 Map.empty\<rparr>)"
proof -
  let ?pb = "concat (map hash_Bytes pks)" and ?nb = "concat (map hash_Bytes nds)"
  let ?lb = "concat (map hash_Bytes lvs)" and ?np = "of_nat (length pks) :: u64"
  let ?o1 = "8 + 32 * length pks" and ?o2 = "16 + 32 * length pks + 32 * length nds"
  have np: "unat ?np = length pks" using len(1) by (intro unat_of_nat_u64) simp
  have "rbind (slice_of s 0 8) Uint64FromBytes = Inr ?np"
    by (rule Uint64_at [of _ "[]"]) (simp_all add: s)
  moreover have "read_hashes msg (unat ?np) s 8 = Inr (pks, ?o1)" for msg
    by (rule read_hashes_at [of _ "BytesFromUint64 ?np"]) (simp_all add: s np)
  moreover have "rbind (slice_of s ?o1 (?o1 + 8)) Uint64FromBytes = Inr sz"
    by (rule Uint64_at [of _ "BytesFromUint64 ?np @ ?pb"]) (simp_all add: s)
  moreover have "read_hashes msg (unat sz) s (?o1 + 8) = Inr (nds, ?o2)" for msg
    by (rule read_hashes_at [of _ "BytesFromUint64 ?np @ ?pb @ BytesFromUint64 sz"])
       (simp_all add: s len(2))
  moreover have "rbind (slice_of s ?o2 (?o2 + 8)) Uint64FromBytes = Inr nl"
    by (rule Uint64_at [of _ "BytesFromUint64 ?np @ ?pb @ BytesFromUint64 sz @ ?nb"]) (simp_all add: s)
  moreover have "read_hashes msg (unat nl) s (?o2 + 8) = Inr (lvs, ?o2 + 8 + 32 * length lvs)" for msg
    by (rule read_hashes_at [of _ "BytesFromUint64 ?np @ ?pb @ BytesFromUint64 sz @ ?nb @ BytesFromUint64 nl" _ "[]"])
       (simp_all add: s len(3))
  moreover have "\<not> length s < 24" "\<not> length s < ?o1 + 8" by (simp_all add: s)
  moreover have "make_hashes ?np = Inr ()" using len(1) np by (simp add: make_hashes_def)
  ultimately show ?thesis unfolding Restore_def
    by (simp only: if_False rbind_simps split_conv)
qed

text \<open>A snapshot that ends before its leaf count: the slice of the count panics.\<close>

lemma Restore_truncated:
  assumes len: "32 * length pks \<le> 2 ^ 48" "length nds < 2 ^ 64" and ne: "pks \<noteq> [] \<or> nds \<noteq> []"
    and s: "s = BytesFromUint64 (of_nat (length pks)) @ concat (map hash_Bytes pks)
      @ BytesFromUint64 (of_nat (length nds)) @ concat (map hash_Bytes nds)"
  shows "Restore m0 s = Inl (Panic ''slice bounds out of range'')"
proof -
  let ?pb = "concat (map hash_Bytes pks)" and ?np = "of_nat (length pks) :: u64" and ?sz = "of_nat (length nds) :: u64"
  let ?o1 = "8 + 32 * length pks" and ?o2 = "16 + 32 * length pks + 32 * length nds"
  have np: "unat ?np = length pks" using len(1) by (intro unat_of_nat_u64) simp
  have sz: "unat ?sz = length nds" by (rule unat_of_nat_u64 [OF len(2)])
  have "rbind (slice_of s 0 8) Uint64FromBytes = Inr ?np"
    by (rule Uint64_at [of _ "[]"]) (simp_all add: s)
  moreover have "read_hashes msg (unat ?np) s 8 = Inr (pks, ?o1)" for msg
    by (rule read_hashes_at [of _ "BytesFromUint64 ?np"]) (simp_all add: s np)
  moreover have "rbind (slice_of s ?o1 (?o1 + 8)) Uint64FromBytes = Inr ?sz"
    by (rule Uint64_at [of _ "BytesFromUint64 ?np @ ?pb"]) (simp_all add: s)
  moreover have "read_hashes msg (unat ?sz) s (?o1 + 8) = Inr (nds, ?o2)" for msg
    by (rule read_hashes_at [of _ "BytesFromUint64 ?np @ ?pb @ BytesFromUint64 ?sz" _ "[]"]) (simp_all add: s sz)
  moreover have "rbind (slice_of s ?o2 (?o2 + 8)) Uint64FromBytes = Inl (Panic ''slice bounds out of range'')"
    by (simp add: slice_of_def s)
  moreover have "\<not> length s < 24" "\<not> length s < ?o1 + 8" using ne by (cases pks; cases nds; simp add: s)+
  moreover have "make_hashes ?np = Inr ()" using len(1) np by (simp add: make_hashes_def)
  ultimately show ?thesis unfolding Restore_def
    by (simp only: if_False rbind_simps split_conv)
qed

text \<open>
  Restoring a snapshot gives back all but \<open>leafIndexes\<close>, whatever the iteration order:
  \<open>mmr_core\<close> is \<open>mmr_repr\<close> without that map.
\<close>

definition mmr_core :: "blake3 \<Rightarrow> hash list \<Rightarrow> mmr \<Rightarrow> bool" where
  "mmr_core B ls m \<longleftrightarrow> mmr_repr B ls (m\<lparr>m_leafIndexes := leaf_map ls\<rparr>)"

lemma mmr_coreD:
  assumes "mmr_core B ls m"
  shows "m_numLeaves m = of_nat (length ls)" "m_size m = of_nat (mpos (length ls))"
    "m_peaks m = map (peak_at B ((!) ls) (length ls)) [0..<bit_len (length ls)]"
    "nodes_repr B ((!) ls) (\<lambda>e h. e < length ls) (mpos (length ls)) (m_nodes m)"
  using assms by (simp_all add: mmr_core_def mmr_repr_def)

lemma mmr_repr_core: "mmr_repr B ls m \<Longrightarrow> mmr_core B ls m"
  by (simp add: mmr_core_def mmr_repr_def)

lemma zero_hashes: "concat (map hash_Bytes (replicate k 0)) = replicate (k * 32) 0"
proof (induction k)
  case (Suc k)
  have "hash_Bytes 0 = replicate 32 0" by code_simp
  with Suc show ?case by (simp add: replicate_add [symmetric])
qed simp

definition index_list :: "(hash \<times> u64) list \<Rightarrow> nat \<Rightarrow> hash list" where
  "index_list iter n = map fst (sort_key snd iter) @ replicate (n - length iter) 0"

lemma Restore_Snapshot_core:
  assumes B: "\<forall>x. B x \<noteq> 0" and m: "mmr_core B ls m" and n: "length ls < 2 ^ 40"
    and iter: "length iter \<le> length ls"
  shows "\<exists>s. Snapshot iter m = Inr s \<and> Restore m0 s = Inr (m0\<lparr>m_numLeaves := m_numLeaves m,
    m_size := m_size m, m_peaks := m_peaks m, m_nodes := m_nodes m,
    m_leafIndexes := store_leaves (index_list iter (length ls)) 0 Map.empty\<rparr>)"
proof -
  note r = mmr_coreD [OF m]
  let ?nds = "map (\<lambda>pos. the (m_nodes m (of_nat pos))) [0..<unat (m_size m)]"
  let ?ix = "index_list iter (length ls)"
  have sz: "unat (m_size m) = mpos (length ls)" and nl: "unat (m_numLeaves m) = length ls"
    using r(1,2) n mpos_le [of "length ls"] by (simp_all add: unat_of_nat_u64)
  have dom: "m_nodes m p \<noteq> None \<longleftrightarrow> unat p < unat (m_size m)" for p
    using r(4) sz by (simp add: nodes_repr_def)
  have nz: "m_nodes m p \<noteq> Some 0" for p
  proof
    assume z: "m_nodes m p = Some 0"
    then have "unat p < mpos (length ls)" using dom [of p] sz by simp
    then obtain e h where "e < length ls" "2 ^ h dvd Suc e" "unat p = mpos e + h"
      by (rule position_node)
    with nodes_reprD [OF r(4)] of_nat_unatI have "m_nodes m p = Some (nodeh B ((!) ls) h e)" by metis
    with z nodeh_nonzero [OF B] show False by simp
  qed
  have leaves: "concat (map hash_Bytes ?ix)
      = concat (map (\<lambda>hi. hash_Bytes (fst hi)) (sort_key snd iter)) @ replicate ((length ls - length iter) * 32) 0"
    by (simp add: index_list_def zero_hashes comp_def del: map_replicate)
  have len: "length (concat (map (\<lambda>hi. hash_Bytes (fst hi)) (sort_key snd iter))) = 32 * length iter"
    using length_concat_hashes [of "map fst (sort_key snd iter)"] by (simp add: comp_def)
  have nodes: "concat (map (\<lambda>pos. case m_nodes m (of_nat pos) of Some h \<Rightarrow> hash_Bytes h | None \<Rightarrow> hash_Bytes 0)
      [0..<unat (m_size m)]) = concat (map hash_Bytes ?nds)"
  proof -
    have "unat (of_nat pos :: u64) < unat (m_size m)" if "pos < unat (m_size m)" for pos
      using that unat_less_pow64 [of "m_size m"] by (simp add: unat_of_nat_u64)
    then have present: "m_nodes m (of_nat pos) \<noteq> None" if "pos < unat (m_size m)" for pos
      using that dom by blast
    have "(case m_nodes m (of_nat pos) of Some h \<Rightarrow> hash_Bytes h | None \<Rightarrow> hash_Bytes 0)
        = hash_Bytes (the (m_nodes m (of_nat pos)))" if lt: "pos < unat (m_size m)" for pos
    proof -
      obtain h where "m_nodes m (of_nat pos) = Some h" using present [OF lt] by blast
      then show ?thesis by simp
    qed
    then show ?thesis unfolding map_map comp_def
      by (intro arg_cong [of _ _ concat] map_cong refl) simp
  qed
  have "Snapshot iter m = Inr (BytesFromUint64 (of_nat (length (m_peaks m)))
      @ concat (map hash_Bytes (m_peaks m)) @ BytesFromUint64 (m_size m) @ concat (map hash_Bytes ?nds)
      @ BytesFromUint64 (m_numLeaves m) @ concat (map hash_Bytes ?ix))" (is "_ = Inr ?s")
    unfolding Snapshot_def Let_def nodes len nl leaves
    using iter by (simp add: diff_mult_distrib mult.commute)
  moreover have "Restore m0 ?s = Inr (m0\<lparr>m_numLeaves := m_numLeaves m, m_size := m_size m,
      m_peaks := m_peaks m, m_nodes := store_nodes ?nds, m_leafIndexes := store_leaves ?ix 0 Map.empty\<rparr>)"
  proof (rule Restore_written [OF _ _ _ refl])
    have "length (m_peaks m) \<le> 40" using r(3) n bit_len_le_iff [of "length ls" 40] by simp
    then show "32 * length (m_peaks m) \<le> 2 ^ 48" by simp
  qed (use iter in \<open>simp_all add: nl index_list_def\<close>)
  moreover have "store_nodes ?nds = m_nodes m" by (rule store_nodes_written [OF dom nz])
  ultimately show ?thesis by simp
qed

text \<open>A range of distinct leaves is restored exactly.\<close>

lemma iter_of_length: "iter_of iter m \<Longrightarrow> length iter = card (dom (m_leafIndexes m))"
proof -
  assume "iter_of iter m"
  then have "distinct (map fst iter)" "dom (m_leafIndexes m) = set (map fst iter)"
    by (auto simp: iter_of_def dom_map_of_conv_image_fst [symmetric])
  then show ?thesis by (metis distinct_card length_map)
qed

lemma Restore_Snapshot_repr:
  assumes B: "\<forall>x. B x \<noteq> 0" and m: "mmr_repr B ls m" and d: "distinct ls"
    and n: "length ls < 2 ^ 40" and iter: "iter_of iter m"
  shows "\<exists>s. Snapshot iter m = Inr s \<and> Restore m0 s = Inr m"
proof -
  have sorted: "sort_key snd iter = zip ls (map of_nat [0..<length ls])"
    using iter mmr_reprD(4) [OF m] n by (intro leaf_entries_sorted [OF d]) (simp_all add: iter_of_def)
  then have len: "length iter = length ls" by (metis length_map length_sort length_upt length_zip min.idem minus_nat.diff_0)
  then have ix: "index_list iter (length ls) = ls" by (simp add: index_list_def sorted)
  have "distinct (map fst (zip ls (map of_nat [0..<length ls] :: u64 list)))" using d by simp
  then have "leaf_map ls = map_of (zip ls (map of_nat [0..<length ls]))"
    by (simp add: leaf_map_def map_of_inject_set rev_map [symmetric])
  then have sl: "store_leaves ls 0 Map.empty = m_leafIndexes m"
    using store_leaves_zip [OF d, of 0] n mmr_reprD(4) [OF m] by simp
  have eq: "m0\<lparr>m_numLeaves := m_numLeaves m, m_size := m_size m, m_peaks := m_peaks m,
      m_nodes := m_nodes m, m_leafIndexes := m_leafIndexes m\<rparr> = m"
    by (rule mmr.equality) simp_all
  have le: "length iter \<le> length ls" using len by simp
  from Restore_Snapshot_core [OF B mmr_repr_core [OF m] n le, of m0] show ?thesis
    unfolding ix sl eq .
qed

text \<open>
  The state that survives both adding leaves and storing: \<open>leafIndexes\<close> has at most as many
  entries as there are leaves, so a snapshot never overruns its buffer.
\<close>

definition mmr_state :: "blake3 \<Rightarrow> hash list \<Rightarrow> mmr \<Rightarrow> bool" where
  "mmr_state B ls m \<longleftrightarrow> mmr_core B ls m \<and> finite (dom (m_leafIndexes m))
     \<and> card (dom (m_leafIndexes m)) \<le> length ls"

lemma mmr_state_New: "mmr_state B [] NewMMR"
  using mmr_repr_NewMMR [of B] by (simp add: mmr_state_def mmr_repr_core) (simp add: NewMMR_def)

lemma AddLeaf_loop_indexes:
  "AddLeaf_loop B c h (m\<lparr>m_leafIndexes := x\<rparr>) = (AddLeaf_loop B c h m)\<lparr>m_leafIndexes := x\<rparr>"
proof (induction B c h m rule: AddLeaf_loop.induct)
  case (1 B carry height m)
  then show ?case
    by (cases m) (subst (1 2) AddLeaf_loop.simps, simp add: Let_def)
qed

lemma AddLeaf_indexes:
  "snd (AddLeaf B l (m\<lparr>m_leafIndexes := x\<rparr>))
     = (snd (AddLeaf B l m))\<lparr>m_leafIndexes := x(B l \<mapsto> m_numLeaves m)\<rparr>"
proof -
  let ?y = "x(B l \<mapsto> m_numLeaves m)"
  let ?m2 = "m\<lparr>m_size := m_size m + 1, m_nodes := (m_nodes m)(m_size m \<mapsto>
      hashWithPosition B (m_size m) [hash_Bytes (B l)]), m_leafIndexes := (m_leafIndexes m)(B l \<mapsto> m_numLeaves m)\<rparr>"
  have "AddLeaf_loop B c 0 (?m2\<lparr>m_leafIndexes := ?y\<rparr>) = (AddLeaf_loop B c 0 ?m2)\<lparr>m_leafIndexes := ?y\<rparr>" for c
    by (rule AddLeaf_loop_indexes)
  then show ?thesis by (simp add: AddLeaf_def Let_def)
qed

lemma AddLeaf_leafIndexes: "m_leafIndexes (snd (AddLeaf B l m)) = (m_leafIndexes m)(B l \<mapsto> m_numLeaves m)"
  by (simp add: AddLeaf_def Let_def AddLeaf_loop_frame)

lemma AddLeaf_state:
  assumes B: "\<forall>x. B x \<noteq> 0" and m: "mmr_state B ls m" and n: "length ls < 2 ^ 62"
  shows "mmr_state B (ls @ [B l]) (snd (AddLeaf B l m))"
proof -
  have "mmr_repr B (ls @ [B l]) (snd (AddLeaf B l (m\<lparr>m_leafIndexes := leaf_map ls\<rparr>)))"
    using m by (intro AddLeaf_repr [OF B _ n]) (simp add: mmr_state_def mmr_core_def)
  then have "mmr_core B (ls @ [B l]) (snd (AddLeaf B l m))"
    unfolding AddLeaf_indexes mmr_core_def by (simp add: mmr_repr_def)
  moreover have "card (insert (B l) (dom (m_leafIndexes m))) \<le> Suc (length ls)"
    using m card_insert_le_m1 [of "Suc (length ls)" "dom (m_leafIndexes m)" "B l"] by (simp add: mmr_state_def)
  ultimately show ?thesis using m by (simp add: mmr_state_def AddLeaf_leafIndexes)
qed

lemma add_all_state:
  assumes B: "\<forall>x. B x \<noteq> 0"
  shows "mmr_state B ls m \<Longrightarrow> length ls + length ds < 2 ^ 62 \<Longrightarrow>
    mmr_state B (ls @ map B ds) (fold (\<lambda>leaf m. snd (AddLeaf B leaf m)) ds m)"
proof (induction ds arbitrary: ls m)
  case (Cons d ds)
  have "mmr_state B (ls @ [B d]) (snd (AddLeaf B d m))"
    using Cons.prems by (intro AddLeaf_state [OF B]) simp_all
  from Cons.IH [OF this] Cons.prems(2) show ?case by simp
qed simp

lemma Root_state: "mmr_state B ls m \<Longrightarrow> length ls < 2 ^ 62 \<Longrightarrow> Root B m = root_of B ls"
proof -
  assume m: "mmr_state B ls m" and n: "length ls < 2 ^ 62"
  have "Root B (m\<lparr>m_leafIndexes := leaf_map ls\<rparr>) = root_of B ls"
    using m n by (intro Root_repr) (simp_all add: mmr_state_def mmr_core_def)
  moreover have "Root B (m\<lparr>m_leafIndexes := leaf_map ls\<rparr>) = Root B m"
    by (simp add: Root_def peaksLR_def cong: if_cong)
  ultimately show ?thesis by simp
qed

lemma store_leaves_dom: "dom (store_leaves hs i lm) = dom lm \<union> set hs"
  by (induction hs i lm rule: store_leaves.induct) (simp_all add: insert_commute del: fun_upd_apply)

lemma Restore_Snapshot_state:
  assumes B: "\<forall>x. B x \<noteq> 0" and m: "mmr_state B ls m" and n: "length ls < 2 ^ 40"
    and iter: "iter_of iter m"
  shows "\<exists>s m'. Snapshot iter m = Inr s \<and> NewMMRFromSnapshot s = Inr m' \<and> mmr_state B ls m'"
proof -
  have len: "length iter \<le> length ls" using m iter_of_length [OF iter] by (simp add: mmr_state_def)
  let ?ix = "index_list iter (length ls)"
  let ?m' = "NewMMR\<lparr>m_numLeaves := m_numLeaves m, m_size := m_size m, m_peaks := m_peaks m,
    m_nodes := m_nodes m, m_leafIndexes := store_leaves ?ix 0 Map.empty\<rparr>"
  have "card (set ?ix) \<le> length ls" using card_length [of ?ix] len by (simp add: index_list_def)
  then have "mmr_state B ls ?m'"
    using m by (simp add: mmr_state_def mmr_core_def mmr_repr_def store_leaves_dom)
  moreover obtain s where "Snapshot iter m = Inr s" "Restore NewMMR s = Inr ?m'"
    using Restore_Snapshot_core [OF B _ n len, of m NewMMR] m by (auto simp: mmr_state_def)
  ultimately show ?thesis by (auto simp: NewMMRFromSnapshot_def)
qed

end
