(* ===== verification/Store.thy ===== *)
theory Store
  imports Block Mmr_Snapshot
begin

text \<open>
  What the node relies on outside this repository, as the fields of the record \<open>env\<close>: the
  hash function, the key-value store Pebble, the protobuf codecs of the stored messages, and
  the order in which Go visits a map. \<open>env_ok\<close> states the documented behaviour of these.
  The messages are those of \<open>proto/blobcast/storage\<close> and \<open>proto/blobcast/rollup\<close>; a message
  field is a pointer, so it is an \<open>option\<close>. The keys are those of \<open>pkg/state/state.go\<close>.
\<close>

section \<open>Messages\<close>

record ChunkData =
  cd_Version :: bytes
  cd_ChunkData :: bytes

record ChunkReference =
  cr_Id :: "pbBlobIdentifier option"
  cr_ChunkHash :: bytes
  cr_ChunkSize :: u64

datatype CompressionAlgorithm = UNSPECIFIED | NONE

record FileManifest =
  fm_ManifestVersion :: bytes
  fm_FileName :: bytes
  fm_MimeType :: bytes
  fm_FileSize :: u64
  fm_FileHash :: bytes
  fm_Compression :: CompressionAlgorithm
  fm_Chunks :: "ChunkReference list"

record FileReference =
  fr_Id :: "pbBlobIdentifier option"
  fr_RelativePath :: bytes

record DirectoryManifest =
  dm_ManifestVersion :: bytes
  dm_DirectoryName :: bytes
  dm_DirectoryHash :: bytes
  dm_Files :: "FileReference list"

text \<open>The envelope of a blob; \<open>NoPayload\<close> is the unset \<open>oneof\<close>.\<close>

datatype Envelope =
    ChunkDataE ChunkData
  | FileManifestE FileManifest
  | DirectoryManifestE DirectoryManifest
  | NoPayload

section \<open>The environment\<close>

text \<open>
  Pebble: \<open>db_get\<close> returns \<open>None\<close> for \<open>ErrNotFound\<close>; \<open>db_last d lo hi\<close> is the value
  under the last key of an iterator with these bounds; a batch collects writes that
  \<open>batch_commit\<close> applies together.
\<close>

record ('d, 'b) pebble =
  db_get :: "'d \<Rightarrow> bytes \<Rightarrow> bytes option result"
  db_set :: "'d \<Rightarrow> bytes \<Rightarrow> bytes \<Rightarrow> 'd result"
  db_last :: "'d \<Rightarrow> bytes \<Rightarrow> bytes \<Rightarrow> bytes option"
  new_batch :: "'d \<Rightarrow> 'b"
  batch_set :: "'b \<Rightarrow> bytes \<Rightarrow> bytes \<Rightarrow> 'b result"
  batch_commit :: "'d \<Rightarrow> 'b \<Rightarrow> 'd result"

record 'm codec =
  marshal :: "'m \<Rightarrow> bytes result"
  unmarshal :: "bytes \<Rightarrow> 'm result"

record ('d, 'b) env =
  e_B :: blake3
  e_db :: "('d, 'b) pebble"
  e_iter :: "mmr \<Rightarrow> (hash \<times> u64) list"
  e_envelope :: "Envelope codec"
  e_file :: "FileManifest codec"
  e_dir :: "DirectoryManifest codec"

text \<open>The contents of a database and the writes of a batch, in order.\<close>

record ('d, 'b) store_view =
  content :: "'d \<Rightarrow> bytes \<Rightarrow> bytes option"
  writes :: "'b \<Rightarrow> (bytes \<times> bytes) list"

definition in_range :: "bytes \<Rightarrow> bytes \<Rightarrow> bytes \<Rightarrow> bool" where
  "in_range lo hi k \<longleftrightarrow> \<not> bytes_less k lo \<and> bytes_less k hi"

definition apply_writes :: "(bytes \<times> bytes) list \<Rightarrow> (bytes \<Rightarrow> bytes option) \<Rightarrow> bytes \<Rightarrow> bytes option" where
  "apply_writes ws c = fold (\<lambda>(k, v) c. c(k \<mapsto> v)) ws c"

definition pebble_ok :: "('d, 'b) pebble \<Rightarrow> ('d, 'b) store_view \<Rightarrow> bool" where
  "pebble_ok P V \<longleftrightarrow>
     (\<forall>d k v. db_get P d k = Inr v \<longrightarrow> v = content V d k)
     \<and> (\<forall>d k v d'. db_set P d k v = Inr d' \<longrightarrow> content V d' = (content V d)(k \<mapsto> v))
     \<and> (\<forall>d lo hi. case db_last P d lo hi of
          None \<Rightarrow> (\<forall>k. in_range lo hi k \<longrightarrow> content V d k = None)
        | Some v \<Rightarrow> (\<exists>k. in_range lo hi k \<and> content V d k = Some v
            \<and> (\<forall>k'. in_range lo hi k' \<longrightarrow> content V d k' \<noteq> None \<longrightarrow> \<not> bytes_less k k')))
     \<and> (\<forall>d. writes V (new_batch P d) = [])
     \<and> (\<forall>b k v b'. batch_set P b k v = Inr b' \<longrightarrow> writes V b' = writes V b @ [(k, v)])
     \<and> (\<forall>d b d'. batch_commit P d b = Inr d' \<longrightarrow> content V d' = apply_writes (writes V b) (content V d))"

text \<open>A store on which no operation fails.\<close>

definition pebble_total :: "('d, 'b) pebble \<Rightarrow> bool" where
  "pebble_total P \<longleftrightarrow> (\<forall>d k. \<exists>v. db_get P d k = Inr v) \<and> (\<forall>d k v. \<exists>d'. db_set P d k v = Inr d')
     \<and> (\<forall>b k v. \<exists>b'. batch_set P b k v = Inr b') \<and> (\<forall>d b. \<exists>d'. batch_commit P d b = Inr d')"

definition codec_ok :: "'m codec \<Rightarrow> bool" where
  "codec_ok c \<longleftrightarrow> (\<forall>m b. marshal c m = Inr b \<longrightarrow> unmarshal c b = Inr m)"

definition env_ok :: "('d, 'b) env \<Rightarrow> ('d, 'b) store_view \<Rightarrow> bool" where
  "env_ok E V \<longleftrightarrow> (\<forall>x. e_B E x \<noteq> 0) \<and> pebble_ok (e_db E) V
     \<and> (\<forall>m. finite (dom (m_leafIndexes m)) \<longrightarrow> iter_of (e_iter E m) m)
     \<and> codec_ok (e_envelope E) \<and> codec_ok (e_file E) \<and> codec_ok (e_dir E)"

lemma db_getD: "pebble_ok P V \<Longrightarrow> db_get P d k = Inr v \<Longrightarrow> v = content V d k"
  by (simp add: pebble_ok_def)

lemma db_get_total: "pebble_ok P V \<Longrightarrow> pebble_total P \<Longrightarrow> db_get P d k = Inr (content V d k)"
  unfolding pebble_ok_def pebble_total_def by metis

lemma db_last_spec:
  "pebble_ok P V \<Longrightarrow> case db_last P d lo hi of
      None \<Rightarrow> (\<forall>k. in_range lo hi k \<longrightarrow> content V d k = None)
    | Some v \<Rightarrow> (\<exists>k. in_range lo hi k \<and> content V d k = Some v
        \<and> (\<forall>k'. in_range lo hi k' \<longrightarrow> content V d k' \<noteq> None \<longrightarrow> \<not> bytes_less k k'))"
proof -
  assume "pebble_ok P V"
  then have "\<forall>d lo hi. case db_last P d lo hi of
      None \<Rightarrow> (\<forall>k. in_range lo hi k \<longrightarrow> content V d k = None)
    | Some v \<Rightarrow> (\<exists>k. in_range lo hi k \<and> content V d k = Some v
        \<and> (\<forall>k'. in_range lo hi k' \<longrightarrow> content V d k' \<noteq> None \<longrightarrow> \<not> bytes_less k k'))"
    unfolding pebble_ok_def by (elim conjE)
  then show ?thesis by blast
qed

lemma db_lastD:
  "pebble_ok P V \<Longrightarrow> db_last P d lo hi = None \<Longrightarrow> in_range lo hi k \<Longrightarrow> content V d k = None"
  using db_last_spec [where P = P and V = V and d = d and lo = lo and hi = hi] by simp

lemma db_last_SomeD:
  assumes "pebble_ok P V" "db_last P d lo hi = Some v"
  obtains k where "in_range lo hi k" "content V d k = Some v"
    "\<And>k'. in_range lo hi k' \<Longrightarrow> content V d k' \<noteq> None \<Longrightarrow> \<not> bytes_less k k'"
  using db_last_spec [OF assms(1), where d = d and lo = lo and hi = hi] assms(2) by (auto simp del: not_None_eq)

lemma batch_setD: "pebble_ok P V \<Longrightarrow> batch_set P b k v = Inr b' \<Longrightarrow> writes V b' = writes V b @ [(k, v)]"
  by (simp add: pebble_ok_def)

lemma new_batchD: "pebble_ok P V \<Longrightarrow> writes V (new_batch P d) = []"
  by (simp add: pebble_ok_def)

lemma batch_commitD:
  "pebble_ok P V \<Longrightarrow> batch_commit P d b = Inr d' \<Longrightarrow> content V d' = apply_writes (writes V b) (content V d)"
  by (simp add: pebble_ok_def)

lemma apply_writes_simps [simp]:
  "apply_writes [] c = c"
  "apply_writes (ws @ [(k, v)]) c = (apply_writes ws c)(k \<mapsto> v)"
  by (simp_all add: apply_writes_def)

lemma env_okD:
  assumes "env_ok E V"
  shows "\<forall>x. e_B E x \<noteq> 0" "pebble_ok (e_db E) V"
    "\<And>m. finite (dom (m_leafIndexes m)) \<Longrightarrow> iter_of (e_iter E m) m"
    "codec_ok (e_envelope E)" "codec_ok (e_file E)" "codec_ok (e_dir E)"
  using assms by (simp_all add: env_ok_def)

section \<open>Keys\<close>

definition prefixKey :: "bytes \<Rightarrow> bytes \<Rightarrow> bytes" where
  "prefixKey key prefix = prefix @ key"

definition prefixHeightKey :: "u64 \<Rightarrow> bytes \<Rightarrow> bytes" where
  "prefixHeightKey height prefix = prefixKey (BytesFromUint64Key height) prefix"

definition keyChainID :: bytes where "keyChainID = ascii ''meta:chainid''"
definition keyFinalizedHeight :: bytes where "keyFinalizedHeight = ascii ''meta:finalized''"
definition keyCelestiaHeightOffset :: bytes where
  "keyCelestiaHeightOffset = ascii ''meta:celestia_offset''"
definition blockPrefix :: bytes where "blockPrefix = ascii ''blk:''"
definition blockHashPrefix :: bytes where "blockHashPrefix = ascii ''blk:h:''"
definition stateMMRPrefix :: bytes where "stateMMRPrefix = ascii ''mmr:''"
definition chunkPrefix :: bytes where "chunkPrefix = ascii ''chk:''"
definition chunkHashPrefix :: bytes where "chunkHashPrefix = ascii ''chk:h:''"
definition fileManifestPrefix :: bytes where "fileManifestPrefix = ascii ''man:f:''"
definition dirManifestPrefix :: bytes where "dirManifestPrefix = ascii ''man:d:''"

definition blk_key :: "u64 \<Rightarrow> bytes" where "blk_key h = prefixHeightKey h blockPrefix"
definition blkh_key :: "hash \<Rightarrow> bytes" where "blkh_key h = prefixKey (hash_Bytes h) blockHashPrefix"
definition mmr_key :: "u64 \<Rightarrow> bytes" where "mmr_key h = prefixHeightKey h stateMMRPrefix"
definition chk_key :: "hash \<Rightarrow> bytes" where "chk_key h = prefixKey (hash_Bytes h) chunkPrefix"
definition chkh_key :: "hash \<Rightarrow> bytes" where "chkh_key h = prefixKey (hash_Bytes h) chunkHashPrefix"
definition fman_key :: "BlobIdentifier \<Rightarrow> bytes" where
  "fman_key i = prefixKey (bi_Bytes i) fileManifestPrefix"
definition dman_key :: "BlobIdentifier \<Rightarrow> bytes" where
  "dman_key i = prefixKey (bi_Bytes i) dirManifestPrefix"

lemmas prefix_defs = prefixHeightKey_def prefixKey_def blockPrefix_def blockHashPrefix_def
  stateMMRPrefix_def chunkPrefix_def chunkHashPrefix_def fileManifestPrefix_def dirManifestPrefix_def
  keyChainID_def keyFinalizedHeight_def keyCelestiaHeightOffset_def

lemmas key_defs = blk_key_def blkh_key_def mmr_key_def chk_key_def chkh_key_def fman_key_def
  dman_key_def

text \<open>
  The two key families that share a prefix (\<open>blk:\<close> with \<open>blk:h:\<close>, \<open>chk:\<close> with
  \<open>chk:h:\<close>) differ in length, so no key of one family is a key of another.
\<close>

datatype family_key =
    KBlock u64 | KBlockHash hash | KMMR u64 | KChunk hash | KChunkHash hash
  | KFile BlobIdentifier | KDir BlobIdentifier | KChainID | KFinalized | KOffset

fun encode_key :: "family_key \<Rightarrow> bytes" where
  "encode_key (KBlock h) = blk_key h"
| "encode_key (KBlockHash x) = blkh_key x"
| "encode_key (KMMR h) = mmr_key h"
| "encode_key (KChunk x) = chk_key x"
| "encode_key (KChunkHash x) = chkh_key x"
| "encode_key (KFile i) = fman_key i"
| "encode_key (KDir i) = dman_key i"
| "encode_key KChainID = keyChainID"
| "encode_key KFinalized = keyFinalizedHeight"
| "encode_key KOffset = keyCelestiaHeightOffset"

lemma prefix_values:
  "keyChainID = [109, 101, 116, 97, 58, 99, 104, 97, 105, 110, 105, 100]"
  "keyFinalizedHeight = [109, 101, 116, 97, 58, 102, 105, 110, 97, 108, 105, 122, 101, 100]"
  "keyCelestiaHeightOffset = [109, 101, 116, 97, 58, 99, 101, 108, 101, 115, 116, 105, 97, 95, 111, 102, 102, 115, 101, 116]"
  "blockPrefix = [98, 108, 107, 58]" "blockHashPrefix = [98, 108, 107, 58, 104, 58]"
  "stateMMRPrefix = [109, 109, 114, 58]" "chunkPrefix = [99, 104, 107, 58]"
  "chunkHashPrefix = [99, 104, 107, 58, 104, 58]" "fileManifestPrefix = [109, 97, 110, 58, 102, 58]"
  "dirManifestPrefix = [109, 97, 110, 58, 100, 58]"
  by code_simp+

lemma length_differs: "length a \<noteq> length b \<Longrightarrow> a \<noteq> b"
  by auto

lemma encode_key_inj [simp]: "encode_key a = encode_key b \<longleftrightarrow> a = b"
proof -
  have key: "length (BytesFromUint64Key h) = 8" for h by simp
  have id: "length (bi_Bytes i) = 40" for i by simp
  show ?thesis
    by (cases a; cases b)
       (simp_all add: key_defs prefixKey_def prefixHeightKey_def prefix_values u64be.enc_inj
          hash32.enc_inj blob_id.enc_inj length_differs)
qed

text \<open>The database's order of the keys, which its iterators follow.\<close>

instantiation family_key :: linorder
begin

definition less_family_key :: "family_key \<Rightarrow> family_key \<Rightarrow> bool" where
  "less_family_key a b \<longleftrightarrow> bytes_less (encode_key a) (encode_key b)"

definition less_eq_family_key :: "family_key \<Rightarrow> family_key \<Rightarrow> bool" where
  "less_eq_family_key a b \<longleftrightarrow> \<not> bytes_less (encode_key b) (encode_key a)"

instance
proof
  note defs = less_family_key_def less_eq_family_key_def
  fix a b c :: family_key
  have cases: "bytes_less (encode_key a) (encode_key b) \<or> a = b \<or> bytes_less (encode_key b) (encode_key a)"
    for a b using bytes_less_linear [of "encode_key a" "encode_key b"] by simp
  have asym: "\<not> (bytes_less (encode_key a) (encode_key b) \<and> bytes_less (encode_key b) (encode_key a))"
    for a b using bytes_less_trans [of "encode_key a" "encode_key b" "encode_key a"] by auto
  show "a < b \<longleftrightarrow> a \<le> b \<and> \<not> b \<le> a" using asym [of a b] by (auto simp: defs)
  show "a \<le> a" by (simp add: defs)
  show "a \<le> c" if "a \<le> b" "b \<le> c"
    using that cases [of a b] cases [of b c] asym [of a c] bytes_less_trans [of "encode_key a" "encode_key b" "encode_key c"]
    by (auto simp: defs)
  show "a = b" if "a \<le> b" "b \<le> a" using that cases [of a b] by (auto simp: defs)
  show "a \<le> b \<or> b \<le> a" using asym [of a b] by (auto simp: defs)
qed

end

text \<open>Heights are in order, whatever the prefix; a key of another family is never between them.\<close>

lemma height_keys_less [simp]:
  "KBlock g < KBlock h \<longleftrightarrow> g < h" "KMMR g < KMMR h \<longleftrightarrow> g < h"
  by (simp_all add: less_family_key_def key_defs prefixHeightKey_def prefixKey_def Uint64Key_less)

end
