(* ===== verification/Chain_State.thy ===== *)
theory Chain_State
  imports Store
begin

text \<open>
  \<open>pkg/state/chain.go\<close> and \<open>pkg/state/transaction.go\<close>: the node's persistent state and its
  write transactions. The database \<open>d\<close> is Pebble's; a read is a function of it. A chain state
  holds the database and whether \<open>pendingTransaction\<close> is set; a transaction holds the batch
  and the maps of pending writes. \<open>Close\<close> of readers and iterators, and the mutexes, have no
  effect on the values. The pending file manifests are keyed by the pointer to the identifier,
  so identifiers are passed with the address they live at.
\<close>

section \<open>Reads\<close>

definition ChainID :: "('d, 'b) env \<Rightarrow> 'd \<Rightarrow> bytes result" where
  "ChainID E d = rbind (db_get (e_db E) d keyChainID) (\<lambda>v.
     case v of None \<Rightarrow> Inl (Ext ''pebble: not found'') | Some cid \<Rightarrow> Inr cid)"

definition SetChainID :: "('d, 'b) env \<Rightarrow> 'd \<Rightarrow> bytes \<Rightarrow> 'd result" where
  "SetChainID E d ident = db_set (e_db E) d keyChainID ident"

definition CelestiaHeightOffset :: "('d, 'b) env \<Rightarrow> 'd \<Rightarrow> u64 result" where
  "CelestiaHeightOffset E d = rbind (db_get (e_db E) d keyCelestiaHeightOffset) (\<lambda>v.
     case v of None \<Rightarrow> Inr 0 | Some offset \<Rightarrow> Uint64FromBytes offset)"

definition SetCelestiaHeightOffset :: "('d, 'b) env \<Rightarrow> 'd \<Rightarrow> u64 \<Rightarrow> 'd result" where
  "SetCelestiaHeightOffset E d offset = db_set (e_db E) d keyCelestiaHeightOffset (BytesFromUint64 offset)"

definition FinalizedHeight :: "('d, 'b) env \<Rightarrow> 'd \<Rightarrow> u64 result" where
  "FinalizedHeight E d = rbind (db_get (e_db E) d keyFinalizedHeight) (\<lambda>v.
     case v of None \<Rightarrow> Inr 0 | Some height \<Rightarrow> Uint64FromBytes height)"

definition GetBlock :: "('d, 'b) env \<Rightarrow> 'd \<Rightarrow> u64 \<Rightarrow> Block option result" where
  "GetBlock E d height =
     (let key = prefixHeightKey height blockPrefix in
      rbind (db_get (e_db E) d key) (\<lambda>v.
      case v of None \<Rightarrow> Inr None
      | Some blockBytes \<Rightarrow> rbind (BlockFromBytes blockBytes) (\<lambda>block. Inr (Some block))))"

definition GetBlockByHash :: "('d, 'b) env \<Rightarrow> 'd \<Rightarrow> hash \<Rightarrow> Block option result" where
  "GetBlockByHash E d hash =
     (let key = prefixKey (hash_Bytes hash) blockHashPrefix in
      rbind (db_get (e_db E) d key) (\<lambda>v.
      case v of None \<Rightarrow> Inr None
      | Some heightBytes \<Rightarrow> rbind (Uint64FromBytesKey heightBytes) (\<lambda>height. GetBlock E d height)))"

definition HasStateMMRAtHeight :: "('d, 'b) env \<Rightarrow> 'd \<Rightarrow> u64 \<Rightarrow> bool result" where
  "HasStateMMRAtHeight E d height =
     (if height = 0 then Inr False
      else let key = prefixHeightKey height stateMMRPrefix in
        rbind (db_get (e_db E) d key) (\<lambda>v. Inr (v \<noteq> None)))"

definition GetStateMMR :: "('d, 'b) env \<Rightarrow> 'd \<Rightarrow> u64 \<Rightarrow> mmr result" where
  "GetStateMMR E d height =
     (if height = 0 then Inr NewMMR
      else let key = prefixHeightKey height stateMMRPrefix in
        rbind (db_get (e_db E) d key) (\<lambda>v.
        case v of Some mmrBytes \<Rightarrow> NewMMRFromSnapshot mmrBytes
        | None \<Rightarrow>
            (case db_last (e_db E) d stateMMRPrefix (prefixHeightKey (height + 1) stateMMRPrefix) of
               None \<Rightarrow> Inl (Err ''no MMR found at or before height'')
             | Some mmrBytes \<Rightarrow> NewMMRFromSnapshot mmrBytes)))"

definition cs_GetChunk :: "('d, 'b) env \<Rightarrow> 'd \<Rightarrow> hash \<Rightarrow> bytes option result" where
  "cs_GetChunk E d key = db_get (e_db E) d (prefixKey (hash_Bytes key) chunkPrefix)"

definition cs_GetChunkHash :: "('d, 'b) env \<Rightarrow> 'd \<Rightarrow> hash \<Rightarrow> hash option result" where
  "cs_GetChunkHash E d key =
     rbind (db_get (e_db E) d (prefixKey (hash_Bytes key) chunkHashPrefix)) (\<lambda>v.
     case v of None \<Rightarrow> Inr None | Some hash \<Rightarrow> rbind (to_hash hash) (\<lambda>h. Inr (Some h)))"

definition GetDirectoryManifest :: "('d, 'b) env \<Rightarrow> 'd \<Rightarrow> BlobIdentifier \<Rightarrow> DirectoryManifest option result" where
  "GetDirectoryManifest E d ident =
     (let key = prefixKey (bi_Bytes ident) dirManifestPrefix in
      rbind (db_get (e_db E) d key) (\<lambda>v.
      case v of None \<Rightarrow> Inr None
      | Some data \<Rightarrow> rbind (wrap ''unmarshal cached directory manifest'' (unmarshal (e_dir E) data))
          (\<lambda>manifest. Inr (Some manifest))))"

definition cs_GetFileManifest :: "('d, 'b) env \<Rightarrow> 'd \<Rightarrow> BlobIdentifier \<Rightarrow> FileManifest option result" where
  "cs_GetFileManifest E d ident =
     (let key = prefixKey (bi_Bytes ident) fileManifestPrefix in
      rbind (db_get (e_db E) d key) (\<lambda>v.
      case v of None \<Rightarrow> Inr None
      | Some data \<Rightarrow> rbind (wrap ''unmarshal cached file manifest'' (unmarshal (e_file E) data))
          (\<lambda>manifest. Inr (Some manifest))))"

section \<open>Transactions\<close>

record 'd chain_state =
  cs_db :: 'd
  cs_pending :: bool

record 'b tx =
  tx_batch :: 'b
  tx_pendingChunks :: "hash \<rightharpoonup> bytes"
  tx_pendingChunkHashes :: "hash \<rightharpoonup> hash"
  tx_pendingFileManifests :: "nat \<rightharpoonup> FileManifest"
  tx_committed :: bool
  tx_aborted :: bool

definition NewChainStateTransaction :: "('d, 'b) env \<Rightarrow> 'd \<Rightarrow> 'b tx" where
  "NewChainStateTransaction E d = \<lparr>tx_batch = new_batch (e_db E) d, tx_pendingChunks = Map.empty,
     tx_pendingChunkHashes = Map.empty, tx_pendingFileManifests = Map.empty,
     tx_committed = False, tx_aborted = False\<rparr>"

definition BeginTransaction :: "('d, 'b) env \<Rightarrow> 'd chain_state \<Rightarrow> ('b tx \<times> 'd chain_state) result" where
  "BeginTransaction E s =
     (if cs_pending s then Inl (Err ''transaction already in progress'')
      else Inr (NewChainStateTransaction E (cs_db s), s\<lparr>cs_pending := True\<rparr>))"

text \<open>One write to the batch.\<close>

definition tx_write :: "('d, 'b) env \<Rightarrow> 'b tx \<Rightarrow> bytes \<Rightarrow> bytes \<Rightarrow> 'b tx result" where
  "tx_write E tx k v = rbind (batch_set (e_db E) (tx_batch tx) k v) (\<lambda>b. Inr (tx\<lparr>tx_batch := b\<rparr>))"

definition SetFinalizedHeight :: "('d, 'b) env \<Rightarrow> 'b tx \<Rightarrow> u64 \<Rightarrow> 'b tx result" where
  "SetFinalizedHeight E tx height = tx_write E tx keyFinalizedHeight (BytesFromUint64 height)"

definition PutStateMMR :: "('d, 'b) env \<Rightarrow> 'b tx \<Rightarrow> u64 \<Rightarrow> mmr \<Rightarrow> 'b tx result" where
  "PutStateMMR E tx height m =
     (if height = 0 then Inr tx
      else let key = prefixHeightKey height stateMMRPrefix in
        rbind (Snapshot (e_iter E m) m) (\<lambda>snap. tx_write E tx key snap))"

definition PutStateMMRRaw :: "('d, 'b) env \<Rightarrow> 'b tx \<Rightarrow> u64 \<Rightarrow> bytes \<Rightarrow> 'b tx result" where
  "PutStateMMRRaw E tx height raw =
     (if height = 0 then Inr tx else tx_write E tx (prefixHeightKey height stateMMRPrefix) raw)"

definition PutBlock :: "('d, 'b) env \<Rightarrow> hash_cache \<Rightarrow> 'b tx \<Rightarrow> u64 \<Rightarrow> Block \<Rightarrow> ('b tx \<times> hash_cache) result" where
  "PutBlock E cache tx height block =
     rbind (tx_write E tx (prefixHeightKey height blockPrefix) (b_Bytes block)) (\<lambda>tx.
     let (hash, cache) = b_Hash (e_B E) cache block;
         hashKey = prefixKey (hash_Bytes hash) blockHashPrefix
     in rbind (tx_write E tx hashKey (BytesFromUint64Key height)) (\<lambda>tx. Inr (tx, cache)))"

text \<open>The pending maps are nil once the transaction is finished; assigning to a nil map panics.\<close>

definition nil_maps :: "'b tx \<Rightarrow> bool" where
  "nil_maps tx \<longleftrightarrow> tx_committed tx \<or> tx_aborted tx"

definition nil_assign :: "'b tx \<Rightarrow> unit result" where
  "nil_assign tx = (if nil_maps tx then Inl (Panic ''assignment to entry in nil map'') else Inr ())"

definition PutChunk :: "('d, 'b) env \<Rightarrow> 'b tx \<Rightarrow> hash \<Rightarrow> bytes \<Rightarrow> hash \<Rightarrow> 'b tx result" where
  "PutChunk E tx key val hash =
     rbind (tx_write E tx (prefixKey (hash_Bytes key) chunkPrefix) val) (\<lambda>tx.
     rbind (nil_assign tx) (\<lambda>_.
     let tx = tx\<lparr>tx_pendingChunks := (tx_pendingChunks tx)(key \<mapsto> val)\<rparr> in
     rbind (tx_write E tx (prefixKey (hash_Bytes key) chunkHashPrefix) (hash_Bytes hash)) (\<lambda>tx.
     Inr (tx\<lparr>tx_pendingChunkHashes := (tx_pendingChunkHashes tx)(key \<mapsto> hash)\<rparr>))))"

definition tx_GetChunk :: "('d, 'b) env \<Rightarrow> 'd \<Rightarrow> 'b tx \<Rightarrow> hash \<Rightarrow> bytes option result" where
  "tx_GetChunk E d tx key = (case tx_pendingChunks tx key of
     Some val \<Rightarrow> Inr (Some val) | None \<Rightarrow> cs_GetChunk E d key)"

definition tx_GetChunkHash :: "('d, 'b) env \<Rightarrow> 'd \<Rightarrow> 'b tx \<Rightarrow> hash \<Rightarrow> hash option result" where
  "tx_GetChunkHash E d tx key = (case tx_pendingChunkHashes tx key of
     Some hash \<Rightarrow> Inr (Some hash) | None \<Rightarrow> cs_GetChunkHash E d key)"

definition PutFileManifest ::
  "('d, 'b) env \<Rightarrow> 'b tx \<Rightarrow> nat \<times> BlobIdentifier \<Rightarrow> FileManifest \<Rightarrow> 'b tx result" where
  "PutFileManifest E tx ident manifest =
     rbind (wrap ''marshal file manifest'' (marshal (e_file E) manifest)) (\<lambda>data.
     rbind (nil_assign tx) (\<lambda>_.
     let tx = tx\<lparr>tx_pendingFileManifests := (tx_pendingFileManifests tx)(fst ident \<mapsto> manifest)\<rparr>;
         key = prefixKey (bi_Bytes (snd ident)) fileManifestPrefix
     in tx_write E tx key data))"

definition tx_GetFileManifest ::
  "('d, 'b) env \<Rightarrow> 'd \<Rightarrow> 'b tx \<Rightarrow> nat \<times> BlobIdentifier \<Rightarrow> FileManifest option result" where
  "tx_GetFileManifest E d tx ident = (case tx_pendingFileManifests tx (fst ident) of
     Some val \<Rightarrow> Inr (Some val) | None \<Rightarrow> cs_GetFileManifest E d (snd ident))"

definition PutDirectoryManifest ::
  "('d, 'b) env \<Rightarrow> 'b tx \<Rightarrow> BlobIdentifier \<Rightarrow> DirectoryManifest \<Rightarrow> 'b tx result" where
  "PutDirectoryManifest E tx ident manifest =
     rbind (wrap ''marshal directory manifest'' (marshal (e_dir E) manifest)) (\<lambda>data.
     let key = prefixKey (bi_Bytes ident) dirManifestPrefix
     in tx_write E tx key data)"

text \<open>The pending maps of a finished transaction are nil, hence read as empty.\<close>

definition drop_pending :: "'b tx \<Rightarrow> 'b tx" where
  "drop_pending tx = tx\<lparr>tx_pendingChunks := Map.empty, tx_pendingChunkHashes := Map.empty,
     tx_pendingFileManifests := Map.empty\<rparr>"

definition Abort :: "'b tx \<Rightarrow> 'd chain_state \<Rightarrow> unit result \<times> 'b tx \<times> 'd chain_state" where
  "Abort tx s =
     (if tx_committed tx \<or> tx_aborted tx then (Inl (Err ''transaction already finished''), tx, s)
      else (Inr (), (drop_pending tx)\<lparr>tx_aborted := True\<rparr>, s\<lparr>cs_pending := False\<rparr>))"

definition Commit :: "('d, 'b) env \<Rightarrow> 'b tx \<Rightarrow> 'd chain_state \<Rightarrow> unit result \<times> 'b tx \<times> 'd chain_state" where
  "Commit E tx s =
     (if tx_committed tx \<or> tx_aborted tx then (Inl (Err ''transaction already finished''), tx, s)
      else case batch_commit (e_db E) (cs_db s) (tx_batch tx) of
        Inl e \<Rightarrow> (let (_, tx, s) = Abort tx s in
          (Inl (wrap_err ''error committing transaction'' e), tx, s))
      | Inr d \<Rightarrow> (Inr (), (drop_pending tx)\<lparr>tx_committed := True\<rparr>,
          s\<lparr>cs_db := d, cs_pending := False\<rparr>))"

section \<open>The content a transaction will leave\<close>

definition tx_view :: "('d, 'b) store_view \<Rightarrow> 'd \<Rightarrow> 'b tx \<Rightarrow> bytes \<Rightarrow> bytes option" where
  "tx_view V d tx = apply_writes (writes V (tx_batch tx)) (content V d)"

lemma tx_writeD:
  assumes "pebble_ok (e_db E) V" "tx_write E tx k v = Inr tx'"
  shows "tx_view V d tx' = (tx_view V d tx)(k \<mapsto> v)" "tx' = tx\<lparr>tx_batch := tx_batch tx'\<rparr>"
  using assms by (auto simp: tx_write_def tx_view_def rbind_eq_Inr dest: batch_setD)

lemma tx_view_simps [simp]:
  "tx_view V d (tx\<lparr>tx_pendingChunks := a\<rparr>) = tx_view V d tx"
  "tx_view V d (tx\<lparr>tx_pendingChunkHashes := b\<rparr>) = tx_view V d tx"
  "tx_view V d (tx\<lparr>tx_pendingFileManifests := c\<rparr>) = tx_view V d tx"
  by (simp_all add: tx_view_def)

lemma nil_maps_simps [simp]:
  "nil_maps (tx\<lparr>tx_batch := b\<rparr>) = nil_maps tx"
  "nil_maps (tx\<lparr>tx_pendingChunks := a\<rparr>) = nil_maps tx"
  "nil_maps (tx\<lparr>tx_pendingChunkHashes := c\<rparr>) = nil_maps tx"
  "nil_maps (tx\<lparr>tx_pendingFileManifests := f\<rparr>) = nil_maps tx"
  by (simp_all add: nil_maps_def)

lemma tx_write_effect:
  assumes "pebble_ok (e_db E) V" "tx_write E tx k v = Inr tx'"
  shows "\<exists>b. tx' = tx\<lparr>tx_batch := b\<rparr> \<and> (\<forall>d. tx_view V d (tx\<lparr>tx_batch := b\<rparr>) = (tx_view V d tx)(k \<mapsto> v))"
  using tx_writeD [OF assms] by metis

lemma tx_view_new: "pebble_ok (e_db E) V \<Longrightarrow> tx_view V d (NewChainStateTransaction E d) = content V d"
  by (simp add: tx_view_def NewChainStateTransaction_def new_batchD)

named_theorems put_effects

text \<open>What each operation does to the view and to the pending maps.\<close>

lemma PutChunk_effect [put_effects]:
  assumes "pebble_ok (e_db E) V" "PutChunk E tx key val hash = Inr tx'"
  shows "tx_view V d tx' = (tx_view V d tx)(chk_key key \<mapsto> val, chkh_key key \<mapsto> hash_Bytes hash)"
    and "tx_pendingChunks tx' = (tx_pendingChunks tx)(key \<mapsto> val)"
    and "tx_pendingChunkHashes tx' = (tx_pendingChunkHashes tx)(key \<mapsto> hash)"
    and "tx_pendingFileManifests tx' = tx_pendingFileManifests tx"
    and "nil_maps tx' = nil_maps tx"
  using assms(2)
  by (auto simp: PutChunk_def rbind_eq_Inr key_defs Let_def dest!: tx_write_effect [OF assms(1)])

lemma PutFileManifest_effect [put_effects]:
  assumes "pebble_ok (e_db E) V" "PutFileManifest E tx ident manifest = Inr tx'"
  shows "\<exists>data. marshal (e_file E) manifest = Inr data
      \<and> tx_view V d tx' = (tx_view V d tx)(fman_key (snd ident) \<mapsto> data)"
    and "tx_pendingFileManifests tx' = (tx_pendingFileManifests tx)(fst ident \<mapsto> manifest)"
    and "tx_pendingChunks tx' = tx_pendingChunks tx"
    and "tx_pendingChunkHashes tx' = tx_pendingChunkHashes tx"
    and "nil_maps tx' = nil_maps tx"
  using assms(2)
  by (auto simp: PutFileManifest_def rbind_eq_Inr key_defs Let_def dest!: tx_write_effect [OF assms(1)])

lemma PutDirectoryManifest_effect [put_effects]:
  assumes "pebble_ok (e_db E) V" "PutDirectoryManifest E tx ident manifest = Inr tx'"
  shows "\<exists>data. marshal (e_dir E) manifest = Inr data
      \<and> tx_view V d tx' = (tx_view V d tx)(dman_key ident \<mapsto> data)"
    and "tx_pendingFileManifests tx' = tx_pendingFileManifests tx"
    and "tx_pendingChunks tx' = tx_pendingChunks tx"
    and "tx_pendingChunkHashes tx' = tx_pendingChunkHashes tx"
    and "nil_maps tx' = nil_maps tx"
  using assms(2)
  by (auto simp: PutDirectoryManifest_def rbind_eq_Inr key_defs Let_def dest!: tx_write_effect [OF assms(1)])

lemma SetFinalizedHeight_effect [put_effects]:
  assumes "pebble_ok (e_db E) V" "SetFinalizedHeight E tx h = Inr tx'"
  shows "tx_view V d tx' = (tx_view V d tx)(keyFinalizedHeight \<mapsto> BytesFromUint64 h)"
    and "nil_maps tx' = nil_maps tx"
  using assms(2)
  by (auto simp: SetFinalizedHeight_def dest!: tx_write_effect [OF assms(1)])

lemma PutBlock_effect [put_effects]:
  assumes "pebble_ok (e_db E) V" "PutBlock E cache tx h b = Inr (tx', cache')"
  shows "tx_view V d tx' = (tx_view V d tx)(blk_key h \<mapsto> b_Bytes b,
      blkh_key (fst (b_Hash (e_B E) cache b)) \<mapsto> BytesFromUint64Key h)"
    and "cache' = snd (b_Hash (e_B E) cache b)"
    and "nil_maps tx' = nil_maps tx"
  using assms(2)
  by (cases "b_Hash (e_B E) cache b",
      auto simp: PutBlock_def rbind_eq_Inr key_defs Let_def dest!: tx_write_effect [OF assms(1)])+

lemma PutStateMMR_effect [put_effects]:
  assumes "pebble_ok (e_db E) V" "PutStateMMR E tx h m = Inr tx'"
  shows "h \<noteq> 0 \<Longrightarrow> \<exists>s. Snapshot (e_iter E m) m = Inr s \<and> tx_view V d tx' = (tx_view V d tx)(mmr_key h \<mapsto> s)"
    and "h = 0 \<Longrightarrow> tx' = tx"
    and "nil_maps tx' = nil_maps tx"
  using assms(2)
  by (auto simp: PutStateMMR_def rbind_eq_Inr key_defs Let_def split: if_splits
      dest!: tx_write_effect [OF assms(1)])

text \<open>Committing applies all writes at once; a failed commit and an abort apply none.\<close>

lemma Commit_cases:
  assumes "pebble_ok (e_db E) V" "\<not> nil_maps tx" "Commit E tx s = (r, tx', s')"
  shows "r = Inr () \<Longrightarrow> content V (cs_db s') = tx_view V (cs_db s) tx \<and> tx_committed tx' \<and> \<not> cs_pending s'"
    and "r \<noteq> Inr () \<Longrightarrow> cs_db s' = cs_db s \<and> tx_aborted tx' \<and> \<not> cs_pending s'"
  using assms
  by (auto simp: Commit_def Abort_def nil_maps_def tx_view_def split: sum.splits dest: batch_commitD)

lemma Abort_effect:
  assumes "\<not> nil_maps tx" "Abort tx s = (r, tx', s')"
  shows "r = Inr ()" "cs_db s' = cs_db s" "\<not> cs_pending s'" "tx_aborted tx'"
  using assms by (auto simp: Abort_def nil_maps_def)

section \<open>Pending maps as an interface\<close>

text \<open>
  What the chain uses of a pending map: \<open>pend\<close> reads it and \<open>put\<close> adds to it. A write is
  read back, and other keys keep their values.
\<close>

locale pending_map =
  fixes pend :: "'t \<Rightarrow> 'k \<Rightarrow> 'v option" and put :: "'t \<Rightarrow> 'k \<Rightarrow> 'v \<Rightarrow> 't result"
  assumes pend_put: "put t k v = Inr t' \<Longrightarrow> pend t' = (pend t)(k \<mapsto> v)"
begin

definition puts :: "'t \<Rightarrow> ('k \<times> 'v) list \<Rightarrow> 't result" where
  "puts t kvs = fold_res (\<lambda>t (k, v). put t k v) t kvs"

text \<open>After a sequence of writes the last one to a key is read.\<close>

lemma pend_puts: "puts t kvs = Inr t' \<Longrightarrow> pend t' = pend t ++ map_of (rev kvs)"
  unfolding puts_def
proof (induction kvs arbitrary: t)
  case (Cons kv kvs)
  obtain k v where kv: "kv = (k, v)" by fastforce
  from Cons.prems obtain t1 where t1: "put t k v = Inr t1" "fold_res (\<lambda>t (k, v). put t k v) t1 kvs = Inr t'"
    by (auto simp: kv rbind_eq_Inr)
  have "pend t ++ map_of (rev kvs @ [(k, v)]) = (pend t)(k \<mapsto> v) ++ map_of (rev kvs)"
    by (simp del: fun_upd_apply)
  with Cons.IH [OF t1(2)] pend_put [OF t1(1)] show ?case
    by (simp add: kv del: fun_upd_apply)
qed simp

lemma pend_last: "puts t (kvs @ [(k, v)]) = Inr t' \<Longrightarrow> pend t' k = Some v"
  using pend_puts by fastforce

end

text \<open>
  A pending map over a database, whose entries are written to the batch as well: a read of the
  pending map, then of the database (\<open>base\<close>), gives what the database will hold (\<open>view\<close>).
\<close>

locale written_map = pending_map pend put
  for pend :: "'t \<Rightarrow> 'k \<Rightarrow> 'v option" and put :: "'t \<Rightarrow> 'k \<Rightarrow> 'v \<Rightarrow> 't result" +
  fixes ok :: bool and base :: "bytes \<Rightarrow> bytes option" and view :: "'t \<Rightarrow> bytes \<Rightarrow> bytes option"
    and enc :: "'k \<Rightarrow> bytes" and ser :: "'v \<Rightarrow> bytes"
  assumes view_put: "ok \<Longrightarrow> put t k v = Inr t' \<Longrightarrow>
    view t' (enc k') = (if k' = k then Some (ser v) else view t (enc k'))"
begin

definition agrees :: "'t \<Rightarrow> bool" where
  "agrees t \<longleftrightarrow> (\<forall>k. view t (enc k) = (case pend t k of Some v \<Rightarrow> Some (ser v) | None \<Rightarrow> base (enc k)))"

lemma agrees_start: "pend t = (\<lambda>k. None) \<Longrightarrow> (\<And>k. view t (enc k) = base (enc k)) \<Longrightarrow> agrees t"
  by (simp add: agrees_def)

lemma agrees_put: "ok \<Longrightarrow> agrees t \<Longrightarrow> put t k v = Inr t' \<Longrightarrow> agrees t'"
  by (auto simp: agrees_def view_put pend_put split: if_splits)

lemma agrees_frame:
  "agrees t \<Longrightarrow> pend t' = pend t \<Longrightarrow> (\<And>k. view t' (enc k) = view t (enc k)) \<Longrightarrow> agrees t'"
  by (simp add: agrees_def)

lemma agrees_puts: "ok \<Longrightarrow> agrees t \<Longrightarrow> puts t kvs = Inr t' \<Longrightarrow> agrees t'"
  unfolding puts_def by (erule fold_res_invariant) (auto intro: agrees_put)

lemma read_through: "agrees t \<Longrightarrow> (case pend t k of Some v \<Rightarrow> Some (ser v) | None \<Rightarrow> base (enc k)) = view t (enc k)"
  by (simp add: agrees_def)

end

text \<open>The pending chunks, as \<open>SyncChunk\<close> writes them, and the pending file manifests.\<close>

lemma PutChunk_pend:
  assumes "PutChunk E tx key val hash = Inr tx'"
  shows "tx_pendingChunks tx' = (tx_pendingChunks tx)(key \<mapsto> val)"
    and "tx_pendingChunkHashes tx' = (tx_pendingChunkHashes tx)(key \<mapsto> hash)"
  using assms by (auto simp: PutChunk_def tx_write_def rbind_eq_Inr Let_def)

lemma PutFileManifest_pend:
  "PutFileManifest E tx ident manifest = Inr tx' \<Longrightarrow>
   tx_pendingFileManifests tx' = (tx_pendingFileManifests tx)(fst ident \<mapsto> manifest)"
  by (auto simp: PutFileManifest_def tx_write_def rbind_eq_Inr Let_def)

interpretation chunk_writes: written_map tx_pendingChunks "\<lambda>tx key val. PutChunk E tx key val (h val)"
    "pebble_ok (e_db E) V" "content V d" "tx_view V d" chk_key "\<lambda>val. val"
  for E :: "('d, 'b) env" and V d and h :: "bytes \<Rightarrow> hash"
proof unfold_locales
  show "PutChunk E t k v (h v) = Inr t' \<Longrightarrow> tx_pendingChunks t' = (tx_pendingChunks t)(k \<mapsto> v)" for t k v t'
    by (rule PutChunk_pend)
  show "tx_view V d t' (chk_key k') = (if k' = k then Some v else tx_view V d t (chk_key k'))"
    if "pebble_ok (e_db E) V" "PutChunk E t k v (h v) = Inr t'" for t k v t' k'
    using PutChunk_effect(1) [OF that] encode_key_inj [of "KChunk k'" "KChunk k"]
      encode_key_inj [of "KChunk k'" "KChunkHash k"] by simp
qed

interpretation chunk_hash_writes: written_map tx_pendingChunkHashes "\<lambda>tx key hash. PutChunk E tx key (val hash) hash"
    "pebble_ok (e_db E) V" "content V d" "tx_view V d" chkh_key hash_Bytes
  for E :: "('d, 'b) env" and V d and val :: "hash \<Rightarrow> bytes"
proof unfold_locales
  show "PutChunk E t k (val v) v = Inr t' \<Longrightarrow> tx_pendingChunkHashes t' = (tx_pendingChunkHashes t)(k \<mapsto> v)"
    for t k v t' by (rule PutChunk_pend)
  show "tx_view V d t' (chkh_key k') = (if k' = k then Some (hash_Bytes v) else tx_view V d t (chkh_key k'))"
    if "pebble_ok (e_db E) V" "PutChunk E t k (val v) v = Inr t'" for t k v t' k'
    using PutChunk_effect(1) [OF that] encode_key_inj [of "KChunkHash k'" "KChunk k"]
      encode_key_inj [of "KChunkHash k'" "KChunkHash k"] by simp
qed

text \<open>The pending manifests obey the first law only for their real keys, the addresses.\<close>

interpretation manifest_writes: pending_map tx_pendingFileManifests
    "\<lambda>tx a manifest. PutFileManifest E tx (a, i) manifest"
  for E :: "('d, 'b) env" and i
  by unfold_locales (drule PutFileManifest_pend, simp)

section \<open>The state machine root of a height\<close>

text \<open>Every key of the database was written by this code.\<close>

definition db_keys_ok :: "(bytes \<Rightarrow> bytes option) \<Rightarrow> bool" where
  "db_keys_ok c \<longleftrightarrow> (\<forall>k. c k \<noteq> None \<longrightarrow> (\<exists>K. k = encode_key K))"

lemma db_keys_ok_empty: "db_keys_ok (\<lambda>k. None)"
  by (simp add: db_keys_ok_def)

lemma db_keys_ok_upd: "db_keys_ok c \<Longrightarrow> db_keys_ok (c(encode_key K \<mapsto> v))"
  by (auto simp: db_keys_ok_def)

lemma mmr_range:
  assumes "h + 1 \<noteq> 0"
  shows "in_range stateMMRPrefix (mmr_key (h + 1)) (encode_key K) \<longleftrightarrow> (\<exists>j. K = KMMR j \<and> j \<le> h)"
proof -
  have less: "j < h + 1 \<longleftrightarrow> j \<le> h" for j
  proof -
    have "unat (h + 1) = unat h + 1" using unatSuc [of h] assms by (simp add: add.commute)
    then show ?thesis by (simp add: word_less_nat_alt word_le_nat_alt less_Suc_eq_le)
  qed
  have key: "in_range stateMMRPrefix (mmr_key (h + 1)) (mmr_key j) \<longleftrightarrow> j \<le> h" for j
  proof -
    have ne: "BytesFromUint64Key j \<noteq> []" by (metis u64be.enc_length list.size(3) zero_neq_numeral)
    have "bytes_less (stateMMRPrefix @ BytesFromUint64Key j) (stateMMRPrefix @ [])
        \<longleftrightarrow> bytes_less (BytesFromUint64Key j) []" by (rule bytes_less_append_same)
    also have "\<dots> \<longleftrightarrow> False" using ne by (cases "BytesFromUint64Key j") simp_all
    finally have "\<not> bytes_less (mmr_key j) stateMMRPrefix"
      by (simp add: key_defs prefixKey_def prefixHeightKey_def)
    then show ?thesis
      by (simp add: in_range_def key_defs prefixKey_def prefixHeightKey_def Uint64Key_less less)
  qed
  show ?thesis
    by (cases K) (simp_all add: key, simp_all add: in_range_def key_defs prefixKey_def
      prefixHeightKey_def prefix_values)
qed

text \<open>The stored snapshot that serves height \<open>h\<close>: the last one at or below it.\<close>

definition serves :: "(bytes \<Rightarrow> bytes option) \<Rightarrow> u64 \<Rightarrow> u64 \<Rightarrow> bytes \<Rightarrow> bool" where
  "serves c h j s \<longleftrightarrow> j \<le> h \<and> c (mmr_key j) = Some s \<and> (\<forall>i. i \<le> h \<longrightarrow> c (mmr_key i) \<noteq> None \<longrightarrow> i \<le> j)"

lemma GetStateMMR_serves:
  assumes P: "pebble_ok (e_db E) V" "pebble_total (e_db E)" and keys: "db_keys_ok (content V d)"
    and h: "h \<noteq> 0" "h + 1 \<noteq> 0"
  shows "serves (content V d) h j s \<Longrightarrow> GetStateMMR E d h = NewMMRFromSnapshot s"
    and "\<forall>i\<le>h. content V d (mmr_key i) = None \<Longrightarrow>
      GetStateMMR E d h = Inl (Err ''no MMR found at or before height'')"
proof -
  let ?c = "content V d" and ?last = "db_last (e_db E) d stateMMRPrefix (mmr_key (h + 1))"
  have get: "db_get (e_db E) d (mmr_key h) = Inr (?c (mmr_key h))" by (rule db_get_total [OF P])
  have range: "in_range stateMMRPrefix (mmr_key (h + 1)) (mmr_key i) \<longleftrightarrow> i \<le> h" for i
    using mmr_range [OF h(2), of "KMMR i"] by simp
  have eval: "GetStateMMR E d h = (case ?c (mmr_key h) of Some b \<Rightarrow> NewMMRFromSnapshot b
      | None \<Rightarrow> (case ?last of None \<Rightarrow> Inl (Err ''no MMR found at or before height'')
        | Some b \<Rightarrow> NewMMRFromSnapshot b))"
    using h(1) get by (simp add: GetStateMMR_def Let_def flip: mmr_key_def)
  {
    assume s: "serves ?c h j s"
    show "GetStateMMR E d h = NewMMRFromSnapshot s"
    proof (cases "?c (mmr_key h)")
      case (Some b)
      with s have "j = h" by (auto simp: serves_def)
      with Some s eval show ?thesis by (simp add: serves_def)
    next
      case None
      have "?last \<noteq> None"
      proof
        assume "?last = None"
        then have "?c (mmr_key j) = None" using s range [of j] by (intro db_lastD [OF P(1)]) (simp_all add: serves_def)
        with s show False by (simp add: serves_def)
      qed
      then obtain b where b: "?last = Some b" by blast
      obtain k where k: "in_range stateMMRPrefix (mmr_key (h + 1)) k" "?c k = Some b"
        "\<And>k'. in_range stateMMRPrefix (mmr_key (h + 1)) k' \<Longrightarrow> ?c k' \<noteq> None \<Longrightarrow> \<not> bytes_less k k'"
        by (rule db_last_SomeD [OF P(1) b]) blast
      obtain i where i: "k = mmr_key i" "i \<le> h"
      proof -
        obtain K where K: "k = encode_key K"
          using keys k(2) unfolding db_keys_ok_def by (metis option.distinct(1))
        with k(1) mmr_range [OF h(2)] show thesis using that by auto
      qed
      have "\<not> bytes_less (mmr_key i) (mmr_key j)" using k(3) [of "mmr_key j"] s range i by (simp add: serves_def)
      then have "j \<le> i" by (simp add: key_defs prefixKey_def prefixHeightKey_def Uint64Key_less)
      moreover have "i \<le> j" using s i k(2) by (simp add: serves_def)
      ultimately have "i = j" by simp
      with i k(2) s None b eval show ?thesis by (simp add: serves_def)
    qed
  next
    assume none: "\<forall>i\<le>h. ?c (mmr_key i) = None"
    have "?last = None"
    proof (rule ccontr)
      assume "?last \<noteq> None"
      then obtain b where "?last = Some b" by blast
      then obtain k where "in_range stateMMRPrefix (mmr_key (h + 1)) k" "?c k = Some b"
        by (rule db_last_SomeD [OF P(1)])
      moreover from this obtain K where "k = encode_key K"
        using keys unfolding db_keys_ok_def by (metis option.distinct(1))
      ultimately show False using none mmr_range [OF h(2)] by auto
    qed
    with none eval show "GetStateMMR E d h = Inl (Err ''no MMR found at or before height'')" by simp
  }
qed

text \<open>When the lookup succeeds it returns the snapshot that serves the height.\<close>

lemma GetStateMMR_Inr:
  assumes P: "pebble_ok (e_db E) V" and keys: "db_keys_ok (content V d)" and h: "h \<noteq> 0" "h + 1 \<noteq> 0"
    and run: "GetStateMMR E d h = Inr m"
  shows "\<exists>j s. serves (content V d) h j s \<and> NewMMRFromSnapshot s = Inr m"
proof -
  let ?c = "content V d" and ?last = "db_last (e_db E) d stateMMRPrefix (mmr_key (h + 1))"
  have range: "in_range stateMMRPrefix (mmr_key (h + 1)) (mmr_key i) \<longleftrightarrow> i \<le> h" for i
    using mmr_range [OF h(2), of "KMMR i"] by simp
  from run h(1) obtain v where "db_get (e_db E) d (mmr_key h) = Inr v"
    by (auto simp: GetStateMMR_def Let_def rbind_eq_Inr simp flip: mmr_key_def)
  with db_getD [OF P] have get: "db_get (e_db E) d (mmr_key h) = Inr (?c (mmr_key h))" by blast
  show ?thesis
  proof (cases "?c (mmr_key h)")
    case (Some b)
    with run get h(1) have "NewMMRFromSnapshot b = Inr m"
      by (simp add: GetStateMMR_def Let_def flip: mmr_key_def)
    with Some show ?thesis by (intro exI [of _ h] exI [of _ b]) (simp add: serves_def)
  next
    case None
    with run get h(1) obtain b where b: "?last = Some b" "NewMMRFromSnapshot b = Inr m"
      by (auto simp: GetStateMMR_def Let_def simp flip: mmr_key_def split: option.splits)
    obtain k where k: "in_range stateMMRPrefix (mmr_key (h + 1)) k" "?c k = Some b"
      "\<And>k'. in_range stateMMRPrefix (mmr_key (h + 1)) k' \<Longrightarrow> ?c k' \<noteq> None \<Longrightarrow> \<not> bytes_less k k'"
      by (rule db_last_SomeD [OF P b(1)]) blast
    obtain K where K: "k = encode_key K"
      using keys k(2) unfolding db_keys_ok_def by (metis option.distinct(1))
    with k(1) mmr_range [OF h(2)] obtain i where i: "k = mmr_key i" "i \<le> h" by auto
    have "i' \<le> i" if "i' \<le> h" "?c (mmr_key i') \<noteq> None" for i'
      using k(3) [of "mmr_key i'"] that range i(1)
      by (simp add: key_defs prefixKey_def prefixHeightKey_def Uint64Key_less not_less)
    with i k(2) b(2) show ?thesis by (auto simp: serves_def)
  qed
qed

end
