(* ===== verification/Chain_Sync.thy ===== *)
theory Chain_Sync
  imports Chain_State
begin

text \<open>
  \<open>pkg/sync/chain.go\<close>: the chain node. Blobs of a Celestia height are checked and recorded
  in a transaction (\<open>SyncBlobs\<close> and what it calls), a block is produced from what was accepted
  (\<open>ProduceBlock\<close>), linked to its parent and to the state root (\<open>ApplyBlock\<close>), finalized and
  committed (\<open>sync_step\<close>, the body that both loops of \<open>SyncChain\<close> repeat), and published to
  the subscribers.

  Celestia is the parameter \<open>da\<close>: headers and blobs are functions of the height. What changes
  over time is an argument of \<open>SyncChain\<close>: the successive answers of \<open>LatestHeight\<close>, the
  heads received on the subscription until the context is done, and which full subscriber
  channels time out. Logging has no effect except that it computes the block's hash, which
  fills the cache. Addresses for identifiers come from a counter, the heap.
\<close>

record blob =
  bl_Commitment :: bytes
  bl_Data :: bytes

record da =
  da_header :: "u64 \<Rightarrow> gotime result"
  da_blobs :: "u64 \<Rightarrow> blob list result"

section \<open>Recording blobs\<close>

definition SyncChunk :: "('d, 'b) env \<Rightarrow> 'b tx \<Rightarrow> blob \<Rightarrow> ChunkData \<Rightarrow> (bool \<times> 'b tx) result" where
  "SyncChunk E tx blob chunkData =
     rbind (to_hash (bl_Commitment blob)) (\<lambda>key.
     rbind (PutChunk E tx key (cd_ChunkData chunkData) (HashBytes (e_B E) [cd_ChunkData chunkData])) (\<lambda>tx.
     Inr (True, tx)))"

text \<open>The field \<open>Commitment\<close> of a pointer to an identifier.\<close>

definition pb_commitment_of :: "pbBlobIdentifier option \<Rightarrow> bytes result" where
  "pb_commitment_of p = (case p of None \<Rightarrow> Inl (Panic ''nil pointer dereference'')
     | Some m \<Rightarrow> Inr (pb_Commitment m))"

text \<open>The loop over a manifest's chunks: the file's data, or \<open>None\<close> when a check rejects it.\<close>

fun collect_chunks ::
  "('d, 'b) env \<Rightarrow> 'd \<Rightarrow> 'b tx \<Rightarrow> ChunkReference list \<Rightarrow> bytes \<Rightarrow> bytes option result" where
  "collect_chunks E d tx [] fileData = Inr (Some fileData)"
| "collect_chunks E d tx (chunk # chunks) fileData =
     rbind (rbind (pb_commitment_of (cr_Id chunk)) to_hash) (\<lambda>key.
     rbind (wrap ''error getting chunk data'' (tx_GetChunk E d tx key)) (\<lambda>chunkData.
     rbind (BlobIdentifierFromProto (cr_Id chunk)) (\<lambda>chunkId.
     case chunkData of None \<Rightarrow> Inr None
     | Some chunkData \<Rightarrow>
       rbind (wrap ''error getting chunk hash'' (tx_GetChunkHash E d tx key)) (\<lambda>chunkHash.
       case chunkHash of None \<Rightarrow> Inr None
       | Some chunkHash \<Rightarrow>
         if \<not> hash_EqualBytes chunkHash (cr_ChunkHash chunk) then Inr None
         else collect_chunks E d tx chunks (fileData @ chunkData)))))"

definition SyncFileManifest ::
  "('d, 'b) env \<Rightarrow> 'd \<Rightarrow> 'b tx \<Rightarrow> nat \<Rightarrow> u64 \<Rightarrow> blob \<Rightarrow> FileManifest \<Rightarrow> (bool \<times> 'b tx \<times> nat) result" where
  "SyncFileManifest E d tx heap height blob fileManifest =
     rbind (to_hash (bl_Commitment blob)) (\<lambda>commitment.
     let manifestId = (heap, \<lparr>bi_Height = height, bi_Commitment = commitment\<rparr>); heap = heap + 1 in
     rbind (collect_chunks E d tx (fm_Chunks fileManifest) []) (\<lambda>fileData.
     case fileData of None \<Rightarrow> Inr (False, tx, heap)
     | Some fileData \<Rightarrow>
       if of_nat (length fileData) \<noteq> fm_FileSize fileManifest then Inr (False, tx, heap)
       else let fileHash = HashBytes (e_B E) [fileData] in
         if \<not> hash_EqualBytes fileHash (fm_FileHash fileManifest) then Inr (False, tx, heap)
         else rbind (PutFileManifest E tx manifestId fileManifest) (\<lambda>tx. Inr (True, tx, heap))))"

text \<open>The loop over a directory's files: the Merkle leaves, or \<open>None\<close> when a file is missing.\<close>

fun collect_files ::
  "('d, 'b) env \<Rightarrow> 'd \<Rightarrow> 'b tx \<Rightarrow> nat \<Rightarrow> FileReference list \<Rightarrow> bytes list \<Rightarrow> (bytes list option \<times> nat) result" where
  "collect_files E d tx heap [] merkleLeaves = Inr (Some merkleLeaves, heap)"
| "collect_files E d tx heap (file # files) merkleLeaves =
     rbind (BlobIdentifierFromProto (fr_Id file)) (\<lambda>fid.
     let fileId = (heap, fid); heap = heap + 1 in
     rbind (wrap ''error getting file manifest'' (tx_GetFileManifest E d tx fileId)) (\<lambda>fileManifest.
     case fileManifest of None \<Rightarrow> Inr (None, heap)
     | Some fileManifest \<Rightarrow>
         let fileHash = HashBytes (e_B E) [fr_RelativePath file, fm_FileHash fileManifest]
         in collect_files E d tx heap files (merkleLeaves @ [hash_Bytes fileHash])))"

definition SyncDirectoryManifest ::
  "('d, 'b) env \<Rightarrow> 'd \<Rightarrow> 'b tx \<Rightarrow> nat \<Rightarrow> u64 \<Rightarrow> blob \<Rightarrow> DirectoryManifest \<Rightarrow> (bool \<times> 'b tx \<times> nat) result" where
  "SyncDirectoryManifest E d tx heap height blob directoryManifest =
     rbind (to_hash (bl_Commitment blob)) (\<lambda>commitment.
     let manifestId = \<lparr>bi_Height = height, bi_Commitment = commitment\<rparr> in
     rbind (collect_files E d tx heap (dm_Files directoryManifest) []) (\<lambda>(merkleLeaves, heap).
     case merkleLeaves of None \<Rightarrow> Inr (False, tx, heap)
     | Some merkleLeaves \<Rightarrow>
         let dirMerkleRoot = CalculateMerkleRoot (e_B E) merkleLeaves in
         if \<not> hash_EqualBytes dirMerkleRoot (dm_DirectoryHash directoryManifest)
         then Inr (False, tx, heap)
         else rbind (PutDirectoryManifest E tx manifestId directoryManifest) (\<lambda>tx. Inr (True, tx, heap))))"

text \<open>The state of the loop over the blobs of a height, and one iteration.\<close>

record 'b sync_state =
  ss_tx :: "'b tx"
  ss_heap :: nat
  ss_chunks :: "BlobIdentifier list"
  ss_files :: "BlobIdentifier list"
  ss_dirs :: "BlobIdentifier list"

definition SyncBlob ::
  "('d, 'b) env \<Rightarrow> 'd \<Rightarrow> u64 \<Rightarrow> 'b sync_state \<Rightarrow> blob \<Rightarrow> 'b sync_state result" where
  "SyncBlob E d height s blob =
     rbind (wrap ''error unmarshalling blob envelope'' (unmarshal (e_envelope E) (bl_Data blob))) (\<lambda>envelope.
     rbind (to_hash (bl_Commitment blob)) (\<lambda>commitment.
     let blobId = \<lparr>bi_Height = height, bi_Commitment = commitment\<rparr> in
     case envelope of
       ChunkDataE chunk \<Rightarrow>
         rbind (wrap ''error syncing blob'' (SyncChunk E (ss_tx s) blob chunk)) (\<lambda>(accepted, tx).
         Inr (s\<lparr>ss_tx := tx, ss_chunks := ss_chunks s @ (if accepted then [blobId] else [])\<rparr>))
     | FileManifestE manifest \<Rightarrow>
         rbind (wrap ''error syncing blob'' (SyncFileManifest E d (ss_tx s) (ss_heap s) height blob manifest))
           (\<lambda>(accepted, tx, heap).
         Inr (s\<lparr>ss_tx := tx, ss_heap := heap, ss_files := ss_files s @ (if accepted then [blobId] else [])\<rparr>))
     | DirectoryManifestE manifest \<Rightarrow>
         rbind (wrap ''error syncing blob'' (SyncDirectoryManifest E d (ss_tx s) (ss_heap s) height blob manifest))
           (\<lambda>(accepted, tx, heap).
         Inr (s\<lparr>ss_tx := tx, ss_heap := heap, ss_dirs := ss_dirs s @ (if accepted then [blobId] else [])\<rparr>))
     | NoPayload \<Rightarrow> Inl (Err ''unknown blob type'')))"

definition SyncBlobs ::
  "('d, 'b) env \<Rightarrow> 'd \<Rightarrow> 'b tx \<Rightarrow> nat \<Rightarrow> u64 \<Rightarrow> blob list \<Rightarrow> 'b sync_state result" where
  "SyncBlobs E d tx heap height blobs =
     fold_res (SyncBlob E d height)
       \<lparr>ss_tx = tx, ss_heap = heap, ss_chunks = [], ss_files = [], ss_dirs = []\<rparr> blobs"

definition SyncCelestiaHeight ::
  "('d, 'b) env \<Rightarrow> da \<Rightarrow> 'd \<Rightarrow> 'b tx \<Rightarrow> nat \<Rightarrow> u64 \<Rightarrow> 'b sync_state result" where
  "SyncCelestiaHeight E D d tx heap height =
     rbind (wrap ''error getting blobs from Celestia'' (da_blobs D height))
       (\<lambda>blobs. SyncBlobs E d tx heap height blobs)"

section \<open>Blocks\<close>

definition ProduceBlockFromCelestiaHeight ::
  "('d, 'b) env \<Rightarrow> da \<Rightarrow> 'd \<Rightarrow> 'b tx \<Rightarrow> nat \<Rightarrow> u64 \<Rightarrow> (Block \<times> 'b tx \<times> nat) result" where
  "ProduceBlockFromCelestiaHeight E D d tx heap height =
     rbind (wrap ''error syncing celestia height'' (SyncCelestiaHeight E D d tx heap height)) (\<lambda>s.
     Inr (NewBlock (e_B E) (ss_dirs s) (ss_files s) (ss_chunks s), ss_tx s, ss_heap s))"

definition ProduceBlock ::
  "('d, 'b) env \<Rightarrow> da \<Rightarrow> bytes \<Rightarrow> 'd \<Rightarrow> 'b tx \<Rightarrow> nat \<Rightarrow> u64 \<Rightarrow> u64 \<Rightarrow> (Block \<times> 'b tx \<times> nat) result" where
  "ProduceBlock E D chainID d tx heap height celestiaHeight =
     rbind (wrap ''error producing block from celestia height''
       (ProduceBlockFromCelestiaHeight E D d tx heap celestiaHeight)) (\<lambda>(block, tx, heap).
     rbind (wrap ''error getting celestia header'' (da_header D celestiaHeight)) (\<lambda>time.
     Inr (block\<lparr>b_Header := (b_Header block)\<lparr>bh_ChainID := chainID, bh_Height := height,
            bh_CelestiaBlockHeight := celestiaHeight, bh_Timestamp := time\<rparr>\<rparr>, tx, heap)))"

definition CreateGenesisBlock ::
  "('d, 'b) env \<Rightarrow> da \<Rightarrow> bytes \<Rightarrow> hash_cache \<Rightarrow> 'b tx \<Rightarrow> u64 \<Rightarrow> (Block \<times> 'b tx) result \<times> hash_cache" where
  "CreateGenesisBlock E D chainID cache tx celestiaHeight =
     (case wrap ''error getting celestia header'' (da_header D celestiaHeight) of
        Inl e \<Rightarrow> (Inl e, cache)
      | Inr time \<Rightarrow>
          let block0 = NewBlock (e_B E) [] [] [];
              block = block0\<lparr>b_Header := (b_Header block0)\<lparr>bh_ChainID := chainID, bh_Height := 0,
                bh_CelestiaBlockHeight := celestiaHeight, bh_Timestamp := time\<rparr>\<rparr>;
              (_, cache) = b_Hash (e_B E) cache block
          in case wrap ''error applying genesis block'' (PutBlock E cache tx (b_Height block) block) of
               Inl e \<Rightarrow> (Inl e, cache)
             | Inr (tx, cache) \<Rightarrow> (Inr (block, tx), cache))"

text \<open>The parent that \<open>ApplyBlock\<close> uses: the one passed, or the stored block below.\<close>

definition parent_of :: "('d, 'b) env \<Rightarrow> 'd \<Rightarrow> Block \<Rightarrow> Block option \<Rightarrow> Block result" where
  "parent_of E d block prevBlock =
     rbind (case prevBlock of
        None \<Rightarrow> wrap ''error getting previous block'' (GetBlock E d (bh_Height (b_Header block) - 1))
      | Some p \<Rightarrow> Inr (Some p)) (\<lambda>prevBlock.
     case prevBlock of None \<Rightarrow> Inl (Err ''previous block not found'')
     | Some p \<Rightarrow> if b_Height p \<noteq> b_Height block - 1
         then Inl (Err ''previous block height mismatch'') else Inr p)"

text \<open>The roots of the block are added to the mountain range, in this order, when not zero.\<close>

definition state_leaves :: "Block \<Rightarrow> bytes list" where
  "state_leaves block =
     (if \<not> hash_IsZero (bh_DirsRoot (b_Header block)) then [hash_Bytes (bh_DirsRoot (b_Header block))] else [])
     @ (if \<not> hash_IsZero (bh_FilesRoot (b_Header block)) then [hash_Bytes (bh_FilesRoot (b_Header block))] else [])
     @ (if \<not> hash_IsZero (bh_ChunksRoot (b_Header block)) then [hash_Bytes (bh_ChunksRoot (b_Header block))] else [])"

definition apply_state :: "('d, 'b) env \<Rightarrow> 'd \<Rightarrow> 'b tx \<Rightarrow> Block \<Rightarrow> ('b tx \<times> Block) result" where
  "apply_state E d tx block =
     rbind (wrap ''error getting state mmr'' (GetStateMMR E d (b_Height block - 1))) (\<lambda>stateMMR.
     let stateMMR = fold (\<lambda>leaf m. snd (AddLeaf (e_B E) leaf m)) (state_leaves block) stateMMR;
         mmrChanged = state_leaves block \<noteq> [];
         block = block\<lparr>b_Header := (b_Header block)\<lparr>bh_StateRoot := Root (e_B E) stateMMR\<rparr>\<rparr>
     in if mmrChanged
        then rbind (wrap ''error putting state mmr'' (PutStateMMR E tx (b_Height block) stateMMR))
          (\<lambda>tx. Inr (tx, block))
        else Inr (tx, block))"

definition ApplyBlock ::
  "('d, 'b) env \<Rightarrow> 'd \<Rightarrow> hash_cache \<Rightarrow> 'b tx \<Rightarrow> Block \<Rightarrow> Block option \<Rightarrow> ('b tx \<times> Block) result \<times> hash_cache" where
  "ApplyBlock E d cache tx block prevBlock =
     (let (applied, cache) =
        (if b_Height block > 0 then
           case parent_of E d block prevBlock of
             Inl e \<Rightarrow> (Inl e, cache)
           | Inr p \<Rightarrow>
               let (parentHash, cache) = b_Hash (e_B E) cache p;
                   block = block\<lparr>b_Header := (b_Header block)\<lparr>bh_ParentHash := parentHash\<rparr>\<rparr>
               in (apply_state E d tx block, cache)
         else (Inr (tx, block), cache))
      in case applied of
           Inl e \<Rightarrow> (Inl e, cache)
         | Inr (tx, block) \<Rightarrow>
             let (_, cache) = b_Hash (e_B E) cache block
             in case PutBlock E cache tx (b_Height block) block of
                  Inl e \<Rightarrow> (Inl e, cache)
                | Inr (tx, cache) \<Rightarrow> (Inr (tx, block), cache))"

definition FinalizeBlock :: "('d, 'b) env \<Rightarrow> 'b tx \<Rightarrow> u64 \<Rightarrow> 'b tx result" where
  "FinalizeBlock E tx height = SetFinalizedHeight E tx height"

section \<open>Subscribers\<close>

text \<open>
  The open channels, by subscription id, with the headers buffered in each (100 at most); a
  closed channel is deleted from the map. When a buffer is full the send waits five seconds:
  \<open>slow id\<close> tells whether it timed out, otherwise the consumer took the oldest header.
\<close>

type_synonym subscribers = "nat \<Rightarrow> BlockHeader list option"

definition SubscribeToNewHeaders :: "nat \<Rightarrow> subscribers \<Rightarrow> subscribers" where
  "SubscribeToNewHeaders ident subs = subs(ident \<mapsto> [])"

definition Unsubscribe :: "nat option \<Rightarrow> subscribers \<Rightarrow> subscribers" where
  "Unsubscribe sub subs = (case sub of None \<Rightarrow> subs
     | Some ident \<Rightarrow> if subs ident \<noteq> None then subs(ident := None) else subs)"

definition publishNewHeader :: "(nat \<Rightarrow> bool) \<Rightarrow> BlockHeader \<Rightarrow> subscribers \<Rightarrow> subscribers" where
  "publishNewHeader slow header subs = (\<lambda>ident. case subs ident of None \<Rightarrow> None
     | Some buf \<Rightarrow> if length buf < 100 then Some (buf @ [header])
         else if slow ident then None else Some (tl buf @ [header]))"

section \<open>The loops\<close>

record 'd bchain =
  bc_chainID :: bytes
  bc_state :: "'d chain_state"
  bc_cache :: hash_cache
  bc_heap :: nat
  bc_subs :: subscribers

definition NewBlobcastChain :: "('d, 'b) env \<Rightarrow> 'd \<Rightarrow> 'd bchain result" where
  "NewBlobcastChain E d = rbind (wrap ''error getting chain id'' (ChainID E d)) (\<lambda>chainID.
     Inr \<lparr>bc_chainID = chainID, bc_state = \<lparr>cs_db = d, cs_pending = False\<rparr>, bc_cache = Map.empty,
          bc_heap = 0, bc_subs = Map.empty\<rparr>)"

text \<open>An error after \<open>BeginTransaction\<close> aborts the transaction and is returned; a panic is not caught.\<close>

definition abort_with :: "string \<Rightarrow> err \<Rightarrow> 'b tx \<Rightarrow> 'd bchain \<Rightarrow> 'a result \<times> 'd bchain" where
  "abort_with msg e tx bc =
     (if is_panic e then (Inl e, bc)
      else (Inl (wrap_err msg e), bc\<lparr>bc_state := snd (snd (Abort tx (bc_state bc)))\<rparr>))"

text \<open>The writes of one block, in its transaction: the block that was applied.\<close>

definition run_block ::
  "('d, 'b) env \<Rightarrow> da \<Rightarrow> u64 \<Rightarrow> u64 \<Rightarrow> Block option \<Rightarrow> 'b tx \<Rightarrow> 'd bchain \<Rightarrow> (Block \<times> 'b tx) result \<times> 'd bchain" where
  "run_block E D height celestiaHeight prevBlock tx bc =
     (let d = cs_db (bc_state bc) in
      case ProduceBlock E D (bc_chainID bc) d tx (bc_heap bc) height celestiaHeight of
        Inl e \<Rightarrow> abort_with ''error producing block'' e tx bc
      | Inr (block, tx, heap) \<Rightarrow>
          let (applied, cache) = ApplyBlock E d (bc_cache bc) tx block prevBlock;
              bc = bc\<lparr>bc_heap := heap, bc_cache := cache\<rparr>
          in case applied of
               Inl e \<Rightarrow> abort_with ''error applying block'' e tx bc
             | Inr (tx, block) \<Rightarrow>
                 (case FinalizeBlock E tx height of
                    Inl e \<Rightarrow> abort_with ''error finalizing block'' e tx bc
                  | Inr tx \<Rightarrow> (Inr (block, tx), bc)))"

text \<open>The body of both loops.\<close>

definition sync_step ::
  "('d, 'b) env \<Rightarrow> da \<Rightarrow> (nat \<Rightarrow> bool) \<Rightarrow> u64 \<Rightarrow> u64 \<Rightarrow> Block option \<Rightarrow> 'd bchain \<Rightarrow> Block result \<times> 'd bchain" where
  "sync_step E D slow height celestiaHeight prevBlock bc =
     (case BeginTransaction E (bc_state bc) of
        Inl e \<Rightarrow> (Inl (wrap_err ''error beginning chain state transaction'' e), bc)
      | Inr (tx, s) \<Rightarrow>
          (case run_block E D height celestiaHeight prevBlock tx (bc\<lparr>bc_state := s\<rparr>) of
             (Inl e, bc) \<Rightarrow> (Inl e, bc)
           | (Inr (block, tx), bc) \<Rightarrow>
               let (committed, _, s) = Commit E tx (bc_state bc);
                   bc = bc\<lparr>bc_state := s\<rparr>
               in case committed of
                    Inl e \<Rightarrow> (Inl (wrap_err ''error committing transaction'' e), bc)
                  | Inr _ \<Rightarrow> (Inr block,
                      bc\<lparr>bc_subs := publishNewHeader slow (b_Header block) (bc_subs bc)\<rparr>)))"

text \<open>The genesis block, when nothing is finalized: its transaction is committed, not finalized.\<close>

definition genesis_step ::
  "('d, 'b) env \<Rightarrow> da \<Rightarrow> u64 \<Rightarrow> 'd bchain \<Rightarrow> Block result \<times> 'd bchain" where
  "genesis_step E D offset bc =
     (case BeginTransaction E (bc_state bc) of
        Inl e \<Rightarrow> (Inl (wrap_err ''error beginning chain state transaction'' e), bc)
      | Inr (tx, s) \<Rightarrow>
          let bc = bc\<lparr>bc_state := s\<rparr>;
              (created, cache) = CreateGenesisBlock E D (bc_chainID bc) (bc_cache bc) tx offset;
              bc = bc\<lparr>bc_cache := cache\<rparr>
          in case created of
               Inl e \<Rightarrow> abort_with ''error creating genesis block'' e tx bc
             | Inr (block, tx) \<Rightarrow>
                 let (committed, _, s) = Commit E tx (bc_state bc);
                     bc = bc\<lparr>bc_state := s\<rparr>
                 in case committed of
                      Inl e \<Rightarrow> (Inl (wrap_err ''error committing transaction'' e), bc)
                    | Inr _ \<Rightarrow> (Inr block, bc))"

text \<open>
  The position of the loops: the height to produce next and the block before it. \<open>heights\<close>
  holds the answers of \<open>LatestHeight\<close> in order; after the last one the call fails, as it does
  when the context is cancelled.
\<close>

type_synonym 'd progress = "(u64 \<times> Block option) result \<times> 'd bchain"

definition next_answer :: "u64 result list \<Rightarrow> u64 result \<times> u64 result list" where
  "next_answer heights = (case heights of
     [] \<Rightarrow> (Inl (Err ''error getting latest celestia height''), [])
   | h # hs \<Rightarrow> (wrap ''error getting latest celestia height'' h, hs))"

partial_function (option) catch_up ::
  "('d, 'b) env \<Rightarrow> da \<Rightarrow> (u64 \<Rightarrow> nat \<Rightarrow> bool) \<Rightarrow> u64 \<Rightarrow> u64 result list \<Rightarrow> u64 \<Rightarrow> u64 \<Rightarrow> Block option
    \<Rightarrow> 'd bchain \<Rightarrow> 'd progress option"
where
  "catch_up E D slow offset heights latest nextHeight prevBlock bc =
     (let refresh = nextHeight + offset \<ge> latest;
          (answer, heights) = (if refresh then next_answer heights else (Inr latest, heights))
      in case answer of
           Inl e \<Rightarrow> Some (Inl e, bc)
         | Inr latest \<Rightarrow>
             if refresh \<and> nextHeight + offset > latest then Some (Inr (nextHeight, prevBlock), bc)
             else (case sync_step E D (slow nextHeight) nextHeight (nextHeight + offset) prevBlock bc of
                 (Inl e, bc) \<Rightarrow> Some (Inl e, bc)
               | (Inr block, bc) \<Rightarrow>
                   catch_up E D slow offset heights latest (nextHeight + 1) (Some block) bc))"

text \<open>Live sync: the heights up to a received head.\<close>

partial_function (option) up_to_head ::
  "('d, 'b) env \<Rightarrow> da \<Rightarrow> (u64 \<Rightarrow> nat \<Rightarrow> bool) \<Rightarrow> u64 \<Rightarrow> u64 \<Rightarrow> u64 \<Rightarrow> Block option
    \<Rightarrow> 'd bchain \<Rightarrow> 'd progress option"
where
  "up_to_head E D slow offset latest nextHeight prevBlock bc =
     (if nextHeight + offset > latest then Some (Inr (nextHeight, prevBlock), bc)
      else case sync_step E D (slow nextHeight) nextHeight (nextHeight + offset) prevBlock bc of
          (Inl e, bc) \<Rightarrow> Some (Inl e, bc)
        | (Inr block, bc) \<Rightarrow> up_to_head E D slow offset latest (nextHeight + 1) (Some block) bc)"

fun live_sync ::
  "('d, 'b) env \<Rightarrow> da \<Rightarrow> (u64 \<Rightarrow> nat \<Rightarrow> bool) \<Rightarrow> u64 \<Rightarrow> u64 list \<Rightarrow> u64 \<Rightarrow> Block option
    \<Rightarrow> 'd bchain \<Rightarrow> 'd progress option"
where
  "live_sync E D slow offset [] nextHeight prevBlock bc = Some (Inr (nextHeight, prevBlock), bc)"
| "live_sync E D slow offset (head # heads) nextHeight prevBlock bc =
     (case up_to_head E D slow offset head nextHeight prevBlock bc of
        None \<Rightarrow> None
      | Some (Inl e, bc) \<Rightarrow> Some (Inl e, bc)
      | Some (Inr (nextHeight, prevBlock), bc) \<Rightarrow>
          live_sync E D slow offset heads nextHeight prevBlock bc)"

text \<open>Where \<open>SyncChain\<close> starts: genesis first when the finalized height is 0.\<close>

definition start_sync :: "('d, 'b) env \<Rightarrow> da \<Rightarrow> u64 \<Rightarrow> 'd bchain \<Rightarrow> 'd progress" where
  "start_sync E D offset bc =
     (case wrap ''error getting finalized height'' (FinalizedHeight E (cs_db (bc_state bc))) of
        Inl e \<Rightarrow> (Inl e, bc)
      | Inr finalizedHeight \<Rightarrow>
          if finalizedHeight > 0 \<and> finalizedHeight + 1 \<noteq> 0 then (Inr (finalizedHeight + 1, None), bc)
          else (case genesis_step E D offset bc of
              (Inl e, bc) \<Rightarrow> (Inl e, bc)
            | (Inr block, bc) \<Rightarrow> (Inr (1, Some block), bc)))"

definition SyncChain ::
  "('d, 'b) env \<Rightarrow> da \<Rightarrow> (u64 \<Rightarrow> nat \<Rightarrow> bool) \<Rightarrow> u64 result list \<Rightarrow> u64 list result \<Rightarrow> 'd bchain
    \<Rightarrow> (unit result \<times> 'd bchain) option"
where
  "SyncChain E D slow heights heads bc =
     (case wrap ''error getting celestia height offset'' (CelestiaHeightOffset E (cs_db (bc_state bc))) of
        Inl e \<Rightarrow> Some (Inl e, bc)
      | Inr offset \<Rightarrow>
          (case start_sync E D offset bc of
             (Inl e, bc) \<Rightarrow> Some (Inl e, bc)
           | (Inr (nextHeight, prevBlock), bc) \<Rightarrow>
               (case next_answer heights of
                  (Inl e, _) \<Rightarrow> Some (Inl e, bc)
                | (Inr latest, heights) \<Rightarrow>
                    (case catch_up E D slow offset heights latest nextHeight prevBlock bc of
                       None \<Rightarrow> None
                     | Some (Inl e, bc) \<Rightarrow> Some (Inl e, bc)
                     | Some (Inr (nextHeight, prevBlock), bc) \<Rightarrow>
                         (case wrap ''error subscribing to new celestia headers'' heads of
                            Inl e \<Rightarrow> Some (Inl e, bc)
                          | Inr heads \<Rightarrow>
                              map_option (\<lambda>(r, bc). (rbind r (\<lambda>_. Inr ()), bc))
                                (live_sync E D slow offset heads nextHeight prevBlock bc))))))"

end
