(* ===== verification/Storage_Proofs.thy ===== *)
theory Storage_Proofs
  imports Chain_Sync
begin

text \<open>
  What the database holds after the node has recorded blobs: every chunk is the data of the
  blob its key names and is stored with its hash; the chunks of every file manifest are there
  and hash to the manifest's file hash; the file manifests of every directory manifest are
  there and their Merkle root is the directory's hash. Recording the blobs of a height keeps
  this, under the documented behaviour of Celestia that a commitment determines the blob.
\<close>

section \<open>A sound store\<close>

definition chunk_key_of :: "ChunkReference \<Rightarrow> hash result" where
  "chunk_key_of cr = rbind (pb_commitment_of (cr_Id cr)) to_hash"

definition chunk_of :: "('d, 'b) env \<Rightarrow> (hash \<Rightarrow> bytes) \<Rightarrow> hash \<Rightarrow> bytes" where
  "chunk_of E g k = (case unmarshal (e_envelope E) (g k) of Inr (ChunkDataE c) \<Rightarrow> cd_ChunkData c | _ \<Rightarrow> [])"

text \<open>The chunks \<open>vs\<close> of a manifest, as its checks require them.\<close>

definition file_sound :: "('d, 'b) env \<Rightarrow> (bytes \<Rightarrow> bytes option) \<Rightarrow> FileManifest \<Rightarrow> bytes list \<Rightarrow> bool" where
  "file_sound E c m vs \<longleftrightarrow>
     list_all2 (\<lambda>cr v. \<exists>k. chunk_key_of cr = Inr k \<and> c (chk_key k) = Some v
       \<and> hash_Bytes (e_B E v) = cr_ChunkHash cr) (fm_Chunks m) vs
     \<and> fm_FileSize m = of_nat (length (concat vs))
     \<and> fm_FileHash m = hash_Bytes (e_B E (concat vs))"

definition stored_file :: "('d, 'b) env \<Rightarrow> (bytes \<Rightarrow> bytes option) \<Rightarrow> BlobIdentifier \<Rightarrow> FileManifest \<Rightarrow> bool" where
  "stored_file E c i m \<longleftrightarrow> (\<exists>data. c (fman_key i) = Some data \<and> unmarshal (e_file E) data = Inr m)"

definition dir_leaf :: "('d, 'b) env \<Rightarrow> FileReference \<Rightarrow> FileManifest \<Rightarrow> bytes" where
  "dir_leaf E fr m = hash_Bytes (e_B E (fr_RelativePath fr @ fm_FileHash m))"

definition dir_sound :: "('d, 'b) env \<Rightarrow> (bytes \<Rightarrow> bytes option) \<Rightarrow> DirectoryManifest \<Rightarrow> FileManifest list \<Rightarrow> bool" where
  "dir_sound E c m fs \<longleftrightarrow>
     list_all2 (\<lambda>fr f. \<exists>i. BlobIdentifierFromProto (fr_Id fr) = Inr i \<and> stored_file E c i f) (dm_Files m) fs
     \<and> dm_DirectoryHash m = hash_Bytes (CalculateMerkleRoot (e_B E) (map2 (dir_leaf E) (dm_Files m) fs))"

definition store_sound :: "('d, 'b) env \<Rightarrow> (hash \<Rightarrow> bytes) \<Rightarrow> (bytes \<Rightarrow> bytes option) \<Rightarrow> bool" where
  "store_sound E g c \<longleftrightarrow>
     (\<forall>k v. c (chk_key k) = Some v \<longrightarrow> v = chunk_of E g k)
     \<and> (\<forall>k. c (chkh_key k) = map_option (\<lambda>v. hash_Bytes (e_B E v)) (c (chk_key k)))
     \<and> (\<forall>i data. c (fman_key i) = Some data \<longrightarrow>
          (\<exists>m vs. unmarshal (e_file E) data = Inr m
            \<and> unmarshal (e_envelope E) (g (bi_Commitment i)) = Inr (FileManifestE m) \<and> file_sound E c m vs))
     \<and> (\<forall>i data. c (dman_key i) = Some data \<longrightarrow>
          (\<exists>m fs. unmarshal (e_dir E) data = Inr m \<and> dir_sound E c m fs))"

text \<open>A commitment determines the blob's data.\<close>

definition commitments_bind :: "da \<Rightarrow> (hash \<Rightarrow> bytes) \<Rightarrow> bool" where
  "commitments_bind D g \<longleftrightarrow> (\<forall>h blobs b k. da_blobs D h = Inr blobs \<longrightarrow> b \<in> set blobs \<longrightarrow>
     to_hash (bl_Commitment b) = Inr k \<longrightarrow> bl_Data b = g k)"

text \<open>More data: chunks and file manifests are kept.\<close>

definition keeps :: "('d, 'b) env \<Rightarrow> (bytes \<Rightarrow> bytes option) \<Rightarrow> (bytes \<Rightarrow> bytes option) \<Rightarrow> bool" where
  "keeps E c c' \<longleftrightarrow> (\<forall>k v. c (chk_key k) = Some v \<longrightarrow> c' (chk_key k) = Some v)
     \<and> (\<forall>i m. stored_file E c i m \<longrightarrow> stored_file E c' i m)"

lemma keeps_refl [simp]: "keeps E c c"
  by (simp add: keeps_def)

lemma keeps_trans: "keeps E a b \<Longrightarrow> keeps E b c \<Longrightarrow> keeps E a c"
  by (simp add: keeps_def)

lemma file_sound_keeps: "file_sound E c m vs \<Longrightarrow> keeps E c c' \<Longrightarrow> file_sound E c' m vs"
  unfolding file_sound_def keeps_def by (auto elim!: list_all2_mono)

lemma dir_sound_keeps: "dir_sound E c m fs \<Longrightarrow> keeps E c c' \<Longrightarrow> dir_sound E c' m fs"
  unfolding dir_sound_def keeps_def by (auto elim!: list_all2_mono)

text \<open>Only the keys of chunks and manifests matter.\<close>

definition same_storage :: "(bytes \<Rightarrow> bytes option) \<Rightarrow> (bytes \<Rightarrow> bytes option) \<Rightarrow> bool" where
  "same_storage c c' \<longleftrightarrow> (\<forall>k. c (chk_key k) = c' (chk_key k) \<and> c (chkh_key k) = c' (chkh_key k))
     \<and> (\<forall>i. c (fman_key i) = c' (fman_key i) \<and> c (dman_key i) = c' (dman_key i))"

lemma same_storage_keeps: "same_storage c c' \<Longrightarrow> keeps E c c'"
  by (simp add: same_storage_def keeps_def stored_file_def)

lemma store_sound_same: "store_sound E g c \<Longrightarrow> same_storage c c' \<Longrightarrow> store_sound E g c'"
proof -
  assume sound: "store_sound E g c" and same: "same_storage c c'"
  note keep = same_storage_keeps [OF same, of E]
  have keys: "c' (chk_key k) = c (chk_key k)" "c' (chkh_key k) = c (chkh_key k)"
    "c' (fman_key i) = c (fman_key i)" "c' (dman_key i) = c (dman_key i)" for k i
    using same by (simp_all add: same_storage_def)
  show "store_sound E g c'"
    unfolding store_sound_def keys
  proof (intro conjI allI impI)
    fix i data
    assume "c (fman_key i) = Some data"
    with sound file_sound_keeps [OF _ keep] show "\<exists>m vs. unmarshal (e_file E) data = Inr m
      \<and> unmarshal (e_envelope E) (g (bi_Commitment i)) = Inr (FileManifestE m) \<and> file_sound E c' m vs"
      unfolding store_sound_def by metis
  next
    fix i data
    assume "c (dman_key i) = Some data"
    with sound dir_sound_keeps [OF _ keep] show "\<exists>m fs. unmarshal (e_dir E) data = Inr m \<and> dir_sound E c' m fs"
      unfolding store_sound_def by metis
  qed (use sound in \<open>auto simp: store_sound_def\<close>)
qed

lemma same_storage_upd:
  "(\<forall>k i. K \<noteq> KChunk k \<and> K \<noteq> KChunkHash k \<and> K \<noteq> KFile i \<and> K \<noteq> KDir i) \<Longrightarrow>
   same_storage c c' \<Longrightarrow> same_storage c (c'(encode_key K \<mapsto> v))"
proof -
  assume K: "\<forall>k i. K \<noteq> KChunk k \<and> K \<noteq> KChunkHash k \<and> K \<noteq> KFile i \<and> K \<noteq> KDir i"
    and s: "same_storage c c'"
  have "encode_key K \<noteq> chk_key k" "encode_key K \<noteq> chkh_key k" "encode_key K \<noteq> fman_key i" "encode_key K \<noteq> dman_key i" for k i
    using K encode_key_inj [of K "KChunk k"] encode_key_inj [of K "KChunkHash k"]
      encode_key_inj [of K "KFile i"] encode_key_inj [of K "KDir i"] by simp_all
  with s show ?thesis unfolding same_storage_def by (metis fun_upd_apply)
qed

lemma same_storage_refl [simp]: "same_storage c c"
  by (simp add: same_storage_def)

lemmas key_distinct = encode_key_inj [of "KChunk k" "KChunk k'" for k k', simplified]
  encode_key_inj [of "KFile k" "KFile k'" for k k', simplified]
  encode_key_inj [of "KDir k" "KDir k'" for k k', simplified]
  encode_key_inj [of "KChunkHash k" "KChunkHash k'" for k k', simplified]
  encode_key_inj [of "KChunk k" "KChunkHash k'" for k k', simplified]
  encode_key_inj [of "KChunkHash k" "KChunk k'" for k k', simplified]
  encode_key_inj [of "KChunk k" "KFile k'" for k k', simplified]
  encode_key_inj [of "KFile k" "KChunk k'" for k k', simplified]
  encode_key_inj [of "KChunk k" "KDir k'" for k k', simplified]
  encode_key_inj [of "KDir k" "KChunk k'" for k k', simplified]
  encode_key_inj [of "KChunkHash k" "KFile k'" for k k', simplified]
  encode_key_inj [of "KFile k" "KChunkHash k'" for k k', simplified]
  encode_key_inj [of "KChunkHash k" "KDir k'" for k k', simplified]
  encode_key_inj [of "KDir k" "KChunkHash k'" for k k', simplified]
  encode_key_inj [of "KFile k" "KDir k'" for k k', simplified]
  encode_key_inj [of "KDir k" "KFile k'" for k k', simplified]

section \<open>One write\<close>

lemma store_sound_chunk:
  assumes sound: "store_sound E g c" and v: "v = chunk_of E g k"
    and c': "c' = c(chk_key k \<mapsto> v, chkh_key k \<mapsto> hash_Bytes (e_B E v))"
  shows "store_sound E g c' \<and> keeps E c c'"
proof -
  have keys: "c' (chk_key k') = (if k' = k then Some v else c (chk_key k'))"
    "c' (chkh_key k') = (if k' = k then Some (hash_Bytes (e_B E v)) else c (chkh_key k'))"
    "c' (fman_key i) = c (fman_key i)" "c' (dman_key i) = c (dman_key i)" for k' i
    by (simp_all add: c' key_distinct)
  have keep: "keeps E c c'"
    using sound v by (auto simp: keeps_def keys stored_file_def store_sound_def)
  have "store_sound E g c'"
    unfolding store_sound_def keys
  proof (intro conjI allI impI)
    fix i data
    assume "c (fman_key i) = Some data"
    with sound file_sound_keeps [OF _ keep] show "\<exists>m vs. unmarshal (e_file E) data = Inr m
      \<and> unmarshal (e_envelope E) (g (bi_Commitment i)) = Inr (FileManifestE m) \<and> file_sound E c' m vs"
      unfolding store_sound_def by metis
  next
    fix i data
    assume "c (dman_key i) = Some data"
    with sound dir_sound_keeps [OF _ keep] show "\<exists>m fs. unmarshal (e_dir E) data = Inr m \<and> dir_sound E c' m fs"
      unfolding store_sound_def by metis
  qed (use sound v in \<open>auto simp: store_sound_def split: if_splits\<close>)
  with keep show ?thesis by blast
qed

lemma store_sound_file:
  assumes sound: "store_sound E g c" and codec: "unmarshal (e_file E) data = Inr m"
    and g: "unmarshal (e_envelope E) (g (bi_Commitment i)) = Inr (FileManifestE m)"
    and fs: "file_sound E c m vs" and c': "c' = c(fman_key i \<mapsto> data)"
  shows "store_sound E g c' \<and> keeps E c c'"
proof -
  have keys: "c' (fman_key i') = (if i' = i then Some data else c (fman_key i'))"
    "c' (chk_key k') = c (chk_key k')" "c' (chkh_key k') = c (chkh_key k')"
    "c' (dman_key i') = c (dman_key i')" for k' i'
    by (simp_all add: c' key_distinct)
  have keep: "keeps E c c'"
    unfolding keeps_def stored_file_def keys
  proof (intro conjI allI impI)
    fix i' m'
    assume "\<exists>data. c (fman_key i') = Some data \<and> unmarshal (e_file E) data = Inr m'"
    then obtain data' where d: "c (fman_key i') = Some data'" "unmarshal (e_file E) data' = Inr m'" by blast
    with sound have "unmarshal (e_envelope E) (g (bi_Commitment i')) = Inr (FileManifestE m')"
      unfolding store_sound_def by fastforce
    with g codec d show "\<exists>data'. (if i' = i then Some data else c (fman_key i')) = Some data'
        \<and> unmarshal (e_file E) data' = Inr m'" by (cases "i' = i") auto
  qed simp
  have "store_sound E g c'"
    unfolding store_sound_def keys
  proof (intro conjI allI impI)
    fix i' data'
    assume "(if i' = i then Some data else c (fman_key i')) = Some data'"
    with sound file_sound_keeps [OF _ keep] codec g fs show "\<exists>m vs. unmarshal (e_file E) data' = Inr m
      \<and> unmarshal (e_envelope E) (g (bi_Commitment i')) = Inr (FileManifestE m) \<and> file_sound E c' m vs"
      unfolding store_sound_def by (metis option.inject)
  next
    fix i' data'
    assume "c (dman_key i') = Some data'"
    with sound dir_sound_keeps [OF _ keep] show "\<exists>m fs. unmarshal (e_dir E) data' = Inr m \<and> dir_sound E c' m fs"
      unfolding store_sound_def by metis
  qed (use sound in \<open>auto simp: store_sound_def\<close>)
  with keep show ?thesis by blast
qed

lemma store_sound_dir:
  assumes sound: "store_sound E g c" and codec: "unmarshal (e_dir E) data = Inr m"
    and ds: "dir_sound E c m fs" and c': "c' = c(dman_key i \<mapsto> data)"
  shows "store_sound E g c' \<and> keeps E c c'"
proof -
  have keys: "c' (dman_key i') = (if i' = i then Some data else c (dman_key i'))"
    "c' (chk_key k') = c (chk_key k')" "c' (chkh_key k') = c (chkh_key k')"
    "c' (fman_key i') = c (fman_key i')" for k' i'
    by (simp_all add: c' key_distinct)
  have keep: "keeps E c c'" by (simp add: keeps_def keys stored_file_def)
  have "store_sound E g c'"
    unfolding store_sound_def keys
  proof (intro conjI allI impI)
    fix i' data'
    assume "(if i' = i then Some data else c (dman_key i')) = Some data'"
    with sound dir_sound_keeps [OF _ keep] codec ds show "\<exists>m fs. unmarshal (e_dir E) data' = Inr m \<and> dir_sound E c' m fs"
      unfolding store_sound_def by (metis option.inject)
  next
    fix i' data'
    assume "c (fman_key i') = Some data'"
    with sound file_sound_keeps [OF _ keep] show "\<exists>m vs. unmarshal (e_file E) data' = Inr m
      \<and> unmarshal (e_envelope E) (g (bi_Commitment i')) = Inr (FileManifestE m) \<and> file_sound E c' m vs"
      unfolding store_sound_def by metis
  qed (use sound in \<open>auto simp: store_sound_def\<close>)
  with keep show ?thesis by blast
qed

section \<open>The transaction while blobs are recorded\<close>

definition tx_good :: "('d, 'b) env \<Rightarrow> ('d, 'b) store_view \<Rightarrow> (hash \<Rightarrow> bytes) \<Rightarrow> 'd \<Rightarrow> 'b tx \<Rightarrow> nat \<Rightarrow> bool" where
  "tx_good E V g d tx heap \<longleftrightarrow> \<not> nil_maps tx
     \<and> written_map.agrees tx_pendingChunks (content V d) (tx_view V d) chk_key (\<lambda>v. v) tx
     \<and> written_map.agrees tx_pendingChunkHashes (content V d) (tx_view V d) chkh_key hash_Bytes tx
     \<and> (\<forall>a. tx_pendingFileManifests tx a \<noteq> None \<longrightarrow> a < heap)
     \<and> store_sound E g (tx_view V d tx) \<and> keeps E (content V d) (tx_view V d tx)"

text \<open>Reading a chunk in the transaction reads what the database will hold.\<close>

lemma tx_GetChunk_view:
  assumes "pebble_ok (e_db E) V" "tx_good E V g d tx heap" "tx_GetChunk E d tx k = Inr v"
  shows "tx_view V d tx (chk_key k) = v"
proof -
  have "(case tx_pendingChunks tx k of Some v \<Rightarrow> Some v | None \<Rightarrow> content V d (chk_key k)) = tx_view V d tx (chk_key k)"
    using assms(2) by (simp add: tx_good_def chunk_writes.read_through)
  with assms(1,3) show ?thesis
    by (auto simp: tx_GetChunk_def cs_GetChunk_def key_defs dest: db_getD split: option.splits)
qed

lemma tx_GetChunkHash_view:
  assumes "pebble_ok (e_db E) V" "tx_good E V g d tx heap" "tx_GetChunkHash E d tx k = Inr (Some h)"
  shows "\<exists>v. tx_view V d tx (chk_key k) = Some v \<and> h = e_B E v"
proof -
  have "(case tx_pendingChunkHashes tx k of Some v \<Rightarrow> Some (hash_Bytes v) | None \<Rightarrow> content V d (chkh_key k))
      = tx_view V d tx (chkh_key k)"
    using assms(2) by (simp add: tx_good_def chunk_hash_writes.read_through)
  also have "\<dots> = map_option (\<lambda>v. hash_Bytes (e_B E v)) (tx_view V d tx (chk_key k))"
    using assms(2) by (simp add: tx_good_def store_sound_def)
  finally have eq: "(case tx_pendingChunkHashes tx k of Some v \<Rightarrow> Some (hash_Bytes v) | None \<Rightarrow> content V d (chkh_key k))
      = map_option (\<lambda>v. hash_Bytes (e_B E v)) (tx_view V d tx (chk_key k))" .
  show ?thesis
  proof (cases "tx_pendingChunkHashes tx k")
    case None
    with assms(3) obtain b where "db_get (e_db E) d (chkh_key k) = Inr (Some b)" "to_hash b = Inr h"
      by (auto simp: tx_GetChunkHash_def cs_GetChunkHash_def key_defs rbind_eq_Inr split: option.splits)
    with None eq db_getD [OF assms(1)] show ?thesis
      by (cases "tx_view V d tx (chk_key k)") auto
  next
    case (Some h')
    with assms(3) eq show ?thesis
      by (cases "tx_view V d tx (chk_key k)") (auto simp: tx_GetChunkHash_def)
  qed
qed

lemma collect_chunks_sound:
  assumes P: "pebble_ok (e_db E) V" and good: "tx_good E V g d tx heap"
  shows "collect_chunks E d tx crs acc = Inr (Some fileData) \<Longrightarrow>
    \<exists>vs. fileData = acc @ concat vs \<and> list_all2 (\<lambda>cr v. \<exists>k. chunk_key_of cr = Inr k
      \<and> tx_view V d tx (chk_key k) = Some v \<and> hash_Bytes (e_B E v) = cr_ChunkHash cr) crs vs"
proof (induction crs arbitrary: acc)
  case (Cons cr crs)
  from Cons.prems obtain k v h where k: "chunk_key_of cr = Inr k" "tx_GetChunk E d tx k = Inr (Some v)"
    "tx_GetChunkHash E d tx k = Inr (Some h)" "hash_Bytes h = cr_ChunkHash cr"
    "collect_chunks E d tx crs (acc @ v) = Inr (Some fileData)"
    by (auto simp: rbind_eq_Inr chunk_key_of_def hash_EqualBytes_def split: option.splits if_splits)
  note view = tx_GetChunk_view [OF P good k(2)]
  with tx_GetChunkHash_view [OF P good k(3)] have "h = e_B E v" by simp
  with k view Cons.IH [OF k(5)] show ?case
    by (elim exE conjE) (rule_tac x = "v # vs" in exI, simp)
qed simp

lemma tx_good_frame:
  assumes "tx_good E V g d tx heap" and "nil_maps tx' = nil_maps tx"
    and "tx_pendingChunks tx' = tx_pendingChunks tx" "tx_pendingChunkHashes tx' = tx_pendingChunkHashes tx"
    and "\<And>a. tx_pendingFileManifests tx' a \<noteq> None \<Longrightarrow> a < heap'"
    and "\<And>k. tx_view V d tx' (chk_key k) = tx_view V d tx (chk_key k)"
      "\<And>k. tx_view V d tx' (chkh_key k) = tx_view V d tx (chkh_key k)"
    and "store_sound E g (tx_view V d tx') \<and> keeps E (tx_view V d tx) (tx_view V d tx')"
  shows "tx_good E V g d tx' heap'"
  using assms keeps_trans [of E "content V d" "tx_view V d tx" "tx_view V d tx'"]
  unfolding tx_good_def
  by (auto elim!: chunk_writes.agrees_frame chunk_hash_writes.agrees_frame)

lemma SyncChunk_good:
  assumes P: "pebble_ok (e_db E) V" and good: "tx_good E V g d tx heap"
    and run: "SyncChunk E tx b cd = Inr (acc, tx')"
    and g: "\<And>k. to_hash (bl_Commitment b) = Inr k \<Longrightarrow> unmarshal (e_envelope E) (g k) = Inr (ChunkDataE cd)"
  shows "tx_good E V g d tx' heap" and "acc"
proof -
  from run obtain k where k: "to_hash (bl_Commitment b) = Inr k" "acc"
    and put: "PutChunk E tx k (cd_ChunkData cd) (e_B E (cd_ChunkData cd)) = Inr tx'"
    by (auto simp: SyncChunk_def rbind_eq_Inr)
  show "acc" by (rule k(2))
  note eff = PutChunk_effect [OF P put]
  have "chunk_of E g k = cd_ChunkData cd" using g [OF k(1)] by (simp add: chunk_of_def)
  then have st: "store_sound E g (tx_view V d tx') \<and> keeps E (tx_view V d tx) (tx_view V d tx')"
    using good by (intro store_sound_chunk [OF _ _ eff(1)]) (simp_all add: tx_good_def)
  have "written_map.agrees tx_pendingChunks (content V d) (tx_view V d) chk_key (\<lambda>v. v) tx'"
    using good by (intro chunk_writes.agrees_put [where h = "e_B E", OF P _ put]) (simp add: tx_good_def)
  moreover have "written_map.agrees tx_pendingChunkHashes (content V d) (tx_view V d) chkh_key hash_Bytes tx'"
    using good by (intro chunk_hash_writes.agrees_put [where val = "\<lambda>_. cd_ChunkData cd", OF P _ put])
      (simp add: tx_good_def)
  ultimately show "tx_good E V g d tx' heap"
    using good st eff keeps_trans [of E "content V d" "tx_view V d tx" "tx_view V d tx'"]
    by (auto simp: tx_good_def)
qed

lemma SyncFileManifest_good:
  assumes P: "pebble_ok (e_db E) V" and codec: "codec_ok (e_file E)" and good: "tx_good E V g d tx heap"
    and run: "SyncFileManifest E d tx heap height b m = Inr (acc, tx', heap')"
    and g: "\<And>k. to_hash (bl_Commitment b) = Inr k \<Longrightarrow> unmarshal (e_envelope E) (g k) = Inr (FileManifestE m)"
  shows "tx_good E V g d tx' heap'"
    and "acc \<Longrightarrow> \<exists>vs. file_sound E (tx_view V d tx) m vs"
proof -
  from run obtain k r where k: "to_hash (bl_Commitment b) = Inr k"
    and cf: "collect_chunks E d tx (fm_Chunks m) [] = Inr r"
    unfolding SyncFileManifest_def Let_def by (elim rbind_Inr_E) blast
  let ?id = "\<lparr>bi_Height = height, bi_Commitment = k\<rparr>"
  have rest: "(case r of None \<Rightarrow> Inr (False, tx, heap + 1)
     | Some fileData \<Rightarrow>
       if of_nat (length fileData) \<noteq> fm_FileSize m then Inr (False, tx, heap + 1)
       else if \<not> hash_EqualBytes (HashBytes (e_B E) [fileData]) (fm_FileHash m) then Inr (False, tx, heap + 1)
       else rbind (PutFileManifest E tx (heap, ?id) m) (\<lambda>tx. Inr (True, tx, heap + 1))) = Inr (acc, tx', heap')"
    using run unfolding SyncFileManifest_def Let_def k cf rbind_simps .
  then have h: "heap' = heap + 1"
    by (auto simp: rbind_eq_Inr split: option.splits if_split_asm)
  have cases: "\<not> acc \<and> tx' = tx \<or> (\<exists>fileData. acc
      \<and> collect_chunks E d tx (fm_Chunks m) [] = Inr (Some fileData)
      \<and> fm_FileSize m = of_nat (length fileData) \<and> fm_FileHash m = hash_Bytes (e_B E fileData)
      \<and> PutFileManifest E tx (heap, ?id) m = Inr tx')"
  proof (cases r)
    case (Some fileData)
    from rest show ?thesis
      unfolding Some option.case hash_EqualBytes_def HashBytes.simps
      by (cases "of_nat (length fileData) = fm_FileSize m"; cases "hash_Bytes (e_B E fileData) = fm_FileHash m")
         (use cf Some in \<open>auto simp: rbind_eq_Inr\<close>)
  qed (use rest in simp)
  have sound: "\<exists>vs. file_sound E (tx_view V d tx) m vs"
    if "collect_chunks E d tx (fm_Chunks m) [] = Inr (Some fileData)"
      "fm_FileSize m = of_nat (length fileData)" "fm_FileHash m = hash_Bytes (e_B E fileData)" for fileData
    using collect_chunks_sound [OF P good that(1)] that(2,3) by (auto simp: file_sound_def)
  with cases show "acc \<Longrightarrow> \<exists>vs. file_sound E (tx_view V d tx) m vs" by blast
  from cases show "tx_good E V g d tx' heap'"
  proof (elim disjE exE conjE)
    assume "\<not> acc" "tx' = tx"
    with good h show ?thesis by (auto simp: tx_good_def less_SucI)
  next
    fix fileData
    assume acc: acc and fd: "collect_chunks E d tx (fm_Chunks m) [] = Inr (Some fileData)"
      and sz: "fm_FileSize m = of_nat (length fileData)" "fm_FileHash m = hash_Bytes (e_B E fileData)"
      and put: "PutFileManifest E tx (heap, ?id) m = Inr tx'"
    note eff = PutFileManifest_effect [OF P put, unfolded snd_conv fst_conv]
    from eff(1) obtain data where data: "marshal (e_file E) m = Inr data"
      "tx_view V d tx' = (tx_view V d tx)(fman_key ?id \<mapsto> data)" by blast
    from sound [OF fd sz] obtain vs where "file_sound E (tx_view V d tx) m vs" by blast
    then have "store_sound E g (tx_view V d tx') \<and> keeps E (tx_view V d tx) (tx_view V d tx')"
      using good codec data g [OF k]
      by (intro store_sound_file [OF _ _ _ _ data(2)]) (auto simp: tx_good_def codec_ok_def)
    then show ?thesis
      using good eff data(2) h
      by (intro tx_good_frame [OF good]) (auto simp: key_distinct tx_good_def split: if_splits)
  qed
qed

lemma collect_files_sound:
  assumes P: "pebble_ok (e_db E) V"
  shows "(\<And>a. tx_pendingFileManifests tx a \<noteq> None \<Longrightarrow> a < heap) \<Longrightarrow>
    collect_files E d tx heap frs acc = Inr (Some leaves, heap') \<Longrightarrow>
    \<exists>fs. leaves = acc @ map2 (dir_leaf E) frs fs \<and> heap \<le> heap' \<and>
      list_all2 (\<lambda>fr f. \<exists>i. BlobIdentifierFromProto (fr_Id fr) = Inr i \<and> stored_file E (content V d) i f) frs fs"
proof (induction frs arbitrary: heap acc)
  case (Cons fr frs)
  have fresh: "tx_pendingFileManifests tx heap = None" using Cons.prems(1) [of heap] by fastforce
  from Cons.prems(2) fresh obtain i f where i: "BlobIdentifierFromProto (fr_Id fr) = Inr i"
    "cs_GetFileManifest E d i = Inr (Some f)"
    and rest: "collect_files E d tx (heap + 1) frs (acc @ [dir_leaf E fr f]) = Inr (Some leaves, heap')"
    by (auto simp: rbind_eq_Inr Let_def tx_GetFileManifest_def dir_leaf_def split: option.splits)
  have "stored_file E (content V d) i f"
    using i(2) db_getD [OF P]
    by (fastforce simp: cs_GetFileManifest_def stored_file_def rbind_eq_Inr Let_def key_defs split: option.splits)
  moreover have "tx_pendingFileManifests tx a \<noteq> None \<Longrightarrow> a < heap + 1" for a
    using Cons.prems(1) [of a] by simp
  ultimately obtain fs where "leaves = (acc @ [dir_leaf E fr f]) @ map2 (dir_leaf E) frs fs" "heap + 1 \<le> heap'"
    "list_all2 (\<lambda>fr f. \<exists>i. BlobIdentifierFromProto (fr_Id fr) = Inr i \<and> stored_file E (content V d) i f) frs fs"
    using Cons.IH [OF _ rest] by blast
  with i \<open>stored_file E (content V d) i f\<close> show ?case by (intro exI [of _ "f # fs"]) auto
qed simp

lemma SyncDirectoryManifest_good:
  assumes P: "pebble_ok (e_db E) V" and codec: "codec_ok (e_dir E)" and good: "tx_good E V g d tx heap"
    and run: "SyncDirectoryManifest E d tx heap height b m = Inr (acc, tx', heap')"
  shows "tx_good E V g d tx' heap'"
    and "acc \<Longrightarrow> \<exists>fs. dir_sound E (content V d) m fs"
proof -
  have pend: "tx_pendingFileManifests tx a \<noteq> None \<Longrightarrow> a < heap" for a
    using good by (simp add: tx_good_def)
  have mono: "collect_files E d tx h frs xs = Inr (r, h') \<Longrightarrow> h \<le> h'" for h frs xs r h'
    by (induction frs arbitrary: h xs) (fastforce simp: rbind_eq_Inr Let_def split: option.splits)+
  from run obtain k leaves where k: "to_hash (bl_Commitment b) = Inr k"
    and cf: "collect_files E d tx heap (dm_Files m) [] = Inr (leaves, heap')"
    by (auto simp: SyncDirectoryManifest_def rbind_eq_Inr Let_def split: option.splits if_splits)
  let ?id = "\<lparr>bi_Height = height, bi_Commitment = k\<rparr>"
  have cases: "\<not> acc \<and> tx' = tx \<or> (\<exists>ls. acc \<and> leaves = Some ls
      \<and> dm_DirectoryHash m = hash_Bytes (CalculateMerkleRoot (e_B E) ls)
      \<and> PutDirectoryManifest E tx ?id m = Inr tx')"
    using run k cf by (auto simp: SyncDirectoryManifest_def rbind_eq_Inr Let_def hash_EqualBytes_def
        split: option.splits if_splits)
  have sound: "\<exists>fs. dir_sound E (content V d) m fs"
    if "leaves = Some ls" "dm_DirectoryHash m = hash_Bytes (CalculateMerkleRoot (e_B E) ls)" for ls
    using collect_files_sound [OF P pend cf [unfolded that(1)]] that(2) by (auto simp: dir_sound_def)
  with cases show "acc \<Longrightarrow> \<exists>fs. dir_sound E (content V d) m fs" by blast
  note hp = mono [OF cf]
  from cases show "tx_good E V g d tx' heap'"
  proof (elim disjE exE conjE)
    assume "\<not> acc" "tx' = tx"
    with good hp show ?thesis by (auto simp: tx_good_def intro: less_le_trans)
  next
    fix ls
    assume l: "leaves = Some ls" "dm_DirectoryHash m = hash_Bytes (CalculateMerkleRoot (e_B E) ls)"
      and put: "PutDirectoryManifest E tx ?id m = Inr tx'"
    note eff = PutDirectoryManifest_effect [OF P put]
    from eff(1) obtain data where data: "marshal (e_dir E) m = Inr data"
      "tx_view V d tx' = (tx_view V d tx)(dman_key ?id \<mapsto> data)" by blast
    from sound [OF l] good obtain fs where "dir_sound E (tx_view V d tx) m fs"
      by (auto simp: tx_good_def intro: dir_sound_keeps)
    then have "store_sound E g (tx_view V d tx') \<and> keeps E (tx_view V d tx) (tx_view V d tx')"
      using good codec data by (intro store_sound_dir [OF _ _ _ data(2)]) (auto simp: tx_good_def codec_ok_def)
    then show ?thesis
      using pend eff data(2) hp
      by (intro tx_good_frame [OF good]) (auto simp: key_distinct intro: less_le_trans)
  qed
qed

section \<open>All blobs of a height\<close>

lemma SyncBlob_good:
  assumes E: "env_ok E V" and good: "tx_good E V g d (ss_tx s) (ss_heap s)"
    and run: "SyncBlob E d height s b = Inr s'"
    and g: "\<And>k. to_hash (bl_Commitment b) = Inr k \<Longrightarrow> bl_Data b = g k"
  shows "tx_good E V g d (ss_tx s') (ss_heap s')"
proof -
  note P = env_okD(2) [OF E]
  from run obtain env k where env: "unmarshal (e_envelope E) (bl_Data b) = Inr env"
    "to_hash (bl_Commitment b) = Inr k" by (auto simp: SyncBlob_def rbind_eq_Inr)
  with g have gk: "to_hash (bl_Commitment b) = Inr k' \<Longrightarrow> unmarshal (e_envelope E) (g k') = Inr env" for k'
    by auto
  show ?thesis
  proof (cases env)
    case (ChunkDataE c)
    with run env obtain acc tx' where "SyncChunk E (ss_tx s) b c = Inr (acc, tx')"
      "ss_tx s' = tx'" "ss_heap s' = ss_heap s" by (auto simp: SyncBlob_def rbind_eq_Inr)
    with SyncChunk_good(1) [OF P good _ gk [unfolded ChunkDataE]] show ?thesis by simp
  next
    case (FileManifestE m)
    with run env obtain acc tx' heap' where
      "SyncFileManifest E d (ss_tx s) (ss_heap s) height b m = Inr (acc, tx', heap')"
      "ss_tx s' = tx'" "ss_heap s' = heap'" by (auto simp: SyncBlob_def rbind_eq_Inr)
    with SyncFileManifest_good(1) [OF P env_okD(5) [OF E] good _ gk [unfolded FileManifestE]] show ?thesis by simp
  next
    case (DirectoryManifestE m)
    with run env obtain acc tx' heap' where
      "SyncDirectoryManifest E d (ss_tx s) (ss_heap s) height b m = Inr (acc, tx', heap')"
      "ss_tx s' = tx'" "ss_heap s' = heap'" by (auto simp: SyncBlob_def rbind_eq_Inr)
    with SyncDirectoryManifest_good(1) [OF P env_okD(6) [OF E] good] show ?thesis by simp
  next
    case NoPayload
    with run env show ?thesis by (simp add: SyncBlob_def)
  qed
qed

lemma SyncBlobs_good:
  assumes E: "env_ok E V" and good: "tx_good E V g d tx heap"
    and run: "SyncBlobs E d tx heap height blobs = Inr s"
    and g: "\<And>b k. b \<in> set blobs \<Longrightarrow> to_hash (bl_Commitment b) = Inr k \<Longrightarrow> bl_Data b = g k"
  shows "tx_good E V g d (ss_tx s) (ss_heap s)"
  using run unfolding SyncBlobs_def
  by (rule fold_res_invariant [where I = "\<lambda>s. tx_good E V g d (ss_tx s) (ss_heap s)"])
     (use good g in \<open>auto intro: SyncBlob_good [OF E]\<close>)

lemma tx_good_new:
  assumes "env_ok E V" "store_sound E g (content V d)"
  shows "tx_good E V g d (NewChainStateTransaction E d) heap"
  using assms tx_view_new [OF env_okD(2) [OF assms(1)], of d]
  by (auto simp: tx_good_def nil_maps_def NewChainStateTransaction_def tx_view_def
      intro!: chunk_writes.agrees_start chunk_hash_writes.agrees_start)

section \<open>Directories and their files\<close>

text \<open>
  The identifiers of a directory's files live at addresses of their own, so their manifests
  are looked up in the database only, not among those the transaction holds.
\<close>

lemma collect_files_committed:
  assumes P: "pebble_ok (e_db E) V" and pend: "\<forall>a. tx_pendingFileManifests tx a \<noteq> None \<longrightarrow> a < heap"
  shows "collect_files E d tx heap files acc = Inr (Some leaves, heap') \<Longrightarrow> file \<in> set files \<Longrightarrow>
    BlobIdentifierFromProto (fr_Id file) = Inr i \<Longrightarrow> content V d (fman_key i) \<noteq> None"
  using pend
proof (induction files arbitrary: heap acc)
  case (Cons f files)
  from Cons.prems(1) obtain fid m where f: "BlobIdentifierFromProto (fr_Id f) = Inr fid"
    "tx_GetFileManifest E d tx (heap, fid) = Inr (Some m)"
    and rest: "collect_files E d tx (heap + 1) files (acc @ [hash_Bytes (HashBytes (e_B E) [fr_RelativePath f, fm_FileHash m])])
      = Inr (Some leaves, heap')"
    by (auto simp: rbind_eq_Inr Let_def split: option.splits)
  show ?case
  proof (cases "file = f")
    case True
    with Cons.prems(3) f(1) have "fid = i" by simp
    have "tx_pendingFileManifests tx heap = None" using Cons.prems(4) by blast
    with f(2) have "cs_GetFileManifest E d fid = Inr (Some m)" by (simp add: tx_GetFileManifest_def)
    then obtain v where "db_get (e_db E) d (fman_key fid) = Inr (Some v)"
      by (auto simp: cs_GetFileManifest_def Let_def rbind_eq_Inr simp flip: fman_key_def split: option.splits)
    with db_getD [OF P] \<open>fid = i\<close> show ?thesis by (metis option.distinct(1))
  next
    case False
    have "\<forall>a. tx_pendingFileManifests tx a \<noteq> None \<longrightarrow> a < heap + 1"
      using Cons.prems(4) less_SucI by (metis Suc_eq_plus1)
    with Cons.IH [OF rest _ Cons.prems(3)] Cons.prems(2) False show ?thesis by simp
  qed
qed simp

lemma accepted_directory_committed:
  assumes P: "pebble_ok (e_db E) V" and pend: "\<forall>a. tx_pendingFileManifests tx a \<noteq> None \<longrightarrow> a < heap"
    and run: "SyncDirectoryManifest E d tx heap height blob manifest = Inr (True, tx', heap')"
    and listed: "file \<in> set (dm_Files manifest)" "BlobIdentifierFromProto (fr_Id file) = Inr i"
  shows "content V d (fman_key i) \<noteq> None"
proof -
  from run obtain leaves heap1 where "collect_files E d tx heap (dm_Files manifest) [] = Inr (Some leaves, heap1)"
    by (auto simp: SyncDirectoryManifest_def Let_def rbind_eq_Inr split: option.splits if_splits)
  from collect_files_committed [OF P pend this listed] show ?thesis .
qed

end
