(* ===== verification/Storage_Api.thy ===== *)
theory Storage_Api
  imports Storage_Proofs
begin

text \<open>
  Reading what the node has stored: \<open>pkg/api/node\<close> (chunks, manifests, the data of a file with
  its checks) and the gRPC service \<open>pkg/grpc/storage/server.go\<close> over it. \<open>cs\<close> is what
  \<open>state.GetChainState\<close> returns, the open database or the error of opening it. A request holds
  identifiers as strings; a response is its payload. A file manifest of a batch is sent with the
  identifier it was asked for with.
\<close>

section \<open>The node API\<close>

text \<open>A lookup whose absence is an error.\<close>

definition found :: "string \<Rightarrow> 'a option \<Rightarrow> 'a result" where
  "found m v = (case v of None \<Rightarrow> Inl (Err m) | Some x \<Rightarrow> Inr x)"

lemma found_eq_Inr [simp]: "found m v = Inr x \<longleftrightarrow> v = Some x"
  by (simp add: found_def split: option.splits)

lemma found_Some [simp]: "found m (Some x) = Inr x"
  by simp

definition GetChunkData :: "('d, 'b) env \<Rightarrow> 'd result \<Rightarrow> BlobIdentifier \<Rightarrow> bytes result" where
  "GetChunkData E cs chunkId =
     rbind (wrap ''error getting chain state'' cs) (\<lambda>d.
     rbind (wrap ''error getting chunk data from state'' (cs_GetChunk E d (bi_Commitment chunkId))) (\<lambda>chunkData.
     found ''chunk not found in state'' chunkData))"

definition GetChunkReference :: "('d, 'b) env \<Rightarrow> 'd result \<Rightarrow> BlobIdentifier \<Rightarrow> ChunkReference result" where
  "GetChunkReference E cs chunkId =
     rbind (wrap ''error getting chain state'' cs) (\<lambda>d.
     rbind (wrap ''error getting chunk hash'' (cs_GetChunkHash E d (bi_Commitment chunkId))) (\<lambda>chunkHash.
     rbind (found ''chunk hash not found in state'' chunkHash) (\<lambda>chunkHash.
     rbind (wrap ''error getting chunk data'' (cs_GetChunk E d (bi_Commitment chunkId))) (\<lambda>chunkData.
     rbind (found ''chunk not found in state'' chunkData) (\<lambda>chunkData.
     Inr \<lparr>cr_Id = Some (bi_Proto chunkId), cr_ChunkHash = hash_Bytes chunkHash,
          cr_ChunkSize = of_nat (length chunkData)\<rparr>)))))"

definition node_GetDirectoryManifest :: "('d, 'b) env \<Rightarrow> 'd result \<Rightarrow> BlobIdentifier \<Rightarrow> DirectoryManifest result" where
  "node_GetDirectoryManifest E cs ident =
     rbind (wrap ''error getting chain state'' cs) (\<lambda>d.
     rbind (wrap ''error getting directory manifest'' (GetDirectoryManifest E d ident)) (\<lambda>manifest.
     found ''directory manifest not found'' manifest))"

definition node_GetFileManifest :: "('d, 'b) env \<Rightarrow> 'd result \<Rightarrow> BlobIdentifier \<Rightarrow> FileManifest result" where
  "node_GetFileManifest E cs ident =
     rbind (wrap ''error getting chain state'' cs) (\<lambda>d.
     rbind (wrap ''error getting file manifest'' (cs_GetFileManifest E d ident)) (\<lambda>manifest.
     found ''file manifest not found'' manifest))"

text \<open>The capacity of \<open>make([]byte, 0, n)\<close>: Go's runtime panics beyond its address space.\<close>

definition make_cap :: "u64 \<Rightarrow> unit result" where
  "make_cap n = (if unat n > 2 ^ 48 then Inl (Panic ''makeslice: cap out of range'') else Inr ())"

fun download_chunks :: "('d, 'b) env \<Rightarrow> 'd result \<Rightarrow> ChunkReference list \<Rightarrow> bytes \<Rightarrow> bytes result" where
  "download_chunks E cs [] fileData = Inr fileData"
| "download_chunks E cs (chunk # chunks) fileData =
     rbind (BlobIdentifierFromProto (cr_Id chunk)) (\<lambda>chunkId.
     rbind (wrap ''error downloading chunk'' (GetChunkData E cs chunkId)) (\<lambda>data.
     download_chunks E cs chunks (fileData @ data)))"

definition GetFileData :: "('d, 'b) env \<Rightarrow> 'd result \<Rightarrow> BlobIdentifier \<Rightarrow> bytes result" where
  "GetFileData E cs ident =
     rbind (wrap ''error getting file manifest'' (node_GetFileManifest E cs ident)) (\<lambda>fileManifest.
     rbind (make_cap (fm_FileSize fileManifest)) (\<lambda>_.
     rbind (download_chunks E cs (fm_Chunks fileManifest) []) (\<lambda>fileData.
     if of_nat (length fileData) \<noteq> fm_FileSize fileManifest
     then Inl (Err ''file length verification failed'')
     else let fileHash = HashBytes (e_B E) [fileData] in
       if \<not> hash_EqualBytes fileHash (fm_FileHash fileManifest)
       then Inl (Err ''file hash verification failed'')
       else Inr fileData)))"

section \<open>The storage service\<close>

text \<open>Every request begins by parsing an identifier.\<close>

definition parse_id :: "base36 \<Rightarrow> string \<Rightarrow> bytes \<Rightarrow> BlobIdentifier result" where
  "parse_id c m s = as_status InvalidArgument m (BlobIdentifierFromString c s)"

definition BatchGetFileManifest ::
  "('d, 'b) env \<Rightarrow> base36 \<Rightarrow> 'd result \<Rightarrow> bytes list \<Rightarrow> (bytes \<times> FileManifest) list result" where
  "BatchGetFileManifest E c cs ids =
     (if length ids > 1000 then Inl (Status InvalidArgument ''batch size must be less than 1000'')
      else map_res (\<lambda>s.
        rbind (parse_id c ''invalid manifest ID'' s) (\<lambda>fileManifestId.
        rbind (as_status Internal ''error getting file manifest'' (node_GetFileManifest E cs fileManifestId))
          (\<lambda>fileManifest. Inr (s, fileManifest)))) ids)"

definition rpc_GetDirectoryManifest :: "('d, 'b) env \<Rightarrow> base36 \<Rightarrow> 'd result \<Rightarrow> bytes \<Rightarrow> DirectoryManifest result" where
  "rpc_GetDirectoryManifest E c cs s =
     rbind (parse_id c ''invalid manifest ID'' s) (\<lambda>dirManifestId.
     as_status Internal ''error getting directory manifest'' (node_GetDirectoryManifest E cs dirManifestId))"

definition rpc_GetFileManifest :: "('d, 'b) env \<Rightarrow> base36 \<Rightarrow> 'd result \<Rightarrow> bytes \<Rightarrow> FileManifest result" where
  "rpc_GetFileManifest E c cs s =
     rbind (parse_id c ''invalid manifest ID'' s) (\<lambda>fileManifestId.
     as_status Internal ''error getting file manifest'' (node_GetFileManifest E cs fileManifestId))"

definition rpc_GetFileData :: "('d, 'b) env \<Rightarrow> base36 \<Rightarrow> 'd result \<Rightarrow> bytes \<Rightarrow> bytes result" where
  "rpc_GetFileData E c cs s =
     rbind (parse_id c ''invalid manifest ID'' s) (\<lambda>fileManifestId.
     as_status Internal ''error getting file data'' (GetFileData E cs fileManifestId))"

definition rpc_GetChunkReference :: "('d, 'b) env \<Rightarrow> base36 \<Rightarrow> 'd result \<Rightarrow> bytes \<Rightarrow> ChunkReference result" where
  "rpc_GetChunkReference E c cs s =
     rbind (parse_id c ''invalid chunk ID'' s) (\<lambda>chunkId.
     as_status Internal ''error getting chunk reference'' (GetChunkReference E cs chunkId))"

definition rpc_GetChunkData :: "('d, 'b) env \<Rightarrow> base36 \<Rightarrow> 'd result \<Rightarrow> bytes \<Rightarrow> bytes result" where
  "rpc_GetChunkData E c cs s =
     rbind (parse_id c ''invalid chunk ID'' s) (\<lambda>chunkId.
     as_status Internal ''error getting chunk data'' (GetChunkData E cs chunkId))"

section \<open>What is stored can be read\<close>

lemma GetChunkData_stored:
  assumes "pebble_ok (e_db E) V" "pebble_total (e_db E)"
  shows "GetChunkData E (Inr d) i = found ''chunk not found in state'' (content V d (chk_key (bi_Commitment i)))"
  using db_get_total [OF assms] by (simp add: GetChunkData_def cs_GetChunk_def flip: chk_key_def)

lemma FromProto_commitment:
  "chunk_key_of cr = Inr k \<Longrightarrow> \<exists>i. BlobIdentifierFromProto (cr_Id cr) = Inr i \<and> bi_Commitment i = k"
  by (auto simp: chunk_key_of_def pb_commitment_of_def BlobIdentifierFromProto_def split: option.splits)

lemma download_chunks_sound:
  assumes P: "pebble_ok (e_db E) V" "pebble_total (e_db E)"
    and "list_all2 (\<lambda>cr v. \<exists>k. chunk_key_of cr = Inr k \<and> content V d (chk_key k) = Some v
       \<and> hash_Bytes (e_B E v) = cr_ChunkHash cr) crs vs"
  shows "download_chunks E (Inr d) crs acc = Inr (acc @ concat vs)"
  using assms(3)
proof (induction crs vs arbitrary: acc rule: list_all2_induct)
  case (Cons cr crs v vs)
  then obtain k where k: "chunk_key_of cr = Inr k" "content V d (chk_key k) = Some v" by blast
  from FromProto_commitment [OF k(1)] obtain i where i: "BlobIdentifierFromProto (cr_Id cr) = Inr i" "bi_Commitment i = k"
    by blast
  with k Cons.IH show ?case by (simp add: GetChunkData_stored [OF P])
qed simp

lemma node_GetFileManifest_stored:
  assumes P: "pebble_ok (e_db E) V" "pebble_total (e_db E)" and "stored_file E (content V d) i m"
  shows "node_GetFileManifest E (Inr d) i = Inr m"
  using assms(3) db_get_total [OF P]
  by (auto simp: node_GetFileManifest_def cs_GetFileManifest_def Let_def stored_file_def simp flip: fman_key_def)

text \<open>The data of a stored file is served, and it is what the manifest's hash names.\<close>

lemma GetFileData_serves:
  assumes P: "pebble_ok (e_db E) V" "pebble_total (e_db E)" and sound: "store_sound E g (content V d)"
    and m: "stored_file E (content V d) i m" and fits: "unat (fm_FileSize m) \<le> 2 ^ 48"
  shows "\<exists>data. GetFileData E (Inr d) i = Inr data \<and> fm_FileHash m = hash_Bytes (e_B E data)
    \<and> fm_FileSize m = of_nat (length data)"
proof -
  from m sound obtain vs where vs: "file_sound E (content V d) m vs"
    unfolding stored_file_def store_sound_def by (metis sum.inject(2))
  have man: "node_GetFileManifest E (Inr d) i = Inr m" by (rule node_GetFileManifest_stored [OF P m])
  have "download_chunks E (Inr d) (fm_Chunks m) [] = Inr ([] @ concat vs)"
    by (rule download_chunks_sound [OF P]) (use vs in \<open>simp add: file_sound_def\<close>)
  with man vs fits show ?thesis
    by (simp add: GetFileData_def make_cap_def file_sound_def Let_def)
qed

text \<open>The reference of a stored chunk names its hash and its size.\<close>

lemma GetChunkReference_serves:
  assumes P: "pebble_ok (e_db E) V" "pebble_total (e_db E)" and sound: "store_sound E g (content V d)"
    and v: "content V d (chk_key (bi_Commitment i)) = Some v"
  shows "GetChunkReference E (Inr d) i = Inr \<lparr>cr_Id = Some (bi_Proto i), cr_ChunkHash = hash_Bytes (e_B E v),
     cr_ChunkSize = of_nat (length v)\<rparr>"
proof -
  have "content V d (chkh_key (bi_Commitment i)) = Some (hash_Bytes (e_B E v))"
    using sound v by (simp add: store_sound_def)
  with v db_get_total [OF P] show ?thesis
    by (simp add: GetChunkReference_def cs_GetChunk_def cs_GetChunkHash_def flip: chk_key_def chkh_key_def)
qed

end
