(* ===== verification/Upload.thy ===== *)
theory Upload
  imports Storage_Api
begin

text \<open>
  Writing to Celestia: the record of what was uploaded (\<open>pkg/state/upload.go\<close>), splitting a file
  (\<open>pkg/fileutil\<close>), a file with its chunks and manifest (\<open>PutFileData\<close> of \<open>pkg/sync/sync.go\<close>),
  and the two kinds of manifests (\<open>pkg/sync/manifest.go\<close>).

  Parameters are JSON, base36, the detector of mime types and the submitter (\<open>Submit\<close> models
  it): \<open>up_submit U k payload\<close> is what the waiting caller gets for the \<open>k\<close>-th payload, \<open>None\<close>
  when its context ends first. The database of upload records is of the same kind as the node's.
\<close>

section \<open>Upload records\<close>

record UploadRecord =
  ur_Key :: hash
  ur_Completed :: bool
  ur_ManifestID :: bytes

record uploader =
  up_json :: "UploadRecord codec"
  up_base36 :: base36
  up_mime :: "bytes \<Rightarrow> bytes"
  up_submit :: "nat \<Rightarrow> bytes \<Rightarrow> BlobIdentifier result option"

definition GetUploadRecord :: "('d, 'b) env \<Rightarrow> uploader \<Rightarrow> 'd \<Rightarrow> hash \<Rightarrow> UploadRecord result" where
  "GetUploadRecord E U d key =
     rbind (db_get (e_db E) d (hash_Bytes key)) (\<lambda>data.
     case data of None \<Rightarrow> Inr \<lparr>ur_Key = key, ur_Completed = False, ur_ManifestID = []\<rparr>
     | Some data \<Rightarrow> unmarshal (up_json U) data)"

definition SaveUploadRecord :: "('d, 'b) env \<Rightarrow> uploader \<Rightarrow> 'd \<Rightarrow> UploadRecord \<Rightarrow> 'd result" where
  "SaveUploadRecord E U d uploadRecord =
     rbind (marshal (up_json U) uploadRecord) (\<lambda>data.
     db_set (e_db E) d (hash_Bytes (ur_Key uploadRecord)) data)"

section \<open>Splitting\<close>

function split_loop :: "bytes \<Rightarrow> nat \<Rightarrow> bytes list" where
  "split_loop buf lim =
     (if 0 < lim \<and> lim \<le> length buf then take lim buf # split_loop (drop lim buf) lim
      else if length buf > 0 then [buf] else [])"
  by pat_completeness auto
termination by (relation "measure (\<lambda>(buf, lim). length buf)") auto

declare split_loop.simps [simp del]

text \<open>\<open>len(buf)/lim\<close> panics for zero; a negative limit panics in \<open>make\<close> or in the first slice.\<close>

definition Split :: "bytes \<Rightarrow> int \<Rightarrow> bytes list result" where
  "Split buf lim =
     (if lim = 0 then Inl (Panic ''integer divide by zero'')
      else if lim < 0 then
        (if 1 - int (length buf) div (- lim) < 0 then Inl (Panic ''makeslice: cap out of range'')
         else Inl (Panic ''slice bounds out of range''))
      else Inr (split_loop buf (nat lim)))"

section \<open>A file\<close>

definition sync_PutFileManifest :: "('d, 'b) env \<Rightarrow> uploader \<Rightarrow> nat \<Rightarrow> FileManifest \<Rightarrow> BlobIdentifier result \<times> nat" where
  "sync_PutFileManifest E U n fileManifest =
     (case wrap ''error marshalling file manifest into blobcast envelope'' (marshal (e_envelope E) (FileManifestE fileManifest)) of
        Inl e \<Rightarrow> (Inl e, n)
      | Inr data \<Rightarrow> (case up_submit U n data of
          None \<Rightarrow> (Inl (Err ''context cancelled while waiting for file manifest submission''), n + 1)
        | Some result \<Rightarrow> (wrap ''error submitting file manifest'' result, n + 1)))"

text \<open>\<open>Store\<close> of Celestia is the parameter \<open>store\<close>: the commitment and the height.\<close>

definition sync_PutDirectoryManifest ::
  "('d, 'b) env \<Rightarrow> (bytes \<Rightarrow> (bytes \<times> u64) result) \<Rightarrow> DirectoryManifest \<Rightarrow> BlobIdentifier result" where
  "sync_PutDirectoryManifest E store directoryManifest =
     rbind (wrap ''error marshalling directory manifest into blobcast envelope''
       (marshal (e_envelope E) (DirectoryManifestE directoryManifest))) (\<lambda>data.
     rbind (wrap ''error submitting directory manifest to Celestia'' (store data)) (\<lambda>(commitment, height).
     rbind (to_hash commitment) (\<lambda>commitment.
     Inr \<lparr>bi_Height = height, bi_Commitment = commitment\<rparr>)))"

text \<open>One chunk after the first loop: its submission, unless its record says it is completed.\<close>

record chunk_job =
  cj_chunk :: bytes
  cj_hash :: hash
  cj_key :: hash
  cj_submitted :: "(nat \<times> bytes) option"

definition chunk_record_key :: "blake3 \<Rightarrow> hash \<Rightarrow> hash" where
  "chunk_record_key B chunkHash = HashBytes B [ascii ''chk:'', hash_Bytes chunkHash]"

fun prepare_chunks ::
  "('d, 'b) env \<Rightarrow> uploader \<Rightarrow> 'd \<Rightarrow> nat \<Rightarrow> bytes list \<Rightarrow> chunk_job list result \<times> nat" where
  "prepare_chunks E U d n [] = (Inr [], n)"
| "prepare_chunks E U d n (chunk # chunks) =
     (let chunkHash = HashBytes (e_B E) [chunk]; chunkKey = chunk_record_key (e_B E) chunkHash;
          job = \<lparr>cj_chunk = chunk, cj_hash = chunkHash, cj_key = chunkKey, cj_submitted = None\<rparr>;
          add = (\<lambda>job (jobs, n). (rbind jobs (\<lambda>jobs. Inr (job # jobs)), n))
      in case wrap ''error getting chunk state'' (GetUploadRecord E U d chunkKey) of
           Inl e \<Rightarrow> (Inl e, n)
         | Inr chunkState \<Rightarrow>
             if ur_Completed chunkState then add job (prepare_chunks E U d n chunks)
             else (case wrap ''error marshalling chunk data into blobcast envelope'' (marshal (e_envelope E)
                     (ChunkDataE \<lparr>cd_Version = ascii ''1.0'', cd_ChunkData = chunk\<rparr>)) of
                Inl e \<Rightarrow> (Inl e, n)
              | Inr data \<Rightarrow> add (job\<lparr>cj_submitted := Some (n, data)\<rparr>) (prepare_chunks E U d (n + 1) chunks)))"

text \<open>The record of a key is read, completed with the identifier, and saved.\<close>

definition complete_record :: "('d, 'b) env \<Rightarrow> uploader \<Rightarrow> 'd \<Rightarrow> hash \<Rightarrow> BlobIdentifier \<Rightarrow> unit result \<times> 'd" where
  "complete_record E U d key i =
     (case wrap ''error getting chunk state'' (GetUploadRecord E U d key) of
        Inl e \<Rightarrow> (Inl e, d)
      | Inr chunkState \<Rightarrow>
          (case wrap ''error saving chunk state'' (SaveUploadRecord E U d
                 (chunkState\<lparr>ur_Completed := True, ur_ManifestID := bi_ID (up_base36 U) i\<rparr>)) of
             Inl e \<Rightarrow> (Inl e, d)
           | Inr d \<Rightarrow> (Inr (), d)))"

fun await_chunks :: "('d, 'b) env \<Rightarrow> uploader \<Rightarrow> 'd \<Rightarrow> chunk_job list \<Rightarrow> unit result \<times> 'd" where
  "await_chunks E U d [] = (Inr (), d)"
| "await_chunks E U d (job # jobs) =
     (case cj_submitted job of None \<Rightarrow> await_chunks E U d jobs
      | Some (k, payload) \<Rightarrow>
          (case up_submit U k payload of
             None \<Rightarrow> (Inl (Err ''context cancelled while waiting for chunk submission''), d)
           | Some result \<Rightarrow>
               (case wrap ''error submitting chunk'' result of
                  Inl e \<Rightarrow> (Inl e, d)
                | Inr chunkId \<Rightarrow> (case complete_record E U d (cj_key job) chunkId of
                      (Inl e, d) \<Rightarrow> (Inl e, d)
                    | (Inr _, d) \<Rightarrow> await_chunks E U d jobs))))"

definition chunk_ref :: "('d, 'b) env \<Rightarrow> uploader \<Rightarrow> 'd \<Rightarrow> chunk_job \<Rightarrow> ChunkReference result" where
  "chunk_ref E U d job =
     rbind (wrap ''error getting chunk state'' (GetUploadRecord E U d (cj_key job))) (\<lambda>chunkState.
     rbind (wrap ''error parsing manifest identifier'' (BlobIdentifierFromString (up_base36 U) (ur_ManifestID chunkState)))
       (\<lambda>chunkId.
     Inr \<lparr>cr_Id = Some (bi_Proto chunkId), cr_ChunkHash = hash_Bytes (cj_hash job), cr_ChunkSize = 0\<rparr>))"

definition file_manifest :: "blake3 \<Rightarrow> uploader \<Rightarrow> bytes \<Rightarrow> bytes \<Rightarrow> FileManifest" where
  "file_manifest B U fileName fileData = \<lparr>fm_ManifestVersion = ascii ''1.0'', fm_FileName = fileName,
     fm_MimeType = up_mime U fileData, fm_FileSize = of_nat (length fileData),
     fm_FileHash = hash_Bytes (HashBytes B [fileData]), fm_Compression = NONE, fm_Chunks = []\<rparr>"

definition submit_manifest ::
  "('d, 'b) env \<Rightarrow> uploader \<Rightarrow> 'd \<Rightarrow> nat \<Rightarrow> FileManifest \<Rightarrow> UploadRecord \<Rightarrow> BlobIdentifier result \<times> 'd \<times> nat" where
  "submit_manifest E U d n manifest fileState =
     (case sync_PutFileManifest E U n manifest of (r, n) \<Rightarrow>
      (case wrap ''error submitting file manifest to Celestia'' r of
         Inl e \<Rightarrow> (Inl e, d, n)
       | Inr manifestIdentifier \<Rightarrow>
           (case wrap ''error saving file state'' (SaveUploadRecord E U d
                  (fileState\<lparr>ur_Completed := True, ur_ManifestID := bi_ID (up_base36 U) manifestIdentifier\<rparr>)) of
              Inl e \<Rightarrow> (Inl e, d, n)
            | Inr d \<Rightarrow> (Inr manifestIdentifier, d, n))))"

text \<open>
  The caller gets the hash of the data in every case; it is left out here. \<open>opened\<close> is the
  outcome of opening the upload database, \<open>n\<close> counts the payloads submitted so far.
\<close>

definition PutFileData ::
  "('d, 'b) env \<Rightarrow> uploader \<Rightarrow> unit result \<Rightarrow> 'd \<Rightarrow> nat \<Rightarrow> bytes \<Rightarrow> bytes \<Rightarrow> int \<Rightarrow> BlobIdentifier result \<times> 'd \<times> nat" where
  "PutFileData E U opened d n fileName fileData maxBlobSize =
     (let fileHash = HashBytes (e_B E) [fileData] in
      case rbind (wrap ''error getting upload state'' opened)
             (\<lambda>_. wrap ''error getting file state'' (GetUploadRecord E U d fileHash)) of
        Inl e \<Rightarrow> (Inl e, d, n)
      | Inr fileState \<Rightarrow>
          if ur_Completed fileState
          then (wrap ''error parsing manifest identifier''
                 (BlobIdentifierFromString (up_base36 U) (ur_ManifestID fileState)), d, n)
          else case Split fileData maxBlobSize of
            Inl e \<Rightarrow> (Inl e, d, n)
          | Inr chunks \<Rightarrow>
              (case prepare_chunks E U d n chunks of
                 (Inl e, n) \<Rightarrow> (Inl e, d, n)
               | (Inr jobs, n) \<Rightarrow>
                   (case await_chunks E U d jobs of
                      (Inl e, d) \<Rightarrow> (Inl e, d, n)
                    | (Inr _, d) \<Rightarrow>
                        (case map_res (chunk_ref E U d) jobs of
                           Inl e \<Rightarrow> (Inl e, d, n)
                         | Inr refs \<Rightarrow> submit_manifest E U d n
                             ((file_manifest (e_B E) U fileName fileData)\<lparr>fm_Chunks := refs\<rparr>) fileState))))"

end
