(* ===== verification/Files.thy ===== *)
theory Files
  imports Paths Upload "HOL-Library.List_Lexorder"
begin

text \<open>
  The client's files: \<open>pkg/storage\<close>, \<open>pkg/encryption\<close> and \<open>pkg/sync/filesystem.go\<close>, the export of a file
  or directory from a node and the upload to Celestia.

  The operating system's file system is the parameter \<open>fsys\<close> over its states \<open>'s\<close>, AES-GCM the parameter
  \<open>aes\<close>, the node the parameter \<open>storage_client\<close> (what its requests answer, a nil manifest included). The
  goroutines of \<open>UploadDirectory\<close> run one after the other in the order of a schedule, which also says
  which of them have passed the check of the context when an upload fails.
\<close>

section \<open>Disk and encryption\<close>

record 's fsys =
  fs_stat :: "'s \<Rightarrow> bytes \<Rightarrow> bool"
  fs_read :: "'s \<Rightarrow> bytes \<Rightarrow> bytes result"
  fs_write :: "'s \<Rightarrow> bytes \<Rightarrow> bytes \<Rightarrow> unit result \<times> 's"
  fs_mkdir :: "'s \<Rightarrow> bytes \<Rightarrow> unit result \<times> 's"
  fs_walk :: "'s \<Rightarrow> bytes \<Rightarrow> (bytes \<times> bool) result list"

definition EnsureDir :: "'s fsys \<Rightarrow> 's \<Rightarrow> bytes \<Rightarrow> unit result \<times> 's" where
  "EnsureDir F s dir = apfst (wrap ''error creating directory'') (fs_mkdir F s dir)"

definition WriteFile :: "'s fsys \<Rightarrow> 's \<Rightarrow> bytes \<Rightarrow> bytes \<Rightarrow> unit result \<times> 's" where
  "WriteFile F s target data =
     (case EnsureDir F s (path_Dir target) of
        (Inl e, s) \<Rightarrow> (Inl e, s)
      | (Inr _, s) \<Rightarrow> apfst (wrap ''error writing file to disk'') (fs_write F s target data))"

definition ReadFile :: "'s fsys \<Rightarrow> 's \<Rightarrow> bytes \<Rightarrow> bytes result" where
  "ReadFile F s source = wrap ''error reading file from disk'' (fs_read F s source)"

definition Exists :: "'s fsys \<Rightarrow> 's \<Rightarrow> bytes \<Rightarrow> bool" where
  "Exists F s path = fs_stat F s path"

text \<open>AES-GCM with a nonce of 12 bytes; \<open>nonce\<close> is what \<open>rand.Reader\<close> gives.\<close>

record aes =
  gcm_seal :: "bytes \<Rightarrow> bytes \<Rightarrow> bytes \<Rightarrow> bytes"
  gcm_open :: "bytes \<Rightarrow> bytes \<Rightarrow> bytes \<Rightarrow> bytes result"

definition NonceSize :: nat where "NonceSize = 12"

definition NewCipher :: "bytes \<Rightarrow> unit result" where
  "NewCipher key = (if length key = 16 \<or> length key = 24 \<or> length key = 32 then Inr ()
     else Inl (Ext ''crypto/aes: invalid key size''))"

definition Encrypt :: "aes \<Rightarrow> bytes result \<Rightarrow> bytes \<Rightarrow> bytes \<Rightarrow> bytes result" where
  "Encrypt A nonce plaintext key =
     rbind (NewCipher key) (\<lambda>_. rbind nonce (\<lambda>nonce. Inr (nonce @ gcm_seal A key nonce plaintext)))"

definition Decrypt :: "aes \<Rightarrow> bytes \<Rightarrow> bytes \<Rightarrow> bytes result" where
  "Decrypt A ciphertextWithNonce key =
     rbind (NewCipher key) (\<lambda>_.
     if length ciphertextWithNonce < NonceSize then Inl (Err ''ciphertext too short'')
     else rbind (slice_of ciphertextWithNonce 0 NonceSize) (\<lambda>nonce.
          rbind (slice_of ciphertextWithNonce NonceSize (length ciphertextWithNonce)) (\<lambda>ciphertext.
          gcm_open A key nonce ciphertext)))"

section \<open>Export\<close>

record storage_client =
  sc_GetFileManifest :: "bytes \<Rightarrow> FileManifest option result"
  sc_GetFileData :: "bytes \<Rightarrow> bytes result"
  sc_GetDirectoryManifest :: "bytes \<Rightarrow> DirectoryManifest option result"

definition present :: "'a option \<Rightarrow> 'a result" where
  "present p = (case p of None \<Rightarrow> Inl (Panic ''nil pointer dereference'') | Some m \<Rightarrow> Inr m)"

text \<open>Whether the target already holds the file.\<close>

definition up_to_date :: "blake3 \<Rightarrow> 's fsys \<Rightarrow> storage_client \<Rightarrow> base36 \<Rightarrow> 's \<Rightarrow> BlobIdentifier \<Rightarrow> bytes \<Rightarrow> bool result" where
  "up_to_date B F S c s i target =
     (if \<not> Exists F s target then Inr False
      else rbind (wrap ''error getting file manifest'' (sc_GetFileManifest S (bi_ID c i))) (\<lambda>fileManifest.
           rbind (wrap ''error reading file'' (ReadFile F s target)) (\<lambda>fileData.
           rbind (present fileManifest) (\<lambda>manifest.
           Inr (of_nat (length fileData) = fm_FileSize manifest
             \<and> hash_Bytes (HashBytes B [fileData]) = fm_FileHash manifest)))))"

text \<open>The data of a response; an empty field of a protobuf message arrives as nil.\<close>

definition fetch_data :: "storage_client \<Rightarrow> aes \<Rightarrow> base36 \<Rightarrow> BlobIdentifier \<Rightarrow> bytes option \<Rightarrow> bytes result" where
  "fetch_data S A c i encryptionKey =
     rbind (wrap ''error getting file data'' (sc_GetFileData S (bi_ID c i))) (\<lambda>data.
     if data = [] then Inl (Err ''file data is nil'')
     else (case encryptionKey of None \<Rightarrow> Inr data
       | Some key \<Rightarrow> wrap ''error decrypting file'' (Decrypt A data key)))"

definition ExportFile ::
  "blake3 \<Rightarrow> 's fsys \<Rightarrow> storage_client \<Rightarrow> aes \<Rightarrow> base36 \<Rightarrow> 's \<Rightarrow> BlobIdentifier \<Rightarrow> bytes \<Rightarrow> bytes option \<Rightarrow> unit result \<times> 's" where
  "ExportFile B F S A c s i target encryptionKey =
     (case up_to_date B F S c s i target of
        Inl e \<Rightarrow> (Inl e, s)
      | Inr True \<Rightarrow> (Inr (), s)
      | Inr False \<Rightarrow> (case fetch_data S A c i encryptionKey of
           Inl e \<Rightarrow> (Inl e, s)
         | Inr dataToWrite \<Rightarrow> apfst (wrap ''error writing file to disk'') (WriteFile F s target dataToWrite)))"

fun export_list ::
  "blake3 \<Rightarrow> 's fsys \<Rightarrow> storage_client \<Rightarrow> aes \<Rightarrow> base36 \<Rightarrow> bytes \<Rightarrow> bytes option \<Rightarrow> 's \<Rightarrow> FileReference list \<Rightarrow> unit result \<times> 's" where
  "export_list B F S A c target encryptionKey s [] = (Inr (), s)"
| "export_list B F S A c target encryptionKey s (fileRef # files) =
     (let targetPath = path_Join target (fr_RelativePath fileRef) in
      case BlobIdentifierFromProto (fr_Id fileRef) of
        Inl e \<Rightarrow> (Inl e, s)
      | Inr fileManifestIdentifier \<Rightarrow>
          (case apfst (wrap ''error downloading file'') (ExportFile B F S A c s fileManifestIdentifier targetPath encryptionKey) of
             (Inl e, s) \<Rightarrow> (Inl e, s)
           | (Inr _, s) \<Rightarrow> export_list B F S A c target encryptionKey s files))"

definition ExportDirectory ::
  "blake3 \<Rightarrow> 's fsys \<Rightarrow> storage_client \<Rightarrow> aes \<Rightarrow> base36 \<Rightarrow> 's \<Rightarrow> BlobIdentifier \<Rightarrow> bytes \<Rightarrow> bytes option \<Rightarrow> unit result \<times> 's" where
  "ExportDirectory B F S A c s i target encryptionKey =
     (case apfst (wrap ''error creating target directory'') (EnsureDir F s target) of
        (Inl e, s) \<Rightarrow> (Inl e, s)
      | (Inr _, s) \<Rightarrow> (case rbind (wrap ''error getting directory manifest'' (sc_GetDirectoryManifest S (bi_ID c i))) present of
           Inl e \<Rightarrow> (Inl e, s)
         | Inr manifest \<Rightarrow> export_list B F S A c target encryptionKey s (dm_Files manifest)))"

section \<open>Upload of a file\<close>

definition data_to_process :: "'s fsys \<Rightarrow> aes \<Rightarrow> bytes result \<Rightarrow> 's \<Rightarrow> bytes \<Rightarrow> bytes option \<Rightarrow> bytes result" where
  "data_to_process F A nonce s source encryptionKey =
     rbind (wrap ''error reading file'' (ReadFile F s source)) (\<lambda>data.
     (case encryptionKey of None \<Rightarrow> Inr data
      | Some key \<Rightarrow> wrap ''error encrypting file'' (Encrypt A nonce data key)))"

definition UploadFile ::
  "('d, 'b) env \<Rightarrow> uploader \<Rightarrow> unit result \<Rightarrow> 's fsys \<Rightarrow> aes \<Rightarrow> bytes result \<Rightarrow> 's \<Rightarrow> 'd \<Rightarrow> nat \<Rightarrow> bytes \<Rightarrow> bytes \<Rightarrow> int \<Rightarrow> bytes option
    \<Rightarrow> (BlobIdentifier \<times> hash) result \<times> 'd \<times> nat" where
  "UploadFile E U opened F A nonce s d n source relativePath maxBlobSize encryptionKey =
     (case data_to_process F A nonce s source encryptionKey of
        Inl e \<Rightarrow> (Inl e, d, n)
      | Inr dataToProcess \<Rightarrow>
          (case PutFileData E U opened d n relativePath dataToProcess maxBlobSize of
             (r, d, n) \<Rightarrow> (rbind (wrap ''error putting file data'' r)
               (\<lambda>blobIdentifier. Inr (blobIdentifier, HashBytes (e_B E) [dataToProcess])), d, n)))"

section \<open>Upload of a directory\<close>

definition HasSuffix :: "bytes \<Rightarrow> bytes \<Rightarrow> bool" where
  "HasSuffix s p \<longleftrightarrow> HasPrefix (rev s) (rev p)"

definition TrimSuffix :: "bytes \<Rightarrow> bytes \<Rightarrow> bytes" where
  "TrimSuffix s p = (if HasSuffix s p then take (length s - length p) s else s)"

definition skipped :: "bytes \<Rightarrow> bool" where
  "skipped filename \<longleftrightarrow> filename = ascii ''.DS_Store'' \<or> filename = ascii ''Thumbs.db'' \<or> filename = ascii ''desktop.ini''
     \<or> HasPrefix filename (ascii ''.git'') \<or> HasPrefix filename (ascii ''.idea'') \<or> HasPrefix filename (ascii ''.vscode'')
     \<or> HasSuffix filename (ascii ''.tmp'') \<or> HasSuffix filename (ascii ''.swp'') \<or> HasSuffix filename (ascii ''~'')"

text \<open>The function given to \<open>filepath.Walk\<close>, over the entries that it visits.\<close>

fun files_to_upload :: "bytes \<Rightarrow> (bytes \<times> bool) result list \<Rightarrow> (bytes \<times> bytes) list result" where
  "files_to_upload source [] = Inr []"
| "files_to_upload source (Inl e # entries) = Inl e"
| "files_to_upload source (Inr (path, isDir) # entries) =
     (if isDir then files_to_upload source entries
      else rbind (path_Rel source path) (\<lambda>relPath.
        let relPath = map (\<lambda>c. if c = 92 then slash else c) relPath in
        if skipped (path_Base relPath) then files_to_upload source entries
        else rbind (files_to_upload source entries) (\<lambda>files. Inr ((path, relPath) # files))))"

record schedule_up =
  su_order :: "(bytes \<times> bytes) list \<Rightarrow> (bytes \<times> bytes) list"
  su_passed :: "bytes \<Rightarrow> bool"
  su_nonce :: "bytes \<Rightarrow> bytes result"

record 'd dir_run =
  dr_db :: 'd
  dr_n :: nat
  dr_fileHashes :: "bytes \<rightharpoonup> hash"
  dr_Files :: "FileReference list"
  dr_uploadErr :: "err option"

definition upload_one ::
  "('d, 'b) env \<Rightarrow> uploader \<Rightarrow> unit result \<Rightarrow> 's fsys \<Rightarrow> aes \<Rightarrow> schedule_up \<Rightarrow> 's \<Rightarrow> int \<Rightarrow> bytes option \<Rightarrow> bytes \<times> bytes \<Rightarrow> 'd dir_run \<Rightarrow> 'd dir_run" where
  "upload_one E U opened F A S s maxBlobSize encryptionKey = (\<lambda>(path, relPath) r.
     if dr_uploadErr r \<noteq> None \<and> \<not> su_passed S path then r
     else case UploadFile E U opened F A (su_nonce S path) s (dr_db r) (dr_n r) path (path_Base path) maxBlobSize encryptionKey of
       (Inl e, d, n) \<Rightarrow> r\<lparr>dr_db := d, dr_n := n, dr_uploadErr := Some (wrap_err ''error uploading file'' e)\<rparr>
     | (Inr (blobIdentifier, fileHash), d, n) \<Rightarrow>
         r\<lparr>dr_db := d, dr_n := n,
           dr_fileHashes := (dr_fileHashes r)(relPath \<mapsto> HashBytes (e_B E) [relPath, hash_Bytes fileHash]),
           dr_Files := dr_Files r @ [\<lparr>fr_Id = Some (bi_Proto blobIdentifier), fr_RelativePath = relPath\<rparr>]\<rparr>)"

definition upload_files ::
  "('d, 'b) env \<Rightarrow> uploader \<Rightarrow> unit result \<Rightarrow> 's fsys \<Rightarrow> aes \<Rightarrow> schedule_up \<Rightarrow> 's \<Rightarrow> int \<Rightarrow> bytes option \<Rightarrow> 'd \<Rightarrow> nat \<Rightarrow> (bytes \<times> bytes) list
    \<Rightarrow> 'd dir_run" where
  "upload_files E U opened F A S s maxBlobSize encryptionKey d n filesToUpload =
     fold (upload_one E U opened F A S s maxBlobSize encryptionKey) (su_order S filesToUpload)
       \<lparr>dr_db = d, dr_n = n, dr_fileHashes = Map.empty, dr_Files = [], dr_uploadErr = None\<rparr>"

definition merkle_leaf_of :: "(bytes \<rightharpoonup> hash) \<Rightarrow> FileReference \<Rightarrow> bytes result" where
  "merkle_leaf_of fileHashes fileRef = (case fileHashes (fr_RelativePath fileRef) of
     None \<Rightarrow> Inl (Err ''file hash not found for file'') | Some fileHash \<Rightarrow> Inr (hash_Bytes fileHash))"

text \<open>The manifest of the uploaded files, sorted by their paths.\<close>

definition directory_manifest :: "blake3 \<Rightarrow> bytes \<Rightarrow> (bytes \<rightharpoonup> hash) \<Rightarrow> FileReference list \<Rightarrow> (DirectoryManifest \<times> hash) result" where
  "directory_manifest B source fileHashes files =
     (let files = sort_key fr_RelativePath files in
      rbind (map_res (merkle_leaf_of fileHashes) files) (\<lambda>merkleLeaves.
      let dirMerkleRoot = CalculateMerkleRoot B merkleLeaves in
      Inr (\<lparr>dm_ManifestVersion = ascii ''1.0'', dm_DirectoryName = path_Base source,
        dm_DirectoryHash = hash_Bytes dirMerkleRoot, dm_Files = files\<rparr>, dirMerkleRoot)))"

text \<open>The manifest is stored and the record of the directory saved.\<close>

definition submit_directory ::
  "('d, 'b) env \<Rightarrow> uploader \<Rightarrow> (bytes \<Rightarrow> (bytes \<times> u64) result) \<Rightarrow> 'd \<Rightarrow> UploadRecord \<Rightarrow> DirectoryManifest \<times> hash
    \<Rightarrow> (BlobIdentifier \<times> hash) result \<times> 'd" where
  "submit_directory E U store d dirState = (\<lambda>(dirManifest, dirMerkleRoot).
     case wrap ''error uploading directory manifest'' (sync_PutDirectoryManifest E store dirManifest) of
       Inl e \<Rightarrow> (Inl e, d)
     | Inr manifestIdentifier \<Rightarrow>
         (case wrap ''error saving directory state'' (SaveUploadRecord E U d
                (dirState\<lparr>ur_ManifestID := bi_String (up_base36 U) manifestIdentifier, ur_Completed := True\<rparr>)) of
            Inl e \<Rightarrow> (Inl e, d)
          | Inr d \<Rightarrow> (Inr (manifestIdentifier, dirMerkleRoot), d)))"

definition UploadDirectory ::
  "('d, 'b) env \<Rightarrow> uploader \<Rightarrow> unit result \<Rightarrow> (bytes \<Rightarrow> (bytes \<times> u64) result) \<Rightarrow> 's fsys \<Rightarrow> aes \<Rightarrow> schedule_up \<Rightarrow> 's \<Rightarrow> 'd \<Rightarrow> nat
    \<Rightarrow> bytes \<Rightarrow> int \<Rightarrow> bytes option \<Rightarrow> (BlobIdentifier \<times> hash) result \<times> 'd \<times> nat" where
  "UploadDirectory E U opened store F A S s d n source maxBlobSize encryptionKey =
     (let dirKey = HashBytes (e_B E) [source] in
      case rbind (wrap ''error getting upload state'' opened)
             (\<lambda>_. wrap ''error getting directory state'' (GetUploadRecord E U d dirKey)) of
        Inl e \<Rightarrow> (Inl e, d, n)
      | Inr dirState \<Rightarrow>
          if ur_Completed dirState
          then (rbind (wrap ''error parsing manifest identifier'' (BlobIdentifierFromString (up_base36 U) (ur_ManifestID dirState)))
                 (\<lambda>manifestIdentifier. Inr (manifestIdentifier, 0)), d, n)
          else case wrap ''error walking directory'' (files_to_upload source (fs_walk F s source)) of
            Inl e \<Rightarrow> (Inl e, d, n)
          | Inr filesToUpload \<Rightarrow>
              (let r = upload_files E U opened F A S s maxBlobSize encryptionKey d n filesToUpload in
               case dr_uploadErr r of Some e \<Rightarrow> (Inl e, dr_db r, dr_n r)
               | None \<Rightarrow>
                   (case directory_manifest (e_B E) source (dr_fileHashes r) (dr_Files r) of
                      Inl e \<Rightarrow> (Inl e, dr_db r, dr_n r)
                    | Inr manifest \<Rightarrow>
                        (case submit_directory E U store (dr_db r) dirState manifest of
                           (res, d) \<Rightarrow> (res, d, dr_n r)))))"

end
