(* ===== verification/Chain_Proofs.thy ===== *)
theory Chain_Proofs
  imports Storage_Proofs
begin

text \<open>
  The chain that \<open>SyncChain\<close> builds. The abstract chain is a list of blocks, genesis first;
  \<open>chain_repr\<close> says that the database holds it: every block under its height, linked to its
  parent by hash, with the Merkle roots of its body and the state root of all leaves so far,
  and the mountain range of every height that changed it. A successful step appends a block,
  a failed one changes nothing, so every run of \<open>SyncChain\<close>, whatever its result, leaves an
  extension of the chain it found.
\<close>

section \<open>The abstract chain\<close>

definition chain_leaves :: "Block list \<Rightarrow> bytes list" where
  "chain_leaves bs = concat (map state_leaves bs)"

definition roots_ok :: "blake3 \<Rightarrow> Block \<Rightarrow> bool" where
  "roots_ok B b \<longleftrightarrow> bh_DirsRoot (b_Header b) = BlobIdentifiersMerkleRoot B (bb_Dirs (b_Body b))
     \<and> bh_FilesRoot (b_Header b) = BlobIdentifiersMerkleRoot B (bb_Files (b_Body b))
     \<and> bh_ChunksRoot (b_Header b) = BlobIdentifiersMerkleRoot B (bb_Chunks (b_Body b))"

definition block_ok :: "blake3 \<Rightarrow> bytes \<Rightarrow> u64 \<Rightarrow> Block list \<Rightarrow> nat \<Rightarrow> bool" where
  "block_ok B chainID offset bs h \<longleftrightarrow> (let b = bs ! h; hd = b_Header b in
     bh_Version hd = 1 \<and> bh_ChainID hd = chainID \<and> bh_Height hd = of_nat h
     \<and> bh_CelestiaBlockHeight hd = of_nat h + offset
     \<and> roots_ok B b \<and> bb_fits (b_Body b)
     \<and> (if h = 0 then state_leaves b = [] else
          bh_ParentHash hd = header_hash B (b_Header (bs ! (h - 1)))
          \<and> bh_StateRoot hd = root_of B (map B (chain_leaves (take (Suc h) bs)))))"

definition ranges_ok :: "blake3 \<Rightarrow> (bytes \<Rightarrow> bytes option) \<Rightarrow> Block list \<Rightarrow> bool" where
  "ranges_ok B c bs \<longleftrightarrow>
     (\<forall>j. c (mmr_key j) \<noteq> None \<longrightarrow> 0 < unat j \<and> unat j < length bs \<and> state_leaves (bs ! unat j) \<noteq> [])
     \<and> (\<forall>h<length bs. 0 < h \<longrightarrow> state_leaves (bs ! h) \<noteq> [] \<longrightarrow> c (mmr_key (of_nat h)) \<noteq> None)
     \<and> (\<forall>h s. h < length bs \<longrightarrow> c (mmr_key (of_nat h)) = Some s \<longrightarrow>
          (\<exists>m. NewMMRFromSnapshot s = Inr m \<and> mmr_state B (map B (chain_leaves (take (Suc h) bs))) m))"

text \<open>The identity of the chain, once it is written.\<close>

definition meta_ok :: "bytes \<Rightarrow> u64 \<Rightarrow> (bytes \<Rightarrow> bytes option) \<Rightarrow> bool" where
  "meta_ok chainID offset c \<longleftrightarrow> c keyChainID \<in> {None, Some chainID}
     \<and> c keyCelestiaHeightOffset \<in> {None, Some (BytesFromUint64 offset)}"

definition chain_repr :: "blake3 \<Rightarrow> bytes \<Rightarrow> u64 \<Rightarrow> (bytes \<Rightarrow> bytes option) \<Rightarrow> Block list \<Rightarrow> bool" where
  "chain_repr B chainID offset c bs \<longleftrightarrow>
     db_keys_ok c \<and> meta_ok chainID offset c
     \<and> (\<forall>h<length bs. c (blk_key (of_nat h)) = Some (b_Bytes (bs ! h)) \<and> block_ok B chainID offset bs h)
     \<and> ranges_ok B c bs
     \<and> c keyFinalizedHeight = (if length bs \<le> 1 then None else Some (BytesFromUint64 (of_nat (length bs - 1))))"

text \<open>The cache holds only hashes of stored headers.\<close>

definition cache_ok :: "blake3 \<Rightarrow> hash_cache \<Rightarrow> Block list \<Rightarrow> bool" where
  "cache_ok B cache bs \<longleftrightarrow> (\<forall>h x. cache h = Some x \<longrightarrow>
     unat h < length bs \<and> x = header_hash B (b_Header (bs ! unat h)))"

lemma length_state_leaves: "length (state_leaves b) \<le> 3"
  by (simp add: state_leaves_def)

lemma length_chain_leaves: "length (chain_leaves bs) \<le> 3 * length bs"
proof (induction bs)
  case (Cons b bs)
  with length_state_leaves [of b] show ?case by (simp add: chain_leaves_def)
qed (simp add: chain_leaves_def)

lemma chain_leaves_snoc: "chain_leaves (bs @ [b]) = chain_leaves bs @ state_leaves b"
  by (simp add: chain_leaves_def)

lemma chain_leaves_none:
  "(\<And>h. j < h \<Longrightarrow> h < length bs \<Longrightarrow> state_leaves (bs ! h) = []) \<Longrightarrow> j < length bs \<Longrightarrow>
   chain_leaves (take (Suc j) bs) = chain_leaves bs"
proof -
  assume none: "\<And>h. j < h \<Longrightarrow> h < length bs \<Longrightarrow> state_leaves (bs ! h) = []" and j: "j < length bs"
  have "concat (map state_leaves (drop (Suc j) bs)) = []"
    using none by (auto simp: in_set_conv_nth)
  moreover have "bs = take (Suc j) bs @ drop (Suc j) bs" by simp
  ultimately show ?thesis unfolding chain_leaves_def
    by (metis append_Nil2 concat_append map_append)
qed

lemma block_ok_append: "h < length bs \<Longrightarrow> block_ok B cid off (bs @ xs) h \<longleftrightarrow> block_ok B cid off bs h"
proof -
  assume h: "h < length bs"
  then have "h - 1 < length bs" "(bs @ xs) ! h = bs ! h" "take (Suc h) (bs @ xs) = take (Suc h) bs"
    by (simp_all add: nth_append)
  moreover from this(1) have "(bs @ xs) ! (h - 1) = bs ! (h - 1)" by (simp add: nth_append)
  ultimately show ?thesis unfolding block_ok_def Let_def by (simp only:)
qed

text \<open>The root of an empty block is zero, so genesis adds no leaf.\<close>

lemma empty_root: "BlobIdentifiersMerkleRoot B [] = 0"
  by (simp add: BlobIdentifiersMerkleRoot_def CalculateMerkleRoot_def)

section \<open>The parts of a step\<close>

lemma b_Hash_cached:
  assumes "cache_ok B cache bs" "b_Hash B cache p = (x, cache')"
    and "unat (b_Height p) < length bs \<Longrightarrow> header_hash B (b_Header p) = header_hash B (b_Header (bs ! unat (b_Height p)))"
  shows "x = header_hash B (b_Header p)"
    and "unat (b_Height p) < length bs \<Longrightarrow> cache_ok B cache' bs"
  using assms
  by (auto simp: b_Hash_def bh_Hash_def header_hash_def cache_ok_def b_Height_def Let_def
      split: option.splits if_splits)

lemma b_canon_idem: "b_canon (b_canon b) = b_canon b"
  by (simp add: b_canon_def bh_canon_def)

lemma GetBlock_stored:
  assumes P: "pebble_ok (e_db E) V" and run: "GetBlock E d h = Inr r"
    and c: "content V d (blk_key h) = Some (b_Bytes b)" and fits: "bb_fits (b_Body b)"
  shows "r = Some (b_canon b)"
  using run db_getD [OF P] c BlockFromBytes_b_Bytes [OF fits]
  by (fastforce simp: GetBlock_def Let_def rbind_eq_Inr key_defs split: option.splits)

lemma parent_of_last:
  assumes P: "pebble_ok (e_db E) V" and repr: "chain_repr B cid off (content V d) bs" and ne: "bs \<noteq> []"
    and prev: "prevBlock = None \<or> (\<exists>p. prevBlock = Some p \<and> b_canon p = b_canon (last bs))"
    and n: "length bs < 2 ^ 38" and h: "bh_Height (b_Header b) = of_nat (length bs)"
    and run: "parent_of E d b prevBlock = Inr p"
  shows "b_canon p = b_canon (last bs)"
proof (cases prevBlock)
  case (Some q)
  with prev run show ?thesis by (auto simp: parent_of_def split: if_splits)
next
  case None
  have i: "of_nat (length bs) - 1 = (of_nat (length bs - 1) :: u64)"
    using ne by (cases bs) simp_all
  have last: "last bs = bs ! (length bs - 1)" using ne by (rule last_conv_nth)
  from None run h i obtain r where r: "GetBlock E d (of_nat (length bs - 1)) = Inr r" "r = Some p"
    by (auto simp: parent_of_def rbind_eq_Inr split: option.splits if_splits)
  have "length bs - 1 < length bs" using ne by simp
  with repr have "content V d (blk_key (of_nat (length bs - 1))) = Some (b_Bytes (last bs))"
    and "bb_fits (b_Body (last bs))"
    unfolding chain_repr_def block_ok_def last Let_def by blast+
  with GetBlock_stored [OF P r(1)] r(2) show ?thesis by (simp add: b_canon_idem)
qed

text \<open>The mountain range that serves the last height holds all leaves so far.\<close>

lemma GetStateMMR_last:
  assumes P: "pebble_ok (e_db E) V" and repr: "chain_repr (e_B E) cid off (content V d) bs" and ne: "bs \<noteq> []"
    and n: "length bs < 2 ^ 38" and run: "GetStateMMR E d (of_nat (length bs - 1)) = Inr m"
  shows "mmr_state (e_B E) (map (e_B E) (chain_leaves bs)) m"
proof -
  let ?B = "e_B E" and ?c = "content V d" and ?n = "length bs - 1"
  have nat: "unat (of_nat k :: u64) = k" if "k \<le> length bs" for k
    using that n by (intro unat_of_nat_u64) simp
  have keys: "db_keys_ok ?c" and ranges: "ranges_ok ?B ?c bs"
    and b0: "state_leaves (bs ! 0) = []"
    using repr ne unfolding chain_repr_def block_ok_def Let_def by auto
  show ?thesis
  proof (cases "length bs = 1")
    case True
    then have "chain_leaves bs = []" using b0 by (cases bs) (simp_all add: chain_leaves_def)
    moreover from True run have "m = NewMMR" by (simp add: GetStateMMR_def)
    ultimately show ?thesis using mmr_state_New by simp
  next
    case False
    then have pos: "0 < ?n" "?n < length bs" using ne by (cases bs; simp)+
    have "(of_nat ?n :: u64) \<noteq> 0"
    proof
      assume "(of_nat ?n :: u64) = 0"
      then have "unat (of_nat ?n :: u64) = 0" by simp
      with nat [of ?n] pos show False by simp
    qed
    moreover have "(of_nat ?n :: u64) + 1 \<noteq> 0"
    proof
      assume "(of_nat ?n :: u64) + 1 = 0"
      then have "of_nat (Suc ?n) = (0 :: u64)" by (simp only: of_nat_Suc add.commute)
      then have "unat (of_nat (Suc ?n) :: u64) = 0" by simp
      with nat [of "Suc ?n"] pos show False by simp
    qed
    ultimately obtain j s where js: "serves ?c (of_nat ?n) j s"
      "NewMMRFromSnapshot s = Inr m"
      using GetStateMMR_Inr [OF P keys _ _ run] by blast
    have j: "0 < unat j" "unat j < length bs" "?c (mmr_key (of_nat (unat j))) = Some s"
      using js(1) ranges by (auto simp: serves_def ranges_ok_def)
    have "state_leaves (bs ! h) = []" if "unat j < h" "h < length bs" for h
    proof (rule ccontr)
      assume "state_leaves (bs ! h) \<noteq> []"
      moreover have "0 < h" using that by simp
      ultimately have "?c (mmr_key (of_nat h)) \<noteq> None" using ranges that(2) by (simp add: ranges_ok_def)
      moreover have "of_nat h \<le> (of_nat ?n :: u64)"
        unfolding word_le_nat_alt using that(2) nat [of h] nat [of ?n] by linarith
      ultimately have "of_nat h \<le> j" using js(1) by (simp add: serves_def)
      then have "h \<le> unat j" using that(2) by (simp add: word_le_nat_alt nat)
      with that(1) show False by simp
    qed
    then have "chain_leaves (take (Suc (unat j)) bs) = chain_leaves bs"
      using j(2) by (rule chain_leaves_none)
    moreover obtain m' where "NewMMRFromSnapshot s = Inr m'"
      "mmr_state ?B (map ?B (chain_leaves (take (Suc (unat j)) bs))) m'"
      using ranges j(2,3) unfolding ranges_ok_def by blast
    ultimately show ?thesis using js(2) by simp
  qed
qed

text \<open>What \<open>ApplyBlock\<close> does to a block on top of the chain, when it succeeds.\<close>

definition other_keys :: "family_key \<Rightarrow> bool" where
  "other_keys K \<longleftrightarrow> (\<forall>k i. K \<noteq> KChunk k \<and> K \<noteq> KChunkHash k \<and> K \<noteq> KFile i \<and> K \<noteq> KDir i)"

definition applied :: "blake3 \<Rightarrow> Block list \<Rightarrow> Block \<Rightarrow> Block" where
  "applied B bs b = b\<lparr>b_Header := (b_Header b)\<lparr>
     bh_ParentHash := header_hash B (b_Header (last bs)),
     bh_StateRoot := root_of B (map B (chain_leaves (bs @ [b])))\<rparr>\<rparr>"

lemma applied_simps [simp]:
  "b_Body (applied B bs b) = b_Body b"
  "b_Height (applied B bs b) = b_Height b"
  "state_leaves (applied B bs b) = state_leaves b"
  "bh_Version (b_Header (applied B bs b)) = bh_Version (b_Header b)"
  "bh_ChainID (b_Header (applied B bs b)) = bh_ChainID (b_Header b)"
  "bh_Height (b_Header (applied B bs b)) = bh_Height (b_Header b)"
  "bh_CelestiaBlockHeight (b_Header (applied B bs b)) = bh_CelestiaBlockHeight (b_Header b)"
  "roots_ok B (applied B bs b) = roots_ok B b"
  "bh_ParentHash (b_Header (applied B bs b)) = header_hash B (b_Header (last bs))"
  "bh_StateRoot (b_Header (applied B bs b)) = root_of B (map B (chain_leaves (bs @ [b])))"
  by (simp_all add: applied_def state_leaves_def b_Height_def roots_ok_def)

lemma apply_state_effect:
  assumes E: "env_ok E V" and repr: "chain_repr (e_B E) cid off (content V d) bs" and ne: "bs \<noteq> []"
    and n: "length bs < 2 ^ 38" and h: "b_Height b = of_nat (length bs)"
    and run: "apply_state E d tx b = Inr (tx', b')"
  shows "b' = b\<lparr>b_Header := (b_Header b)\<lparr>bh_StateRoot := root_of (e_B E) (map (e_B E) (chain_leaves (bs @ [b])))\<rparr>\<rparr>"
    and "nil_maps tx' = nil_maps tx"
    and "if state_leaves b = [] then tx' = tx
      else \<exists>s m. NewMMRFromSnapshot s = Inr m
        \<and> mmr_state (e_B E) (map (e_B E) (chain_leaves (bs @ [b]))) m
        \<and> tx_view V d tx' = (tx_view V d tx)(mmr_key (of_nat (length bs)) \<mapsto> s)"
proof -
  let ?B = "e_B E"
  note B = env_okD(1) [OF E] and P = env_okD(2) [OF E]
  have i: "b_Height b - 1 = of_nat (length bs - 1)" using ne h by (cases bs) simp_all
  from run obtain m where m: "GetStateMMR E d (of_nat (length bs - 1)) = Inr m"
    unfolding apply_state_def i by (auto simp: rbind_eq_Inr Let_def split: if_splits)
  define m' where "m' = fold (\<lambda>leaf m. snd (AddLeaf ?B leaf m)) (state_leaves b) m"
  have st: "mmr_state ?B (map ?B (chain_leaves bs)) m" by (rule GetStateMMR_last [OF P repr ne n m])
  have len: "length (chain_leaves (bs @ [b])) < 2 ^ 40" "length (chain_leaves bs) + length (state_leaves b) < 2 ^ 62"
    using length_chain_leaves [of "bs @ [b]"] n by (simp_all add: chain_leaves_snoc)
  then have st': "mmr_state ?B (map ?B (chain_leaves (bs @ [b]))) m'"
    using add_all_state [OF B st, of "state_leaves b"] by (simp add: chain_leaves_snoc m'_def)
  have root: "Root ?B m' = root_of ?B (map ?B (chain_leaves (bs @ [b])))"
    using len(1) by (intro Root_state [OF st']) simp
  have run': "(if state_leaves b \<noteq> []
        then rbind (wrap ''error putting state mmr'' (PutStateMMR E tx (b_Height b) m'))
          (\<lambda>tx. Inr (tx, b\<lparr>b_Header := (b_Header b)\<lparr>bh_StateRoot := Root ?B m'\<rparr>\<rparr>))
        else Inr (tx, b\<lparr>b_Header := (b_Header b)\<lparr>bh_StateRoot := Root ?B m'\<rparr>\<rparr>)) = Inr (tx', b')"
    using run unfolding apply_state_def i m wrap_simps rbind_simps Let_def m'_def [symmetric]
    by (simp add: b_Height_def cong: if_cong)
  then show "b' = b\<lparr>b_Header := (b_Header b)\<lparr>bh_StateRoot := root_of ?B (map ?B (chain_leaves (bs @ [b])))\<rparr>\<rparr>"
    unfolding root by (auto simp: rbind_eq_Inr split: if_splits)
  show "nil_maps tx' = nil_maps tx"
    using run' PutStateMMR_effect(3) [OF P] by (auto simp: rbind_eq_Inr split: if_splits)
  show "if state_leaves b = [] then tx' = tx
      else \<exists>s m. NewMMRFromSnapshot s = Inr m
        \<and> mmr_state ?B (map ?B (chain_leaves (bs @ [b]))) m
        \<and> tx_view V d tx' = (tx_view V d tx)(mmr_key (of_nat (length bs)) \<mapsto> s)"
  proof (cases "state_leaves b = []")
    case True
    with run' show ?thesis by simp
  next
    case False
    with run' have put: "PutStateMMR E tx (of_nat (length bs)) m' = Inr tx'"
      by (auto simp: rbind_eq_Inr h)
    have nz: "(of_nat (length bs) :: u64) \<noteq> 0"
    proof
      assume "(of_nat (length bs) :: u64) = 0"
      then have "unat (of_nat (length bs) :: u64) = 0" by simp
      with n ne show False by (simp add: unat_of_nat_u64)
    qed
    from PutStateMMR_effect(1) [OF P put nz] obtain s where s: "Snapshot (e_iter E m') m' = Inr s"
      "tx_view V d tx' = (tx_view V d tx)(mmr_key (of_nat (length bs)) \<mapsto> s)" by blast
    have "iter_of (e_iter E m') m'" using st' by (intro env_okD(3) [OF E]) (simp add: mmr_state_def)
    from Restore_Snapshot_state [OF B st' _ this] len(1) s(1) obtain m'' where
      "NewMMRFromSnapshot s = Inr m''" "mmr_state ?B (map ?B (chain_leaves (bs @ [b]))) m''" by auto
    with False s(2) show ?thesis by auto
  qed
qed

definition mmr_write :: "blake3 \<Rightarrow> Block list \<Rightarrow> Block \<Rightarrow> (bytes \<Rightarrow> bytes option) \<Rightarrow> (bytes \<Rightarrow> bytes option) \<Rightarrow> bool" where
  "mmr_write B bs b c c' \<longleftrightarrow> (if state_leaves b = [] then c' = c
     else \<exists>s m. NewMMRFromSnapshot s = Inr m \<and> mmr_state B (map B (chain_leaves (bs @ [b]))) m
       \<and> c' = c(mmr_key (of_nat (length bs)) \<mapsto> s))"

lemma cache_ok_snoc:
  assumes "cache_ok B cache bs" "length bs < 2 ^ 38"
  shows "cache (of_nat (length bs)) = None"
    and "x = header_hash B (b_Header b) \<Longrightarrow> cache_ok B (cache(of_nat (length bs) \<mapsto> x)) (bs @ [b])"
proof -
  have n: "unat (of_nat (length bs) :: u64) = length bs" using assms(2) by (intro unat_of_nat_u64) simp
  show "cache (of_nat (length bs)) = None"
  proof (rule ccontr)
    assume "cache (of_nat (length bs)) \<noteq> None"
    with assms(1) have "unat (of_nat (length bs) :: u64) < length bs" unfolding cache_ok_def by blast
    with n show False by simp
  qed
  show "cache_ok B (cache(of_nat (length bs) \<mapsto> x)) (bs @ [b])" if "x = header_hash B (b_Header b)"
    unfolding cache_ok_def
  proof (intro allI impI)
    fix h y
    assume y: "(cache(of_nat (length bs) \<mapsto> x)) h = Some y"
    show "unat h < length (bs @ [b]) \<and> y = header_hash B (b_Header ((bs @ [b]) ! unat h))"
    proof (cases "h = of_nat (length bs)")
      case True
      with y n that show ?thesis by simp
    next
      case False
      with y have "cache h = Some y" by simp
      with assms(1) have "unat h < length bs" "y = header_hash B (b_Header (bs ! unat h))"
        unfolding cache_ok_def by blast+
      then show ?thesis by (simp add: nth_append)
    qed
  qed
qed

lemma ApplyBlock_effect:
  assumes E: "env_ok E V" and repr: "chain_repr (e_B E) cid off (content V d) bs" and ne: "bs \<noteq> []"
    and cache: "cache_ok (e_B E) cache bs"
    and prev: "prevBlock = None \<or> (\<exists>p. prevBlock = Some p \<and> b_canon p = b_canon (last bs))"
    and n: "length bs < 2 ^ 38" and h: "b_Height b = of_nat (length bs)"
    and run: "ApplyBlock E d cache tx b prevBlock = (Inr (tx', b'), cache')"
  shows "b' = applied (e_B E) bs b" and "cache_ok (e_B E) cache' (bs @ [b'])" and "nil_maps tx' = nil_maps tx"
    and "\<exists>c. mmr_write (e_B E) bs b (tx_view V d tx) c
      \<and> tx_view V d tx' = c(blk_key (of_nat (length bs)) \<mapsto> b_Bytes b',
          blkh_key (header_hash (e_B E) (b_Header b')) \<mapsto> BytesFromUint64Key (of_nat (length bs)))"
proof -
  let ?B = "e_B E" and ?h = "of_nat (length bs) :: u64"
  note P = env_okD(2) [OF E]
  have nat: "unat ?h = length bs" using n by (intro unat_of_nat_u64) simp
  have pos: "b_Height b > 0"
    unfolding h word_less_nat_alt nat using ne by simp
  have last: "last bs = bs ! (length bs - 1)" using ne by (rule last_conv_nth)
  from run pos obtain p where p: "parent_of E d b prevBlock = Inr p"
    by (auto simp: ApplyBlock_def Let_def split: sum.splits prod.splits)
  have canon: "b_canon p = b_canon (last bs)"
    using h by (intro parent_of_last [OF P repr ne prev n _ p]) (simp add: b_Height_def)
  obtain ph cache1 where ph: "b_Hash ?B cache p = (ph, cache1)" by fastforce
  have hash_p: "header_hash ?B (b_Header p) = header_hash ?B (b_Header (last bs))"
    using arg_cong [OF canon, of "\<lambda>b. header_hash ?B (b_Header b)"] by simp
  have height_p: "unat (b_Height p) = length bs - 1"
  proof -
    have "b_Height p = b_Height (last bs)" using arg_cong [OF canon, of b_Height] by simp
    also have "\<dots> = of_nat (length bs - 1)"
      using repr ne unfolding chain_repr_def block_ok_def last Let_def b_Height_def by simp
    finally show ?thesis using n by (simp only:) (intro unat_of_nat_u64, simp)
  qed
  have ph_eq: "ph = header_hash ?B (b_Header (last bs))" and cache1: "cache_ok ?B cache1 bs"
    using b_Hash_cached [OF cache ph] hash_p height_p last ne by simp_all
  define b1 where "b1 = b\<lparr>b_Header := (b_Header b)\<lparr>bh_ParentHash := ph\<rparr>\<rparr>"
  from run pos p ph obtain tx1 b2 where st: "apply_state E d tx b1 = Inr (tx1, b2)"
    by (auto simp: ApplyBlock_def Let_def b1_def split: sum.splits prod.splits)
  have h1: "b_Height b1 = ?h" using h by (simp add: b1_def b_Height_def)
  note eff = apply_state_effect [OF E repr ne n h1 st]
  have leaves1: "state_leaves b1 = state_leaves b" by (simp add: b1_def state_leaves_def)
  then have cl: "chain_leaves (bs @ [b1]) = chain_leaves (bs @ [b])" by (simp add: chain_leaves_snoc)
  have b2: "b2 = applied ?B bs b"
    using eff(1) by (simp add: applied_def b1_def ph_eq cl [unfolded b1_def ph_eq])
  have h2: "b_Height b2 = ?h" using h by (simp add: b2)
  obtain x cache2 where x: "b_Hash ?B cache1 b2 = (x, cache2)" by fastforce
  have x_eq: "x = header_hash ?B (b_Header b2)" and cache2_eq: "cache2 = cache1(?h \<mapsto> x)"
    using x cache_ok_snoc(1) [OF cache1 n] h2
    by (auto simp: b_Hash_def bh_Hash_def header_hash_def b_Height_def Let_def)
  have cache2: "cache_ok ?B cache2 (bs @ [b2])"
    unfolding cache2_eq using cache_ok_snoc(2) [OF cache1 n x_eq] .
  from run pos p ph st x have put: "PutBlock E cache2 tx1 ?h b2 = Inr (tx', cache')" and b': "b' = b2"
    by (auto simp: ApplyBlock_def Let_def b1_def h2 split: sum.splits prod.splits)
  have hash2: "b_Hash ?B cache2 b2 = (x, cache2)"
    using h2 by (simp add: b_Hash_def bh_Hash_def cache2_eq b_Height_def)
  note pb = PutBlock_effect [OF P put]
  show "b' = applied ?B bs b" using b' b2 by simp
  show "cache_ok ?B cache' (bs @ [b'])" using pb(2) hash2 cache2 b' by simp
  show "nil_maps tx' = nil_maps tx" using pb(3) eff(2) by simp
  have "mmr_write ?B bs b (tx_view V d tx) (tx_view V d tx1)"
    using eff(3) unfolding mmr_write_def leaves1 cl by (simp split: if_splits)
  moreover have "tx_view V d tx' = (tx_view V d tx1)(blk_key ?h \<mapsto> b_Bytes b',
      blkh_key (header_hash ?B (b_Header b')) \<mapsto> BytesFromUint64Key ?h)"
    using pb(1) [of d] hash2 x_eq b' by simp
  ultimately show "\<exists>c. mmr_write ?B bs b (tx_view V d tx) c \<and> tx_view V d tx' =
      c(blk_key ?h \<mapsto> b_Bytes b', blkh_key (header_hash ?B (b_Header b')) \<mapsto> BytesFromUint64Key ?h)"
    by blast
qed

section \<open>Recording blobs leaves the chain alone\<close>

definition chain_frame :: "(bytes \<Rightarrow> bytes option) \<Rightarrow> (bytes \<Rightarrow> bytes option) \<Rightarrow> bool" where
  "chain_frame c c' \<longleftrightarrow> (db_keys_ok c \<longrightarrow> db_keys_ok c') \<and> c' keyFinalizedHeight = c keyFinalizedHeight
     \<and> c' keyChainID = c keyChainID \<and> c' keyCelestiaHeightOffset = c keyCelestiaHeightOffset
     \<and> (\<forall>h. c' (blk_key h) = c (blk_key h) \<and> c' (mmr_key h) = c (mmr_key h))"

lemma chain_frame_refl [simp]: "chain_frame c c"
  by (simp add: chain_frame_def)

lemma chain_frame_upd:
  assumes "chain_frame c c'" "\<not> other_keys K"
  shows "chain_frame c (c'(encode_key K \<mapsto> v))"
proof -
  have "encode_key K \<noteq> keyFinalizedHeight" "encode_key K \<noteq> keyChainID"
    "encode_key K \<noteq> keyCelestiaHeightOffset" "encode_key K \<noteq> blk_key h" "encode_key K \<noteq> mmr_key h" for h
    using assms(2) encode_key_inj [of K KFinalized] encode_key_inj [of K KChainID] encode_key_inj [of K KOffset] encode_key_inj [of K "KBlock h"]
      encode_key_inj [of K "KMMR h"] by (auto simp: other_keys_def)
  with assms(1) db_keys_ok_upd [of c' K v] show ?thesis unfolding chain_frame_def by (metis fun_upd_apply)
qed

lemmas storage_upd = chain_frame_upd [of _ _ "KChunk k" for k, simplified]
  chain_frame_upd [of _ _ "KChunkHash k" for k, simplified]
  chain_frame_upd [of _ _ "KFile k" for k, simplified]
  chain_frame_upd [of _ _ "KDir k" for k, simplified]

lemma SyncBlob_frame:
  assumes E: "env_ok E V" and run: "SyncBlob E d height s b = Inr s'"
    and frame: "chain_frame c (tx_view V d (ss_tx s))"
  shows "chain_frame c (tx_view V d (ss_tx s'))"
proof -
  note P = env_okD(2) [OF E]
  have other: "\<not> other_keys (KChunk k)" "\<not> other_keys (KChunkHash k)" "\<not> other_keys (KFile i)"
    "\<not> other_keys (KDir i)" for k i by (auto simp: other_keys_def)
  from run obtain env k where env: "unmarshal (e_envelope E) (bl_Data b) = Inr env"
    "to_hash (bl_Commitment b) = Inr k" by (auto simp: SyncBlob_def rbind_eq_Inr)
  show ?thesis
  proof (cases env)
    case (ChunkDataE cd)
    with run env have "PutChunk E (ss_tx s) k (cd_ChunkData cd) (e_B E (cd_ChunkData cd)) = Inr (ss_tx s')"
      by (auto simp: SyncBlob_def SyncChunk_def rbind_eq_Inr)
    from PutChunk_effect(1) [OF P this, of d] show ?thesis
      using chain_frame_upd [OF chain_frame_upd [OF frame other(1)] other(2)] by simp
  next
    case (FileManifestE m)
    with run env obtain acc tx' heap' where "ss_tx s' = tx'"
      "SyncFileManifest E d (ss_tx s) (ss_heap s) height b m = Inr (acc, tx', heap')"
      by (auto simp: SyncBlob_def rbind_eq_Inr)
    then have "ss_tx s' = ss_tx s \<or> (\<exists>i. PutFileManifest E (ss_tx s) i m = Inr (ss_tx s'))"
      by (auto simp: SyncFileManifest_def Let_def rbind_eq_Inr split: option.splits if_split_asm)
    then show ?thesis
      using frame PutFileManifest_effect(1) [OF P, of "ss_tx s" _ m "ss_tx s'" d]
        chain_frame_upd [OF frame other(3)] by fastforce
  next
    case (DirectoryManifestE m)
    with run env obtain acc tx' heap' where "ss_tx s' = tx'"
      "SyncDirectoryManifest E d (ss_tx s) (ss_heap s) height b m = Inr (acc, tx', heap')"
      by (auto simp: SyncBlob_def rbind_eq_Inr)
    then have "ss_tx s' = ss_tx s \<or> (\<exists>i. PutDirectoryManifest E (ss_tx s) i m = Inr (ss_tx s'))"
      by (auto simp: SyncDirectoryManifest_def Let_def rbind_eq_Inr split: option.splits if_split_asm)
    then show ?thesis
      using frame PutDirectoryManifest_effect(1) [OF P, of "ss_tx s" _ m "ss_tx s'" d]
        chain_frame_upd [OF frame other(4)] by fastforce
  next
    case NoPayload
    with run env show ?thesis by (simp add: SyncBlob_def)
  qed
qed

text \<open>Each blob adds at most one identifier.\<close>

definition ids_count :: "'b sync_state \<Rightarrow> nat" where
  "ids_count s = length (ss_chunks s) + length (ss_files s) + length (ss_dirs s)"

lemma SyncBlob_count: "SyncBlob E d height s b = Inr s' \<Longrightarrow> ids_count s' \<le> Suc (ids_count s)"
proof -
  assume run: "SyncBlob E d height s b = Inr s'"
  then obtain env k where "unmarshal (e_envelope E) (bl_Data b) = Inr env"
    "to_hash (bl_Commitment b) = Inr k" by (auto simp: SyncBlob_def rbind_eq_Inr)
  with run show ?thesis
    by (cases env) (auto simp: SyncBlob_def rbind_eq_Inr ids_count_def)
qed

lemma SyncBlobs_count:
  "fold_res (SyncBlob E d height) s blobs = Inr s' \<Longrightarrow> ids_count s' \<le> ids_count s + length blobs"
proof (induction blobs arbitrary: s)
  case (Cons b blobs)
  then obtain s1 where "SyncBlob E d height s b = Inr s1" "fold_res (SyncBlob E d height) s1 blobs = Inr s'"
    by (auto simp: rbind_eq_Inr)
  with SyncBlob_count Cons.IH show ?case by fastforce
qed simp

text \<open>A block that \<open>ProduceBlock\<close> returns, and the transaction after it.\<close>

definition blobs_fit :: "da \<Rightarrow> bool" where
  "blobs_fit D \<longleftrightarrow> (\<forall>h blobs. da_blobs D h = Inr blobs \<longrightarrow> length blobs < 2 ^ 32)"

lemma ProduceBlock_effect:
  assumes E: "env_ok E V" and g: "commitments_bind D g" "blobs_fit D"
    and sound: "store_sound E g (content V d)"
    and run: "ProduceBlock E D chainID d (NewChainStateTransaction E d) heap h ch = Inr (b, tx, heap')"
  shows "tx_good E V g d tx heap'" and "chain_frame (content V d) (tx_view V d tx)"
    and "b_Height b = h" "bh_CelestiaBlockHeight (b_Header b) = ch" "bh_ChainID (b_Header b) = chainID"
    and "bh_Version (b_Header b) = 1" "roots_ok (e_B E) b" "bb_fits (b_Body b)"
proof -
  let ?tx0 = "NewChainStateTransaction E d"
  from run obtain blobs s time where blobs: "da_blobs D ch = Inr blobs"
    and s: "SyncBlobs E d ?tx0 heap ch blobs = Inr s" and tx: "tx = ss_tx s" "heap' = ss_heap s"
    and b: "b = (NewBlock (e_B E) (ss_dirs s) (ss_files s) (ss_chunks s))
      \<lparr>b_Header := (b_Header (NewBlock (e_B E) (ss_dirs s) (ss_files s) (ss_chunks s)))
        \<lparr>bh_ChainID := chainID, bh_Height := h, bh_CelestiaBlockHeight := ch, bh_Timestamp := time\<rparr>\<rparr>"
    by (auto simp: ProduceBlock_def ProduceBlockFromCelestiaHeight_def SyncCelestiaHeight_def rbind_eq_Inr)
  have bind: "bl_Data x = g k" if "x \<in> set blobs" "to_hash (bl_Commitment x) = Inr k" for x k
    using g(1) blobs that by (auto simp: commitments_bind_def)
  show "tx_good E V g d tx heap'"
    unfolding tx using bind by (rule SyncBlobs_good [OF E tx_good_new [OF E sound] s])
  show "chain_frame (content V d) (tx_view V d tx)"
    unfolding tx using s unfolding SyncBlobs_def
    by (rule fold_res_invariant [where I = "\<lambda>s. chain_frame (content V d) (tx_view V d (ss_tx s))"])
       (auto simp: tx_view_new [OF env_okD(2) [OF E]] intro: SyncBlob_frame [OF E])
  have "length blobs < 2 ^ 32" using g(2) blobs by (simp add: blobs_fit_def)
  with SyncBlobs_count [OF s [unfolded SyncBlobs_def]] have "ids_count s < 2 ^ 32"
    by (simp add: ids_count_def)
  then show "bb_fits (b_Body b)"
    by (simp add: b bb_fits_def NewBlock_def NewBlockFromHeader_def ids_count_def)
  show "b_Height b = h" "bh_CelestiaBlockHeight (b_Header b) = ch" "bh_ChainID (b_Header b) = chainID"
    "bh_Version (b_Header b) = 1" "roots_ok (e_B E) b"
    by (simp_all add: b b_Height_def roots_ok_def NewBlock_def NewBlockFromHeader_def)
qed

section \<open>A step extends the chain\<close>

text \<open>The writes of an applied and finalized block turn a chain into the longer chain.\<close>

lemma chain_repr_snoc:
  assumes repr: "chain_repr B cid off c bs" and ne: "bs \<noteq> []" and n: "length bs < 2 ^ 38"
    and c1: "chain_frame c c1" and b: "b_Height b = of_nat (length bs)"
      "bh_CelestiaBlockHeight (b_Header b) = of_nat (length bs) + off" "bh_ChainID (b_Header b) = cid"
      "bh_Version (b_Header b) = 1" "roots_ok B b" "bb_fits (b_Body b)"
    and c2: "mmr_write B bs b c1 c2" and b': "b' = applied B bs b"
    and c3: "c3 = c2(blk_key (of_nat (length bs)) \<mapsto> b_Bytes b',
      blkh_key (header_hash B (b_Header b')) \<mapsto> BytesFromUint64Key (of_nat (length bs)),
      keyFinalizedHeight \<mapsto> BytesFromUint64 (of_nat (length bs)))"
  shows "chain_repr B cid off c3 (bs @ [b'])"
proof -
  let ?n = "of_nat (length bs) :: u64" and ?bs = "bs @ [b']"
  let ?x = "header_hash B (b_Header b')"
  have nat: "unat (of_nat k :: u64) = k" if "k \<le> length bs" for k
    using that n by (intro unat_of_nat_u64) simp
  have eq_n: "of_nat k = ?n \<longleftrightarrow> k = length bs" if "k \<le> length bs" for k
    using nat [OF that] nat [of "length bs"] by (metis order_refl)
  have sl: "state_leaves b' = state_leaves b" by (simp add: b')
  have cl: "chain_leaves ?bs = chain_leaves (bs @ [b])" by (simp add: chain_leaves_snoc sl)
  have blk: "c3 (blk_key h) = (if h = ?n then Some (b_Bytes b') else c2 (blk_key h))" for h
    using encode_key_inj [of "KBlock h" "KBlock ?n"] encode_key_inj [of "KBlock h" "KBlockHash ?x"]
      encode_key_inj [of "KBlock h" KFinalized] by (simp add: c3)
  have mmr: "c3 (mmr_key h) = c2 (mmr_key h)" for h
    using encode_key_inj [of "KMMR h" "KBlock ?n"] encode_key_inj [of "KMMR h" "KBlockHash ?x"]
      encode_key_inj [of "KMMR h" KFinalized] by (simp add: c3)
  have blk2: "c2 (blk_key h) = c (blk_key h)" for h
    using c2 c1 encode_key_inj [of "KBlock h" "KMMR ?n"]
    by (auto simp: mmr_write_def chain_frame_def split: if_splits)
  have mmr2: "c2 (mmr_key h) = c (mmr_key h)" if "h \<noteq> ?n" for h
    using c2 c1 that encode_key_inj [of "KMMR h" "KMMR ?n"]
    by (auto simp: mmr_write_def chain_frame_def split: if_splits)
  have meta: "meta_ok cid off c3"
  proof -
    have "c3 K = c2 K" if "K \<in> {keyChainID, keyCelestiaHeightOffset}" for K
      using that encode_key_inj [of KChainID "KBlock ?n"] encode_key_inj [of KChainID "KBlockHash ?x"]
        encode_key_inj [of KChainID KFinalized] encode_key_inj [of KOffset "KBlock ?n"]
        encode_key_inj [of KOffset "KBlockHash ?x"] encode_key_inj [of KOffset KFinalized] by (auto simp: c3)
    moreover have "c2 K = c1 K" if "K \<in> {keyChainID, keyCelestiaHeightOffset}" for K
      using that c2 encode_key_inj [of KChainID "KMMR ?n"] encode_key_inj [of KOffset "KMMR ?n"]
      by (auto simp: mmr_write_def split: if_splits)
    ultimately show ?thesis using c1 repr by (simp add: meta_ok_def chain_frame_def chain_repr_def)
  qed
  have keys1: "db_keys_ok c1" using repr c1 by (simp add: chain_repr_def chain_frame_def)
  then have keys2: "db_keys_ok c2"
    using c2 db_keys_ok_upd [where c = c1 and K = "KMMR ?n"] by (auto simp: mmr_write_def split: if_splits)
  have keys3: "db_keys_ok c3"
    using db_keys_ok_upd [OF db_keys_ok_upd [OF db_keys_ok_upd [OF keys2, where K = "KBlock ?n"],
      where K = "KBlockHash ?x"], where K = KFinalized]
    by (simp add: c3)
  have blocks: "c3 (blk_key (of_nat h)) = Some (b_Bytes (?bs ! h)) \<and> block_ok B cid off ?bs h"
    if "h < length ?bs" for h
  proof (cases "h < length bs")
    case True
    then have "of_nat h \<noteq> ?n" using eq_n [of h] by simp
    with repr True show ?thesis
      by (simp add: blk blk2 nth_append block_ok_append chain_repr_def)
  next
    case False
    with that have h: "h = length bs" by simp
    have "block_ok B cid off ?bs h"
      using b ne by (simp add: block_ok_def Let_def h b' nth_append last_conv_nth b_Height_def
          cl [unfolded b'] del: One_nat_def)
    with h show ?thesis by (simp add: blk)
  qed
  have ranges: "ranges_ok B c bs" using repr by (simp add: chain_repr_def)
  have none: "c (mmr_key ?n) = None"
    using ranges nat [of "length bs"] unfolding ranges_ok_def by (metis less_irrefl order_refl)
  have c2n: "c2 (mmr_key ?n) = (if state_leaves b = [] then None else c2 (mmr_key ?n))"
    using c2 c1 none by (auto simp: mmr_write_def chain_frame_def)
  have "ranges_ok B c3 ?bs"
    unfolding ranges_ok_def mmr
  proof (intro conjI allI impI)
    fix j
    assume j: "c2 (mmr_key j) \<noteq> None"
    have "0 < unat j \<and> unat j < length ?bs \<and> state_leaves (?bs ! unat j) \<noteq> []"
    proof (cases "j = ?n")
      case True
      with j c2n have "state_leaves b \<noteq> []" by (auto split: if_splits)
      with True nat [of "length bs"] ne show ?thesis by (simp add: nth_append sl)
    next
      case False
      with j mmr2 have "c (mmr_key j) \<noteq> None" by simp
      with ranges have "0 < unat j" "unat j < length bs" "state_leaves (bs ! unat j) \<noteq> []"
        by (simp_all add: ranges_ok_def)
      then show ?thesis by (simp add: nth_append)
    qed
    then show "0 < unat j" "unat j < length ?bs" "state_leaves (?bs ! unat j) \<noteq> []" by simp_all
  next
    fix h
    assume h: "h < length ?bs" "0 < h" "state_leaves (?bs ! h) \<noteq> []"
    show "c2 (mmr_key (of_nat h)) \<noteq> None"
    proof (cases "h < length bs")
      case True
      with h ranges eq_n [of h] mmr2 [of "of_nat h"] show ?thesis by (simp add: ranges_ok_def nth_append)
    next
      case False
      with h have "h = length bs" "state_leaves b \<noteq> []" by (simp_all add: nth_append sl split: if_splits)
      with c2 show ?thesis by (auto simp: mmr_write_def)
    qed
  next
    fix h s
    assume h: "h < length ?bs" "c2 (mmr_key (of_nat h)) = Some s"
    show "\<exists>m. NewMMRFromSnapshot s = Inr m \<and> mmr_state B (map B (chain_leaves (take (Suc h) ?bs))) m"
    proof (cases "h < length bs")
      case True
      with h ranges eq_n [of h] mmr2 [of "of_nat h"] show ?thesis by (simp add: ranges_ok_def)
    next
      case False
      with h(1) have hn: "h = length bs" by simp
      with h(2) c2n have "state_leaves b \<noteq> []" by auto
      with c2 obtain s' m where sm: "NewMMRFromSnapshot s' = Inr m"
        "mmr_state B (map B (chain_leaves (bs @ [b]))) m" "c2 = c1(mmr_key ?n \<mapsto> s')"
        by (auto simp: mmr_write_def)
      with h(2) hn have "s' = s" by simp
      with sm hn cl show ?thesis by auto
    qed
  qed
  moreover have "c3 keyFinalizedHeight = (if length ?bs \<le> 1 then None
      else Some (BytesFromUint64 (of_nat (length ?bs - 1))))"
    using ne by (simp add: c3)
  ultimately show ?thesis unfolding chain_repr_def using keys3 meta blocks by blast
qed

text \<open>The state of the node between two steps.\<close>

definition node_inv ::
  "('d, 'b) env \<Rightarrow> ('d, 'b) store_view \<Rightarrow> (hash \<Rightarrow> bytes) \<Rightarrow> bytes \<Rightarrow> u64 \<Rightarrow> 'd bchain \<Rightarrow> Block list \<Rightarrow> bool" where
  "node_inv E V g cid off bc bs \<longleftrightarrow> bc_chainID bc = cid \<and> \<not> cs_pending (bc_state bc)
     \<and> chain_repr (e_B E) cid off (content V (cs_db (bc_state bc))) bs
     \<and> store_sound E g (content V (cs_db (bc_state bc)))
     \<and> cache_ok (e_B E) (bc_cache bc) bs"

definition prev_ok :: "Block option \<Rightarrow> Block list \<Rightarrow> bool" where
  "prev_ok prev bs \<longleftrightarrow> prev = None \<or> (\<exists>p. prev = Some p \<and> b_canon p = b_canon (last bs))"

lemma run_block_cases:
  assumes "run_block E D height ch prev tx bc = (Inr (b', tx'), bc')"
  obtains b tx1 heap tx2 cache where
    "ProduceBlock E D (bc_chainID bc) (cs_db (bc_state bc)) tx (bc_heap bc) height ch = Inr (b, tx1, heap)"
    "ApplyBlock E (cs_db (bc_state bc)) (bc_cache bc) tx1 b prev = (Inr (tx2, b'), cache)"
    "FinalizeBlock E tx2 height = Inr tx'" "bc' = bc\<lparr>bc_heap := heap, bc_cache := cache\<rparr>"
  using assms that
  by (auto simp: run_block_def Let_def abort_with_def split: sum.splits prod.splits if_splits)

lemma sync_step_cases:
  assumes "sync_step E D slow height ch prev bc = (Inr b, bc')"
  obtains tx bc1 tx' s where "\<not> cs_pending (bc_state bc)"
    "run_block E D height ch prev (NewChainStateTransaction E (cs_db (bc_state bc)))
       (bc\<lparr>bc_state := (bc_state bc)\<lparr>cs_pending := True\<rparr>\<rparr>) = (Inr (b, tx), bc1)"
    "Commit E tx (bc_state bc1) = (Inr (), tx', s)"
    "bc' = bc1\<lparr>bc_state := s, bc_subs := publishNewHeader slow (b_Header b) (bc_subs bc1)\<rparr>"
  using assms that
  by (auto simp: sync_step_def BeginTransaction_def Let_def split: sum.splits prod.splits if_splits)

lemma sync_step_extends:
  assumes E: "env_ok E V" and g: "commitments_bind D g" "blobs_fit D"
    and inv: "node_inv E V g cid off bc bs" and ne: "bs \<noteq> []" and prev: "prev_ok prev bs"
    and n: "length bs < 2 ^ 38"
    and run: "sync_step E D slow (of_nat (length bs)) (of_nat (length bs) + off) prev bc = (Inr b', bc')"
  shows "node_inv E V g cid off bc' (bs @ [b'])"
proof -
  let ?B = "e_B E" and ?n = "of_nat (length bs) :: u64" and ?d = "cs_db (bc_state bc)"
  note P = env_okD(2) [OF E]
  obtain tx3 bc1 tx4 s where step: "run_block E D ?n (?n + off) prev (NewChainStateTransaction E ?d)
       (bc\<lparr>bc_state := (bc_state bc)\<lparr>cs_pending := True\<rparr>\<rparr>) = (Inr (b', tx3), bc1)"
    "Commit E tx3 (bc_state bc1) = (Inr (), tx4, s)"
    "bc' = bc1\<lparr>bc_state := s, bc_subs := publishNewHeader slow (b_Header b') (bc_subs bc1)\<rparr>"
    using run by (rule sync_step_cases)
  obtain b tx1 heap tx2 cache where
    prod: "ProduceBlock E D cid ?d (NewChainStateTransaction E ?d) (bc_heap bc) ?n (?n + off) = Inr (b, tx1, heap)"
    and app: "ApplyBlock E ?d (bc_cache bc) tx1 b prev = (Inr (tx2, b'), cache)"
    and fin: "FinalizeBlock E tx2 ?n = Inr tx3"
    and bc1: "bc1 = bc\<lparr>bc_state := (bc_state bc)\<lparr>cs_pending := True\<rparr>, bc_heap := heap, bc_cache := cache\<rparr>"
    by (rule run_block_cases [OF step(1)]) (use inv that in \<open>auto simp: node_inv_def\<close>)
  have repr: "chain_repr ?B cid off (content V ?d) bs" and sound: "store_sound E g (content V ?d)"
    and cache: "cache_ok ?B (bc_cache bc) bs" using inv by (simp_all add: node_inv_def)
  note pb = ProduceBlock_effect [OF E g sound prod]
  note ab = ApplyBlock_effect [OF E repr ne cache prev [unfolded prev_ok_def] n pb(3) app]
  obtain c2 where c2: "mmr_write ?B bs b (tx_view V ?d tx1) c2"
    "tx_view V ?d tx2 = c2(blk_key ?n \<mapsto> b_Bytes b', blkh_key (header_hash ?B (b_Header b')) \<mapsto> BytesFromUint64Key ?n)"
    using ab(4) by blast
  note fb = SetFinalizedHeight_effect [OF P fin [unfolded FinalizeBlock_def]]
  have "\<not> nil_maps tx3" using fb(2) ab(3) pb(1) by (simp add: tx_good_def)
  from Commit_cases(1) [OF P this step(2)] have view: "content V (cs_db s) = tx_view V ?d tx3" and pend: "\<not> cs_pending s"
    by (simp_all add: bc1)
  have "chain_repr ?B cid off (tx_view V ?d tx3) (bs @ [b'])"
    by (rule chain_repr_snoc [OF repr ne n pb(2) pb(3-8) c2(1) ab(1)])
       (simp add: fb(1) c2(2))
  moreover have "store_sound E g (tx_view V ?d tx3)"
  proof -
    have other: "\<forall>k i. K \<noteq> KChunk k \<and> K \<noteq> KChunkHash k \<and> K \<noteq> KFile i \<and> K \<noteq> KDir i"
      if "K \<in> {KMMR ?n, KBlock ?n, KBlockHash (header_hash ?B (b_Header b')), KFinalized}" for K
      using that by auto
    have s0: "same_storage (tx_view V ?d tx1) c2"
      using c2(1) same_storage_upd [OF other same_storage_refl, of "KMMR ?n" "tx_view V ?d tx1"]
      by (auto simp: mmr_write_def split: if_splits)
    have s1: "same_storage (tx_view V ?d tx1) (c2(encode_key (KBlock ?n) \<mapsto> b_Bytes b'))"
      by (rule same_storage_upd [OF other s0]) simp
    have s2: "same_storage (tx_view V ?d tx1) (c2(encode_key (KBlock ?n) \<mapsto> b_Bytes b',
        encode_key (KBlockHash (header_hash ?B (b_Header b'))) \<mapsto> BytesFromUint64Key ?n))"
      by (rule same_storage_upd [OF other s1]) simp
    have "same_storage (tx_view V ?d tx1) (c2(encode_key (KBlock ?n) \<mapsto> b_Bytes b',
        encode_key (KBlockHash (header_hash ?B (b_Header b'))) \<mapsto> BytesFromUint64Key ?n,
        encode_key KFinalized \<mapsto> BytesFromUint64 ?n))"
      by (rule same_storage_upd [OF other s2]) simp
    then have "same_storage (tx_view V ?d tx1) (tx_view V ?d tx3)" by (simp add: fb(1) c2(2))
    with pb(1) show ?thesis by (auto simp: tx_good_def intro: store_sound_same)
  qed
  ultimately show ?thesis
    using inv ab(2) view pend by (simp add: node_inv_def step(3) bc1)
qed

text \<open>A failed step leaves the database as it was, and no transaction open unless it panicked.\<close>

lemma sync_step_fails:
  assumes E: "env_ok E V" and run: "sync_step E D slow h ch prev bc = (Inl e, bc')"
  shows "cs_db (bc_state bc') = cs_db (bc_state bc)" and "bc_chainID bc' = bc_chainID bc"
  using run
  by (auto simp: sync_step_def run_block_def BeginTransaction_def Let_def abort_with_def Abort_def Commit_def
      split: sum.splits prod.splits if_splits)

text \<open>
  As long as no block has recorded anything, there is no mountain range to read back from
  height 1 on: every further step fails.
\<close>

lemma empty_chain_stuck:
  assumes E: "env_ok E V" and inv: "node_inv E V g cid off bc bs" and two: "2 \<le> length bs"
    and n: "length bs < 2 ^ 38" and none: "chain_leaves bs = []"
  shows "\<exists>e bc'. sync_step E D slow (of_nat (length bs)) ch prev bc = (Inl e, bc')"
proof (rule ccontr)
  let ?d = "cs_db (bc_state bc)" and ?n = "of_nat (length bs) :: u64"
  assume "\<not> ?thesis"
  then obtain b bc' where run: "sync_step E D slow ?n ch prev bc = (Inr b, bc')"
    by (cases "sync_step E D slow ?n ch prev bc", cases "fst (sync_step E D slow ?n ch prev bc)") auto
  obtain tx3 bc1 tx4 s where step: "run_block E D ?n ch prev (NewChainStateTransaction E ?d)
       (bc\<lparr>bc_state := (bc_state bc)\<lparr>cs_pending := True\<rparr>\<rparr>) = (Inr (b, tx3), bc1)"
    using run by (rule sync_step_cases)
  obtain b0 tx1 heap tx2 cache where
    prod: "ProduceBlock E D cid ?d (NewChainStateTransaction E ?d) (bc_heap bc) ?n ch = Inr (b0, tx1, heap)"
    and app: "ApplyBlock E ?d (bc_cache bc) tx1 b0 prev = (Inr (tx2, b), cache)"
    by (rule run_block_cases [OF step]) (use inv that in \<open>auto simp: node_inv_def\<close>)
  have h: "b_Height b0 = ?n"
    using prod by (auto simp: ProduceBlock_def rbind_eq_Inr b_Height_def)
  have nat: "unat (of_nat k :: u64) = k" if "k \<le> length bs" for k
    using that n by (intro unat_of_nat_u64) simp
  have "bs \<noteq> []" using two by auto
  then have i: "?n - 1 = of_nat (length bs - 1)" by (cases bs) simp_all
  have "0 < length bs" using two by linarith
  then have pos: "b_Height b0 > 0" unfolding h word_less_nat_alt nat [OF order_refl] by simp
  obtain m where "GetStateMMR E ?d (b_Height b0 - 1) = Inr m"
    using app pos unfolding ApplyBlock_def
    by (auto simp: apply_state_def rbind_eq_Inr Let_def b_Height_def split: sum.splits prod.splits if_splits)
  then have m: "GetStateMMR E ?d (of_nat (length bs - 1)) = Inr m" by (simp only: h i)
  have "(of_nat (length bs - 1) :: u64) \<noteq> 0"
    using nat [of "length bs - 1"] two by (auto simp: unat_eq_0 [symmetric])
  moreover have "of_nat (length bs - 1) + 1 \<noteq> (0 :: u64)"
    using nat [of "length bs"] two i by (auto simp: unat_eq_0 [symmetric])
  moreover have "db_keys_ok (content V ?d)" and ranges: "ranges_ok (e_B E) (content V ?d) bs"
    using inv by (simp_all add: node_inv_def chain_repr_def)
  ultimately obtain j x where "serves (content V ?d) (of_nat (length bs - 1)) j x"
    using GetStateMMR_Inr [OF env_okD(2) [OF E] _ _ _ m] by blast
  with ranges have "unat j < length bs" "state_leaves (bs ! unat j) \<noteq> []"
    by (auto simp: serves_def ranges_ok_def)
  with none show False by (auto simp: chain_leaves_def)
qed

text \<open>A restarted node, which reads the parent from the database, applies a block as before.\<close>

lemma ApplyBlock_restart:
  assumes E: "env_ok E V" and repr: "chain_repr (e_B E) cid off (content V d) bs" and ne: "bs \<noteq> []"
    and cache: "cache_ok (e_B E) cache bs" "cache_ok (e_B E) cache' bs" and p: "b_canon p = b_canon (last bs)"
    and n: "length bs < 2 ^ 38" and h: "b_Height b = of_nat (length bs)"
    and run: "ApplyBlock E d cache tx b (Some p) = (Inr (tx1, b1), cache1)"
      "ApplyBlock E d cache' tx b None = (Inr (tx2, b2), cache2)"
  shows "b1 = b2"
  using ApplyBlock_effect(1) [OF E repr ne cache(1) _ n h run(1)]
    ApplyBlock_effect(1) [OF E repr ne cache(2) _ n h run(2)] p by simp

section \<open>The loops\<close>

definition progress_ok ::
  "('d, 'b) env \<Rightarrow> ('d, 'b) store_view \<Rightarrow> (hash \<Rightarrow> bytes) \<Rightarrow> bytes \<Rightarrow> u64 \<Rightarrow> Block list \<Rightarrow> 'd progress \<Rightarrow> bool" where
  "progress_ok E V g cid off bs p \<longleftrightarrow> (\<exists>xs. let (r, bc) = p; c = content V (cs_db (bc_state bc)) in
     chain_repr (e_B E) cid off c (bs @ xs) \<and> store_sound E g c
     \<and> (case r of Inl e \<Rightarrow> True | Inr (nextHeight, prev) \<Rightarrow>
          node_inv E V g cid off bc (bs @ xs) \<and> prev_ok prev (bs @ xs)
          \<and> nextHeight = of_nat (length (bs @ xs)) \<and> length (bs @ xs) \<le> 2 ^ 37 + 1))"

lemma progress_ok_here:
  "node_inv E V g cid off bc bs \<Longrightarrow> prev_ok prev bs \<Longrightarrow> length bs \<le> 2 ^ 37 + 1 \<Longrightarrow>
   progress_ok E V g cid off bs (Inr (of_nat (length bs), prev), bc)"
  by (auto simp: progress_ok_def node_inv_def intro!: exI [of _ "[]"])

lemma progress_ok_error:
  "node_inv E V g cid off bc bs \<Longrightarrow> cs_db (bc_state bc') = cs_db (bc_state bc) \<Longrightarrow>
   progress_ok E V g cid off bs (Inl e, bc')"
  by (auto simp: progress_ok_def node_inv_def intro!: exI [of _ "[]"])

lemma progress_ok_step:
  assumes "progress_ok E V g cid off (bs @ ys) p"
  shows "progress_ok E V g cid off bs p"
  using assms unfolding progress_ok_def append_assoc by blast

text \<open>A height that is at most the latest one, with no wrap-around.\<close>

lemma height_fits:
  assumes "length bs \<le> 2 ^ 37 + 1" "unat (off :: u64) \<le> 2 ^ 37" "unat (latest :: u64) \<le> 2 ^ 37"
    and "of_nat (length bs) + off \<le> latest"
  shows "length bs \<le> 2 ^ 37"
proof -
  have "unat (of_nat (length bs) :: u64) = length bs" using assms(1) by (intro unat_of_nat_u64) simp
  then have "unat (of_nat (length bs) + off) = length bs + unat off"
    using assms(1,2) by (subst unat_add_u64) simp_all
  with assms(3,4) show ?thesis by (simp add: word_le_nat_alt)
qed

lemma step_progress:
  assumes E: "env_ok E V" and g: "commitments_bind D g" "blobs_fit D"
    and inv: "node_inv E V g cid off bc bs" and ne: "bs \<noteq> []" and prev: "prev_ok prev bs"
    and len: "length bs \<le> 2 ^ 37"
    and run: "sync_step E D slow (of_nat (length bs)) (of_nat (length bs) + off) prev bc = (r, bc')"
  shows "case r of Inl e \<Rightarrow> progress_ok E V g cid off bs (Inl e, bc')
    | Inr b \<Rightarrow> node_inv E V g cid off bc' (bs @ [b]) \<and> prev_ok (Some b) (bs @ [b])"
proof (cases r)
  case (Inl e)
  with progress_ok_error [OF inv sync_step_fails(1) [OF E run [unfolded Inl]]] show ?thesis by simp
next
  case (Inr b)
  have "length bs < 2 ^ 38" using len by simp
  with sync_step_extends [OF E g inv ne prev _ run [unfolded Inr]] Inr show ?thesis
    by (simp add: prev_ok_def)
qed

lemma up_to_head_progress:
  assumes E: "env_ok E V" and g: "commitments_bind D g" "blobs_fit D" and off: "unat off \<le> 2 ^ 37"
    and latest: "unat latest \<le> 2 ^ 37"
    and run: "up_to_head E D slow off latest next prev bc = Some p"
  shows "node_inv E V g cid off bc bs \<Longrightarrow> bs \<noteq> [] \<Longrightarrow> prev_ok prev bs \<Longrightarrow> length bs \<le> 2 ^ 37 + 1 \<Longrightarrow>
    next = of_nat (length bs) \<Longrightarrow> progress_ok E V g cid off bs p"
  using E g off latest
proof (induction arbitrary: bs rule: up_to_head.raw_induct [OF _ run, consumes 0, case_names step])
  case (step rec E D slow off latest nextHeight prevBlock bc p)
  note IH = step(1) and body = step(2) and prems = step(3-7) and env = step(8) and g = step(9,10)
    and off = step(11) and latest = step(12)
  show ?case
  proof (cases "nextHeight + off > latest")
    case True
    with body progress_ok_here [OF prems(1,3,4)] prems(5) show ?thesis by auto
  next
    case False
    with prems(5) have "length bs \<le> 2 ^ 37"
      by (intro height_fits [OF prems(4) off latest]) simp
    note sp = step_progress [OF env g prems(1-3) this]
    obtain r bc1 where r: "sync_step E D (slow nextHeight) nextHeight (nextHeight + off) prevBlock bc = (r, bc1)"
      by fastforce
    show ?thesis
    proof (cases r)
      case (Inl e)
      with body False r sp [of "slow nextHeight" r bc1] prems(5) show ?thesis by auto
    next
      case (Inr b)
      with body False r have rec: "rec E D slow off latest (nextHeight + 1) (Some b) bc1 = Some p" by simp
      from sp [of "slow nextHeight" r bc1] r Inr prems(5)
      have inv: "node_inv E V g cid off bc1 (bs @ [b])" "prev_ok (Some b) (bs @ [b])" by simp_all
      have len: "length (bs @ [b]) \<le> 2 ^ 37 + 1" using \<open>length bs \<le> 2 ^ 37\<close> by simp
      have "nextHeight + 1 = of_nat (length (bs @ [b]))" using prems(5) by (simp add: add.commute)
      from IH [OF rec inv(1) _ inv(2) len this env g off latest]
      have "progress_ok E V g cid off (bs @ [b]) p" by simp
      then show ?thesis by (rule progress_ok_step)
    qed
  qed
qed

lemma next_answer_bound:
  "(\<And>L. Inr L \<in> set hs \<Longrightarrow> unat L \<le> k) \<Longrightarrow> next_answer hs = (Inr latest, hs') \<Longrightarrow>
   unat latest \<le> k \<and> set hs' \<subseteq> set hs \<and> length hs' < length hs"
  by (cases hs) (auto simp: next_answer_def)

lemma catch_up_progress:
  assumes E: "env_ok E V" and g: "commitments_bind D g" "blobs_fit D" and off: "unat off \<le> 2 ^ 37"
    and run: "catch_up E D slow off hs latest next prev bc = Some p"
  shows "node_inv E V g cid off bc bs \<Longrightarrow> bs \<noteq> [] \<Longrightarrow> prev_ok prev bs \<Longrightarrow> length bs \<le> 2 ^ 37 + 1 \<Longrightarrow>
    next = of_nat (length bs) \<Longrightarrow> unat latest \<le> 2 ^ 37 \<Longrightarrow> (\<And>L. Inr L \<in> set hs \<Longrightarrow> unat L \<le> 2 ^ 37) \<Longrightarrow>
    progress_ok E V g cid off bs p"
  using E g off
proof (induction arbitrary: bs rule: catch_up.raw_induct [OF _ run, consumes 0, case_names step])
  case (step rec E D slow off hs latest nextHeight prevBlock bc p)
  note IH = step(1) and body = step(2) and prems = step(3-7) and latest = step(8) and hs = step(9)
    and env = step(10) and g = step(11,12) and off = step(13)
  obtain answer hs' where a: "(if nextHeight + off \<ge> latest then next_answer hs else (Inr latest, hs)) = (answer, hs')"
    by fastforce
  show ?case
  proof (cases answer)
    case (Inl e)
    with body a progress_ok_error [OF prems(1) refl] show ?thesis by (auto simp: Let_def)
  next
    case (Inr latest')
    with a have l: "unat latest' \<le> 2 ^ 37 \<and> set hs' \<subseteq> set hs"
      using latest next_answer_bound [of hs "2 ^ 37" latest' hs'] hs by (auto split: if_splits)
    show ?thesis
    proof (cases "nextHeight + off \<ge> latest \<and> nextHeight + off > latest'")
      case True
      with body a Inr progress_ok_here [OF prems(1,3,4)] prems(5) show ?thesis by (auto simp: Let_def)
    next
      case False
      with a Inr have "nextHeight + off \<le> latest'" by (auto split: if_splits)
      with l prems(5) have len: "length bs \<le> 2 ^ 37"
        by (intro height_fits [OF prems(4) off, of latest']) simp_all
      note sp = step_progress [OF env g prems(1-3) len]
      obtain r bc1 where r: "sync_step E D (slow nextHeight) nextHeight (nextHeight + off) prevBlock bc = (r, bc1)"
        by fastforce
      show ?thesis
      proof (cases r)
        case (Inl e)
        with body a \<open>answer = Inr latest'\<close> False r sp [of "slow nextHeight" r bc1] prems(5)
        show ?thesis by (auto simp: Let_def)
      next
        case (Inr b)
        with body a \<open>answer = Inr latest'\<close> False r
        have rec: "rec E D slow off hs' latest' (nextHeight + 1) (Some b) bc1 = Some p"
          by (auto simp: Let_def)
        from sp [of "slow nextHeight" r bc1] r Inr prems(5)
        have inv: "node_inv E V g cid off bc1 (bs @ [b])" "prev_ok (Some b) (bs @ [b])" by simp_all
        have len': "length (bs @ [b]) \<le> 2 ^ 37 + 1" using len by simp
        have next': "nextHeight + 1 = of_nat (length (bs @ [b]))" using prems(5) by (simp add: add.commute)
        have "progress_ok E V g cid off (bs @ [b]) p"
          using l hs by (intro IH [OF rec inv(1) _ inv(2) len' next' _ _ env g off]) auto
        then show ?thesis by (rule progress_ok_step)
      qed
    qed
  qed
qed

lemma live_sync_progress:
  assumes E: "env_ok E V" and g: "commitments_bind D g" "blobs_fit D" and off: "unat off \<le> 2 ^ 37"
  shows "live_sync E D slow off heads next prev bc = Some p \<Longrightarrow>
    node_inv E V g cid off bc bs \<Longrightarrow> bs \<noteq> [] \<Longrightarrow> prev_ok prev bs \<Longrightarrow> length bs \<le> 2 ^ 37 + 1 \<Longrightarrow>
    next = of_nat (length bs) \<Longrightarrow> (\<And>L. L \<in> set heads \<Longrightarrow> unat L \<le> 2 ^ 37) \<Longrightarrow>
    progress_ok E V g cid off bs p"
proof (induction heads arbitrary: "next" prev bc bs)
  case Nil
  then show ?case using progress_ok_here [OF Nil.prems(2,4,5)] by auto
next
  case (Cons head heads)
  obtain q where q: "up_to_head E D slow off head next prev bc = Some q"
    using Cons.prems(1) by (auto split: option.splits)
  have "unat head \<le> 2 ^ 37" using Cons.prems(7) by simp
  from up_to_head_progress [OF E g off this q Cons.prems(2-6)]
  have ok: "progress_ok E V g cid off bs q" .
  obtain r bc1 where rb: "q = (r, bc1)" by fastforce
  show ?case
  proof (cases r)
    case (Inl e)
    with Cons.prems(1) q rb ok show ?thesis by simp
  next
    case (Inr np)
    then obtain n1 p1 where np: "np = (n1, p1)" by fastforce
    from ok [unfolded progress_ok_def rb Inr np] obtain xs where
      xs: "node_inv E V g cid off bc1 (bs @ xs)" "prev_ok p1 (bs @ xs)" "n1 = of_nat (length (bs @ xs))"
        "length (bs @ xs) \<le> 2 ^ 37 + 1"
      by (simp only: Let_def prod.case sum.case) (elim exE conjE, blast)
    from Cons.prems(1) q rb Inr np have "live_sync E D slow off heads n1 p1 bc1 = Some p" by simp
    from Cons.IH [OF this xs(1) _ xs(2,4,3)] Cons.prems(3,7) have "progress_ok E V g cid off (bs @ xs) p"
      by simp
    then show ?thesis by (rule progress_ok_step)
  qed
qed

text \<open>The loops end.\<close>

lemma next_off: "n + 1 + off = n + off + (1 :: u64)"
  by (simp add: add.commute add.left_commute)

lemma up_to_head_total:
  assumes "latest \<noteq> - 1"
  shows "\<exists>p. up_to_head E D slow off latest next prev bc = Some p"
proof (induction "unat latest + 1 - unat (next + off)" arbitrary: "next" prev bc rule: less_induct)
  case less
  show ?case
  proof (cases "next + off > latest")
    case True
    then show ?thesis by (subst up_to_head.simps) simp
  next
    case False
    then have le: "unat (next + off) \<le> unat latest" by (simp add: word_le_nat_alt not_less)
    have "unat latest \<noteq> 2 ^ 64 - 1"
    proof
      assume "unat latest = 2 ^ 64 - 1"
      then have "unat latest = unat (- 1 :: u64)" by (simp add: unsigned_minus_1_eq_mask mask_eq_exp_minus_1)
      then have "latest = - 1" by (metis of_nat_unat_u64)
      with assms show False by contradiction
    qed
    then have "unat (next + off) + 1 < 2 ^ 64" using le unat_less_pow64 [of latest] by linarith
    from unat_Suc_u64 [OF this] have "unat (next + 1 + off) = unat (next + off) + 1" by (simp only: next_off)
    with le have "unat latest + 1 - unat (next + 1 + off) < unat latest + 1 - unat (next + off)" by linarith
    note IH = less.hyps [OF this]
    obtain r bc1 where r: "sync_step E D (slow next) next (next + off) prev bc = (r, bc1)" by fastforce
    with False IH show ?thesis
      by (subst up_to_head.simps) (cases r, simp_all)
  qed
qed

lemma catch_up_total:
  "\<exists>p. catch_up E D slow off hs latest next prev bc = Some p"
proof (induction "(length hs, unat latest - unat (next + off))" arbitrary: hs latest "next" prev bc
    rule: wf_induct_rule [OF wf_lex_prod [OF wf_less wf_less]])
  case 1
  obtain answer hs' where a: "(if next + off \<ge> latest then next_answer hs else (Inr latest, hs)) = (answer, hs')"
    by fastforce
  show ?case
  proof (cases answer)
    case (Inl e)
    with a show ?thesis by (subst catch_up.simps) (simp add: Let_def)
  next
    case (Inr latest')
    show ?thesis
    proof (cases "next + off \<ge> latest \<and> next + off > latest'")
      case True
      with a Inr show ?thesis by (subst catch_up.simps) (simp add: Let_def)
    next
      case False
      have "((length hs', unat latest' - unat (next + 1 + off)), (length hs, unat latest - unat (next + off)))
          \<in> {(x, y). x < y} <*lex*> {(x, y). x < y}"
      proof (cases "next + off \<ge> latest")
        case True
        with a Inr have "length hs' < length hs" by (cases hs) (auto simp: next_answer_def)
        then show ?thesis by simp
      next
        case lt: False
        with a Inr have eq: "hs' = hs" "latest' = latest" by auto
        have less: "unat (next + off) < unat latest" using lt by (simp add: word_less_nat_alt not_le)
        then have "unat (next + off) + 1 < 2 ^ 64" using unat_less_pow64 [of latest] by linarith
        from unat_Suc_u64 [OF this] have "unat (next + 1 + off) = unat (next + off) + 1" by (simp only: next_off)
        with eq less show ?thesis by simp
      qed
      note IH = 1 [OF this]
      obtain r bc1 where r: "sync_step E D (slow next) next (next + off) prev bc = (r, bc1)" by fastforce
      have unf: "catch_up E D slow off hs latest next prev bc = (case r of Inl e \<Rightarrow> Some (Inl e, bc1)
          | Inr b \<Rightarrow> catch_up E D slow off hs' latest' (next + 1) (Some b) bc1)"
        unfolding catch_up.simps [of E D slow off hs] using False
        by (simp only: Let_def a Inr r prod.case sum.case if_False split: sum.splits)
      from IH show ?thesis unfolding unf by (cases r) simp_all
    qed
  qed
qed

lemma live_sync_total:
  "- 1 \<notin> set heads \<Longrightarrow> \<exists>p. live_sync E D slow off heads next prev bc = Some p"
proof (induction heads arbitrary: "next" prev bc)
  case (Cons head heads)
  then obtain r bc1 where "up_to_head E D slow off head next prev bc = Some (r, bc1)"
    using up_to_head_total [of head E D slow off "next" prev bc] by fastforce
  with Cons show ?case by (cases r) auto
qed simp

end
