(* ===== verification/Sync_Run.thy ===== *)
theory Sync_Run
  imports Chain_Proofs
begin

text \<open>
  Whole runs of \<open>SyncChain\<close> on a node that \<open>NewBlobcastChain\<close> has just opened: the genesis
  block, the catch-up and the live loop together.
\<close>

section \<open>Genesis\<close>

definition genesis_block :: "blake3 \<Rightarrow> bytes \<Rightarrow> u64 \<Rightarrow> gotime \<Rightarrow> Block" where
  "genesis_block B cid off time = (NewBlock B [] [] [])\<lparr>b_Header := (b_Header (NewBlock B [] [] []))
     \<lparr>bh_ChainID := cid, bh_Height := 0, bh_CelestiaBlockHeight := off, bh_Timestamp := time\<rparr>\<rparr>"

lemma genesis_block_ok: "block_ok B cid off [genesis_block B cid off time] 0"
  by (simp add: block_ok_def Let_def genesis_block_def roots_ok_def bb_fits_def state_leaves_def
      NewBlock_def NewBlockFromHeader_def CopyBlockHeader_def bh_zero_def empty_root hash_IsZero_def)

lemma chain_repr_genesis:
  assumes repr: "chain_repr B cid off c bs" and short: "length bs \<le> 1"
    and c': "c' = c(blk_key 0 \<mapsto> b_Bytes (genesis_block B cid off time), blkh_key x \<mapsto> y)"
  shows "chain_repr B cid off c' [genesis_block B cid off time]"
proof -
  have other: "c' (mmr_key j) = c (mmr_key j)" "c' keyFinalizedHeight = c keyFinalizedHeight"
    "c' keyChainID = c keyChainID" "c' keyCelestiaHeightOffset = c keyCelestiaHeightOffset" for j
    using encode_key_inj [of "KMMR j" "KBlock 0"] encode_key_inj [of "KMMR j" "KBlockHash x"]
      encode_key_inj [of KFinalized "KBlock 0"] encode_key_inj [of KFinalized "KBlockHash x"]
      encode_key_inj [of KChainID "KBlock 0"] encode_key_inj [of KChainID "KBlockHash x"]
      encode_key_inj [of KOffset "KBlock 0"] encode_key_inj [of KOffset "KBlockHash x"]
    by (simp_all add: c')
  have none: "c (mmr_key j) = None" for j
  proof (rule ccontr)
    assume "c (mmr_key j) \<noteq> None"
    with repr have "0 < unat j" "unat j < length bs" by (auto simp: chain_repr_def ranges_ok_def)
    with short show False by linarith
  qed
  have blk: "c' (blk_key 0) = Some (b_Bytes (genesis_block B cid off time))"
    using encode_key_inj [of "KBlock 0" "KBlockHash x"] by (simp add: c')
  have "db_keys_ok c'"
    using repr db_keys_ok_upd [OF db_keys_ok_upd [where K = "KBlock 0"], where K = "KBlockHash x"]
    by (simp add: chain_repr_def c')
  moreover have "ranges_ok B c' [genesis_block B cid off time]"
    by (simp add: ranges_ok_def other none)
  moreover have "meta_ok cid off c'" using repr by (simp add: meta_ok_def other chain_repr_def)
  moreover have "c' keyFinalizedHeight = None" using repr short by (simp add: other chain_repr_def)
  ultimately show ?thesis using blk genesis_block_ok by (simp add: chain_repr_def)
qed

lemma genesis_step_cases:
  assumes "genesis_step E D off bc = (Inr b, bc')"
  obtains tx tx' cache s where "\<not> cs_pending (bc_state bc)"
    "CreateGenesisBlock E D (bc_chainID bc) (bc_cache bc) (NewChainStateTransaction E (cs_db (bc_state bc))) off
       = (Inr (b, tx), cache)"
    "Commit E tx ((bc_state bc)\<lparr>cs_pending := True\<rparr>) = (Inr (), tx', s)"
    "bc' = bc\<lparr>bc_state := s, bc_cache := cache\<rparr>"
  using assms that
  by (auto simp: genesis_step_def BeginTransaction_def Let_def abort_with_def
      split: sum.splits prod.splits if_splits)

lemma CreateGenesisBlock_effect:
  assumes P: "pebble_ok (e_db E) V" and run: "CreateGenesisBlock E D cid Map.empty tx off = (Inr (b, tx'), cache)"
  obtains time where "b = genesis_block (e_B E) cid off time"
    "tx_view V d tx' = (tx_view V d tx)(blk_key 0 \<mapsto> b_Bytes b,
       blkh_key (header_hash (e_B E) (b_Header b)) \<mapsto> BytesFromUint64Key 0)"
    "nil_maps tx' = nil_maps tx" "cache = [0 \<mapsto> header_hash (e_B E) (b_Header b)]"
proof -
  from run obtain time where time: "da_header D off = Inr time"
    by (auto simp: CreateGenesisBlock_def split: sum.splits)
  let ?b = "genesis_block (e_B E) cid off time"
  let ?x = "header_hash (e_B E) (b_Header ?b)"
  have h: "b_Height ?b = 0" "bh_Height (b_Header ?b) = 0" by (simp_all add: genesis_block_def b_Height_def)
  have hash: "b_Hash (e_B E) Map.empty ?b = (?x, [0 \<mapsto> ?x])" "b_Hash (e_B E) [0 \<mapsto> ?x] ?b = (?x, [0 \<mapsto> ?x])"
    by (simp_all add: b_Hash_def bh_Hash_def h header_hash_def Let_def)
  from run time h hash have put: "PutBlock E [0 \<mapsto> ?x] tx 0 ?b = Inr (tx', cache)" and b: "b = ?b"
    by (auto simp: CreateGenesisBlock_def Let_def simp flip: genesis_block_def split: sum.splits)
  note pb = PutBlock_effect [OF P put]
  show thesis using pb hash b by (intro that [of time]) simp_all
qed

lemma genesis_step_node:
  assumes E: "env_ok E V" and repr: "chain_repr (e_B E) cid off (content V (cs_db (bc_state bc))) bs"
    and short: "length bs \<le> 1" and cache: "bc_cache bc = Map.empty" and cid: "bc_chainID bc = cid"
    and sound: "store_sound E g (content V (cs_db (bc_state bc)))"
    and run: "genesis_step E D off bc = (Inr b, bc')"
  shows "node_inv E V g cid off bc' [b]" and "prev_ok (Some b) [b]"
proof -
  let ?d = "cs_db (bc_state bc)" and ?tx = "NewChainStateTransaction E (cs_db (bc_state bc))"
  note P = env_okD(2) [OF E]
  obtain tx tx' cache s where step:
    "CreateGenesisBlock E D (bc_chainID bc) (bc_cache bc) ?tx off = (Inr (b, tx), cache)"
    "Commit E tx ((bc_state bc)\<lparr>cs_pending := True\<rparr>) = (Inr (), tx', s)"
    "bc' = bc\<lparr>bc_state := s, bc_cache := cache\<rparr>"
    using run by (rule genesis_step_cases)
  obtain time where b: "b = genesis_block (e_B E) cid off time"
    and view: "tx_view V ?d tx = (tx_view V ?d ?tx)(blk_key 0 \<mapsto> b_Bytes b,
       blkh_key (header_hash (e_B E) (b_Header b)) \<mapsto> BytesFromUint64Key 0)"
    and nil: "nil_maps tx = nil_maps ?tx" and c: "cache = [0 \<mapsto> header_hash (e_B E) (b_Header b)]"
    by (rule CreateGenesisBlock_effect [OF P step(1) [unfolded cache cid], of ?d])
  have "\<not> nil_maps tx" using nil by (simp add: nil_maps_def NewChainStateTransaction_def)
  from Commit_cases(1) [OF P this step(2)] have db: "content V (cs_db s) = tx_view V ?d tx"
    and pend: "\<not> cs_pending s" by simp_all
  have new: "tx_view V ?d ?tx = content V ?d" by (rule tx_view_new [OF P])
  have "same_storage (content V ?d) (content V (cs_db s))"
    unfolding db view new
    using same_storage_upd [OF _ same_storage_upd [OF _ same_storage_refl, of "KBlock 0" "content V ?d" "b_Bytes b"],
      of "KBlockHash (header_hash (e_B E) (b_Header b))" "BytesFromUint64Key 0"] by simp
  then have "store_sound E g (content V (cs_db s))" by (rule store_sound_same [OF sound])
  moreover have "chain_repr (e_B E) cid off (content V (cs_db s)) [b]"
    unfolding b by (rule chain_repr_genesis [OF repr short]) (simp add: db view new b)
  ultimately show "node_inv E V g cid off bc' [b]"
    using pend by (simp add: node_inv_def step(3) cid c cache_ok_def)
  show "prev_ok (Some b) [b]" by (simp add: prev_ok_def)
qed

lemma genesis_step_fails:
  "genesis_step E D off bc = (Inl e, bc') \<Longrightarrow> cs_db (bc_state bc') = cs_db (bc_state bc)"
  by (auto simp: genesis_step_def BeginTransaction_def Let_def abort_with_def Abort_def Commit_def
      split: sum.splits prod.splits if_splits)

section \<open>Where a run starts\<close>

text \<open>A node just opened on a database that holds the chain \<open>bs\<close>.\<close>

definition fresh_node ::
  "('d, 'b) env \<Rightarrow> ('d, 'b) store_view \<Rightarrow> (hash \<Rightarrow> bytes) \<Rightarrow> bytes \<Rightarrow> u64 \<Rightarrow> 'd bchain \<Rightarrow> Block list \<Rightarrow> bool" where
  "fresh_node E V g cid off bc bs \<longleftrightarrow> bc_chainID bc = cid \<and> \<not> cs_pending (bc_state bc)
     \<and> bc_cache bc = Map.empty \<and> chain_repr (e_B E) cid off (content V (cs_db (bc_state bc))) bs
     \<and> store_sound E g (content V (cs_db (bc_state bc)))"

text \<open>A run keeps the chain it found; a chain of genesis alone is begun again.\<close>

definition extends :: "Block list \<Rightarrow> Block list \<Rightarrow> bool" where
  "extends bs bs' \<longleftrightarrow> bs' = bs \<or> (if length bs \<le> 1 then bs' \<noteq> [] else \<exists>xs. bs' = bs @ xs)"

lemma extends_append: "extends bs bs' \<Longrightarrow> bs' \<noteq> [] \<Longrightarrow> extends bs (bs' @ xs)"
  by (auto simp: extends_def)

lemma FinalizedHeight_repr:
  assumes P: "pebble_ok (e_db E) V" and repr: "chain_repr B cid off (content V d) bs"
    and run: "FinalizedHeight E d = Inr h"
  shows "h = of_nat (length bs - 1)"
proof -
  from run obtain v where "db_get (e_db E) d keyFinalizedHeight = Inr v"
    by (auto simp: FinalizedHeight_def rbind_eq_Inr)
  with db_getD [OF P] have "db_get (e_db E) d keyFinalizedHeight = Inr (content V d keyFinalizedHeight)" by blast
  with run repr show ?thesis by (auto simp: FinalizedHeight_def chain_repr_def split: if_splits)
qed

lemma start_sync_node:
  assumes E: "env_ok E V" and fresh: "fresh_node E V g cid off bc bs" and n: "length bs \<le> 2 ^ 37 + 1"
    and run: "start_sync E D off bc = (Inr (nextHeight, prev), bc')"
  obtains bs' where "extends bs bs'" "bs' \<noteq> []" "length bs' = max 1 (length bs)"
    "nextHeight = of_nat (length bs')" "node_inv E V g cid off bc' bs'" "prev_ok prev bs'"
proof -
  note P = env_okD(2) [OF E]
  have repr: "chain_repr (e_B E) cid off (content V (cs_db (bc_state bc))) bs"
    and cache: "bc_cache bc = Map.empty" and cid: "bc_chainID bc = cid"
    and sound: "store_sound E g (content V (cs_db (bc_state bc)))"
    using fresh by (simp_all add: fresh_node_def)
  from run obtain h where "FinalizedHeight E (cs_db (bc_state bc)) = Inr h"
    by (auto simp: start_sync_def split: sum.splits)
  with FinalizedHeight_repr [OF P repr] have
    h: "FinalizedHeight E (cs_db (bc_state bc)) = Inr (of_nat (length bs - 1))" by simp
  have nat: "unat (of_nat k :: u64) = k" if "k \<le> length bs" for k
    using that n by (intro unat_of_nat_u64) simp
  show thesis
  proof (cases "length bs \<le> 1")
    case True
    with run h obtain b where "genesis_step E D off bc = (Inr b, bc')" "nextHeight = 1" "prev = Some b"
      by (auto simp: start_sync_def split: sum.splits prod.splits)
    with genesis_step_node [OF E repr True cache cid sound] True show thesis
      by (intro that [of "[b]"]) (auto simp: extends_def)
  next
    case False
    then have "of_nat (length bs - 1) + 1 = (of_nat (length bs) :: u64)" by (cases bs) (simp_all add: add.commute)
    moreover have "(of_nat (length bs - 1) :: u64) > 0" "(of_nat (length bs) :: u64) \<noteq> 0"
      using False nat [of "length bs - 1"] nat [of "length bs"] by (auto simp: word_less_nat_alt)
    ultimately have "nextHeight = of_nat (length bs)" "prev = None" "bc' = bc"
      using run h by (simp_all add: start_sync_def)
    with fresh False n show thesis
      by (intro that [of bs]) (auto simp: extends_def node_inv_def fresh_node_def prev_ok_def cache_ok_def)
  qed
qed

lemma start_sync_fails:
  "start_sync E D off bc = (Inl e, bc') \<Longrightarrow> cs_db (bc_state bc') = cs_db (bc_state bc)"
  by (auto simp: start_sync_def split: sum.splits prod.splits if_splits dest: genesis_step_fails)

section \<open>Whole runs\<close>

text \<open>What a database holds after a run: a sound store and an extension of the chain.\<close>

definition run_ok ::
  "('d, 'b) env \<Rightarrow> ('d, 'b) store_view \<Rightarrow> (hash \<Rightarrow> bytes) \<Rightarrow> bytes \<Rightarrow> u64 \<Rightarrow> Block list \<Rightarrow> 'd bchain \<Rightarrow> bool" where
  "run_ok E V g cid off bs bc \<longleftrightarrow> (\<exists>bs'. extends bs bs'
     \<and> chain_repr (e_B E) cid off (content V (cs_db (bc_state bc))) bs'
     \<and> store_sound E g (content V (cs_db (bc_state bc))))"

lemma run_ok_same:
  "fresh_node E V g cid off bc bs \<Longrightarrow> cs_db (bc_state bc') = cs_db (bc_state bc) \<Longrightarrow> run_ok E V g cid off bs bc'"
  by (auto simp: run_ok_def fresh_node_def extends_def)

lemma run_ok_progress:
  assumes "progress_ok E V g cid off bs' (r, bc)" "extends bs bs'" "bs' \<noteq> []"
  shows "run_ok E V g cid off bs bc"
  using assms extends_append unfolding progress_ok_def run_ok_def Let_def prod.case by blast

lemma SyncChain_run_ok:
  assumes E: "env_ok E V" and g: "commitments_bind D g" "blobs_fit D" and off: "unat off \<le> 2 ^ 37"
    and fresh: "fresh_node E V g cid off bc bs" and n: "length bs \<le> 2 ^ 37 + 1"
    and offset: "CelestiaHeightOffset E (cs_db (bc_state bc)) = Inr off"
    and bounds: "\<And>L. Inr L \<in> set heights \<Longrightarrow> unat L \<le> 2 ^ 37" "\<And>L hs. heads = Inr hs \<Longrightarrow> L \<in> set hs \<Longrightarrow> unat L \<le> 2 ^ 37"
    and run: "SyncChain E D slow heights heads bc = Some (r, bc')"
  shows "run_ok E V g cid off bs bc'"
proof -
  obtain st bc1 where st: "start_sync E D off bc = (st, bc1)" by fastforce
  show ?thesis
  proof (cases st)
    case (Inl e)
    with run offset st have "bc' = bc1" by (simp add: SyncChain_def)
    with run_ok_same [OF fresh] start_sync_fails st Inl show ?thesis by metis
  next
    case (Inr np)
    then obtain nextHeight prev where np: "st = Inr (nextHeight, prev)" by (cases np) simp
    obtain bs' where "extends bs bs'" "bs' \<noteq> []" "length bs' = max 1 (length bs)"
      "nextHeight = of_nat (length bs')" "node_inv E V g cid off bc1 bs'" "prev_ok prev bs'"
      by (rule start_sync_node [OF E fresh n st [unfolded np]])
    moreover from this n have "length bs' \<le> 2 ^ 37 + 1" by simp
    ultimately have bs': "extends bs bs'" "bs' \<noteq> []" "length bs' \<le> 2 ^ 37 + 1"
      "nextHeight = of_nat (length bs')" "node_inv E V g cid off bc1 bs'" "prev_ok prev bs'" by simp_all
    have here: "run_ok E V g cid off bs bc1"
      using bs'(1,5) by (auto simp: run_ok_def node_inv_def)
    obtain answer hs' where a: "next_answer heights = (answer, hs')" by fastforce
    show ?thesis
    proof (cases answer)
      case (Inl e)
      with run offset st np a have "bc' = bc1" by (simp add: SyncChain_def)
      with here show ?thesis by simp
    next
      case (Inr latest)
      with a next_answer_bound [of heights "2 ^ 37" latest hs'] bounds(1)
      have latest: "unat latest \<le> 2 ^ 37" "set hs' \<subseteq> set heights" by auto
      from run offset st np a Inr obtain q where q: "catch_up E D slow off hs' latest nextHeight prev bc1 = Some q"
        by (auto simp: SyncChain_def split: option.splits)
      have ok: "progress_ok E V g cid off bs' q"
        using latest bounds(1) by (intro catch_up_progress [OF E g off q bs'(5,2,6,3,4)]) auto
      obtain r1 bc2 where q2: "q = (r1, bc2)" by fastforce
      note here2 = run_ok_progress [OF ok [unfolded q2] bs'(1,2)]
      show ?thesis
      proof (cases r1)
        case (Inl e)
        with run offset st np a Inr q q2 have "bc' = bc2" by (simp add: SyncChain_def)
        with here2 show ?thesis by simp
      next
        case r1: (Inr np2)
        then obtain n2 p2 where np2: "r1 = Inr (n2, p2)" by (cases np2) simp
        show ?thesis
        proof (cases heads)
          case (Inl e)
          with run offset st np a Inr q q2 np2 have "bc' = bc2" by (simp add: SyncChain_def)
          with here2 show ?thesis by simp
        next
          case (Inr hs)
          with run offset st np a \<open>answer = Inr latest\<close> q q2 np2 obtain r3 where
            live: "live_sync E D slow off hs n2 p2 bc2 = Some (r3, bc')"
            by (auto simp: SyncChain_def)
          from ok obtain xs where xs: "node_inv E V g cid off bc2 (bs' @ xs)" "prev_ok p2 (bs' @ xs)"
            "n2 = of_nat (length (bs' @ xs))" "length (bs' @ xs) \<le> 2 ^ 37 + 1"
            unfolding progress_ok_def q2 np2 Let_def prod.case sum.case by blast
          have "progress_ok E V g cid off (bs' @ xs) (r3, bc')"
            using bs'(2) bounds(2) [OF Inr]
            by (intro live_sync_progress [OF E g off live xs(1) _ xs(2,4,3)]) auto
          from run_ok_progress [OF progress_ok_step [OF this] bs'(1,2)] show ?thesis .
        qed
      qed
    qed
  qed
qed

text \<open>Every run ends, unless a received head has the largest height: then the loop cannot pass it.\<close>

lemma SyncChain_returns:
  assumes "\<And>hs. heads = Inr hs \<Longrightarrow> - 1 \<notin> set hs"
  shows "\<exists>p. SyncChain E D slow heights heads bc = Some p"
proof -
  have live: "\<exists>p. live_sync E D slow off hs n prev bc = Some p" if "heads = Inr hs" for hs off n prev bc
    using assms [OF that] by (rule live_sync_total)
  have after: "\<exists>p. (case catch_up E D slow off hs latest n prev bc of None \<Rightarrow> None
      | Some (Inl e, bc) \<Rightarrow> Some (Inl e, bc)
      | Some (Inr (n, prev), bc) \<Rightarrow> (case wrap ''error subscribing to new celestia headers'' heads of
          Inl e \<Rightarrow> Some (Inl e, bc)
        | Inr heads \<Rightarrow> map_option (\<lambda>(r, bc). (rbind r (\<lambda>_. Inr ()), bc))
            (live_sync E D slow off heads n prev bc))) = Some p" for off hs latest n prev bc
  proof -
    obtain r bc1 where q: "catch_up E D slow off hs latest n prev bc = Some (r, bc1)"
      using catch_up_total [of E D slow off hs latest n prev bc] by fastforce
    show ?thesis
    proof (cases r)
      case (Inl e)
      with q show ?thesis by simp
    next
      case (Inr np)
      obtain n1 p1 where np: "np = (n1, p1)" by fastforce
      show ?thesis
      proof (cases heads)
        case (Inl e)
        with q Inr np \<open>r = Inr np\<close> show ?thesis by simp
      next
        case heads: (Inr hs)
        from live [OF this, of off n1 p1 bc1] q Inr np heads show ?thesis by auto
      qed
    qed
  qed
  show ?thesis
    unfolding SyncChain_def using after by (simp split: sum.split prod.split)
qed

section \<open>Subscribers\<close>

lemma publish_none:
  "subs ident = None \<Longrightarrow> fold (\<lambda>(slow, header) subs. publishNewHeader slow header subs) published subs ident = None"
  by (induction published arbitrary: subs) (auto simp: publishNewHeader_def)

text \<open>The headers a subscriber has not received are a suffix of the published ones.\<close>

lemma publish_suffix:
  "fold (\<lambda>(slow, header) subs. publishNewHeader slow header subs) published subs ident = Some buf' \<Longrightarrow>
   subs ident = Some buf \<Longrightarrow> length buf \<le> 100 \<Longrightarrow>
   \<exists>received. buf @ map snd published = received @ buf' \<and> length buf' \<le> 100
     \<and> (length buf + length published \<le> 100 \<longrightarrow> received = [])"
proof (induction published arbitrary: subs buf)
  case (Cons p published)
  obtain slow header where p: "p = (slow, header)" by fastforce
  let ?subs = "publishNewHeader slow header subs"
  have run: "fold (\<lambda>(slow, header) subs. publishNewHeader slow header subs) published ?subs ident = Some buf'"
    using Cons.prems(1) by (simp add: p)
  show ?case
  proof (cases "length buf < 100")
    case True
    with Cons.prems(2) have "?subs ident = Some (buf @ [header])" by (simp add: publishNewHeader_def)
    from Cons.IH [OF run this] True show ?thesis by (auto simp: p)
  next
    case full: False
    have "\<not> slow ident"
    proof
      assume "slow ident"
      with full Cons.prems(2) have "?subs ident = None" by (simp add: publishNewHeader_def)
      with run publish_none show False by fastforce
    qed
    with full Cons.prems(2) have "?subs ident = Some (tl buf @ [header])" by (simp add: publishNewHeader_def)
    from Cons.IH [OF run this] full Cons.prems(3) obtain received where
      "(tl buf @ [header]) @ map snd published = received @ buf'" "length buf' \<le> 100" by auto
    moreover have "buf = hd buf # tl buf" using full by (cases buf) auto
    ultimately have "buf @ map snd (p # published) = (hd buf # received) @ buf'"
      by (metis append_Cons append_assoc list.simps(9) p snd_conv append_Nil)
    with \<open>length buf' \<le> 100\<close> full show ?thesis by (intro exI [of _ "hd buf # received"]) simp
  qed
qed simp

end
