(* ===== verification/Chain_Live.thy ===== *)
theory Chain_Live
  imports Sync_Run
begin

text \<open>
  Progress: on a store whose operations succeed, and when Celestia answers with blobs that
  \<open>SyncBlobs\<close> takes, an iteration of \<open>SyncChain\<close> produces a block, except on a chain of at
  least two blocks that has recorded nothing yet.
\<close>

lemma SyncBlob_nil:
  assumes P: "pebble_ok (e_db E) V" and run: "SyncBlob E d height s b = Inr s'"
  shows "nil_maps (ss_tx s') = nil_maps (ss_tx s)"
proof -
  from run obtain env k where env: "unmarshal (e_envelope E) (bl_Data b) = Inr env"
    "to_hash (bl_Commitment b) = Inr k" by (auto simp: SyncBlob_def rbind_eq_Inr)
  show ?thesis
  proof (cases env)
    case (ChunkDataE cd)
    with run env have "PutChunk E (ss_tx s) k (cd_ChunkData cd) (e_B E (cd_ChunkData cd)) = Inr (ss_tx s')"
      by (auto simp: SyncBlob_def SyncChunk_def rbind_eq_Inr)
    from PutChunk_effect(5) [OF P this] show ?thesis .
  next
    case (FileManifestE m)
    with run env obtain acc tx' heap' where "ss_tx s' = tx'"
      "SyncFileManifest E d (ss_tx s) (ss_heap s) height b m = Inr (acc, tx', heap')"
      by (auto simp: SyncBlob_def rbind_eq_Inr)
    then have "ss_tx s' = ss_tx s \<or> (\<exists>i. PutFileManifest E (ss_tx s) i m = Inr (ss_tx s'))"
      by (auto simp: SyncFileManifest_def Let_def rbind_eq_Inr split: option.splits if_split_asm)
    then show ?thesis using PutFileManifest_effect(5) [OF P] by fastforce
  next
    case (DirectoryManifestE m)
    with run env obtain acc tx' heap' where "ss_tx s' = tx'"
      "SyncDirectoryManifest E d (ss_tx s) (ss_heap s) height b m = Inr (acc, tx', heap')"
      by (auto simp: SyncBlob_def rbind_eq_Inr)
    then have "ss_tx s' = ss_tx s \<or> (\<exists>i. PutDirectoryManifest E (ss_tx s) i m = Inr (ss_tx s'))"
      by (auto simp: SyncDirectoryManifest_def Let_def rbind_eq_Inr split: option.splits if_split_asm)
    then show ?thesis using PutDirectoryManifest_effect(5) [OF P] by fastforce
  next
    case NoPayload
    with run env show ?thesis by (simp add: SyncBlob_def)
  qed
qed

lemma tx_write_total: "pebble_total (e_db E) \<Longrightarrow> \<exists>b. tx_write E tx k v = Inr (tx\<lparr>tx_batch := b\<rparr>)"
  unfolding pebble_total_def tx_write_def by (metis rbind_simps(2))

lemma PutBlock_total: "pebble_total (e_db E) \<Longrightarrow> \<exists>tx' cache'. PutBlock E cache tx h b = Inr (tx', cache')"
proof -
  assume total: "pebble_total (e_db E)"
  obtain b1 where b1: "tx_write E tx (prefixHeightKey h blockPrefix) (b_Bytes b) = Inr (tx\<lparr>tx_batch := b1\<rparr>)"
    using tx_write_total [OF total] by blast
  obtain x c where x: "b_Hash (e_B E) cache b = (x, c)" by fastforce
  obtain tx2 where "tx_write E (tx\<lparr>tx_batch := b1\<rparr>) (prefixKey (hash_Bytes x) blockHashPrefix) (BytesFromUint64Key h) = Inr tx2"
    using tx_write_total [OF total] by blast
  with b1 x show ?thesis by (simp add: PutBlock_def)
qed

lemma GetBlock_total:
  assumes P: "pebble_ok (e_db E) V" "pebble_total (e_db E)"
    and "content V d (blk_key h) = Some (b_Bytes b)" "bb_fits (b_Body b)"
  shows "GetBlock E d h = Inr (Some (b_canon b))"
  using db_get_total [OF P] assms(3) BlockFromBytes_b_Bytes [OF assms(4)]
  by (simp add: GetBlock_def Let_def flip: blk_key_def)

lemma chain_block:
  assumes "chain_repr B cid off c bs" "h < length bs"
  shows "c (blk_key (of_nat h)) = Some (b_Bytes (bs ! h))" "bb_fits (b_Body (bs ! h))"
    "bh_Height (b_Header (bs ! h)) = of_nat h"
  using assms by (simp_all add: chain_repr_def block_ok_def Let_def)

text \<open>The last recorded range serves the height below the next one.\<close>

lemma last_range:
  assumes repr: "chain_repr B cid off c bs" and leaves: "chain_leaves bs \<noteq> []" and n: "length bs < 2 ^ 38"
  obtains j s where "0 < j" "j < length bs" "serves c (of_nat (length bs - 1)) (of_nat j) s"
proof -
  let ?P = "\<lambda>h. h < length bs \<and> state_leaves (bs ! h) \<noteq> []"
  from leaves obtain b where "b \<in> set bs" "state_leaves b \<noteq> []" by (auto simp: chain_leaves_def)
  then obtain h where h: "?P h" by (auto simp: in_set_conv_nth)
  define j where "j = Greatest ?P"
  have j: "?P j" unfolding j_def by (rule GreatestI_nat [where P = ?P, OF h, of "length bs"]) simp
  have top: "i \<le> j" if "?P i" for i
    unfolding j_def by (rule Greatest_le_nat [where P = ?P, OF that, of "length bs"]) simp
  have nat: "unat (of_nat k :: u64) = k" if "k \<le> length bs" for k
    using that n by (intro unat_of_nat_u64) simp
  have "0 < length bs" using j by linarith
  with repr have ranges: "ranges_ok B c bs" and b0: "block_ok B cid off bs 0"
    unfolding chain_repr_def by blast+
  have "state_leaves (bs ! 0) = []" using b0 by (simp add: block_ok_def Let_def)
  then have "j \<noteq> 0" using j by metis
  then obtain s where s: "c (mmr_key (of_nat j)) = Some s" using ranges j by (auto simp: ranges_ok_def)
  have "serves c (of_nat (length bs - 1)) (of_nat j) s"
    unfolding serves_def
  proof (intro conjI allI impI)
    show "(of_nat j :: u64) \<le> of_nat (length bs - 1)"
      unfolding word_le_nat_alt using j nat [of j] nat [of "length bs - 1"] by linarith
    show "c (mmr_key (of_nat j)) = Some s" by (rule s)
    fix i :: u64
    assume "c (mmr_key i) \<noteq> None"
    with ranges have "?P (unat i)" by (simp add: ranges_ok_def)
    then have "unat i \<le> j" by (rule top)
    then show "i \<le> of_nat j" using j nat [of j] by (simp add: word_le_nat_alt)
  qed
  with \<open>j \<noteq> 0\<close> j that show thesis by blast
qed

lemma GetStateMMR_total:
  assumes P: "pebble_ok (e_db E) V" "pebble_total (e_db E)"
    and repr: "chain_repr (e_B E) cid off (content V d) bs" and n: "length bs < 2 ^ 38"
    and ok: "length bs = 1 \<or> chain_leaves bs \<noteq> []"
  shows "\<exists>m. GetStateMMR E d (of_nat (length bs - 1)) = Inr m"
proof (cases "length bs = 1")
  case True
  then show ?thesis by (simp add: GetStateMMR_def)
next
  case False
  with ok obtain j s where j: "0 < j" "j < length bs" "serves (content V d) (of_nat (length bs - 1)) (of_nat j) s"
    using last_range [OF repr _ n] by blast
  have nat: "unat (of_nat k :: u64) = k" if "k \<le> length bs" for k
    using that n by (intro unat_of_nat_u64) simp
  have "unat (of_nat (length bs - 1) + 1 :: u64) = length bs"
    using j(2) nat [of "length bs - 1"] n by (subst unat_Suc_u64) simp_all
  then have "(of_nat (length bs - 1) :: u64) + 1 \<noteq> 0" using j(2) by (auto simp: unat_eq_0 [symmetric])
  moreover have "(of_nat (length bs - 1) :: u64) \<noteq> 0"
    using j nat [of "length bs - 1"] by (auto simp: unat_eq_0 [symmetric])
  ultimately have "GetStateMMR E d (of_nat (length bs - 1)) = NewMMRFromSnapshot s"
    using GetStateMMR_serves(1) [OF P _ _ _ j(3)] repr by (simp add: chain_repr_def)
  moreover have "content V d (mmr_key (of_nat j)) = Some s" using j(3) by (simp add: serves_def)
  then have "\<exists>m. NewMMRFromSnapshot s = Inr m"
    using repr j(2) unfolding chain_repr_def ranges_ok_def by blast
  ultimately show ?thesis by simp
qed

lemma apply_state_total:
  assumes E: "env_ok E V" "pebble_total (e_db E)" and repr: "chain_repr (e_B E) cid off (content V d) bs"
    and ne: "bs \<noteq> []" and n: "length bs < 2 ^ 38" and ok: "length bs = 1 \<or> chain_leaves bs \<noteq> []"
    and h: "b_Height b = of_nat (length bs)"
  shows "\<exists>tx' b'. apply_state E d tx b = Inr (tx', b')"
proof -
  let ?B = "e_B E"
  note B = env_okD(1) [OF E(1)] and P = env_okD(2) [OF E(1)]
  have i: "b_Height b - 1 = of_nat (length bs - 1)" using ne h by (cases bs) simp_all
  obtain m where m: "GetStateMMR E d (b_Height b - 1) = Inr m"
    using GetStateMMR_total [OF P E(2) repr n ok] i by auto
  define m' where "m' = fold (\<lambda>leaf m. snd (AddLeaf ?B leaf m)) (state_leaves b) m"
  have st: "mmr_state ?B (map ?B (chain_leaves bs)) m" using GetStateMMR_last [OF P repr ne n] m i by simp
  have len: "length (chain_leaves bs) + length (state_leaves b) < 2 ^ 40"
    using length_chain_leaves [of bs] length_state_leaves [of b] n by simp
  then have st': "mmr_state ?B (map ?B (chain_leaves bs @ state_leaves b)) m'"
    using add_all_state [OF B st, of "state_leaves b"] by (simp add: m'_def)
  have "iter_of (e_iter E m') m'" using st' by (intro env_okD(3) [OF E(1)]) (simp add: mmr_state_def)
  from Restore_Snapshot_state [OF B st' _ this] len obtain s where s: "Snapshot (e_iter E m') m' = Inr s" by auto
  obtain tx' where "PutStateMMR E tx (b_Height b) m' = Inr tx'"
    using tx_write_total [OF E(2), of tx "prefixHeightKey (b_Height b) stateMMRPrefix" s] s
    by (cases "b_Height b = 0") (auto simp: PutStateMMR_def)
  then have put: "PutStateMMR E tx (b_Height b) (fold (\<lambda>leaf m. snd (AddLeaf ?B leaf m)) (state_leaves b) m) = Inr tx'"
    by (simp add: m'_def)
  show ?thesis
  proof (cases "state_leaves b = []")
    case True
    then show ?thesis by (simp add: apply_state_def m Let_def)
  next
    case False
    moreover have "b_Height (b\<lparr>b_Header := x\<rparr>) = bh_Height x" for x by (simp add: b_Height_def)
    ultimately show ?thesis using put using m by (simp add: apply_state_def Let_def b_Height_def)
  qed
qed

lemma ApplyBlock_total:
  assumes E: "env_ok E V" "pebble_total (e_db E)" and repr: "chain_repr (e_B E) cid off (content V d) bs"
    and ne: "bs \<noteq> []" and prev: "prev_ok prev bs" and n: "length bs < 2 ^ 38"
    and ok: "length bs = 1 \<or> chain_leaves bs \<noteq> []" and h: "b_Height b = of_nat (length bs)"
  shows "\<exists>tx' b' cache'. ApplyBlock E d cache tx b prev = (Inr (tx', b'), cache')"
proof -
  let ?n = "of_nat (length bs) :: u64" and ?B = "e_B E"
  note P = env_okD(2) [OF E(1)]
  have nat: "unat ?n = length bs" using n by (intro unat_of_nat_u64) simp
  have i: "?n - 1 = of_nat (length bs - 1)" using ne by (cases bs) simp_all
  have last: "length bs - 1 < length bs" using ne by simp
  note cb = chain_block [OF repr last]
  obtain p where p: "parent_of E d b prev = Inr p"
  proof (cases prev)
    case None
    have "GetBlock E d (of_nat (length bs - 1)) = Inr (Some (b_canon (bs ! (length bs - 1))))"
      by (rule GetBlock_total [OF P E(2) cb(1,2)])
    then show thesis using that cb(3) None h i by (simp add: parent_of_def b_Height_def b_canon_def bh_canon_def)
  next
    case (Some q)
    then have "b_canon q = b_canon (bs ! (length bs - 1))" using prev ne by (simp add: prev_ok_def last_conv_nth)
    from arg_cong [OF this, of b_Height] have "b_Height q = of_nat (length bs - 1)"
      using cb(3) by (simp add: b_Height_def b_canon_def bh_canon_def)
    then show thesis using that Some h i by (simp add: parent_of_def)
  qed
  obtain ph cache1 where ph: "b_Hash ?B cache p = (ph, cache1)" by fastforce
  define b1 where "b1 = b\<lparr>b_Header := (b_Header b)\<lparr>bh_ParentHash := ph\<rparr>\<rparr>"
  have h1: "b_Height b1 = ?n" using h by (simp add: b1_def b_Height_def)
  obtain tx2 b2 where st: "apply_state E d tx b1 = Inr (tx2, b2)"
    using apply_state_total [OF E repr ne n ok h1] by blast
  obtain x cache2 where x: "b_Hash ?B cache1 b2 = (x, cache2)" by fastforce
  obtain tx3 cache3 where put: "PutBlock E cache2 tx2 (b_Height b2) b2 = Inr (tx3, cache3)"
    using PutBlock_total [OF E(2)] by blast
  have "0 < b_Height b" unfolding h word_less_nat_alt nat using ne by simp
  with p ph st x put show ?thesis by (simp add: ApplyBlock_def Let_def b1_def)
qed

lemma sync_step_live:
  assumes E: "env_ok E V" "pebble_total (e_db E)" and inv: "node_inv E V g cid off bc bs" and ne: "bs \<noteq> []"
    and prev: "prev_ok prev bs" and n: "length bs < 2 ^ 38" and ok: "length bs = 1 \<or> chain_leaves bs \<noteq> []"
    and D: "da_header D ch = Inr time" "da_blobs D ch = Inr blobs"
    and blobs: "SyncBlobs E (cs_db (bc_state bc)) (NewChainStateTransaction E (cs_db (bc_state bc))) (bc_heap bc) ch blobs = Inr s"
  shows "\<exists>b bc'. sync_step E D slow (of_nat (length bs)) ch prev bc = (Inr b, bc')"
proof -
  let ?d = "cs_db (bc_state bc)" and ?n = "of_nat (length bs) :: u64" and ?B = "e_B E"
  let ?tx0 = "NewChainStateTransaction E ?d"
  note P = env_okD(2) [OF E(1)]
  have repr: "chain_repr ?B cid off (content V ?d) bs" and pend: "\<not> cs_pending (bc_state bc)"
    and cid: "bc_chainID bc = cid" and cache: "cache_ok ?B (bc_cache bc) bs"
    using inv by (simp_all add: node_inv_def)
  obtain b tx1 heap where prod: "ProduceBlock E D cid ?d ?tx0 (bc_heap bc) ?n ch = Inr (b, tx1, heap)"
    and h: "b_Height b = ?n" and tx1: "tx1 = ss_tx s"
    using D blobs by (simp add: ProduceBlock_def ProduceBlockFromCelestiaHeight_def SyncCelestiaHeight_def b_Height_def)
  have nil1: "\<not> nil_maps tx1"
    unfolding tx1 using blobs unfolding SyncBlobs_def
    by (rule fold_res_invariant [where I = "\<lambda>s. \<not> nil_maps (ss_tx s)"])
       (auto simp: nil_maps_def NewChainStateTransaction_def dest: SyncBlob_nil [OF P])
  obtain tx3 b2 cache3 where app: "ApplyBlock E ?d (bc_cache bc) tx1 b prev = (Inr (tx3, b2), cache3)"
    using ApplyBlock_total [OF E repr ne prev n ok h] by blast
  have nil3: "\<not> nil_maps tx3"
    using ApplyBlock_effect(3) [OF E(1) repr ne cache prev [unfolded prev_ok_def] n h app] nil1 by simp
  obtain bt where fin: "FinalizeBlock E tx3 ?n = Inr (tx3\<lparr>tx_batch := bt\<rparr>)"
    using tx_write_total [OF E(2), of tx3] unfolding FinalizeBlock_def SetFinalizedHeight_def by blast
  obtain d' where "batch_commit (e_db E) ?d bt = Inr d'" using E(2) unfolding pebble_total_def by blast
  with nil3 have com: "fst (Commit E (tx3\<lparr>tx_batch := bt\<rparr>) s0) = Inr ()" if "cs_db s0 = ?d" for s0
    using that by (simp add: Commit_def nil_maps_def)
  let ?bc1 = "bc\<lparr>bc_state := (bc_state bc)\<lparr>cs_pending := True\<rparr>, bc_heap := heap, bc_cache := cache3\<rparr>"
  obtain r tx4 s' where c: "Commit E (tx3\<lparr>tx_batch := bt\<rparr>) (bc_state ?bc1) = (r, tx4, s')" by (metis prod_cases3)
  with com [of "bc_state ?bc1"] have "r = Inr ()" by simp
  have "run_block E D ?n ch prev ?tx0 (bc\<lparr>bc_state := (bc_state bc)\<lparr>cs_pending := True\<rparr>\<rparr>) = (Inr (b2, tx3\<lparr>tx_batch := bt\<rparr>), ?bc1)"
    using prod app fin cid by (simp add: run_block_def Let_def)
  with c \<open>r = Inr ()\<close> pend show ?thesis by (simp add: sync_step_def BeginTransaction_def Let_def)
qed

end
