(* ===== verification/Loops.thy ===== *)
theory Loops
  imports Prelude
begin

text \<open>
  Go's loop \<open>for h := start; h <= end; h++\<close> over \<open>uint64\<close>, with a body that may return early.
  The increment wraps: with the largest \<open>end\<close> the condition never fails. Below it the loop runs
  its body once for every height of the range, in order.
\<close>

partial_function (option) up_loop ::
  "u64 \<Rightarrow> u64 \<Rightarrow> (u64 \<Rightarrow> 's \<Rightarrow> unit result \<times> 's) \<Rightarrow> 's \<Rightarrow> (unit result \<times> 's) option"
where
  "up_loop h end_height body s =
     (if h \<le> end_height
      then case body h s of
          (Inl e, s') \<Rightarrow> Some (Inl e, s')
        | (Inr _, s') \<Rightarrow> up_loop (h + 1) end_height body s'
      else Some (Inr (), s))"

declare up_loop.simps [code]

text \<open>The same over a list of heights.\<close>

fun run_list :: "('a \<Rightarrow> 's \<Rightarrow> unit result \<times> 's) \<Rightarrow> 'a list \<Rightarrow> 's \<Rightarrow> unit result \<times> 's" where
  "run_list body [] s = (Inr (), s)"
| "run_list body (h # hs) s = (case body h s of
      (Inl e, s') \<Rightarrow> (Inl e, s')
    | (Inr _, s') \<Rightarrow> run_list body hs s')"

definition height_range :: "u64 \<Rightarrow> u64 \<Rightarrow> u64 list" where
  "height_range a b = map of_nat [unat a..<Suc (unat b)]"

lemma height_range_empty: "b < a \<Longrightarrow> height_range a b = []"
  by (simp add: height_range_def word_less_nat_alt)

lemma unat_succ_below:
  assumes "a \<le> b" "b \<noteq> (- 1 :: u64)"
  shows "unat (a + 1) = unat a + 1"
proof -
  have "a + 1 \<noteq> 0"
  proof
    assume "a + 1 = 0"
    then have "a = - 1" by (simp add: eq_neg_iff_add_eq_0)
    with assms show False using word_order.extremum_uniqueI by blast
  qed
  then show ?thesis using unatSuc [of a] by (simp add: add.commute)
qed

lemma height_range_Cons: "a \<le> b \<Longrightarrow> b \<noteq> - 1 \<Longrightarrow> height_range a b = a # height_range (a + 1) b"
proof -
  assume le: "a \<le> b" and top: "b \<noteq> - 1"
  have ab: "unat a \<le> unat b" using le by (simp add: word_le_nat_alt)
  have "unat (a + 1) = unat a + 1" by (rule unat_succ_below [OF le top])
  with ab show ?thesis by (simp add: height_range_def upt_conv_Cons del: upt_Suc)
qed

lemma set_height_range: "h \<in> set (height_range a b) \<longleftrightarrow> a \<le> h \<and> h \<le> b"
proof
  assume "h \<in> set (height_range a b)"
  then obtain n where n: "h = of_nat n" "unat a \<le> n" "n < Suc (unat b)" by (auto simp: height_range_def)
  moreover have "unat h = n" unfolding n(1)
    by (rule unat_of_nat_u64) (use n(3) unat_less_pow64 [of b] in linarith)
  ultimately show "a \<le> h \<and> h \<le> b" by (simp add: word_le_nat_alt)
next
  assume "a \<le> h \<and> h \<le> b"
  then have "unat h \<in> set [unat a..<Suc (unat b)]" by (auto simp: word_le_nat_alt)
  then show "h \<in> set (height_range a b)"
    unfolding height_range_def set_map by (intro image_eqI [of _ _ "unat h"]) simp_all
qed

theorem up_loop_run:
  assumes "b \<noteq> - 1"
  shows "up_loop a b body s = Some (run_list body (height_range a b) s)"
proof (induction "Suc (unat b) - unat a" arbitrary: a s rule: less_induct)
  case less
  show ?case
  proof (cases "a \<le> b")
    case True
    note hc = height_range_Cons [OF True assms]
    have "unat (a + 1) = unat a + 1" by (rule unat_succ_below [OF True assms])
    moreover have "unat a \<le> unat b" using True by (simp add: word_le_nat_alt)
    ultimately have "up_loop (a + 1) b body s' = Some (run_list body (height_range (a + 1) b) s')" for s'
      by (intro less) linarith
    with True show ?thesis by (subst up_loop.simps) (auto simp: hc split: prod.splits sum.splits)
  next
    case False
    then show ?thesis by (subst up_loop.simps) (simp add: height_range_empty)
  qed
qed

text \<open>A state that every body keeps is kept by the loop.\<close>

lemma run_list_invariant:
  assumes "run_list body hs s = (r, s')" and "I s"
    and "\<And>h s r t. h \<in> set hs \<Longrightarrow> I s \<Longrightarrow> body h s = (r, t) \<Longrightarrow> I t"
  shows "I s'"
  using assms
proof (induction hs arbitrary: s)
  case (Cons h hs)
  obtain r1 s1 where step: "body h s = (r1, s1)" by (cases "body h s")
  have "I s1" using Cons.prems(2,3) step by (meson list.set_intros(1))
  moreover have "h' \<in> set hs \<Longrightarrow> I s \<Longrightarrow> body h' s = (r, t) \<Longrightarrow> I t" for h' s r t
    using Cons.prems(3) by (meson list.set_intros(2))
  ultimately show ?case using Cons.IH Cons.prems(1) step by (cases r1) auto
qed simp

text \<open>When every body succeeds, the loop folds it.\<close>

lemma run_list_fold:
  assumes "\<And>h s. h \<in> set hs \<Longrightarrow> I s \<Longrightarrow> body h s = (Inr (), f h s) \<and> I (f h s)" and "I s"
  shows "run_list body hs s = (Inr (), fold f hs s)"
  using assms by (induction hs arbitrary: s) (auto split: prod.splits)

end
