(* ===== verification/Rollup_Api.thy ===== *)
theory Rollup_Api
  imports Chain_Live Loops
begin

text \<open>
  The gRPC service \<open>pkg/grpc/rollup/server.go\<close>: blocks by height and by hash, the latest block,
  the chain's identity, and the subscription to headers. The hash of a header goes through the
  process-wide cache, so handlers return it. A call reads one value \<open>d\<close> of the database.

  A response stream is the list of messages sent and the cache; what the client does is a
  parameter: the result of the n-th \<open>Send\<close> and whether its context is done after n messages.
\<close>

section \<open>Blocks\<close>

definition rpc_GetBlockByHeight ::
  "('d, 'b) env \<Rightarrow> 'd \<Rightarrow> hash_cache \<Rightarrow> u64 \<Rightarrow> pbBlock result \<times> hash_cache" where
  "rpc_GetBlockByHeight E d cache height =
     (case as_status Internal ''failed to get block by height'' (GetBlock E d height) of
        Inl e \<Rightarrow> (Inl e, cache)
      | Inr None \<Rightarrow> (Inl (Status NotFound ''block not found''), cache)
      | Inr (Some block) \<Rightarrow> (let (p, cache) = b_Proto (e_B E) cache block in (Inr p, cache)))"

definition rpc_GetBlockByHash ::
  "('d, 'b) env \<Rightarrow> 'd \<Rightarrow> hash_cache \<Rightarrow> bytes \<Rightarrow> pbBlock result \<times> hash_cache" where
  "rpc_GetBlockByHash E d cache hash =
     (if length hash \<noteq> 32 then (Inl (Status InvalidArgument ''hash must be 32 bytes''), cache)
      else case as_status Internal ''failed to get block by hash'' (rbind (to_hash hash) (GetBlockByHash E d)) of
        Inl e \<Rightarrow> (Inl e, cache)
      | Inr None \<Rightarrow> (Inl (Status NotFound ''block not found''), cache)
      | Inr (Some block) \<Rightarrow> (let (p, cache) = b_Proto (e_B E) cache block in (Inr p, cache)))"

definition rpc_GetLatestBlock :: "('d, 'b) env \<Rightarrow> 'd \<Rightarrow> hash_cache \<Rightarrow> pbBlock result \<times> hash_cache" where
  "rpc_GetLatestBlock E d cache =
     (case as_status Internal ''failed to get finalized height'' (FinalizedHeight E d) of
        Inl e \<Rightarrow> (Inl e, cache)
      | Inr finalizedHeight \<Rightarrow>
          if finalizedHeight = 0 then (Inl (Status NotFound ''no blocks available''), cache)
          else (case as_status Internal ''failed to get latest block'' (GetBlock E d finalizedHeight) of
            Inl e \<Rightarrow> (Inl e, cache)
          | Inr None \<Rightarrow> (Inl (Status NotFound ''block not found''), cache)
          | Inr (Some block) \<Rightarrow> (let (p, cache) = b_Proto (e_B E) cache block in (Inr p, cache))))"

record ChainInfo =
  ci_ChainId :: bytes
  ci_FinalizedHeight :: u64
  ci_CelestiaHeightOffset :: u64

definition rpc_GetChainInfo :: "('d, 'b) env \<Rightarrow> 'd \<Rightarrow> ChainInfo result" where
  "rpc_GetChainInfo E d =
     rbind (as_status Internal ''failed to get chain ID'' (ChainID E d)) (\<lambda>chainID.
     rbind (as_status Internal ''failed to get finalized height'' (FinalizedHeight E d)) (\<lambda>finalizedHeight.
     rbind (as_status Internal ''failed to get celestia height offset'' (CelestiaHeightOffset E d)) (\<lambda>celestiaOffset.
     Inr \<lparr>ci_ChainId = chainID, ci_FinalizedHeight = finalizedHeight,
          ci_CelestiaHeightOffset = celestiaOffset\<rparr>)))"

section \<open>Streams\<close>

record 'm stream =
  st_sent :: "'m list"
  st_cache :: hash_cache

record client =
  cl_send :: "nat \<Rightarrow> unit result"
  cl_done :: "nat \<Rightarrow> bool"

text \<open>A client that takes everything and stays.\<close>

definition willing :: "client \<Rightarrow> bool" where
  "willing cl \<longleftrightarrow> (\<forall>n. cl_send cl n = Inr ()) \<and> (\<forall>n. \<not> cl_done cl n)"

definition stream_send :: "client \<Rightarrow> 'm \<Rightarrow> 'm stream \<Rightarrow> unit result \<times> 'm stream" where
  "stream_send cl msg st = (case cl_send cl (length (st_sent st)) of
     Inl e \<Rightarrow> (Inl e, st) | Inr _ \<Rightarrow> (Inr (), st\<lparr>st_sent := st_sent st @ [msg]\<rparr>))"

text \<open>The \<open>select\<close> on the context with a default branch.\<close>

definition check_done :: "client \<Rightarrow> 'm stream \<Rightarrow> unit result" where
  "check_done cl st = (if cl_done cl (length (st_sent st)) then Inl (Ext ''context canceled'') else Inr ())"

section \<open>Header subscriptions\<close>

record HeaderMsg =
  hm_Header :: pbBlockHeader
  hm_Hash :: bytes

definition header_msg :: "blake3 \<Rightarrow> hash_cache \<Rightarrow> BlockHeader \<Rightarrow> HeaderMsg \<times> hash_cache" where
  "header_msg B cache header =
     (let (hash, cache) = bh_Hash B cache header
      in (\<lparr>hm_Header = bh_Proto header, hm_Hash = hash_Bytes hash\<rparr>, cache))"

text \<open>One historical header.\<close>

definition send_historical ::
  "('d, 'b) env \<Rightarrow> 'd \<Rightarrow> client \<Rightarrow> u64 \<Rightarrow> HeaderMsg stream \<Rightarrow> unit result \<times> HeaderMsg stream" where
  "send_historical E d cl height st =
     (case as_status Internal ''failed to get block'' (GetBlock E d height) of
        Inl e \<Rightarrow> (Inl e, st)
      | Inr None \<Rightarrow> (Inl (Status NotFound ''block not found''), st)
      | Inr (Some block) \<Rightarrow>
          let (msg, cache) = header_msg (e_B E) (st_cache st) (b_Header block);
              (sent, st) = stream_send cl msg (st\<lparr>st_cache := cache\<rparr>)
          in (rbind (as_status Internal ''failed to send header'' sent) (\<lambda>_. check_done cl st), st))"

text \<open>
  What the loop over new headers receives: the end of the context, a header of the channel, or
  its closing. When the list ends the handler is still waiting.
\<close>

datatype sub_event = CtxDone | NewHeader BlockHeader | ChanClosed

datatype sub_outcome = Waiting | Returned "unit result"

fun send_new :: "blake3 \<Rightarrow> client \<Rightarrow> sub_event list \<Rightarrow> HeaderMsg stream \<Rightarrow> sub_outcome \<times> HeaderMsg stream" where
  "send_new B cl [] st = (Waiting, st)"
| "send_new B cl (CtxDone # evs) st = (Returned (Inl (Ext ''context canceled'')), st)"
| "send_new B cl (ChanClosed # evs) st = (Returned (Inl (Status Unavailable ''subscription channel closed'')), st)"
| "send_new B cl (NewHeader header # evs) st =
     (let (msg, cache) = header_msg B (st_cache st) header;
          (sent, st) = stream_send cl msg (st\<lparr>st_cache := cache\<rparr>)
      in case as_status Internal ''failed to send header'' sent of
           Inl e \<Rightarrow> (Returned (Inl e), st)
         | Inr _ \<Rightarrow> send_new B cl evs st)"

text \<open>
  The handler: it subscribes (as \<open>ident\<close>) before it reads the finalized height, and
  unsubscribes when it returns.
\<close>

definition SubscribeToHeaders ::
  "('d, 'b) env \<Rightarrow> 'd \<Rightarrow> client \<Rightarrow> nat \<Rightarrow> u64 \<Rightarrow> sub_event list \<Rightarrow> hash_cache \<Rightarrow> subscribers
    \<Rightarrow> (sub_outcome \<times> HeaderMsg stream \<times> subscribers) option" where
  "SubscribeToHeaders E d cl ident startHeight evs cache subs =
     (let subs = SubscribeToNewHeaders ident subs;
          st = \<lparr>st_sent = [], st_cache = cache\<rparr>;
          leave = (\<lambda>(outcome, st). (outcome, st,
            case outcome of Waiting \<Rightarrow> subs | Returned _ \<Rightarrow> Unsubscribe (Some ident) subs));
          history =
            (if startHeight > 0 then
               case as_status Internal ''failed to get finalized height'' (FinalizedHeight E d) of
                 Inl e \<Rightarrow> Some (Inl e, st)
               | Inr finalizedHeight \<Rightarrow> up_loop startHeight finalizedHeight (send_historical E d cl) st
             else Some (Inr (), st))
      in map_option (\<lambda>(r, st). leave (case r of Inl e \<Rightarrow> (Returned (Inl e), st)
           | Inr _ \<Rightarrow> send_new (e_B E) cl evs st)) history)"

section \<open>What the service says of a chain\<close>

text \<open>The message for a header, with its own hash.\<close>

definition msg_of :: "blake3 \<Rightarrow> BlockHeader \<Rightarrow> HeaderMsg" where
  "msg_of B bh = \<lparr>hm_Header = bh_Proto bh, hm_Hash = hash_Bytes (header_hash B bh)\<rparr>"

lemma bh_canon_idem [simp]: "bh_canon (bh_canon bh) = bh_canon bh"
  by (simp add: bh_canon_def)

lemma of_nat_u64_nonzero: "0 < n \<Longrightarrow> n < 2 ^ 64 \<Longrightarrow> of_nat n \<noteq> (0 :: u64)"
  using unat_of_nat_u64 [of n] by (metis less_irrefl unat_0)

text \<open>A cache of the chain's hashes gives every header of it its own hash and stays one.\<close>

lemma bh_Hash_chain:
  assumes "cache_ok B cache bs" "h < length bs" "length bs < 2 ^ 64" "bh_Height (b_Header (bs ! h)) = of_nat h"
    and "bh_canon bh = bh_canon (b_Header (bs ! h))"
  shows "\<exists>cache'. bh_Hash B cache bh = (header_hash B (b_Header (bs ! h)), cache') \<and> cache_ok B cache' bs"
proof -
  let ?x = "header_hash B (b_Header (bs ! h))"
  have hh: "header_hash B bh = ?x" using assms(5) by (metis header_hash_canon)
  have height: "bh_Height bh = of_nat h" using assms(4,5) by (metis bh_canon_simps(2))
  have n: "unat (of_nat h :: u64) = h" using assms(2,3) by (intro unat_of_nat_u64) linarith
  have "fst (bh_Hash B cache bh) = ?x"
  proof (cases "cache (of_nat h)")
    case (Some x)
    with assms(1) n have "x = ?x" unfolding cache_ok_def by metis
    with Some show ?thesis by (simp add: bh_Hash_fst height)
  qed (simp add: bh_Hash_fst height hh)
  moreover have "snd (bh_Hash B cache bh) = cache(of_nat h \<mapsto> ?x)"
    using bh_Hash_snd [of B cache bh] calculation by (simp add: height)
  moreover have "cache_ok B (cache(of_nat h \<mapsto> ?x)) bs"
    using assms(1,2) n by (auto simp: cache_ok_def)
  ultimately show ?thesis by (metis prod.collapse)
qed

text \<open>A stored block is served as it was, with its hash.\<close>

lemma serve_block:
  assumes E: "pebble_ok (e_db E) V" "pebble_total (e_db E)"
    and repr: "chain_repr (e_B E) cid off (content V d) bs" and cache: "cache_ok (e_B E) cache bs"
    and h: "h < length bs" "length bs < 2 ^ 64"
  shows "GetBlock E d (of_nat h) = Inr (Some (b_canon (bs ! h)))"
    and "\<exists>cache'. bh_Hash (e_B E) cache (b_Header (b_canon (bs ! h))) = (header_hash (e_B E) (b_Header (bs ! h)), cache')
      \<and> cache_ok (e_B E) cache' bs"
  using GetBlock_total [OF E chain_block(1,2) [OF repr h(1)]]
    bh_Hash_chain [OF cache h chain_block(3) [OF repr h(1)], of "bh_canon (b_Header (bs ! h))"]
  by simp_all

definition block_msg_ok :: "blake3 \<Rightarrow> Block \<Rightarrow> pbBlock \<Rightarrow> bool" where
  "block_msg_ok B b p \<longleftrightarrow> BlockFromProto p = Inr (b_canon b) \<and> pb_Hash p = hash_Bytes (header_hash B (b_Header b))"

lemma b_Proto_msg:
  assumes "bh_Hash B cache (b_Header (b_canon b)) = (header_hash B (b_Header b), cache')"
  shows "\<exists>p. b_Proto B cache (b_canon b) = (p, cache') \<and> block_msg_ok B b p"
proof -
  obtain p where p: "b_Proto B cache (b_canon b) = (p, cache')" "pb_Hash p = hash_Bytes (header_hash B (b_Header b))"
    using assms by (simp add: b_Proto_def)
  with BlockFromProto_b_Proto [of B cache "b_canon b"] show ?thesis by (simp add: block_msg_ok_def)
qed

lemma GetBlockByHeight_serves:
  assumes E: "pebble_ok (e_db E) V" "pebble_total (e_db E)"
    and repr: "chain_repr (e_B E) cid off (content V d) bs" and cache: "cache_ok (e_B E) cache bs"
    and h: "h < length bs" "length bs < 2 ^ 64"
  shows "\<exists>p cache'. rpc_GetBlockByHeight E d cache (of_nat h) = (Inr p, cache') \<and> block_msg_ok (e_B E) (bs ! h) p
    \<and> cache_ok (e_B E) cache' bs"
  using serve_block [OF assms] b_Proto_msg [where B = "e_B E" and cache = cache and b = "bs ! h"]
  by (fastforce simp: rpc_GetBlockByHeight_def)

lemma FinalizedHeight_chain:
  assumes "pebble_ok (e_db E) V" "pebble_total (e_db E)" "chain_repr B cid off (content V d) bs"
  shows "FinalizedHeight E d = Inr (if length bs \<le> 1 then 0 else of_nat (length bs - 1))"
  using assms(3) db_get_total [OF assms(1,2)] by (simp add: FinalizedHeight_def chain_repr_def)

lemma GetLatestBlock_serves:
  assumes E: "pebble_ok (e_db E) V" "pebble_total (e_db E)"
    and repr: "chain_repr (e_B E) cid off (content V d) bs" and cache: "cache_ok (e_B E) cache bs"
    and n: "2 \<le> length bs" "length bs < 2 ^ 64"
  shows "\<exists>p cache'. rpc_GetLatestBlock E d cache = (Inr p, cache') \<and> block_msg_ok (e_B E) (last bs) p
    \<and> cache_ok (e_B E) cache' bs"
proof -
  let ?h = "length bs - 1"
  have nz: "of_nat ?h \<noteq> (0 :: u64)" using n by (intro of_nat_u64_nonzero) linarith+
  have h: "?h < length bs" using n by linarith
  have fin: "FinalizedHeight E d = Inr (of_nat ?h)" using FinalizedHeight_chain [OF E repr] n by simp
  note served = serve_block [OF E repr cache h n(2)]
  from served(2) obtain p cache' where "b_Proto (e_B E) cache (b_canon (bs ! ?h)) = (p, cache')"
    "block_msg_ok (e_B E) (bs ! ?h) p" "cache_ok (e_B E) cache' bs" using b_Proto_msg by blast
  moreover have "bs ! ?h = last bs" using n by (subst last_conv_nth) auto
  ultimately show ?thesis unfolding rpc_GetLatestBlock_def fin using served(1) nz by (simp add: Let_def)
qed

section \<open>What a subscriber receives\<close>

lemma stream_send_willing: "willing cl \<Longrightarrow> stream_send cl msg st = (Inr (), st\<lparr>st_sent := st_sent st @ [msg]\<rparr>)"
  by (simp add: willing_def stream_send_def)

lemma check_done_willing: "willing cl \<Longrightarrow> check_done cl st = Inr ()"
  by (simp add: willing_def check_done_def)

lemma send_historical_chain:
  assumes E: "pebble_ok (e_db E) V" "pebble_total (e_db E)"
    and repr: "chain_repr (e_B E) cid off (content V d) bs" and n: "length bs < 2 ^ 64" and cl: "willing cl"
    and "cache_ok (e_B E) (st_cache st) bs" "\<And>h. h \<in> set hs \<Longrightarrow> h < length bs"
  shows "\<exists>st'. run_list (send_historical E d cl) (map of_nat hs) st = (Inr (), st')
    \<and> st_sent st' = st_sent st @ map (\<lambda>h. msg_of (e_B E) (bh_canon (b_Header (bs ! h)))) hs
    \<and> cache_ok (e_B E) (st_cache st') bs"
  using assms(6,7)
proof (induction hs arbitrary: st)
  case (Cons h hs)
  then have h: "h < length bs" by simp
  obtain cache' where blk: "GetBlock E d (of_nat h) = Inr (Some (b_canon (bs ! h)))"
    "bh_Hash (e_B E) (st_cache st) (bh_canon (b_Header (bs ! h))) = (header_hash (e_B E) (b_Header (bs ! h)), cache')"
    and c: "cache_ok (e_B E) cache' bs"
    using serve_block [OF E repr Cons.prems(1) h n] by auto
  let ?st = "st\<lparr>st_cache := cache', st_sent := st_sent st @ [msg_of (e_B E) (bh_canon (b_Header (bs ! h)))]\<rparr>"
  have step: "send_historical E d cl (of_nat h) st = (Inr (), ?st)"
    by (simp add: send_historical_def blk header_msg_def stream_send_willing [OF cl] check_done_willing [OF cl] msg_of_def)
  have "cache_ok (e_B E) (st_cache ?st) bs" using c by simp
  with Cons.IH [of ?st] Cons.prems(2) step show ?case by auto
qed auto

lemma send_new_chain:
  assumes "willing cl" "length bs < 2 ^ 64" "\<And>h. h < length bs \<Longrightarrow> bh_Height (b_Header (bs ! h)) = of_nat h"
    and "cache_ok B (st_cache st) bs" "\<And>x. x \<in> set hds \<Longrightarrow> \<exists>h<length bs. x = b_Header (bs ! h)"
  shows "\<exists>st'. send_new B cl (map NewHeader hds) st = (Waiting, st')
    \<and> st_sent st' = st_sent st @ map (msg_of B) hds \<and> cache_ok B (st_cache st') bs"
  using assms(4,5)
proof (induction hds arbitrary: st)
  case (Cons x hds)
  then obtain h where h: "h < length bs" "x = b_Header (bs ! h)" by auto
  obtain cache' where c: "bh_Hash B (st_cache st) x = (header_hash B x, cache')" "cache_ok B cache' bs"
    using bh_Hash_chain [OF Cons.prems(1) h(1) assms(2) assms(3) [OF h(1)], of x] h by auto
  let ?st = "st\<lparr>st_cache := cache', st_sent := st_sent st @ [msg_of B x]\<rparr>"
  have "send_new B cl (map NewHeader (x # hds)) st = send_new B cl (map NewHeader hds) ?st"
    using c(1) by (simp add: header_msg_def stream_send_willing [OF assms(1)] msg_of_def)
  with Cons.IH [of ?st] Cons.prems(2) c(2) show ?case by auto
qed auto

lemma SubscribeToHeaders_sends:
  assumes E: "pebble_ok (e_db E) V" "pebble_total (e_db E)"
    and repr: "chain_repr (e_B E) cid off (content V d) bs" and n: "2 \<le> length bs" "length bs < 2 ^ 64"
    and cl: "willing cl" and cache: "cache_ok (e_B E) cache bs" and start: "0 < start"
    and new: "\<And>x. x \<in> set hds \<Longrightarrow> \<exists>h<length bs. x = b_Header (bs ! h)"
  shows "\<exists>st. SubscribeToHeaders E d cl ident start (map NewHeader hds) cache subs
      = Some (Waiting, st, SubscribeToNewHeaders ident subs)
    \<and> st_sent st = map (\<lambda>h. msg_of (e_B E) (bh_canon (b_Header (bs ! h)))) [unat start..<length bs]
        @ map (msg_of (e_B E)) hds"
proof -
  define top :: u64 where "top = of_nat (length bs - 1)"
  have u: "unat top = length bs - 1" unfolding top_def using n by (intro unat_of_nat_u64) linarith
  have fin: "FinalizedHeight E d = Inr top"
    using FinalizedHeight_chain [OF E repr] n by (simp add: top_def)
  have "top \<noteq> - 1"
  proof
    assume "top = - 1"
    then have "length bs - 1 = 2 ^ 64 - 1" using u by (simp add: unsigned_minus_1_eq_mask mask_eq_exp_minus_1)
    with n show False by linarith
  qed
  note loop = up_loop_run [OF this]
  have "Suc (unat top) = length bs" using u n by linarith
  then have hs: "height_range start top = map of_nat [unat start..<length bs]"
    by (simp only: height_range_def)
  let ?st = "\<lparr>st_sent = [], st_cache = cache\<rparr> :: HeaderMsg stream"
  have c: "cache_ok (e_B E) (st_cache ?st) bs" using cache by simp
  obtain st1 where st1: "run_list (send_historical E d cl) (map of_nat [unat start..<length bs]) ?st = (Inr (), st1)"
    "st_sent st1 = map (\<lambda>h. msg_of (e_B E) (bh_canon (b_Header (bs ! h)))) [unat start..<length bs]"
    and c1: "cache_ok (e_B E) (st_cache st1) bs"
    using send_historical_chain [OF E repr n(2) cl c, of "[unat start..<length bs]"] by auto
  obtain st2 where "send_new (e_B E) cl (map NewHeader hds) st1 = (Waiting, st2)"
    "st_sent st2 = st_sent st1 @ map (msg_of (e_B E)) hds"
    using send_new_chain [OF cl n(2) chain_block(3) [OF repr] c1 new] by auto
  then show ?thesis
    using st1 start by (simp add: SubscribeToHeaders_def fin loop hs)
qed

end
