(* ===== verification/Stream.thy ===== *)
theory Stream
  imports Rollup_Api
begin

text \<open>
  Syncing from another node: the service \<open>pkg/grpc/sync/server.go\<close>, which streams blocks with
  all their data, and its client \<open>pkg/sync/grpc.go\<close>, which checks the counts, and commits the
  blocks in batches of 1000.

  The client runs a receiver, a pool of workers and a committer as goroutines joined by bounded
  channels. A worker's result depends only on its message, so what the interleaving decides is
  the order in which the results reach the committer, how far the committer got when the stream
  fails, and whether the goroutines can all finish; these are parameters and outcomes here.
  Go's order of visiting the maps of a block is the parameter \<open>map_iters\<close>.
\<close>

section \<open>The server\<close>

record ChunkWithHash =
  cw_ChunkData :: bytes
  cw_ChunkHash :: bytes

record StreamBlocksResponse =
  sb_Block :: "pbBlock option"
  sb_Chunks :: "ChunkWithHash list"
  sb_Files :: "FileManifest list"
  sb_Dirs :: "DirectoryManifest list"
  sb_MmrSnapshot :: bytes

definition found_status :: "string \<Rightarrow> 'a option \<Rightarrow> 'a result" where
  "found_status m v = (case v of None \<Rightarrow> Inl (Status NotFound m) | Some x \<Rightarrow> Inr x)"

lemma found_status_Some [simp]: "found_status m (Some x) = Inr x"
  by (simp add: found_status_def)

definition stream_mmr :: "('d, 'b) env \<Rightarrow> 'd \<Rightarrow> u64 \<Rightarrow> bytes result" where
  "stream_mmr E d height =
     (if height > 0 then
        rbind (as_status Internal ''error checking state mmr'' (HasStateMMRAtHeight E d height)) (\<lambda>hasMMR.
        if hasMMR then
          rbind (as_status Internal ''error getting state mmr'' (GetStateMMR E d height)) (\<lambda>m. Snapshot (e_iter E m) m)
        else Inr [])
      else Inr [])"

definition stream_chunk :: "('d, 'b) env \<Rightarrow> 'd \<Rightarrow> BlobIdentifier \<Rightarrow> ChunkWithHash result" where
  "stream_chunk E d chunk =
     rbind (as_status Internal ''error getting chunk data'' (cs_GetChunk E d (bi_Commitment chunk))) (\<lambda>chunkData.
     rbind (found_status ''chunk not found'' chunkData) (\<lambda>chunkData.
     rbind (as_status Internal ''error getting chunk hash'' (cs_GetChunkHash E d (bi_Commitment chunk))) (\<lambda>chunkHash.
     rbind (found_status ''chunk hash not found'' chunkHash) (\<lambda>chunkHash.
     Inr \<lparr>cw_ChunkData = chunkData, cw_ChunkHash = hash_Bytes chunkHash\<rparr>))))"

definition stream_file :: "('d, 'b) env \<Rightarrow> 'd \<Rightarrow> BlobIdentifier \<Rightarrow> FileManifest result" where
  "stream_file E d fileId =
     rbind (as_status Internal ''error getting file manifest'' (cs_GetFileManifest E d fileId))
       (found_status ''file manifest not found'')"

definition stream_dir :: "('d, 'b) env \<Rightarrow> 'd \<Rightarrow> BlobIdentifier \<Rightarrow> DirectoryManifest result" where
  "stream_dir E d dirId =
     rbind (as_status Internal ''error getting directory manifest'' (GetDirectoryManifest E d dirId))
       (found_status ''directory manifest not found'')"

text \<open>The response for one height; reading the block's hash goes through the cache.\<close>

definition block_response ::
  "('d, 'b) env \<Rightarrow> 'd \<Rightarrow> hash_cache \<Rightarrow> u64 \<Rightarrow> StreamBlocksResponse result \<times> hash_cache" where
  "block_response E d cache height =
     (case rbind (as_status Internal ''error getting block'' (GetBlock E d height)) (\<lambda>block.
           rbind (found_status ''block not found'' block) (\<lambda>block.
           rbind (stream_mmr E d height) (\<lambda>mmrSnapshot.
           rbind (map_res (stream_chunk E d) (bb_Chunks (b_Body block))) (\<lambda>chunks.
           rbind (map_res (stream_file E d) (bb_Files (b_Body block))) (\<lambda>files.
           rbind (map_res (stream_dir E d) (bb_Dirs (b_Body block))) (\<lambda>dirs.
           Inr (block, mmrSnapshot, chunks, files, dirs))))))) of
        Inl e \<Rightarrow> (Inl e, cache)
      | Inr (block, mmrSnapshot, chunks, files, dirs) \<Rightarrow>
          let (p, cache) = b_Proto (e_B E) cache block
          in (Inr \<lparr>sb_Block = Some p, sb_Chunks = chunks, sb_Files = files, sb_Dirs = dirs,
                   sb_MmrSnapshot = mmrSnapshot\<rparr>, cache))"

definition stream_block ::
  "('d, 'b) env \<Rightarrow> 'd \<Rightarrow> client \<Rightarrow> u64 \<Rightarrow> StreamBlocksResponse stream \<Rightarrow> unit result \<times> StreamBlocksResponse stream" where
  "stream_block E d cl height st =
     (case block_response E d (st_cache st) height of
        (Inl e, cache) \<Rightarrow> (Inl e, st\<lparr>st_cache := cache\<rparr>)
      | (Inr resp, cache) \<Rightarrow>
          let (sent, st) = stream_send cl resp (st\<lparr>st_cache := cache\<rparr>)
          in (rbind (as_status Internal ''error sending block'' sent) (\<lambda>_. check_done cl st), st))"

text \<open>An end height of 0 stands for the finalized height.\<close>

definition StreamBlocks ::
  "('d, 'b) env \<Rightarrow> 'd \<Rightarrow> client \<Rightarrow> u64 \<Rightarrow> u64 \<Rightarrow> hash_cache \<Rightarrow> (unit result \<times> StreamBlocksResponse stream) option" where
  "StreamBlocks E d cl startHeight endHeight cache =
     (let st = \<lparr>st_sent = [], st_cache = cache\<rparr> in
      case (if endHeight = 0 then as_status Internal ''error getting finalized height'' (FinalizedHeight E d)
            else Inr endHeight) of
        Inl e \<Rightarrow> Some (Inl e, st)
      | Inr endHeight \<Rightarrow>
          if startHeight > endHeight
          then Some (Inl (Status InvalidArgument ''start height must be less than or equal to end height''), st)
          else up_loop startHeight endHeight (stream_block E d cl) st)"

section \<open>The client's workers\<close>

text \<open>
  A block as received. The maps of manifests are keyed by the pointers to the identifiers of the
  body; an entry is the identifier and the manifest.
\<close>

record processed =
  pd_height :: u64
  pd_block :: Block
  pd_chunks :: "hash \<rightharpoonup> bytes"
  pd_chunkHashes :: "hash \<rightharpoonup> hash"
  pd_fileManifests :: "nat \<rightharpoonup> BlobIdentifier \<times> FileManifest"
  pd_dirManifests :: "nat \<rightharpoonup> BlobIdentifier \<times> DirectoryManifest"
  pd_mmrSnapshot :: bytes
  pd_blockHash :: hash

text \<open>The loop over the chunks; the identifiers at the same positions give the keys.\<close>

fun process_chunks ::
  "(BlobIdentifier \<times> ChunkWithHash) list \<Rightarrow> (hash \<rightharpoonup> bytes) \<times> (hash \<rightharpoonup> hash)
    \<Rightarrow> ((hash \<rightharpoonup> bytes) \<times> (hash \<rightharpoonup> hash)) result" where
  "process_chunks [] maps = Inr maps"
| "process_chunks ((chunkId, chunk) # rest) (chunks, hashes) =
     (let key = bi_Commitment chunkId in
      rbind (to_hash (cw_ChunkHash chunk)) (\<lambda>h.
      process_chunks rest (chunks(key \<mapsto> cw_ChunkData chunk), hashes(key \<mapsto> h))))"

text \<open>
  \<open>heap\<close> is the address of the first identifier of the body's files; the debug message at the
  end computes the block's hash, which fills the cache.
\<close>

definition processStreamedBlock ::
  "blake3 \<Rightarrow> hash_cache \<Rightarrow> nat \<Rightarrow> StreamBlocksResponse \<Rightarrow> processed result \<times> hash_cache" where
  "processStreamedBlock B cache heap resp =
     (case rbind (case sb_Block resp of None \<Rightarrow> Inl (Panic ''nil pointer dereference'') | Some p \<Rightarrow> Inr p) (\<lambda>p.
           rbind (BlockFromProto p) (\<lambda>block.
           if length (sb_Chunks resp) \<noteq> length (bb_Chunks (b_Body block))
           then Inl (Err ''number of chunks in block does not match number of chunks in streamed response'')
           else if length (sb_Files resp) \<noteq> length (bb_Files (b_Body block))
           then Inl (Err ''number of files in block does not match number of files in streamed response'')
           else if length (sb_Dirs resp) \<noteq> length (bb_Dirs (b_Body block))
           then Inl (Err ''number of dirs in block does not match number of dirs in streamed response'')
           else
             rbind (to_hash (pb_Hash p)) (\<lambda>blockHash.
             rbind (process_chunks (zip (bb_Chunks (b_Body block)) (sb_Chunks resp)) (Map.empty, Map.empty))
               (\<lambda>(chunks, hashes).
             Inr \<lparr>pd_height = b_Height block, pd_block = block, pd_chunks = chunks, pd_chunkHashes = hashes,
               pd_fileManifests = map_of (enumerate heap (zip (bb_Files (b_Body block)) (sb_Files resp))),
               pd_dirManifests = map_of (enumerate (heap + length (bb_Files (b_Body block)))
                 (zip (bb_Dirs (b_Body block)) (sb_Dirs resp))),
               pd_mmrSnapshot = sb_MmrSnapshot resp, pd_blockHash = blockHash\<rparr>)))) of
        Inl e \<Rightarrow> (Inl e, cache)
      | Inr data \<Rightarrow> (Inr data, snd (b_Hash B cache (pd_block data))))"

text \<open>A worker reads the header's height first, and wraps the error.\<close>

definition blockWorker ::
  "blake3 \<Rightarrow> hash_cache \<Rightarrow> nat \<Rightarrow> StreamBlocksResponse \<Rightarrow> processed result \<times> hash_cache" where
  "blockWorker B cache heap resp =
     (case rbind (case sb_Block resp of None \<Rightarrow> Inl (Panic ''nil pointer dereference'') | Some p \<Rightarrow> Inr p) (\<lambda>p.
           case pb_Header p of None \<Rightarrow> Inl (Panic ''nil pointer dereference'') | Some header \<Rightarrow> Inr (pbh_Height header)) of
        Inl e \<Rightarrow> (Inl e, cache)
      | Inr height \<Rightarrow> (case processStreamedBlock B cache heap resp of
          (r, cache) \<Rightarrow> (wrap ''worker failed processing block'' r, cache)))"

text \<open>All messages, in the order of the stream.\<close>

fun run_workers ::
  "blake3 \<Rightarrow> hash_cache \<Rightarrow> nat \<Rightarrow> StreamBlocksResponse list \<Rightarrow> processed result list \<times> hash_cache \<times> nat" where
  "run_workers B cache heap [] = ([], cache, heap)"
| "run_workers B cache heap (resp # resps) =
     (let (r, cache) = blockWorker B cache heap resp;
          (rs, cache, heap) = run_workers B cache (heap + length (sb_Files resp) + length (sb_Dirs resp)) resps
      in (r # rs, cache, heap))"

section \<open>The committer\<close>

record map_iters =
  mi_chunks :: "(hash \<rightharpoonup> bytes) \<Rightarrow> (hash \<times> bytes) list"
  mi_files :: "(nat \<rightharpoonup> BlobIdentifier \<times> FileManifest) \<Rightarrow> (nat \<times> BlobIdentifier \<times> FileManifest) list"
  mi_dirs :: "(nat \<rightharpoonup> BlobIdentifier \<times> DirectoryManifest) \<Rightarrow> (nat \<times> BlobIdentifier \<times> DirectoryManifest) list"

definition visits :: "('k \<times> 'v) list \<Rightarrow> ('k \<rightharpoonup> 'v) \<Rightarrow> bool" where
  "visits xs m \<longleftrightarrow> distinct (map fst xs) \<and> map_of xs = m"

definition map_iters_ok :: "map_iters \<Rightarrow> bool" where
  "map_iters_ok I \<longleftrightarrow> (\<forall>m. finite (dom m) \<longrightarrow> visits (mi_chunks I m) m)
     \<and> (\<forall>m. finite (dom m) \<longrightarrow> visits (mi_files I m) m) \<and> (\<forall>m. finite (dom m) \<longrightarrow> visits (mi_dirs I m) m)"

definition commit_block ::
  "('d, 'b) env \<Rightarrow> map_iters \<Rightarrow> 'b tx \<times> hash_cache \<Rightarrow> processed \<Rightarrow> ('b tx \<times> hash_cache) result" where
  "commit_block E I = (\<lambda>(tx, cache) data.
     rbind (fold_res (\<lambda>tx (key, chunkData). wrap ''error storing chunk in batch'' (PutChunk E tx key chunkData
         (case pd_chunkHashes data key of None \<Rightarrow> 0 | Some hash \<Rightarrow> hash))) tx (mi_chunks I (pd_chunks data))) (\<lambda>tx.
     rbind (fold_res (\<lambda>tx (a, fileId, manifest). wrap ''error storing file manifest in batch''
         (PutFileManifest E tx (a, fileId) manifest)) tx (mi_files I (pd_fileManifests data))) (\<lambda>tx.
     rbind (fold_res (\<lambda>tx (a, dirId, manifest). wrap ''error storing directory manifest in batch''
         (PutDirectoryManifest E tx dirId manifest)) tx (mi_dirs I (pd_dirManifests data))) (\<lambda>tx.
     let cache = UpdateHashCache cache (b_Header (pd_block data)) (pd_blockHash data) in
     rbind (wrap ''error storing block in batch'' (PutBlock E cache tx (pd_height data) (pd_block data))) (\<lambda>(tx, cache).
     rbind (if length (pd_mmrSnapshot data) > 0 \<and> pd_height data > 0
         then wrap ''error storing MMR in batch'' (PutStateMMRRaw E tx (pd_height data) (pd_mmrSnapshot data))
         else Inr tx) (\<lambda>tx.
     Inr (tx, snd (b_Hash (e_B E) cache (pd_block data)))))))))"

text \<open>The writes of a batch, in the order of the heights, and the finalized height last.\<close>

definition write_batch ::
  "('d, 'b) env \<Rightarrow> map_iters \<Rightarrow> (u64 \<rightharpoonup> processed) \<Rightarrow> u64 list \<Rightarrow> 'b tx \<Rightarrow> hash_cache \<Rightarrow> ('b tx \<times> hash_cache) result" where
  "write_batch E I processedBlocks heights tx cache =
     rbind (fold_res (\<lambda>s height. case processedBlocks height of
         None \<Rightarrow> Inl (Panic ''nil pointer dereference'') | Some data \<Rightarrow> commit_block E I s data) (tx, cache) heights)
       (\<lambda>(tx, cache).
     rbind (wrap ''error setting finalized height in batch'' (SetFinalizedHeight E tx (last heights))) (\<lambda>tx.
     Inr (tx, cache)))"

definition commitBatch ::
  "('d, 'b) env \<Rightarrow> map_iters \<Rightarrow> (u64 \<Rightarrow> nat \<Rightarrow> bool) \<Rightarrow> (u64 \<rightharpoonup> processed) \<Rightarrow> u64 list \<Rightarrow> 'd bchain \<Rightarrow> unit result \<times> 'd bchain" where
  "commitBatch E I slow processedBlocks unsorted bc =
     (let heights = sort unsorted in
      case BeginTransaction E (bc_state bc) of
        Inl e \<Rightarrow> (Inl (wrap_err ''error beginning batch transaction'' e), bc)
      | Inr (tx, s) \<Rightarrow>
          let bc = bc\<lparr>bc_state := s\<rparr> in
          (case write_batch E I processedBlocks heights tx (bc_cache bc) of
             Inl e \<Rightarrow> (Inl e, bc\<lparr>bc_state := snd (snd (Abort tx s))\<rparr>)
           | Inr (tx, cache) \<Rightarrow>
               let (committed, _, s) = Commit E tx s; bc = bc\<lparr>bc_state := s, bc_cache := cache\<rparr>
               in case committed of
                    Inl e \<Rightarrow> (Inl (wrap_err ''error committing batch'' e), bc)
                  | Inr _ \<Rightarrow> (Inr (), bc\<lparr>bc_subs := fold (\<lambda>height subs. case processedBlocks height of
                      None \<Rightarrow> subs | Some data \<Rightarrow> publishNewHeader (slow height) (b_Header (pd_block data)) subs)
                      heights (bc_subs bc)\<rparr>)))"

text \<open>
  The loop over the results: the returned value, the results left in the channel, the blocks
  not yet committed, and the node.
\<close>

fun collect_results ::
  "('d, 'b) env \<Rightarrow> map_iters \<Rightarrow> (u64 \<Rightarrow> nat \<Rightarrow> bool) \<Rightarrow> nat \<Rightarrow> processed result list \<Rightarrow> (u64 \<rightharpoonup> processed) \<Rightarrow> u64 list
    \<Rightarrow> 'd bchain \<Rightarrow> unit result \<times> processed result list \<times> (u64 \<rightharpoonup> processed) \<times> u64 list \<times> 'd bchain"
where
  "collect_results E I slow batchSize [] blocks hs bc = (Inr (), [], blocks, hs, bc)"
| "collect_results E I slow batchSize (Inl e # rs) blocks hs bc = (Inl e, rs, blocks, hs, bc)"
| "collect_results E I slow batchSize (Inr data # rs) blocks hs bc =
     (let blocks = blocks(pd_height data \<mapsto> data); hs = hs @ [pd_height data] in
      if length (remdups hs) \<ge> batchSize then
        (case commitBatch E I slow blocks hs bc of
           (Inl e, bc) \<Rightarrow> (Inl e, rs, blocks, hs, bc)
         | (Inr _, bc) \<Rightarrow> collect_results E I slow batchSize rs Map.empty [] bc)
      else collect_results E I slow batchSize rs blocks hs bc)"

definition batchCommitter ::
  "('d, 'b) env \<Rightarrow> map_iters \<Rightarrow> (u64 \<Rightarrow> nat \<Rightarrow> bool) \<Rightarrow> nat \<Rightarrow> processed result list \<Rightarrow> 'd bchain
    \<Rightarrow> unit result \<times> processed result list \<times> 'd bchain" where
  "batchCommitter E I slow batchSize results bc =
     (case collect_results E I slow batchSize results Map.empty [] bc of
        (Inl e, rest, _, _, bc) \<Rightarrow> (Inl e, rest, bc)
      | (Inr _, rest, blocks, hs, bc) \<Rightarrow>
          if hs \<noteq> [] then (case commitBatch E I slow blocks hs bc of (r, bc) \<Rightarrow> (r, rest, bc)) else (Inr (), rest, bc))"

section \<open>The whole sync\<close>

text \<open>
  What the scheduler decides: the order in which the results arrive, and how many of them the
  committer takes after the call has returned an error of the stream (it never learns that no
  more will come, so it does not flush).
\<close>

record schedule =
  sc_maxWorkers :: nat
  sc_arrive :: "processed result list \<Rightarrow> processed result list"
  sc_background :: nat

definition batchSize :: nat where "batchSize = 1000"

text \<open>A panic of a worker ends the process.\<close>

definition crashed :: "unit result \<Rightarrow> bool" where
  "crashed r \<longleftrightarrow> (case r of Inl e \<Rightarrow> is_panic e | Inr _ \<Rightarrow> False)"

text \<open>
  \<open>StreamBlocks\<close> of the client is the parameter \<open>remote\<close>: an error, or the messages and how the
  stream ends. \<open>None\<close>: the call never returns, because the committer has returned an error and
  more results wait than the channel holds, so the workers never finish.
\<close>

definition syncWithStream ::
  "('d, 'b) env \<Rightarrow> map_iters \<Rightarrow> schedule \<Rightarrow> (u64 \<Rightarrow> nat \<Rightarrow> bool)
    \<Rightarrow> (u64 \<Rightarrow> u64 \<Rightarrow> (StreamBlocksResponse list \<times> unit result) result) \<Rightarrow> u64 \<Rightarrow> u64 \<Rightarrow> 'd bchain
    \<Rightarrow> (unit result \<times> 'd bchain) option" where
  "syncWithStream E I S slow remote startHeight endHeight bc =
     (case wrap ''error streaming blocks'' (remote startHeight endHeight) of
        Inl e \<Rightarrow> Some (Inl e, bc)
      | Inr (resps, stream_end) \<Rightarrow>
          let (rs, cache, heap) = run_workers (e_B E) (bc_cache bc) (bc_heap bc) resps;
              results = sc_arrive S rs;
              bc = bc\<lparr>bc_cache := cache, bc_heap := heap\<rparr>
          in case wrap ''error receiving block'' stream_end of
               Inl e \<Rightarrow> (case collect_results E I slow batchSize (take (sc_background S) results) Map.empty [] bc of
                   (_, _, _, _, bc) \<Rightarrow> Some (Inl e, bc))
             | Inr _ \<Rightarrow> (case batchCommitter E I slow batchSize results bc of
                   (r, rest, bc) \<Rightarrow> if length rest > sc_maxWorkers S \<and> \<not> crashed r then None else Some (r, bc)))"

definition SyncChainFromGrpc ::
  "('d, 'b) env \<Rightarrow> map_iters \<Rightarrow> schedule \<Rightarrow> (u64 \<Rightarrow> nat \<Rightarrow> bool) \<Rightarrow> ChainInfo result
    \<Rightarrow> (u64 \<Rightarrow> u64 \<Rightarrow> (StreamBlocksResponse list \<times> unit result) result) \<Rightarrow> 'd bchain \<Rightarrow> (unit result \<times> 'd bchain) option" where
  "SyncChainFromGrpc E I S slow info remote bc =
     (case wrap ''error getting finalized height'' (FinalizedHeight E (cs_db (bc_state bc))) of
        Inl e \<Rightarrow> Some (Inl e, bc)
      | Inr finalizedHeight \<Rightarrow>
          let nextHeight = (if finalizedHeight > 0 then finalizedHeight + 1 else 0) in
          (case wrap ''error getting chain info'' info of
             Inl e \<Rightarrow> Some (Inl e, bc)
           | Inr chainInfo \<Rightarrow>
               if nextHeight \<ge> ci_FinalizedHeight chainInfo then Some (Inr (), bc)
               else syncWithStream E I S slow remote nextHeight (ci_FinalizedHeight chainInfo) bc))"

end
