(* ===== verification/Bodies.thy ===== *)
theory Bodies
  imports Chain_Live
begin

text \<open>
  What a node can serve of its chain beyond the headers: the chunks, file manifests and directory
  manifests that the bodies of its blocks name are all in the database, and a block is found
  under its hash. Steps of \<open>SyncChain\<close> keep this, from the first block on.
\<close>

section \<open>Bodies in the database\<close>

definition ids_stored ::
  "(bytes \<Rightarrow> bytes option) \<Rightarrow> BlobIdentifier list \<Rightarrow> BlobIdentifier list \<Rightarrow> BlobIdentifier list \<Rightarrow> bool" where
  "ids_stored c dirs files chunks \<longleftrightarrow> (\<forall>i\<in>set chunks. c (chk_key (bi_Commitment i)) \<noteq> None)
     \<and> (\<forall>i\<in>set files. c (fman_key i) \<noteq> None) \<and> (\<forall>i\<in>set dirs. c (dman_key i) \<noteq> None)"

definition body_stored :: "(bytes \<Rightarrow> bytes option) \<Rightarrow> Block \<Rightarrow> bool" where
  "body_stored c b \<longleftrightarrow> ids_stored c (bb_Dirs (b_Body b)) (bb_Files (b_Body b)) (bb_Chunks (b_Body b))"

definition never_dropped :: "(bytes \<Rightarrow> bytes option) \<Rightarrow> (bytes \<Rightarrow> bytes option) \<Rightarrow> bool" where
  "never_dropped c c' \<longleftrightarrow> (\<forall>k. c k \<noteq> None \<longrightarrow> c' k \<noteq> None)"

lemma never_dropped_refl [simp]: "never_dropped c c"
  by (simp add: never_dropped_def)

lemma never_dropped_upd: "never_dropped c c' \<Longrightarrow> never_dropped c (c'(k \<mapsto> v))"
  by (simp add: never_dropped_def)

lemma never_dropped_trans: "never_dropped a b \<Longrightarrow> never_dropped b c \<Longrightarrow> never_dropped a c"
  by (simp add: never_dropped_def)

lemma ids_stored_mono: "ids_stored c ds fs ks \<Longrightarrow> never_dropped c c' \<Longrightarrow> ids_stored c' ds fs ks"
  by (simp add: ids_stored_def never_dropped_def)

lemma body_stored_mono: "body_stored c b \<Longrightarrow> never_dropped c c' \<Longrightarrow> body_stored c' b"
  unfolding body_stored_def by (rule ids_stored_mono)

lemma ids_stored_snoc:
  "c (chk_key (bi_Commitment i)) \<noteq> None \<Longrightarrow> ids_stored c ds fs ks \<Longrightarrow> ids_stored c ds fs (ks @ [i])"
  "c (fman_key i) \<noteq> None \<Longrightarrow> ids_stored c ds fs ks \<Longrightarrow> ids_stored c ds (fs @ [i]) ks"
  "c (dman_key i) \<noteq> None \<Longrightarrow> ids_stored c ds fs ks \<Longrightarrow> ids_stored c (ds @ [i]) fs ks"
  by (auto simp: ids_stored_def)

text \<open>An accepted blob is stored under its identifier.\<close>

abbreviation state_stored :: "(bytes \<Rightarrow> bytes option) \<Rightarrow> 'b sync_state \<Rightarrow> bool" where
  "state_stored c s \<equiv> ids_stored c (ss_dirs s) (ss_files s) (ss_chunks s)"

lemma SyncBlob_stored:
  assumes P: "pebble_ok (e_db E) V" and run: "SyncBlob E d height s b = Inr s'"
    and old: "state_stored (tx_view V d (ss_tx s)) s"
  shows "state_stored (tx_view V d (ss_tx s')) s'" and "never_dropped (tx_view V d (ss_tx s)) (tx_view V d (ss_tx s'))"
proof -
  let ?c = "tx_view V d (ss_tx s)" and ?c' = "tx_view V d (ss_tx s')"
  from run obtain env k where env: "unmarshal (e_envelope E) (bl_Data b) = Inr env"
    and k: "to_hash (bl_Commitment b) = Inr k" by (auto simp: SyncBlob_def rbind_eq_Inr)
  let ?i = "\<lparr>bi_Height = height, bi_Commitment = k\<rparr>"
  have "never_dropped ?c ?c' \<and> state_stored ?c' s'"
  proof (cases env)
    case (ChunkDataE cd)
    with run env k have put: "PutChunk E (ss_tx s) k (cd_ChunkData cd) (e_B E (cd_ChunkData cd)) = Inr (ss_tx s')"
      and ids: "ss_chunks s' = ss_chunks s @ [?i]" "ss_files s' = ss_files s" "ss_dirs s' = ss_dirs s"
      by (auto simp: SyncBlob_def SyncChunk_def rbind_eq_Inr)
    have "never_dropped ?c ?c'" "?c' (chk_key k) \<noteq> None"
      using PutChunk_effect(1) [OF P put, of d] by (simp_all add: never_dropped_upd key_distinct)
    with ids ids_stored_mono [OF old] show ?thesis by (simp add: ids_stored_snoc)
  next
    case (FileManifestE m)
    with run env k obtain acc tx' heap' where tx: "ss_tx s' = tx'" and
      fm: "SyncFileManifest E d (ss_tx s) (ss_heap s) height b m = Inr (acc, tx', heap')" and
      ids: "ss_files s' = ss_files s @ (if acc then [?i] else [])" "ss_chunks s' = ss_chunks s" "ss_dirs s' = ss_dirs s"
      by (auto simp: SyncBlob_def rbind_eq_Inr)
    from fm k have "\<not> acc \<and> ss_tx s' = ss_tx s \<or> PutFileManifest E (ss_tx s) (ss_heap s, ?i) m = Inr (ss_tx s')"
      unfolding tx by (auto simp: SyncFileManifest_def Let_def rbind_eq_Inr split: option.splits if_split_asm)
    then have "never_dropped ?c ?c' \<and> (acc \<longrightarrow> ?c' (fman_key ?i) \<noteq> None)"
      using PutFileManifest_effect(1) [OF P, of "ss_tx s" "(ss_heap s, ?i)" m "ss_tx s'" d]
      by (auto simp: never_dropped_upd)
    with ids ids_stored_mono [OF old] show ?thesis by (simp add: ids_stored_snoc)
  next
    case (DirectoryManifestE m)
    with run env k obtain acc tx' heap' where tx: "ss_tx s' = tx'" and
      dir: "SyncDirectoryManifest E d (ss_tx s) (ss_heap s) height b m = Inr (acc, tx', heap')" and
      ids: "ss_dirs s' = ss_dirs s @ (if acc then [?i] else [])" "ss_chunks s' = ss_chunks s" "ss_files s' = ss_files s"
      by (auto simp: SyncBlob_def rbind_eq_Inr)
    from dir k have "\<not> acc \<and> ss_tx s' = ss_tx s \<or> PutDirectoryManifest E (ss_tx s) ?i m = Inr (ss_tx s')"
      unfolding tx by (auto simp: SyncDirectoryManifest_def Let_def rbind_eq_Inr split: option.splits if_split_asm)
    then have "never_dropped ?c ?c' \<and> (acc \<longrightarrow> ?c' (dman_key ?i) \<noteq> None)"
      using PutDirectoryManifest_effect(1) [OF P, of "ss_tx s" ?i m "ss_tx s'" d]
      by (auto simp: never_dropped_upd)
    with ids ids_stored_mono [OF old] show ?thesis by (simp add: ids_stored_snoc)
  next
    case NoPayload
    with run env k show ?thesis by (simp add: SyncBlob_def)
  qed
  then show "never_dropped ?c ?c'" "state_stored ?c' s'" by simp_all
qed

lemma ProduceBlock_stored:
  assumes P: "pebble_ok (e_db E) V"
    and run: "ProduceBlock E D chainID d (NewChainStateTransaction E d) heap h ch = Inr (b, tx, heap')"
  shows "body_stored (tx_view V d tx) b" and "never_dropped (content V d) (tx_view V d tx)"
proof -
  let ?I = "\<lambda>s. state_stored (tx_view V d (ss_tx s)) s \<and> never_dropped (content V d) (tx_view V d (ss_tx s))"
  let ?s0 = "\<lparr>ss_tx = NewChainStateTransaction E d, ss_heap = heap, ss_chunks = [], ss_files = [], ss_dirs = []\<rparr>"
  from run obtain blobs s where s: "fold_res (SyncBlob E d ch) ?s0 blobs = Inr s" and tx: "tx = ss_tx s"
    and b: "b_Body b = \<lparr>bb_Dirs = ss_dirs s, bb_Files = ss_files s, bb_Chunks = ss_chunks s\<rparr>"
    by (auto simp: ProduceBlock_def ProduceBlockFromCelestiaHeight_def SyncCelestiaHeight_def SyncBlobs_def rbind_eq_Inr
        NewBlock_def NewBlockFromHeader_def)
  have start: "?I ?s0" by (simp add: ids_stored_def tx_view_new [OF P])
  have "?I s"
    using s start
  proof (rule fold_res_invariant)
    fix s x t
    assume I: "?I s" and step: "SyncBlob E d ch s x = Inr t"
    then show "?I t" using SyncBlob_stored [OF P step] never_dropped_trans by blast
  qed
  then show "body_stored (tx_view V d tx) b" "never_dropped (content V d) (tx_view V d tx)"
    by (simp_all add: body_stored_def b tx)
qed

section \<open>What a step keeps\<close>

text \<open>Every block is found under its hash.\<close>

definition indexed :: "blake3 \<Rightarrow> (bytes \<Rightarrow> bytes option) \<Rightarrow> Block list \<Rightarrow> bool" where
  "indexed B c bs \<longleftrightarrow>
     (\<forall>h<length bs. c (blkh_key (header_hash B (b_Header (bs ! h)))) = Some (BytesFromUint64Key (of_nat h)))"

definition servable :: "blake3 \<Rightarrow> (bytes \<Rightarrow> bytes option) \<Rightarrow> Block list \<Rightarrow> bool" where
  "servable B c bs \<longleftrightarrow> (\<forall>b\<in>set bs. body_stored c b) \<and> indexed B c bs"

definition hashes_differ :: "blake3 \<Rightarrow> Block list \<Rightarrow> bool" where
  "hashes_differ B bs \<longleftrightarrow> distinct (map (\<lambda>b. header_hash B (b_Header b)) bs)"

lemma indexed_snoc:
  assumes "indexed B c bs" "hashes_differ B (bs @ [b])"
    and "c' (blkh_key (header_hash B (b_Header b))) = Some (BytesFromUint64Key (of_nat (length bs)))"
    and "\<And>x. x \<noteq> header_hash B (b_Header b) \<Longrightarrow> c' (blkh_key x) = c (blkh_key x)"
  shows "indexed B c' (bs @ [b])"
  unfolding indexed_def
proof (intro allI impI)
  fix h assume h: "h < length (bs @ [b])"
  show "c' (blkh_key (header_hash B (b_Header ((bs @ [b]) ! h)))) = Some (BytesFromUint64Key (of_nat h))"
  proof (cases "h = length bs")
    case False
    with h have h': "h < length bs" by simp
    then have "header_hash B (b_Header (bs ! h)) \<noteq> header_hash B (b_Header b)"
      using assms(2) nth_mem [OF h'] by (auto simp: hashes_differ_def intro: image_eqI [of _ _ "bs ! h"])
    with assms(1,4) h' show ?thesis by (simp add: nth_append indexed_def)
  qed (simp add: assms(3))
qed

text \<open>Chain metadata is never written while blobs are recorded.\<close>

lemma SyncBlob_hash_keys:
  assumes P: "pebble_ok (e_db E) V" and run: "SyncBlob E d height s b = Inr s'"
  shows "tx_view V d (ss_tx s') (blkh_key x) = tx_view V d (ss_tx s) (blkh_key x)"
proof -
  have other: "blkh_key x \<noteq> chk_key k" "blkh_key x \<noteq> chkh_key k" "blkh_key x \<noteq> fman_key i" "blkh_key x \<noteq> dman_key i" for k i
    using encode_key_inj [of "KBlockHash x" "KChunk k"] encode_key_inj [of "KBlockHash x" "KChunkHash k"]
      encode_key_inj [of "KBlockHash x" "KFile i"] encode_key_inj [of "KBlockHash x" "KDir i"] by simp_all
  from run obtain env k where env: "unmarshal (e_envelope E) (bl_Data b) = Inr env"
    "to_hash (bl_Commitment b) = Inr k" by (auto simp: SyncBlob_def rbind_eq_Inr)
  show ?thesis
  proof (cases env)
    case (ChunkDataE cd)
    with run env have "PutChunk E (ss_tx s) k (cd_ChunkData cd) (e_B E (cd_ChunkData cd)) = Inr (ss_tx s')"
      by (auto simp: SyncBlob_def SyncChunk_def rbind_eq_Inr)
    from PutChunk_effect(1) [OF P this, of d] show ?thesis by (simp add: other)
  next
    case (FileManifestE m)
    with run env have "ss_tx s' = ss_tx s \<or> (\<exists>i. PutFileManifest E (ss_tx s) i m = Inr (ss_tx s'))"
      by (auto simp: SyncBlob_def rbind_eq_Inr SyncFileManifest_def Let_def split: option.splits if_split_asm)
    then show ?thesis using PutFileManifest_effect(1) [OF P, of "ss_tx s" _ m "ss_tx s'" d] other by fastforce
  next
    case (DirectoryManifestE m)
    with run env have "ss_tx s' = ss_tx s \<or> (\<exists>i. PutDirectoryManifest E (ss_tx s) i m = Inr (ss_tx s'))"
      by (auto simp: SyncBlob_def rbind_eq_Inr SyncDirectoryManifest_def Let_def split: option.splits if_split_asm)
    then show ?thesis using PutDirectoryManifest_effect(1) [OF P, of "ss_tx s" _ m "ss_tx s'" d] other by fastforce
  next
    case NoPayload
    with run env show ?thesis by (simp add: SyncBlob_def)
  qed
qed

lemma ProduceBlock_hash_keys:
  assumes P: "pebble_ok (e_db E) V"
    and run: "ProduceBlock E D chainID d (NewChainStateTransaction E d) heap h ch = Inr (b, tx, heap')"
  shows "tx_view V d tx (blkh_key x) = content V d (blkh_key x)"
proof -
  from run obtain blobs s where s: "fold_res (SyncBlob E d ch)
      \<lparr>ss_tx = NewChainStateTransaction E d, ss_heap = heap, ss_chunks = [], ss_files = [], ss_dirs = []\<rparr> blobs = Inr s"
    and tx: "tx = ss_tx s"
    by (auto simp: ProduceBlock_def ProduceBlockFromCelestiaHeight_def SyncCelestiaHeight_def SyncBlobs_def rbind_eq_Inr)
  from s have "tx_view V d (ss_tx s) (blkh_key x) = content V d (blkh_key x)"
    by (rule fold_res_invariant) (simp_all add: tx_view_new [OF P] SyncBlob_hash_keys [OF P])
  then show ?thesis by (simp add: tx)
qed

lemma sync_step_servable:
  assumes E: "env_ok E V" and g: "commitments_bind D g" "blobs_fit D"
    and inv: "node_inv E V g cid off bc bs" and ne: "bs \<noteq> []" and prev: "prev_ok prev bs"
    and n: "length bs < 2 ^ 38" and serve: "servable (e_B E) (content V (cs_db (bc_state bc))) bs"
    and run: "sync_step E D slow (of_nat (length bs)) (of_nat (length bs) + off) prev bc = (Inr b', bc')"
    and differ: "hashes_differ (e_B E) (bs @ [b'])"
  shows "servable (e_B E) (content V (cs_db (bc_state bc'))) (bs @ [b'])"
    and "never_dropped (content V (cs_db (bc_state bc))) (content V (cs_db (bc_state bc')))"
proof -
  let ?B = "e_B E" and ?n = "of_nat (length bs) :: u64" and ?d = "cs_db (bc_state bc)"
  let ?x = "header_hash ?B (b_Header b')"
  note P = env_okD(2) [OF E]
  obtain tx3 bc1 tx4 s where step: "run_block E D ?n (?n + off) prev (NewChainStateTransaction E ?d)
       (bc\<lparr>bc_state := (bc_state bc)\<lparr>cs_pending := True\<rparr>\<rparr>) = (Inr (b', tx3), bc1)"
    "Commit E tx3 (bc_state bc1) = (Inr (), tx4, s)"
    "bc' = bc1\<lparr>bc_state := s, bc_subs := publishNewHeader slow (b_Header b') (bc_subs bc1)\<rparr>"
    using run by (rule sync_step_cases)
  obtain b tx1 heap tx2 cache where
    prod: "ProduceBlock E D cid ?d (NewChainStateTransaction E ?d) (bc_heap bc) ?n (?n + off) = Inr (b, tx1, heap)"
    and app: "ApplyBlock E ?d (bc_cache bc) tx1 b prev = (Inr (tx2, b'), cache)"
    and fin: "FinalizeBlock E tx2 ?n = Inr tx3"
    and bc1: "bc1 = bc\<lparr>bc_state := (bc_state bc)\<lparr>cs_pending := True\<rparr>, bc_heap := heap, bc_cache := cache\<rparr>"
    by (rule run_block_cases [OF step(1)]) (use inv that in \<open>auto simp: node_inv_def\<close>)
  have repr: "chain_repr ?B cid off (content V ?d) bs" and sound: "store_sound E g (content V ?d)"
    and cache: "cache_ok ?B (bc_cache bc) bs" using inv by (simp_all add: node_inv_def)
  note pb = ProduceBlock_effect [OF E g sound prod] and ps = ProduceBlock_stored [OF P prod]
  note ab = ApplyBlock_effect [OF E repr ne cache prev [unfolded prev_ok_def] n pb(3) app]
  obtain c2 where c2: "mmr_write ?B bs b (tx_view V ?d tx1) c2"
    "tx_view V ?d tx2 = c2(blk_key ?n \<mapsto> b_Bytes b', blkh_key ?x \<mapsto> BytesFromUint64Key ?n)"
    using ab(4) by blast
  note fb = SetFinalizedHeight_effect [OF P fin [unfolded FinalizeBlock_def]]
  have "\<not> nil_maps tx3" using fb(2) ab(3) pb(1) by (simp add: tx_good_def)
  from Commit_cases(1) [OF P this step(2)] have "content V (cs_db s) = tx_view V ?d tx3" by (simp add: bc1)
  then have db: "content V (cs_db (bc_state bc')) = c2(blk_key ?n \<mapsto> b_Bytes b', blkh_key ?x \<mapsto> BytesFromUint64Key ?n,
      keyFinalizedHeight \<mapsto> BytesFromUint64 ?n)"
    by (simp add: step(3) fb(1) c2(2))
  have c2n: "never_dropped (tx_view V ?d tx1) c2"
    using c2(1) by (auto simp: mmr_write_def never_dropped_upd split: if_splits)
  then have kept: "never_dropped (tx_view V ?d tx1) (content V (cs_db (bc_state bc')))"
    unfolding db by (intro never_dropped_upd)
  have body: "b_Body b' = b_Body b" by (simp add: ab(1))
  have "body_stored (content V (cs_db (bc_state bc'))) x" if "x \<in> set (bs @ [b'])" for x
  proof (cases "x \<in> set bs")
    case True
    with serve have "body_stored (content V ?d) x" by (simp add: servable_def)
    then show ?thesis by (rule body_stored_mono [OF _ never_dropped_trans [OF ps(2) kept]])
  next
    case False
    with that have "x = b'" by simp
    with body_stored_mono [OF ps(1) kept] body show ?thesis by (simp add: body_stored_def)
  qed
  moreover have "indexed ?B (content V (cs_db (bc_state bc'))) (bs @ [b'])"
  proof (rule indexed_snoc [OF _ differ])
    show "indexed ?B (content V ?d) bs" using serve by (simp add: servable_def)
    have c2x: "c2 (blkh_key y) = content V ?d (blkh_key y)" for y
      using c2(1) encode_key_inj [of "KBlockHash y" "KMMR ?n"] ProduceBlock_hash_keys [OF P prod, of y]
      by (auto simp: mmr_write_def split: if_splits)
    show "content V (cs_db (bc_state bc')) (blkh_key ?x) = Some (BytesFromUint64Key ?n)"
      "\<And>y. y \<noteq> ?x \<Longrightarrow> content V (cs_db (bc_state bc')) (blkh_key y) = content V ?d (blkh_key y)"
      using encode_key_inj [of "KBlockHash ?x" KFinalized] encode_key_inj [of "KBlockHash y" KFinalized for y]
        encode_key_inj [of "KBlockHash y" "KBlock ?n" for y] encode_key_inj [of "KBlockHash y" "KBlockHash ?x" for y]
      by (simp_all add: db c2x)
  qed
  ultimately show "servable ?B (content V (cs_db (bc_state bc'))) (bs @ [b'])" by (simp add: servable_def)
  show "never_dropped (content V ?d) (content V (cs_db (bc_state bc')))" by (rule never_dropped_trans [OF ps(2) kept])
qed

text \<open>The genesis block names nothing.\<close>

lemma genesis_step_servable:
  assumes P: "pebble_ok (e_db E) V" and cache: "bc_cache bc = Map.empty" and run: "genesis_step E D off bc = (Inr b, bc')"
  shows "servable (e_B E) (content V (cs_db (bc_state bc'))) [b]"
    and "never_dropped (content V (cs_db (bc_state bc))) (content V (cs_db (bc_state bc')))"
proof -
  let ?d = "cs_db (bc_state bc)" and ?tx = "NewChainStateTransaction E (cs_db (bc_state bc))"
  obtain tx tx' cache s where step:
    "CreateGenesisBlock E D (bc_chainID bc) (bc_cache bc) ?tx off = (Inr (b, tx), cache)"
    "Commit E tx ((bc_state bc)\<lparr>cs_pending := True\<rparr>) = (Inr (), tx', s)"
    "bc' = bc\<lparr>bc_state := s, bc_cache := cache\<rparr>"
    using run by (rule genesis_step_cases)
  obtain time where b: "b = genesis_block (e_B E) (bc_chainID bc) off time"
    and view: "tx_view V ?d tx = (tx_view V ?d ?tx)(blk_key 0 \<mapsto> b_Bytes b,
       blkh_key (header_hash (e_B E) (b_Header b)) \<mapsto> BytesFromUint64Key 0)"
    and nil: "nil_maps tx = nil_maps ?tx"
    by (rule CreateGenesisBlock_effect [OF P step(1) [unfolded assms(2)], of ?d])
  have "\<not> nil_maps tx" using nil by (simp add: nil_maps_def NewChainStateTransaction_def)
  from Commit_cases(1) [OF P this step(2)] have "content V (cs_db s) = tx_view V ?d tx" by simp
  then have db: "content V (cs_db (bc_state bc')) = (content V ?d)(blk_key 0 \<mapsto> b_Bytes b,
       blkh_key (header_hash (e_B E) (b_Header b)) \<mapsto> BytesFromUint64Key 0)"
    by (simp add: step(3) view tx_view_new [OF P])
  show "never_dropped (content V ?d) (content V (cs_db (bc_state bc')))"
    unfolding db by (intro never_dropped_upd never_dropped_refl)
  have "b_Body b = \<lparr>bb_Dirs = [], bb_Files = [], bb_Chunks = []\<rparr>"
    by (simp add: b genesis_block_def NewBlock_def NewBlockFromHeader_def)
  then show "servable (e_B E) (content V (cs_db (bc_state bc'))) [b]"
    by (simp add: servable_def body_stored_def ids_stored_def indexed_def db)
qed

text \<open>A block is served by its hash.\<close>

lemma GetBlockByHash_indexed:
  assumes E: "pebble_ok (e_db E) V" "pebble_total (e_db E)"
    and repr: "chain_repr B cid off (content V d) bs" and ix: "indexed B (content V d) bs" and h: "h < length bs"
  shows "GetBlockByHash E d (header_hash B (b_Header (bs ! h))) = Inr (Some (b_canon (bs ! h)))"
proof -
  have "db_get (e_db E) d (blkh_key (header_hash B (b_Header (bs ! h)))) = Inr (Some (BytesFromUint64Key (of_nat h)))"
    using ix h db_get_total [OF E] by (simp add: indexed_def)
  then show ?thesis
    using GetBlock_total [OF E chain_block(1,2) [OF repr h]]
    by (simp add: GetBlockByHash_def Let_def flip: blkh_key_def)
qed

end
