(* ===== verification/Stream_Server.thy ===== *)
theory Stream_Server
  imports Stream Bodies
begin

text \<open>
  A node that holds a chain with its bodies streams it: for every height one message, with the
  block as stored, its own hash, the data that the body names, and the mountain range when the
  height has one.
\<close>

section \<open>The message of a height\<close>

definition stored_dir :: "('d, 'b) env \<Rightarrow> (bytes \<Rightarrow> bytes option) \<Rightarrow> BlobIdentifier \<Rightarrow> DirectoryManifest \<Rightarrow> bool" where
  "stored_dir E c i m \<longleftrightarrow> (\<exists>data. c (dman_key i) = Some data \<and> unmarshal (e_dir E) data = Inr m)"

definition stored_chunk :: "blake3 \<Rightarrow> (bytes \<Rightarrow> bytes option) \<Rightarrow> BlobIdentifier \<Rightarrow> ChunkWithHash \<Rightarrow> bool" where
  "stored_chunk B c i m \<longleftrightarrow> c (chk_key (bi_Commitment i)) = Some (cw_ChunkData m)
     \<and> cw_ChunkHash m = hash_Bytes (B (cw_ChunkData m))"

definition range_msg_ok :: "blake3 \<Rightarrow> Block list \<Rightarrow> nat \<Rightarrow> bytes \<Rightarrow> bool" where
  "range_msg_ok B bs h snap \<longleftrightarrow>
     (if 0 < h \<and> state_leaves (bs ! h) \<noteq> []
      then snap \<noteq> [] \<and> (\<exists>m. NewMMRFromSnapshot snap = Inr m
        \<and> mmr_state B (map B (chain_leaves (take (Suc h) bs))) m)
      else snap = [])"

definition resp_ok ::
  "('d, 'b) env \<Rightarrow> (bytes \<Rightarrow> bytes option) \<Rightarrow> Block list \<Rightarrow> nat \<Rightarrow> StreamBlocksResponse \<Rightarrow> bool" where
  "resp_ok E c bs h resp \<longleftrightarrow>
     (\<exists>p. sb_Block resp = Some p \<and> block_msg_ok (e_B E) (bs ! h) p)
     \<and> list_all2 (stored_chunk (e_B E) c) (bb_Chunks (b_Body (bs ! h))) (sb_Chunks resp)
     \<and> list_all2 (stored_file E c) (bb_Files (b_Body (bs ! h))) (sb_Files resp)
     \<and> list_all2 (stored_dir E c) (bb_Dirs (b_Body (bs ! h))) (sb_Dirs resp)
     \<and> range_msg_ok (e_B E) bs h (sb_MmrSnapshot resp)"

section \<open>Each part is there\<close>

lemma map_res_all2:
  assumes "\<And>x. x \<in> set xs \<Longrightarrow> \<exists>y. f x = Inr y \<and> R x y"
  shows "\<exists>ys. map_res f xs = Inr ys \<and> list_all2 R xs ys"
  using assms
proof (induction xs)
  case (Cons x xs)
  then obtain y ys where "f x = Inr y" "R x y" "map_res f xs = Inr ys" "list_all2 R xs ys"
    by (metis list.set_intros)
  then show ?case by simp
qed simp

lemma stream_chunk_stored:
  assumes P: "pebble_ok (e_db E) V" "pebble_total (e_db E)" and sound: "store_sound E g (content V d)"
    and "content V d (chk_key (bi_Commitment i)) \<noteq> None"
  shows "\<exists>m. stream_chunk E d i = Inr m \<and> stored_chunk (e_B E) (content V d) i m"
proof -
  obtain v where v: "content V d (chk_key (bi_Commitment i)) = Some v" using assms(4) by blast
  with sound have "content V d (chkh_key (bi_Commitment i)) = Some (hash_Bytes (e_B E v))"
    by (simp add: store_sound_def)
  with v db_get_total [OF P] show ?thesis
    by (simp add: stream_chunk_def stored_chunk_def cs_GetChunk_def cs_GetChunkHash_def flip: chk_key_def chkh_key_def)
qed

lemma stream_file_stored:
  assumes P: "pebble_ok (e_db E) V" "pebble_total (e_db E)" and sound: "store_sound E g (content V d)"
    and "content V d (fman_key i) \<noteq> None"
  shows "\<exists>m. stream_file E d i = Inr m \<and> stored_file E (content V d) i m"
proof -
  obtain data where data: "content V d (fman_key i) = Some data" using assms(4) by blast
  with sound obtain m where "unmarshal (e_file E) data = Inr m" unfolding store_sound_def by blast
  with data db_get_total [OF P] show ?thesis
    by (simp add: stream_file_def stored_file_def cs_GetFileManifest_def Let_def flip: fman_key_def)
qed

lemma stream_dir_stored:
  assumes P: "pebble_ok (e_db E) V" "pebble_total (e_db E)" and sound: "store_sound E g (content V d)"
    and "content V d (dman_key i) \<noteq> None"
  shows "\<exists>m. stream_dir E d i = Inr m \<and> stored_dir E (content V d) i m"
proof -
  obtain data where data: "content V d (dman_key i) = Some data" using assms(4) by blast
  with sound obtain m where "unmarshal (e_dir E) data = Inr m" unfolding store_sound_def by blast
  with data db_get_total [OF P] show ?thesis
    by (simp add: stream_dir_def stored_dir_def GetDirectoryManifest_def Let_def flip: dman_key_def)
qed

lemma stream_mmr_chain:
  assumes E: "env_ok E V" "pebble_total (e_db E)"
    and repr: "chain_repr (e_B E) cid off (content V d) bs" and h: "h < length bs" and n: "length bs < 2 ^ 38"
  shows "\<exists>snap. stream_mmr E d (of_nat h) = Inr snap \<and> range_msg_ok (e_B E) bs h snap"
proof -
  let ?B = "e_B E" and ?h = "of_nat h :: u64"
  note P = env_okD(2) [OF E(1)] and B = env_okD(1) [OF E(1)]
  have ranges: "ranges_ok ?B (content V d) bs" using repr by (simp add: chain_repr_def)
  have nat: "unat ?h = h" using h n by (intro unat_of_nat_u64) simp
  have pos: "0 < ?h \<longleftrightarrow> 0 < h" by (simp add: word_less_nat_alt nat)
  have stored: "content V d (mmr_key ?h) \<noteq> None \<longleftrightarrow> state_leaves (bs ! h) \<noteq> []" if "0 < h"
    using ranges h that nat unfolding ranges_ok_def by metis
  have get: "db_get (e_db E) d (prefixHeightKey ?h stateMMRPrefix) = Inr (content V d (mmr_key ?h))"
    using db_get_total [OF P E(2)] by (simp add: mmr_key_def)
  show ?thesis
  proof (cases "0 < h \<and> state_leaves (bs ! h) \<noteq> []")
    case False
    then have "stream_mmr E d ?h = Inr []"
      using stored pos get by (auto simp: stream_mmr_def HasStateMMRAtHeight_def Let_def)
    with False show ?thesis by (auto simp: range_msg_ok_def)
  next
    case True
    then obtain s where s: "content V d (mmr_key ?h) = Some s" using stored by auto
    obtain m where m: "NewMMRFromSnapshot s = Inr m" "mmr_state ?B (map ?B (chain_leaves (take (Suc h) bs))) m"
      using ranges h s unfolding ranges_ok_def by blast
    have len: "length (map ?B (chain_leaves (take (Suc h) bs))) < 2 ^ 40"
      using length_chain_leaves [of "take (Suc h) bs"] n by (simp add: min_def split: if_splits)
    have "iter_of (e_iter E m) m" using m(2) by (intro env_okD(3) [OF E(1)]) (simp add: mmr_state_def)
    from Restore_Snapshot_state [OF B m(2) len this] obtain snap m' where
      snap: "Snapshot (e_iter E m) m = Inr snap" "NewMMRFromSnapshot snap = Inr m'"
        "mmr_state ?B (map ?B (chain_leaves (take (Suc h) bs))) m'" by blast
    have "length (BytesFromUint64 (of_nat (length (m_peaks m)))) \<le> length snap"
      using snap(1) by (auto simp: Snapshot_def Let_def split: if_splits)
    then have "snap \<noteq> []" by auto
    moreover have "GetStateMMR E d ?h = Inr m" using True pos get s m(1) by (auto simp: GetStateMMR_def Let_def)
    then have "stream_mmr E d ?h = Inr snap"
      using True pos get s snap(1) by (auto simp: stream_mmr_def HasStateMMRAtHeight_def Let_def)
    ultimately show ?thesis using snap True by (auto simp: range_msg_ok_def)
  qed
qed

section \<open>The stream of a chain\<close>

text \<open>What the server needs of its database.\<close>

definition serves_chain ::
  "('d, 'b) env \<Rightarrow> ('d, 'b) store_view \<Rightarrow> (hash \<Rightarrow> bytes) \<Rightarrow> bytes \<Rightarrow> u64 \<Rightarrow> 'd \<Rightarrow> Block list \<Rightarrow> bool" where
  "serves_chain E V g cid off d bs \<longleftrightarrow> chain_repr (e_B E) cid off (content V d) bs
     \<and> store_sound E g (content V d) \<and> (\<forall>b\<in>set bs. body_stored (content V d) b) \<and> length bs < 2 ^ 38"

lemma block_response_chain:
  assumes E: "env_ok E V" "pebble_total (e_db E)" and srv: "serves_chain E V g cid off d bs"
    and cache: "cache_ok (e_B E) cache bs" and h: "h < length bs"
  shows "\<exists>resp cache'. block_response E d cache (of_nat h) = (Inr resp, cache')
    \<and> resp_ok E (content V d) bs h resp \<and> cache_ok (e_B E) cache' bs"
proof -
  note P = env_okD(2) [OF E(1)] E(2)
  have repr: "chain_repr (e_B E) cid off (content V d) bs" and sound: "store_sound E g (content V d)"
    and n: "length bs < 2 ^ 38" "length bs < 2 ^ 64" and body: "body_stored (content V d) (bs ! h)"
    using srv h by (simp_all add: serves_chain_def)
  note served = serve_block [OF P repr cache h n(2)]
  obtain p cache' where p: "b_Proto (e_B E) cache (b_canon (bs ! h)) = (p, cache')" "block_msg_ok (e_B E) (bs ! h) p"
    "cache_ok (e_B E) cache' bs" using served(2) b_Proto_msg by blast
  obtain snap where snap: "stream_mmr E d (of_nat h) = Inr snap" "range_msg_ok (e_B E) bs h snap"
    using stream_mmr_chain [OF E repr h n(1)] by blast
  have ids: "i \<in> set (bb_Chunks (b_Body (bs ! h))) \<Longrightarrow> content V d (chk_key (bi_Commitment i)) \<noteq> None"
    "i \<in> set (bb_Files (b_Body (bs ! h))) \<Longrightarrow> content V d (fman_key i) \<noteq> None"
    "i \<in> set (bb_Dirs (b_Body (bs ! h))) \<Longrightarrow> content V d (dman_key i) \<noteq> None" for i
    using body by (simp_all add: body_stored_def ids_stored_def)
  have "\<exists>cs. map_res (stream_chunk E d) (bb_Chunks (b_Body (bs ! h))) = Inr cs
    \<and> list_all2 (stored_chunk (e_B E) (content V d)) (bb_Chunks (b_Body (bs ! h))) cs"
    by (rule map_res_all2) (rule stream_chunk_stored [OF P sound ids(1)])
  then obtain cs where cs: "map_res (stream_chunk E d) (bb_Chunks (b_Body (bs ! h))) = Inr cs"
    "list_all2 (stored_chunk (e_B E) (content V d)) (bb_Chunks (b_Body (bs ! h))) cs" by blast
  have "\<exists>fs. map_res (stream_file E d) (bb_Files (b_Body (bs ! h))) = Inr fs
    \<and> list_all2 (stored_file E (content V d)) (bb_Files (b_Body (bs ! h))) fs"
    by (rule map_res_all2) (rule stream_file_stored [OF P sound ids(2)])
  then obtain fs where fs: "map_res (stream_file E d) (bb_Files (b_Body (bs ! h))) = Inr fs"
    "list_all2 (stored_file E (content V d)) (bb_Files (b_Body (bs ! h))) fs" by blast
  have "\<exists>ds. map_res (stream_dir E d) (bb_Dirs (b_Body (bs ! h))) = Inr ds
    \<and> list_all2 (stored_dir E (content V d)) (bb_Dirs (b_Body (bs ! h))) ds"
    by (rule map_res_all2) (rule stream_dir_stored [OF P sound ids(3)])
  then obtain ds where ds: "map_res (stream_dir E d) (bb_Dirs (b_Body (bs ! h))) = Inr ds"
    "list_all2 (stored_dir E (content V d)) (bb_Dirs (b_Body (bs ! h))) ds" by blast
  show ?thesis
    using p snap cs fs ds served(1) by (simp add: block_response_def resp_ok_def)
qed

lemma stream_block_chain:
  assumes E: "env_ok E V" "pebble_total (e_db E)" and srv: "serves_chain E V g cid off d bs" and cl: "willing cl"
    and "cache_ok (e_B E) (st_cache st) bs" "\<And>h. h \<in> set hs \<Longrightarrow> h < length bs"
  shows "\<exists>st' resps. run_list (stream_block E d cl) (map of_nat hs) st = (Inr (), st')
    \<and> st_sent st' = st_sent st @ resps \<and> list_all2 (resp_ok E (content V d) bs) hs resps
    \<and> cache_ok (e_B E) (st_cache st') bs"
  using assms(5,6)
proof (induction hs arbitrary: st)
  case (Cons h hs)
  then have h: "h < length bs" by simp
  obtain resp cache' where resp: "block_response E d (st_cache st) (of_nat h) = (Inr resp, cache')"
    "resp_ok E (content V d) bs h resp" "cache_ok (e_B E) cache' bs"
    using block_response_chain [OF E srv Cons.prems(1) h] by blast
  let ?st = "st\<lparr>st_cache := cache', st_sent := st_sent st @ [resp]\<rparr>"
  have step: "stream_block E d cl (of_nat h) st = (Inr (), ?st)"
    by (simp add: stream_block_def resp(1) stream_send_willing [OF cl] check_done_willing [OF cl])
  obtain st' resps where "run_list (stream_block E d cl) (map of_nat hs) ?st = (Inr (), st')"
    "st_sent st' = st_sent ?st @ resps" "list_all2 (resp_ok E (content V d) bs) hs resps" "cache_ok (e_B E) (st_cache st') bs"
    using Cons.IH [of ?st] Cons.prems(2) resp(3) by auto
  with step resp(2) show ?case by (intro exI [of _ st'] exI [of _ "resp # resps"]) simp
qed auto

lemma StreamBlocks_chain:
  assumes E: "env_ok E V" "pebble_total (e_db E)" and srv: "serves_chain E V g cid off d bs" and cl: "willing cl"
    and cache: "cache_ok (e_B E) cache bs" and range: "a \<le> b" "0 < b" "b < length bs"
  shows "\<exists>st. StreamBlocks E d cl (of_nat a) (of_nat b) cache = Some (Inr (), st)
    \<and> list_all2 (resp_ok E (content V d) bs) [a..<Suc b] (st_sent st) \<and> cache_ok (e_B E) (st_cache st) bs"
proof -
  have n: "length bs < 2 ^ 38" using srv by (simp add: serves_chain_def)
  have p: "(2 :: nat) ^ 38 < 2 ^ 64" by simp
  have "b < 2 ^ 64" using range n p by linarith
  with range have nat: "unat (of_nat a :: u64) = a" "unat (of_nat b :: u64) = b"
    using unat_of_nat_u64 [of a] unat_of_nat_u64 [of b] by auto
  have top: "(of_nat b :: u64) \<noteq> - 1"
  proof
    assume "(of_nat b :: u64) = - 1"
    then have "b = 2 ^ 64 - 1" using nat(2) by (simp add: unsigned_minus_1_eq_mask mask_eq_exp_minus_1)
    with range n show False by simp
  qed
  have nz: "(of_nat b :: u64) \<noteq> 0" using range \<open>b < 2 ^ 64\<close> by (intro of_nat_u64_nonzero)
  have le: "\<not> (of_nat b :: u64) < of_nat a" using nat range by (simp add: word_less_nat_alt)
  have hs: "height_range (of_nat a) (of_nat b) = map of_nat [a..<Suc b]"
    by (simp only: height_range_def nat)
  let ?st = "\<lparr>st_sent = [], st_cache = cache\<rparr> :: StreamBlocksResponse stream"
  have c: "cache_ok (e_B E) (st_cache ?st) bs" using cache by simp
  obtain st' resps where run: "run_list (stream_block E d cl) (map of_nat [a..<Suc b]) ?st = (Inr (), st')"
    "st_sent st' = resps" "list_all2 (resp_ok E (content V d) bs) [a..<Suc b] resps" "cache_ok (e_B E) (st_cache st') bs"
    using stream_block_chain [OF E srv cl c, of "[a..<Suc b]"] range by (auto simp del: upt_Suc)
  have "StreamBlocks E d cl (of_nat a) (of_nat b) cache = up_loop (of_nat a) (of_nat b) (stream_block E d cl) ?st"
    using nz le by (simp add: StreamBlocks_def)
  also have "\<dots> = Some (Inr (), st')" by (simp only: up_loop_run [OF top] hs run)
  finally show ?thesis using run by (simp del: upt_Suc)
qed

end
