(* ===== verification/Stream_Client.thy ===== *)
theory Stream_Client
  imports Stream_Server
begin

text \<open>
  Copying a chain: what a worker makes of a message of an honest server, what committing a
  batch of such blocks writes, and the result of a whole sync, which is the server's chain with
  everything its bodies name.
\<close>

section \<open>A block as received\<close>

definition pd_ok :: "('d, 'b) env \<Rightarrow> (bytes \<Rightarrow> bytes option) \<Rightarrow> Block list \<Rightarrow> nat \<Rightarrow> processed \<Rightarrow> bool" where
  "pd_ok E c bs h data \<longleftrightarrow> pd_height data = of_nat h \<and> pd_block data = b_canon (bs ! h)
     \<and> pd_blockHash data = header_hash (e_B E) (b_Header (bs ! h))
     \<and> finite (dom (pd_chunks data)) \<and> finite (dom (pd_fileManifests data)) \<and> finite (dom (pd_dirManifests data))
     \<and> (\<forall>k v. pd_chunks data k = Some v \<longrightarrow> c (chk_key k) = Some v \<and> pd_chunkHashes data k = Some (e_B E v))
     \<and> (\<forall>i\<in>set (bb_Chunks (b_Body (bs ! h))). pd_chunks data (bi_Commitment i) \<noteq> None)
     \<and> (\<forall>i\<in>set (bb_Files (b_Body (bs ! h))). \<exists>a m. pd_fileManifests data a = Some (i, m))
     \<and> (\<forall>a i m. pd_fileManifests data a = Some (i, m) \<longrightarrow> stored_file E c i m)
     \<and> (\<forall>i\<in>set (bb_Dirs (b_Body (bs ! h))). \<exists>a m. pd_dirManifests data a = Some (i, m))
     \<and> (\<forall>a i m. pd_dirManifests data a = Some (i, m) \<longrightarrow> stored_dir E c i m)
     \<and> range_msg_ok (e_B E) bs h (pd_mmrSnapshot data)"

lemma process_chunks_stored:
  assumes "list_all2 (stored_chunk B c) ids msgs"
    and "\<And>k v. fst maps k = Some v \<Longrightarrow> c (chk_key k) = Some v \<and> snd maps k = Some (B v)" "finite (dom (fst maps))"
  shows "\<exists>chunks hashes. process_chunks (zip ids msgs) maps = Inr (chunks, hashes) \<and> finite (dom chunks)
    \<and> (\<forall>k v. chunks k = Some v \<longrightarrow> c (chk_key k) = Some v \<and> hashes k = Some (B v))
    \<and> (\<forall>k. fst maps k \<noteq> None \<longrightarrow> chunks k \<noteq> None) \<and> (\<forall>i\<in>set ids. chunks (bi_Commitment i) \<noteq> None)"
  using assms
proof (induction ids msgs arbitrary: maps rule: list_all2_induct)
  case Nil
  then show ?case by (cases maps) auto
next
  case (Cons i ids msg msgs)
  obtain ch hs where maps: "maps = (ch, hs)" by fastforce
  let ?k = "bi_Commitment i"
  let ?maps = "(ch(?k \<mapsto> cw_ChunkData msg), hs(?k \<mapsto> B (cw_ChunkData msg)))"
  have new: "fst ?maps k = Some v \<Longrightarrow> c (chk_key k) = Some v \<and> snd ?maps k = Some (B v)" for k v
    using Cons.hyps(1) Cons.prems(1) [of k v] by (auto simp: stored_chunk_def maps split: if_splits)
  have fin: "finite (dom (fst ?maps))" using Cons.prems(2) by (simp add: maps)
  from Cons.IH [OF new fin] obtain chunks hashes where r:
    "process_chunks (zip ids msgs) ?maps = Inr (chunks, hashes)" "finite (dom chunks)"
    "\<forall>k v. chunks k = Some v \<longrightarrow> c (chk_key k) = Some v \<and> hashes k = Some (B v)"
    "\<forall>k. fst ?maps k \<noteq> None \<longrightarrow> chunks k \<noteq> None" "\<forall>i\<in>set ids. chunks (bi_Commitment i) \<noteq> None"
    by blast
  have "process_chunks (zip (i # ids) (msg # msgs)) maps = Inr (chunks, hashes)"
    using Cons.hyps(1) r(1) by (simp add: maps stored_chunk_def Let_def)
  moreover have "\<forall>k. fst maps k \<noteq> None \<longrightarrow> chunks k \<noteq> None" "chunks ?k \<noteq> None"
    using r(4) by (auto simp: maps)
  ultimately show ?case using r(2,3,5) by auto
qed

lemma enumerate_map:
  "map_of (enumerate n xs) a = Some x \<Longrightarrow> x \<in> set xs"
  "x \<in> set xs \<Longrightarrow> \<exists>a. map_of (enumerate n xs) a = Some x"
proof -
  assume "map_of (enumerate n xs) a = Some x"
  then have "(a, x) \<in> set (enumerate n xs)" by (rule map_of_SomeD)
  then show "x \<in> set xs" by (auto simp: in_set_enumerate_eq)
next
  assume "x \<in> set xs"
  then obtain j where "j < length xs" "xs ! j = x" by (auto simp: in_set_conv_nth)
  then have "(n + j, x) \<in> set (enumerate n xs)" by (auto simp: in_set_enumerate_eq)
  moreover have "distinct (map fst (enumerate n xs))" by simp
  ultimately show "\<exists>a. map_of (enumerate n xs) a = Some x" using map_of_is_SomeI by fastforce
qed

lemma all2_zip_lookup:
  assumes "list_all2 R ids ms"
  shows "\<forall>i\<in>set ids. \<exists>a m. map_of (enumerate n (zip ids ms)) a = Some (i, m)"
    and "\<forall>a i m. map_of (enumerate n (zip ids ms)) a = Some (i, m) \<longrightarrow> R i m"
proof -
  show "\<forall>i\<in>set ids. \<exists>a m. map_of (enumerate n (zip ids ms)) a = Some (i, m)"
  proof
    fix i assume "i \<in> set ids"
    then obtain j where "j < length ids" "ids ! j = i" by (auto simp: in_set_conv_nth)
    then have "(i, ms ! j) \<in> set (zip ids ms)"
      using list_all2_lengthD [OF assms] by (auto simp: in_set_zip)
    from enumerate_map(2) [OF this, of n] show "\<exists>a m. map_of (enumerate n (zip ids ms)) a = Some (i, m)" by blast
  qed
  show "\<forall>a i m. map_of (enumerate n (zip ids ms)) a = Some (i, m) \<longrightarrow> R i m"
    using assms enumerate_map(1) by (fastforce simp: list_all2_iff)
qed

lemma blockWorker_ok:
  assumes "resp_ok E c bs h resp" "cache_ok (e_B E) cache bs" "h < length bs" "length bs < 2 ^ 64"
    and height: "bh_Height (b_Header (bs ! h)) = of_nat h"
  shows "\<exists>data cache'. blockWorker (e_B E) cache heap resp = (Inr data, cache') \<and> pd_ok E c bs h data
    \<and> cache_ok (e_B E) cache' bs"
proof -
  let ?b = "b_canon (bs ! h)" and ?B = "e_B E"
  obtain p where p: "sb_Block resp = Some p" "BlockFromProto p = Inr ?b"
    "pb_Hash p = hash_Bytes (header_hash ?B (b_Header (bs ! h)))"
    and ch: "list_all2 (stored_chunk ?B c) (bb_Chunks (b_Body (bs ! h))) (sb_Chunks resp)"
    and fs: "list_all2 (stored_file E c) (bb_Files (b_Body (bs ! h))) (sb_Files resp)"
    and ds: "list_all2 (stored_dir E c) (bb_Dirs (b_Body (bs ! h))) (sb_Dirs resp)"
    and snap: "range_msg_ok ?B bs h (sb_MmrSnapshot resp)"
    using assms(1) by (auto simp: resp_ok_def block_msg_ok_def)
  from p(2) obtain header where header: "pb_Header p = Some header"
    by (auto simp: BlockFromProto_def BlockHeaderFromProto_def rbind_eq_Inr split: option.splits)
  have len: "length (sb_Chunks resp) = length (bb_Chunks (b_Body (bs ! h)))"
    "length (sb_Files resp) = length (bb_Files (b_Body (bs ! h)))"
    "length (sb_Dirs resp) = length (bb_Dirs (b_Body (bs ! h)))"
    using list_all2_lengthD [OF ch] list_all2_lengthD [OF fs] list_all2_lengthD [OF ds] by simp_all
  obtain chunks hashes where maps:
    "process_chunks (zip (bb_Chunks (b_Body (bs ! h))) (sb_Chunks resp)) (Map.empty, Map.empty) = Inr (chunks, hashes)"
    "finite (dom chunks)" "\<forall>k v. chunks k = Some v \<longrightarrow> c (chk_key k) = Some v \<and> hashes k = Some (?B v)"
    "\<forall>i\<in>set (bb_Chunks (b_Body (bs ! h))). chunks (bi_Commitment i) \<noteq> None"
    using process_chunks_stored [OF ch, of "(Map.empty, Map.empty)"] by auto
  obtain cache' where hash: "bh_Hash ?B cache (b_Header ?b) = (header_hash ?B (b_Header (bs ! h)), cache')"
    "cache_ok ?B cache' bs"
    using bh_Hash_chain [OF assms(2,3,4) height, of "bh_canon (b_Header (bs ! h))"] by auto
  let ?data = "\<lparr>pd_height = b_Height ?b, pd_block = ?b, pd_chunks = chunks, pd_chunkHashes = hashes,
    pd_fileManifests = map_of (enumerate heap (zip (bb_Files (b_Body ?b)) (sb_Files resp))),
    pd_dirManifests = map_of (enumerate (heap + length (bb_Files (b_Body ?b))) (zip (bb_Dirs (b_Body ?b)) (sb_Dirs resp))),
    pd_mmrSnapshot = sb_MmrSnapshot resp, pd_blockHash = header_hash ?B (b_Header (bs ! h))\<rparr>"
  have "blockWorker ?B cache heap resp = (Inr ?data, cache')"
    using p header len maps(1) hash by (simp add: blockWorker_def processStreamedBlock_def b_Hash_def)
  moreover have "pd_ok E c bs h ?data"
    using maps snap all2_zip_lookup [OF fs] all2_zip_lookup [OF ds] height
    by (simp add: pd_ok_def b_Height_def finite_dom_map_of)
  ultimately show ?thesis using hash(2) by blast
qed

lemma run_workers_ok:
  assumes "list_all2 (resp_ok E c bs) hs resps" "cache_ok (e_B E) cache bs" "\<And>h. h \<in> set hs \<Longrightarrow> h < length bs"
    "length bs < 2 ^ 64" "\<And>h. h < length bs \<Longrightarrow> bh_Height (b_Header (bs ! h)) = of_nat h"
  shows "\<exists>ds cache' heap'. run_workers (e_B E) cache heap resps = (map Inr ds, cache', heap')
    \<and> list_all2 (pd_ok E c bs) hs ds \<and> cache_ok (e_B E) cache' bs"
  using assms(1-3)
proof (induction hs resps arbitrary: cache heap rule: list_all2_induct)
  case (Cons h hs resp resps)
  then have h: "h < length bs" by simp
  obtain data cache1 where d: "blockWorker (e_B E) cache heap resp = (Inr data, cache1)" "pd_ok E c bs h data"
    "cache_ok (e_B E) cache1 bs"
    using blockWorker_ok [OF Cons.hyps(1) Cons.prems(1) h assms(4) assms(5) [OF h]] by blast
  obtain ds cache' heap' where "run_workers (e_B E) cache1 (heap + length (sb_Files resp) + length (sb_Dirs resp)) resps
      = (map Inr ds, cache', heap')" "list_all2 (pd_ok E c bs) hs ds" "cache_ok (e_B E) cache' bs"
    using Cons.IH [OF d(3)] Cons.prems(2) by (metis list.set_intros(2))
  with d show ?case by (intro exI [of _ "data # ds"]) (simp add: Let_def)
qed simp

section \<open>What a block's commit writes\<close>

definition chunks_sound :: "('d, 'b) env \<Rightarrow> (hash \<Rightarrow> bytes) \<Rightarrow> (bytes \<Rightarrow> bytes option) \<Rightarrow> bool" where
  "chunks_sound E g c \<longleftrightarrow> (\<forall>k v. c (chk_key k) = Some v \<longrightarrow> v = chunk_of E g k)"

lemma store_sound_chunks: "store_sound E g c \<Longrightarrow> chunks_sound E g c"
  by (simp add: store_sound_def chunks_sound_def)

text \<open>Only chunks and manifests are written, chunks with the data their commitments name.\<close>

definition storage_write ::
  "('d, 'b) env \<Rightarrow> (hash \<Rightarrow> bytes) \<Rightarrow> (bytes \<Rightarrow> bytes option) \<Rightarrow> (bytes \<Rightarrow> bytes option) \<Rightarrow> bool" where
  "storage_write E g c c' \<longleftrightarrow> chain_frame c c' \<and> never_dropped c c' \<and> (\<forall>x. c' (blkh_key x) = c (blkh_key x))
     \<and> (chunks_sound E g c \<longrightarrow> chunks_sound E g c')"

lemma storage_write_refl [simp]: "storage_write E g c c"
  by (simp add: storage_write_def)

lemma storage_write_trans: "storage_write E g a b \<Longrightarrow> storage_write E g b c \<Longrightarrow> storage_write E g a c"
  unfolding storage_write_def chain_frame_def never_dropped_def by metis

lemma storage_write_upd:
  assumes "K \<in> {KChunk k, KChunkHash k, KFile i, KDir i}" "K = KChunk k \<Longrightarrow> v = chunk_of E g k"
  shows "storage_write E g c (c(encode_key K \<mapsto> v))"
proof -
  have "chain_frame c (c(encode_key K \<mapsto> v))"
    by (rule chain_frame_upd) (use assms(1) in \<open>auto simp: other_keys_def\<close>)
  moreover have "blkh_key x \<noteq> encode_key K" for x
    using assms(1) encode_key_inj [of "KBlockHash x" K] by auto
  moreover have "chunks_sound E g (c(encode_key K \<mapsto> v))" if "chunks_sound E g c"
    unfolding chunks_sound_def
  proof (intro allI impI)
    fix k' v' assume c': "(c(encode_key K \<mapsto> v)) (chk_key k') = Some v'"
    show "v' = chunk_of E g k'"
    proof (cases "K = KChunk k'")
      case True
      with assms c' show ?thesis by auto
    next
      case False
      then have "chk_key k' \<noteq> encode_key K" using encode_key_inj [of "KChunk k'" K] by auto
      with c' that show ?thesis by (simp add: chunks_sound_def)
    qed
  qed
  ultimately show ?thesis by (simp add: storage_write_def never_dropped_upd)
qed

lemma fold_puts:
  assumes "\<And>tx x. x \<in> set xs \<Longrightarrow> \<not> nil_maps tx \<Longrightarrow> \<exists>tx'. f tx x = Inr tx' \<and> \<not> nil_maps tx'
      \<and> storage_write E g (tx_view V d tx) (tx_view V d tx') \<and> tx_view V d tx' (key x) \<noteq> None"
    and "\<not> nil_maps tx"
  shows "\<exists>tx'. fold_res f tx xs = Inr tx' \<and> \<not> nil_maps tx' \<and> storage_write E g (tx_view V d tx) (tx_view V d tx')
      \<and> (\<forall>x\<in>set xs. tx_view V d tx' (key x) \<noteq> None)"
  using assms
proof (induction xs arbitrary: tx)
  case (Cons x xs)
  from Cons.prems(1) [of x, OF _ Cons.prems(2)] obtain tx1 where s1: "f tx x = Inr tx1" "\<not> nil_maps tx1"
    "storage_write E g (tx_view V d tx) (tx_view V d tx1)" "tx_view V d tx1 (key x) \<noteq> None" by auto
  have "\<exists>tx'. fold_res f tx1 xs = Inr tx' \<and> \<not> nil_maps tx' \<and> storage_write E g (tx_view V d tx1) (tx_view V d tx')
      \<and> (\<forall>x\<in>set xs. tx_view V d tx' (key x) \<noteq> None)"
    by (rule Cons.IH [OF _ s1(2)]) (rule Cons.prems(1), auto)
  then obtain tx' where s2: "fold_res f tx1 xs = Inr tx'" "\<not> nil_maps tx'"
    "storage_write E g (tx_view V d tx1) (tx_view V d tx')" "\<forall>x\<in>set xs. tx_view V d tx' (key x) \<noteq> None" by blast
  have "tx_view V d tx' (key x) \<noteq> None" using s1(4) s2(3) by (simp add: storage_write_def never_dropped_def)
  with s1 s2 storage_write_trans [OF s1(3) s2(3)] show ?case by auto
qed auto

lemma PutChunk_put:
  assumes P: "pebble_ok (e_db E) V" "pebble_total (e_db E)" and nil: "\<not> nil_maps tx" and v: "v = chunk_of E g k"
  shows "\<exists>tx'. PutChunk E tx k v h = Inr tx' \<and> \<not> nil_maps tx' \<and> storage_write E g (tx_view V d tx) (tx_view V d tx')
    \<and> tx_view V d tx' (chk_key k) \<noteq> None"
proof -
  obtain b1 where b1: "tx_write E tx (prefixKey (hash_Bytes k) chunkPrefix) v = Inr (tx\<lparr>tx_batch := b1\<rparr>)"
    using tx_write_total [OF P(2)] by blast
  let ?tx1 = "tx\<lparr>tx_batch := b1, tx_pendingChunks := (tx_pendingChunks tx)(k \<mapsto> v)\<rparr>"
  obtain b2 where b2: "tx_write E ?tx1 (prefixKey (hash_Bytes k) chunkHashPrefix) (hash_Bytes h) = Inr (?tx1\<lparr>tx_batch := b2\<rparr>)"
    using tx_write_total [OF P(2)] by blast
  obtain tx' where put: "PutChunk E tx k v h = Inr tx'"
    using b1 b2 nil by (simp add: PutChunk_def nil_assign_def Let_def)
  note eff = PutChunk_effect [OF P(1) put]
  have "storage_write E g (tx_view V d tx) ((tx_view V d tx)(encode_key (KChunk k) \<mapsto> v))"
    by (rule storage_write_upd) (use v in auto)
  moreover have "storage_write E g ((tx_view V d tx)(encode_key (KChunk k) \<mapsto> v))
      ((tx_view V d tx)(encode_key (KChunk k) \<mapsto> v, encode_key (KChunkHash k) \<mapsto> hash_Bytes h))"
    by (rule storage_write_upd) auto
  ultimately have "storage_write E g (tx_view V d tx) (tx_view V d tx')"
    using storage_write_trans eff(1) [of d] by fastforce
  with put eff nil show ?thesis by (auto simp: key_distinct)
qed

lemma PutFileManifest_put:
  assumes P: "pebble_ok (e_db E) V" "pebble_total (e_db E)" and nil: "\<not> nil_maps tx" and m: "marshal (e_file E) m = Inr data"
  shows "\<exists>tx'. PutFileManifest E tx (a, i) m = Inr tx' \<and> \<not> nil_maps tx'
    \<and> storage_write E g (tx_view V d tx) (tx_view V d tx') \<and> tx_view V d tx' (fman_key i) \<noteq> None"
proof -
  obtain tx' where put: "PutFileManifest E tx (a, i) m = Inr tx'"
    using tx_write_total [OF P(2)] nil m by (fastforce simp: PutFileManifest_def nil_assign_def Let_def)
  note eff = PutFileManifest_effect [OF P(1) put]
  have "storage_write E g (tx_view V d tx) ((tx_view V d tx)(encode_key (KFile i) \<mapsto> data))"
    by (rule storage_write_upd) auto
  with put eff(1) [of d] eff(5) nil m show ?thesis by auto
qed

lemma PutDirectoryManifest_put:
  assumes P: "pebble_ok (e_db E) V" "pebble_total (e_db E)" and nil: "\<not> nil_maps tx" and m: "marshal (e_dir E) m = Inr data"
  shows "\<exists>tx'. PutDirectoryManifest E tx i m = Inr tx' \<and> \<not> nil_maps tx'
    \<and> storage_write E g (tx_view V d tx) (tx_view V d tx') \<and> tx_view V d tx' (dman_key i) \<noteq> None"
proof -
  obtain tx' where put: "PutDirectoryManifest E tx i m = Inr tx'"
    using tx_write_total [OF P(2)] m by (fastforce simp: PutDirectoryManifest_def Let_def)
  note eff = PutDirectoryManifest_effect [OF P(1) put]
  have "storage_write E g (tx_view V d tx) ((tx_view V d tx)(encode_key (KDir i) \<mapsto> data))"
    by (rule storage_write_upd) auto
  with put eff(1) [of d] eff(5) nil m show ?thesis by auto
qed

end
