(* ===== verification/Upload_Proofs.thy ===== *)
theory Upload_Proofs
  imports Upload Stream_Client
begin

text \<open>
  Uploads can be interrupted anywhere and repeated: a completed record always names a blob that
  holds what the record's key stands for. So a manifest that \<open>PutFileData\<close> submits describes the
  file, a node that has recorded its chunks accepts it, and the node then serves the file.
\<close>

section \<open>Splitting\<close>

lemma split_loop_concat: "concat (split_loop buf lim) = buf"
proof (induction buf lim rule: split_loop.induct)
  case (1 buf lim)
  then show ?case by (subst split_loop.simps) auto
qed

lemma split_loop_sizes: "0 < lim \<Longrightarrow> c \<in> set (split_loop buf lim) \<Longrightarrow> 0 < length c \<and> length c \<le> lim"
proof (induction buf lim rule: split_loop.induct)
  case (1 buf lim)
  from 1(3) consider "lim \<le> length buf" "c = take lim buf \<or> c \<in> set (split_loop (drop lim buf) lim)"
    | "\<not> lim \<le> length buf" "c = buf" "buf \<noteq> []"
    using 1(2) by (subst (asm) split_loop.simps) (auto split: if_splits)
  then show ?case using 1(1,2) by cases auto
qed

text \<open>All chunks but the last are full.\<close>

lemma split_loop_full: "0 < lim \<Longrightarrow> Suc i < length (split_loop buf lim) \<Longrightarrow> length (split_loop buf lim ! i) = lim"
proof (induction buf lim arbitrary: i rule: split_loop.induct)
  case (1 buf lim)
  show ?case
  proof (cases "lim \<le> length buf")
    case True
    with 1(2) have eq: "split_loop buf lim = take lim buf # split_loop (drop lim buf) lim"
      by (subst split_loop.simps) simp
    show ?thesis
    proof (cases i)
      case (Suc j)
      with 1(1) [of j] 1(2,3) True show ?thesis by (simp add: eq)
    qed (simp add: eq True)
  next
    case False
    then have "length (split_loop buf lim) \<le> 1" by (subst split_loop.simps) simp
    with 1(3) show ?thesis by simp
  qed
qed

section \<open>A store of records as an interface\<close>

text \<open>
  Records are read and saved under their keys. Whatever holds of every record that can be read
  stays so when it holds of the records that are saved.
\<close>

locale record_store =
  fixes get :: "'d \<Rightarrow> 'k \<Rightarrow> 'r result" and save :: "'d \<Rightarrow> 'r \<Rightarrow> 'd result" and key :: "'r \<Rightarrow> 'k" and ok :: bool
  assumes get_save: "ok \<Longrightarrow> save d r = Inr d' \<Longrightarrow> get d' k = (if k = key r then Inr r else get d k)"
begin

definition holds :: "('k \<Rightarrow> 'r \<Rightarrow> bool) \<Rightarrow> 'd \<Rightarrow> bool" where
  "holds I d \<longleftrightarrow> (\<forall>k r. get d k = Inr r \<longrightarrow> I k r)"

lemma holdsD: "holds I d \<Longrightarrow> get d k = Inr r \<Longrightarrow> I k r"
  by (simp add: holds_def)

lemma holds_save: "ok \<Longrightarrow> holds I d \<Longrightarrow> save d r = Inr d' \<Longrightarrow> I (key r) r \<Longrightarrow> holds I d'"
  unfolding holds_def by (metis get_save sum.inject(2))

end

interpretation upload_records: record_store "GetUploadRecord E U" "SaveUploadRecord E U" ur_Key
    "(\<exists>V. pebble_ok (e_db E) V) \<and> pebble_total (e_db E) \<and> codec_ok (up_json U)"
  for E :: "('d, 'b) env" and U
proof
  fix d d' :: 'd and r k
  assume ok: "(\<exists>V. pebble_ok (e_db E) V) \<and> pebble_total (e_db E) \<and> codec_ok (up_json U)"
    and save: "SaveUploadRecord E U d r = Inr d'"
  then obtain V where P: "pebble_ok (e_db E) V" "pebble_total (e_db E)" by blast
  obtain data where data: "marshal (up_json U) r = Inr data" "db_set (e_db E) d (hash_Bytes (ur_Key r)) data = Inr d'"
    using save by (auto simp: SaveUploadRecord_def rbind_eq_Inr)
  have "content V d' = (content V d)(hash_Bytes (ur_Key r) \<mapsto> data)"
    using P(1) data(2) unfolding pebble_ok_def by blast
  moreover have "unmarshal (up_json U) data = Inr r" using ok data(1) by (simp add: codec_ok_def)
  ultimately show "GetUploadRecord E U d' k = (if k = ur_Key r then Inr r else GetUploadRecord E U d k)"
    using db_get_total [OF P] by (auto simp: GetUploadRecord_def)
qed

section \<open>What completed records name\<close>

text \<open>\<open>placed\<close> is what Celestia holds under an identifier.\<close>

definition chunk_placed :: "('d, 'b) env \<Rightarrow> (BlobIdentifier \<Rightarrow> bytes option) \<Rightarrow> bytes \<Rightarrow> BlobIdentifier \<Rightarrow> bool" where
  "chunk_placed E placed v i \<longleftrightarrow> (\<exists>data. placed i = Some data
     \<and> marshal (e_envelope E) (ChunkDataE \<lparr>cd_Version = ascii ''1.0'', cd_ChunkData = v\<rparr>) = Inr data)"

definition describes :: "('d, 'b) env \<Rightarrow> (BlobIdentifier \<Rightarrow> bytes option) \<Rightarrow> FileManifest \<Rightarrow> bytes \<Rightarrow> bool" where
  "describes E placed m f \<longleftrightarrow> fm_FileSize m = of_nat (length f) \<and> fm_FileHash m = hash_Bytes (e_B E f)
     \<and> (\<exists>vs. concat vs = f \<and> list_all2 (\<lambda>cr v. \<exists>i. cr_Id cr = Some (bi_Proto i)
          \<and> cr_ChunkHash cr = hash_Bytes (e_B E v) \<and> chunk_placed E placed v i) (fm_Chunks m) vs)"

definition file_placed :: "('d, 'b) env \<Rightarrow> (BlobIdentifier \<Rightarrow> bytes option) \<Rightarrow> bytes \<Rightarrow> BlobIdentifier \<Rightarrow> bool" where
  "file_placed E placed f i \<longleftrightarrow> (\<exists>m data. placed i = Some data \<and> marshal (e_envelope E) (FileManifestE m) = Inr data
     \<and> describes E placed m f)"

definition submitter_ok :: "uploader \<Rightarrow> (BlobIdentifier \<Rightarrow> bytes option) \<Rightarrow> bool" where
  "submitter_ok U placed \<longleftrightarrow> (\<forall>k data i. up_submit U k data = Some (Inr i) \<longrightarrow> placed i = Some data)"

abbreviation chunk_rec :: "('d, 'b) env \<Rightarrow> bytes \<Rightarrow> hash" where
  "chunk_rec E v \<equiv> chunk_record_key (e_B E) (HashBytes (e_B E) [v])"

abbreviation file_rec :: "('d, 'b) env \<Rightarrow> bytes \<Rightarrow> hash" where
  "file_rec E f \<equiv> HashBytes (e_B E) [f]"

text \<open>The hash does not collide on the record keys of the files \<open>fs\<close> and the chunks \<open>vs\<close> in use.\<close>

definition keys_differ :: "('d, 'b) env \<Rightarrow> bytes set \<Rightarrow> bytes set \<Rightarrow> bool" where
  "keys_differ E fs vs \<longleftrightarrow> inj_on (chunk_rec E) vs \<and> inj_on (file_rec E) fs \<and> chunk_rec E ` vs \<inter> file_rec E ` fs = {}"

definition record_ok ::
  "('d, 'b) env \<Rightarrow> uploader \<Rightarrow> (BlobIdentifier \<Rightarrow> bytes option) \<Rightarrow> bytes set \<Rightarrow> bytes set \<Rightarrow> hash \<Rightarrow> UploadRecord \<Rightarrow> bool" where
  "record_ok E U placed fs vs k r \<longleftrightarrow> ur_Key r = k \<and> (ur_Completed r \<longrightarrow>
     (\<forall>v\<in>vs. k = chunk_rec E v \<longrightarrow> (\<exists>i. ur_ManifestID r = bi_ID (up_base36 U) i \<and> chunk_placed E placed v i))
     \<and> (\<forall>f\<in>fs. k = file_rec E f \<longrightarrow> (\<exists>i. ur_ManifestID r = bi_ID (up_base36 U) i \<and> file_placed E placed f i)))"

definition upload_ok :: "('d, 'b) env \<Rightarrow> ('d, 'b) store_view \<Rightarrow> uploader \<Rightarrow> (BlobIdentifier \<Rightarrow> bytes option) \<Rightarrow> bool" where
  "upload_ok E V U placed \<longleftrightarrow> pebble_ok (e_db E) V \<and> pebble_total (e_db E) \<and> codec_ok (up_json U)
     \<and> base36_ok (up_base36 U) \<and> submitter_ok U placed"

definition records_ok ::
  "('d, 'b) env \<Rightarrow> uploader \<Rightarrow> (BlobIdentifier \<Rightarrow> bytes option) \<Rightarrow> bytes set \<Rightarrow> bytes set \<Rightarrow> 'd \<Rightarrow> bool" where
  "records_ok E U placed fs vs d \<longleftrightarrow> (\<forall>k r. GetUploadRecord E U d k = Inr r \<longrightarrow> record_ok E U placed fs vs k r)"

lemma records_ok_holds:
  fixes E :: "('d, 'b) env"
  shows "records_ok E U placed fs vs = upload_records.holds TYPE('b) E U (record_ok E U placed fs vs)"
  by (simp add: records_ok_def upload_records.holds_def fun_eq_iff)

lemma records_ok_save:
  assumes "upload_ok E V U placed" "records_ok E U placed fs vs d" "SaveUploadRecord E U d r = Inr d'"
    and "record_ok E U placed fs vs (ur_Key r) r"
  shows "records_ok E U placed fs vs d'"
proof -
  have "(\<exists>V. pebble_ok (e_db E) V) \<and> pebble_total (e_db E) \<and> codec_ok (up_json U)"
    using assms(1) unfolding upload_ok_def by blast
  from upload_records.holds_save [OF this] assms(2-4) show ?thesis unfolding records_ok_holds by blast
qed

lemma get_saved:
  assumes "upload_ok E V U placed" "SaveUploadRecord E U d r = Inr d'"
  shows "GetUploadRecord E U d' k = (if k = ur_Key r then Inr r else GetUploadRecord E U d k)"
  using assms upload_records.get_save [of E U d r d'] unfolding upload_ok_def by blast

lemma record_ok_chunk:
  assumes "keys_differ E fs vs" "v \<in> vs" "chunk_placed E placed v i" "ur_Key r = chunk_rec E v"
    and "ur_ManifestID r = bi_ID (up_base36 U) i"
  shows "record_ok E U placed fs vs (ur_Key r) r"
  using assms unfolding record_ok_def keys_differ_def by (auto dest: inj_onD)

lemma record_ok_file:
  assumes "keys_differ E fs vs" "f \<in> fs" "file_placed E placed f i" "ur_Key r = file_rec E f"
    and "ur_ManifestID r = bi_ID (up_base36 U) i"
  shows "record_ok E U placed fs vs (ur_Key r) r"
  using assms unfolding record_ok_def keys_differ_def by (auto dest: inj_onD)

section \<open>The steps of an upload\<close>

text \<open>A chunk whose record is complete.\<close>

definition chunk_done ::
  "('d, 'b) env \<Rightarrow> uploader \<Rightarrow> (BlobIdentifier \<Rightarrow> bytes option) \<Rightarrow> 'd \<Rightarrow> bytes \<Rightarrow> bool" where
  "chunk_done E U placed d v \<longleftrightarrow> (\<exists>r i. GetUploadRecord E U d (chunk_rec E v) = Inr r
     \<and> ur_ManifestID r = bi_ID (up_base36 U) i \<and> chunk_placed E placed v i)"

definition job_of :: "('d, 'b) env \<Rightarrow> bytes \<Rightarrow> chunk_job \<Rightarrow> bool" where
  "job_of E v job \<longleftrightarrow> cj_chunk job = v \<and> cj_hash job = HashBytes (e_B E) [v] \<and> cj_key job = chunk_rec E v
     \<and> (\<forall>k data. cj_submitted job = Some (k, data) \<longrightarrow>
          marshal (e_envelope E) (ChunkDataE \<lparr>cd_Version = ascii ''1.0'', cd_ChunkData = v\<rparr>) = Inr data)"

lemma prepare_chunks_jobs:
  assumes "prepare_chunks E U d n chunks = (Inr jobs, n')" "records_ok E U placed fs vs d" "set chunks \<subseteq> vs"
  shows "list_all2 (job_of E) chunks jobs
    \<and> (\<forall>job\<in>set jobs. cj_submitted job = None \<longrightarrow> chunk_done E U placed d (cj_chunk job))"
  using assms
proof (induction chunks arbitrary: n n' jobs)
  case (Cons v chunks)
  obtain r where r: "GetUploadRecord E U d (chunk_rec E v) = Inr r"
    using Cons.prems(1) by (cases "GetUploadRecord E U d (chunk_rec E v)") (simp_all add: Let_def)
  have ok: "record_ok E U placed fs vs (chunk_rec E v) r" using Cons.prems(2) r by (simp add: records_ok_def)
  show ?case
  proof (cases "ur_Completed r")
    case True
    with Cons.prems(1) r obtain jobs' where rec: "prepare_chunks E U d n chunks = (Inr jobs', n')"
      and jobs: "jobs = \<lparr>cj_chunk = v, cj_hash = HashBytes (e_B E) [v], cj_key = chunk_rec E v, cj_submitted = None\<rparr> # jobs'"
      by (auto simp: Let_def rbind_eq_Inr split: prod.splits)
    have "chunk_done E U placed d v"
      using ok True Cons.prems(3) r unfolding record_ok_def chunk_done_def by auto
    with Cons.IH [OF rec Cons.prems(2)] Cons.prems(3) show ?thesis by (simp add: jobs job_of_def)
  next
    case False
    with Cons.prems(1) r obtain jobs' data where rec: "prepare_chunks E U d (n + 1) chunks = (Inr jobs', n')"
      and data: "marshal (e_envelope E) (ChunkDataE \<lparr>cd_Version = ascii ''1.0'', cd_ChunkData = v\<rparr>) = Inr data"
      and jobs: "jobs = \<lparr>cj_chunk = v, cj_hash = HashBytes (e_B E) [v], cj_key = chunk_rec E v,
        cj_submitted = Some (n, data)\<rparr> # jobs'"
      by (auto simp: Let_def rbind_eq_Inr split: prod.splits sum.splits)
    from Cons.IH [OF rec Cons.prems(2)] Cons.prems(3) data show ?thesis by (simp add: jobs job_of_def)
  qed
qed simp

lemma complete_record_ok:
  assumes U: "upload_ok E V U placed" and kd: "keys_differ E fs vs" and ok: "records_ok E U placed fs vs d"
    and v: "v \<in> vs" "chunk_placed E placed v i" and run: "complete_record E U d (chunk_rec E v) i = (res, d')"
  shows "records_ok E U placed fs vs d'" and "res = Inr x \<Longrightarrow> chunk_done E U placed d' v"
    and "w \<in> vs \<Longrightarrow> chunk_done E U placed d w \<Longrightarrow> chunk_done E U placed d' w"
proof -
  let ?k = "chunk_rec E v"
  show "records_ok E U placed fs vs d'" "res = Inr x \<Longrightarrow> chunk_done E U placed d' v"
    "w \<in> vs \<Longrightarrow> chunk_done E U placed d w \<Longrightarrow> chunk_done E U placed d' w"
  proof (atomize (full), cases "GetUploadRecord E U d ?k")
    case (Inl e)
    with run ok show "records_ok E U placed fs vs d' \<and> (res = Inr x \<longrightarrow> chunk_done E U placed d' v)
        \<and> (w \<in> vs \<longrightarrow> chunk_done E U placed d w \<longrightarrow> chunk_done E U placed d' w)"
      by (auto simp: complete_record_def)
  next
    case (Inr r)
    then have key: "ur_Key r = ?k" using ok unfolding records_ok_def record_ok_def by blast
    let ?r = "r\<lparr>ur_Completed := True, ur_ManifestID := bi_ID (up_base36 U) i\<rparr>"
    show "records_ok E U placed fs vs d' \<and> (res = Inr x \<longrightarrow> chunk_done E U placed d' v)
        \<and> (w \<in> vs \<longrightarrow> chunk_done E U placed d w \<longrightarrow> chunk_done E U placed d' w)"
    proof (cases "SaveUploadRecord E U d ?r")
      case (Inl e)
      with Inr run ok show ?thesis by (auto simp: complete_record_def)
    next
      case (Inr d1)
      with \<open>GetUploadRecord E U d ?k = Inr r\<close> run have d1: "d' = d1" "res = Inr ()" by (auto simp: complete_record_def)
      have get: "GetUploadRecord E U d' k = (if k = ?k then Inr ?r else GetUploadRecord E U d k)" for k
        using get_saved [OF U Inr] d1(1) key by simp
      have "record_ok E U placed fs vs (ur_Key ?r) ?r" by (rule record_ok_chunk [OF kd v]) (simp_all add: key)
      from records_ok_save [OF U ok Inr this] have "records_ok E U placed fs vs d'" by (simp add: d1)
      moreover have new: "chunk_done E U placed d' v" using v(2) unfolding chunk_done_def by (auto simp: get)
      moreover have "chunk_done E U placed d' w" if "w \<in> vs" "chunk_done E U placed d w"
      proof (cases "chunk_rec E w = ?k")
        case True
        then have "w = v" using kd that(1) v(1) unfolding keys_differ_def by (auto dest: inj_onD)
        with new show ?thesis by simp
      next
        case False
        with that(2) show ?thesis unfolding chunk_done_def by (simp add: get)
      qed
      ultimately show ?thesis by blast
    qed
  qed
qed

lemma await_chunks_ok:
  assumes U: "upload_ok E V U placed" and kd: "keys_differ E fs vs"
    and "list_all2 (job_of E) chunks jobs" "set chunks \<subseteq> vs" "records_ok E U placed fs vs d"
    and "await_chunks E U d jobs = (res, d')"
  shows "records_ok E U placed fs vs d' \<and> (\<forall>w\<in>vs. chunk_done E U placed d w \<longrightarrow> chunk_done E U placed d' w)
    \<and> (res = Inr () \<longrightarrow> (\<forall>job\<in>set jobs. cj_submitted job \<noteq> None \<longrightarrow> chunk_done E U placed d' (cj_chunk job)))"
  using assms(3-6)
proof (induction chunks jobs arbitrary: d rule: list_all2_induct)
  case (Cons v chunks job jobs)
  have job: "cj_chunk job = v" "cj_key job = chunk_rec E v" using Cons.hyps(1) by (simp_all add: job_of_def)
  have v: "v \<in> vs" "set chunks \<subseteq> vs" using Cons.prems(1) by simp_all
  show ?case
  proof (cases "cj_submitted job")
    case None
    with Cons.IH [OF v(2) Cons.prems(2)] Cons.prems(3) show ?thesis by simp
  next
    case (Some p)
    then obtain k data where p: "cj_submitted job = Some (k, data)" by (cases p) simp
    show ?thesis
    proof (cases "\<exists>i. up_submit U k data = Some (Inr i)")
      case False
      with Cons.prems(2,3) p show ?thesis by (auto split: option.splits sum.splits)
    next
      case True
      then obtain i where i: "up_submit U k data = Some (Inr i)" by blast
      have "placed i = Some data" using U i by (simp add: upload_ok_def submitter_ok_def)
      then have placed: "chunk_placed E placed v i"
        using Cons.hyps(1) p by (simp add: job_of_def chunk_placed_def)
      obtain r1 d1 where c: "complete_record E U d (chunk_rec E v) i = (r1, d1)" by fastforce
      note cr = complete_record_ok [OF U kd Cons.prems(2) v(1) placed c]
      show ?thesis
      proof (cases r1)
        case (Inl e)
        with Cons.prems(3) p i c have "res = Inl e" "d' = d1" by (simp_all add: job)
        with cr(1,3) show ?thesis by simp
      next
        case (Inr u)
        with Cons.prems(3) p i c have "await_chunks E U d1 jobs = (res, d')" by (simp add: job)
        from Cons.IH [OF v(2) cr(1) this] cr(2) [OF Inr] cr(3) v(1) show ?thesis by (simp add: job)
      qed
    qed
  qed
qed auto

lemma chunk_refs_ok:
  assumes U: "upload_ok E V U placed" and "list_all2 (job_of E) chunks jobs"
    and "\<forall>job\<in>set jobs. chunk_done E U placed d (cj_chunk job)" "map_res (chunk_ref E U d) jobs = Inr refs"
  shows "list_all2 (\<lambda>cr v. \<exists>i. cr_Id cr = Some (bi_Proto i) \<and> cr_ChunkHash cr = hash_Bytes (e_B E v)
     \<and> chunk_placed E placed v i) refs chunks"
  using assms(2-4)
proof (induction chunks jobs arbitrary: refs rule: list_all2_induct)
  case (Cons v chunks job jobs)
  have b36: "base36_ok (up_base36 U)" using U by (simp add: upload_ok_def)
  obtain r i where r: "GetUploadRecord E U d (chunk_rec E v) = Inr r" "ur_ManifestID r = bi_ID (up_base36 U) i"
    "chunk_placed E placed v i"
    using Cons.hyps(1) Cons.prems(1) by (auto simp: chunk_done_def job_of_def)
  obtain cr refs' where refs: "refs = cr # refs'" "chunk_ref E U d job = Inr cr" "map_res (chunk_ref E U d) jobs = Inr refs'"
    using Cons.prems(2) by (auto simp: rbind_eq_Inr)
  have "cr = \<lparr>cr_Id = Some (bi_Proto i), cr_ChunkHash = hash_Bytes (HashBytes (e_B E) [v]), cr_ChunkSize = 0\<rparr>"
    using refs(2) r Cons.hyps(1) by (simp add: chunk_ref_def job_of_def BlobIdentifierFromString_bi_ID [OF b36])
  with r(3) Cons.IH [OF _ refs(3)] Cons.prems(1) show ?case by (auto simp: refs(1))
qed simp

lemma submit_manifest_ok:
  assumes U: "upload_ok E V U placed" and kd: "keys_differ E fs vs" and ok: "records_ok E U placed fs vs d"
    and f: "f \<in> fs" "describes E placed m f" and st: "GetUploadRecord E U d0 (file_rec E f) = Inr st" "records_ok E U placed fs vs d0"
    and run: "submit_manifest E U d n m st = (res, d', n')"
  shows "records_ok E U placed fs vs d'" and "res = Inr i \<Longrightarrow> file_placed E placed f i"
proof -
  have key: "ur_Key st = file_rec E f" using st unfolding records_ok_def record_ok_def by blast
  have "records_ok E U placed fs vs d' \<and> (res = Inr i \<longrightarrow> file_placed E placed f i)"
  proof (cases "\<exists>data j. marshal (e_envelope E) (FileManifestE m) = Inr data \<and> up_submit U n data = Some (Inr j)")
    case False
    with run ok show ?thesis
      by (auto simp: submit_manifest_def sync_PutFileManifest_def split: sum.splits option.splits)
  next
    case True
    then obtain data j where j: "marshal (e_envelope E) (FileManifestE m) = Inr data" "up_submit U n data = Some (Inr j)" by blast
    have "placed j = Some data" using U j(2) by (simp add: upload_ok_def submitter_ok_def)
    then have placed: "file_placed E placed f j" using f(2) j(1) unfolding file_placed_def by blast
    let ?r = "st\<lparr>ur_Completed := True, ur_ManifestID := bi_ID (up_base36 U) j\<rparr>"
    show ?thesis
    proof (cases "SaveUploadRecord E U d ?r")
      case (Inl e)
      with run j ok show ?thesis by (auto simp: submit_manifest_def sync_PutFileManifest_def)
    next
      case (Inr d1)
      with run j have "d' = d1" "res = Inr j" by (auto simp: submit_manifest_def sync_PutFileManifest_def)
      moreover have "record_ok E U placed fs vs (ur_Key ?r) ?r"
        by (rule record_ok_file [OF kd f(1) placed]) (simp_all add: key)
      ultimately show ?thesis using records_ok_save [OF U ok Inr] placed by auto
    qed
  qed
  then show "records_ok E U placed fs vs d'" "res = Inr i \<Longrightarrow> file_placed E placed f i" by simp_all
qed

text \<open>The ways an upload of a file ends.\<close>

lemma PutFileData_cases:
  assumes run: "PutFileData E U opened d n name f lim = (res, d', n')"
  obtains (failed) e where "res = Inl e" "d' = d"
  | (complete) st where "GetUploadRecord E U d (file_rec E f) = Inr st" "ur_Completed st" "d' = d"
      "res = wrap ''error parsing manifest identifier'' (BlobIdentifierFromString (up_base36 U) (ur_ManifestID st))"
  | (awaiting) chunks jobs n1 ar e where "Split f lim = Inr chunks" "prepare_chunks E U d n chunks = (Inr jobs, n1)"
      "await_chunks E U d jobs = (ar, d')" "res = Inl e"
  | (submitted) st chunks jobs n1 d1 refs where "GetUploadRecord E U d (file_rec E f) = Inr st"
      "Split f lim = Inr chunks" "prepare_chunks E U d n chunks = (Inr jobs, n1)" "await_chunks E U d jobs = (Inr (), d1)"
      "map_res (chunk_ref E U d1) jobs = Inr refs"
      "submit_manifest E U d1 n1 ((file_manifest (e_B E) U name f)\<lparr>fm_Chunks := refs\<rparr>) st = (res, d', n')"
proof (cases "rbind (wrap ''error getting upload state'' opened)
    (\<lambda>_. wrap ''error getting file state'' (GetUploadRecord E U d (file_rec E f)))")
  case (Inl e)
  with run have "res = Inl e" "d' = d" by (simp_all add: PutFileData_def)
  then show thesis by (rule failed)
next
  case st: (Inr st)
  then have get: "GetUploadRecord E U d (file_rec E f) = Inr st" by (auto simp: rbind_eq_Inr)
  show thesis
  proof (cases "ur_Completed st")
    case True
    with run st get complete show thesis by (simp add: PutFileData_def)
  next
    case False
    from run st False show thesis
      by (cases "Split f lim"; cases "fst (prepare_chunks E U d n (projr (Split f lim)))")
         (auto simp: PutFileData_def split: prod.splits sum.splits intro: failed awaiting submitted [OF get])
  qed
qed

text \<open>A file upload keeps the records right whatever fails, and returns a manifest of the file.\<close>

lemma jobs_done:
  assumes "list_all2 (job_of E) chunks jobs" "set chunks \<subseteq> vs"
    and "\<forall>job\<in>set jobs. cj_submitted job = None \<longrightarrow> chunk_done E U placed d (cj_chunk job)"
    and "\<forall>w\<in>vs. chunk_done E U placed d w \<longrightarrow> chunk_done E U placed d1 w"
    and "\<forall>job\<in>set jobs. cj_submitted job \<noteq> None \<longrightarrow> chunk_done E U placed d1 (cj_chunk job)"
  shows "\<forall>job\<in>set jobs. chunk_done E U placed d1 (cj_chunk job)"
proof
  fix job assume job: "job \<in> set jobs"
  then have "cj_chunk job \<in> vs"
  proof -
    obtain i where i: "i < length jobs" "job = jobs ! i" using job by (auto simp: in_set_conv_nth)
    then have "cj_chunk job = chunks ! i" "i < length chunks"
      using assms(1) by (auto simp: list_all2_conv_all_nth job_of_def)
    with assms(2) show ?thesis using nth_mem by force
  qed
  with job assms(3-5) show "chunk_done E U placed d1 (cj_chunk job)" by (cases "cj_submitted job") auto
qed

lemma PutFileData_ok:
  assumes U: "upload_ok E V U placed" and kd: "keys_differ E fs vs" and ok: "records_ok E U placed fs vs d"
    and f: "f \<in> fs" "set (split_loop f (nat lim)) \<subseteq> vs"
    and run: "PutFileData E U opened d n name f lim = (res, d', n')"
  shows "records_ok E U placed fs vs d' \<and> (\<forall>i. res = Inr i \<longrightarrow> file_placed E placed f i)"
proof -
  have b36: "base36_ok (up_base36 U)" using U by (simp add: upload_ok_def)
  have split: "Split f lim = Inr chunks \<Longrightarrow> chunks = split_loop f (nat lim) \<and> set chunks \<subseteq> vs" for chunks
    using f(2) by (auto simp: Split_def split: if_splits)
  from run show ?thesis
  proof (cases rule: PutFileData_cases)
    case failed
    with ok show ?thesis by simp
  next
    case (complete st)
    then obtain j where "ur_ManifestID st = bi_ID (up_base36 U) j" "file_placed E placed f j"
      using ok f(1) unfolding records_ok_def record_ok_def by blast
    with complete ok show ?thesis by (simp add: BlobIdentifierFromString_bi_ID [OF b36])
  next
    case (awaiting chunks jobs n1 ar e)
    note pj = prepare_chunks_jobs [OF awaiting(2) ok conjunct2 [OF split [OF awaiting(1)]]]
    from await_chunks_ok [OF U kd conjunct1 [OF pj] conjunct2 [OF split [OF awaiting(1)]] ok awaiting(3)] awaiting(4)
    show ?thesis by simp
  next
    case (submitted st chunks jobs n1 d1 refs)
    note vs = split [OF submitted(2), THEN conjunct2] and pj = prepare_chunks_jobs [OF submitted(3) ok vs]
    note aw = await_chunks_ok [OF U kd conjunct1 [OF pj] vs ok submitted(4)]
    have "\<forall>job\<in>set jobs. chunk_done E U placed d1 (cj_chunk job)"
      by (rule jobs_done [OF conjunct1 [OF pj] vs]) (use pj aw in auto)
    from chunk_refs_ok [OF U conjunct1 [OF pj] this submitted(5)]
    have "describes E placed ((file_manifest (e_B E) U name f)\<lparr>fm_Chunks := refs\<rparr>) f"
      using split_loop_concat [of f "nat lim"] split [OF submitted(2)] by (auto simp: describes_def file_manifest_def)
    from submit_manifest_ok [OF U kd conjunct1 [OF aw] f(1) this submitted(1) ok submitted(6)] show ?thesis by blast
  qed
qed

section \<open>The node accepts the manifest\<close>

text \<open>Reading a recorded chunk in a transaction.\<close>

lemma recorded_chunk:
  assumes P: "pebble_ok (e_db E) V" "pebble_total (e_db E)" and good: "tx_good E V g d tx heap"
    and v: "tx_view V d tx (chk_key k) = Some v"
  shows "tx_GetChunk E d tx k = Inr (Some v)" "tx_GetChunkHash E d tx k = Inr (Some (e_B E v))"
proof -
  have "\<exists>w. tx_GetChunk E d tx k = Inr w"
    using db_get_total [OF P] by (auto simp: tx_GetChunk_def cs_GetChunk_def split: option.splits)
  with tx_GetChunk_view [OF P(1) good] v show "tx_GetChunk E d tx k = Inr (Some v)" by force
  have agrees: "(case tx_pendingChunkHashes tx k of Some x \<Rightarrow> Some (hash_Bytes x) | None \<Rightarrow> content V d (chkh_key k))
      = tx_view V d tx (chkh_key k)"
    using good by (simp add: tx_good_def chunk_hash_writes.read_through)
  have "tx_view V d tx (chkh_key k) = Some (hash_Bytes (e_B E v))"
    using good v by (simp add: tx_good_def store_sound_def)
  with agrees db_get_total [OF P] show "tx_GetChunkHash E d tx k = Inr (Some (e_B E v))"
    by (auto simp: tx_GetChunkHash_def cs_GetChunkHash_def split: option.splits simp flip: chkh_key_def)
qed

lemma collect_chunks_accepts:
  assumes P: "pebble_ok (e_db E) V" "pebble_total (e_db E)" and good: "tx_good E V g d tx heap"
    and "list_all2 (\<lambda>cr v. \<exists>i. cr_Id cr = Some (bi_Proto i) \<and> cr_ChunkHash cr = hash_Bytes (e_B E v)
        \<and> tx_view V d tx (chk_key (bi_Commitment i)) = Some v) crs vs"
  shows "collect_chunks E d tx crs acc = Inr (Some (acc @ concat vs))"
  using assms(4)
proof (induction crs vs arbitrary: acc rule: list_all2_induct)
  case (Cons cr crs v vs)
  then obtain i where i: "cr_Id cr = Some (bi_Proto i)" "cr_ChunkHash cr = hash_Bytes (e_B E v)"
    "tx_view V d tx (chk_key (bi_Commitment i)) = Some v" by blast
  from recorded_chunk [OF P good i(3)] Cons.IH i(1,2) show ?case
    by (simp add: pb_commitment_of_def) (simp add: bi_Proto_def)
qed simp

lemma uploaded_file_accepted:
  assumes E: "env_ok E V" "pebble_total (e_db E)" and good: "tx_good E V g d tx heap"
    and placed: "file_placed E placed f i"
    and recorded: "\<And>v j. chunk_placed E placed v j \<Longrightarrow> tx_view V d tx (chk_key (bi_Commitment j)) = Some v"
    and enc: "\<And>m data. marshal (e_envelope E) (FileManifestE m) = Inr data \<Longrightarrow> \<exists>b. marshal (e_file E) m = Inr b"
    and len: "length f \<le> 2 ^ 48"
  shows "\<exists>data m tx'. placed i = Some data \<and> unmarshal (e_envelope E) data = Inr (FileManifestE m)
    \<and> SyncFileManifest E d tx heap (bi_Height i) \<lparr>bl_Commitment = hash_Bytes (bi_Commitment i), bl_Data = data\<rparr> m
        = Inr (True, tx', heap + 1)
    \<and> (\<forall>d'. content V d' = tx_view V d tx' \<longrightarrow> GetFileData E (Inr d') i = Inr f)"
proof -
  note P = env_okD(2) [OF E(1)] E(2)
  obtain m data vs where m: "placed i = Some data" "marshal (e_envelope E) (FileManifestE m) = Inr data"
    "fm_FileSize m = of_nat (length f)" "fm_FileHash m = hash_Bytes (e_B E f)" "concat vs = f"
    and refs: "list_all2 (\<lambda>cr v. \<exists>i. cr_Id cr = Some (bi_Proto i) \<and> cr_ChunkHash cr = hash_Bytes (e_B E v)
      \<and> chunk_placed E placed v i) (fm_Chunks m) vs"
    using placed unfolding file_placed_def describes_def by blast
  let ?blob = "\<lparr>bl_Commitment = hash_Bytes (bi_Commitment i), bl_Data = data\<rparr>"
  have "list_all2 (\<lambda>cr v. \<exists>i. cr_Id cr = Some (bi_Proto i) \<and> cr_ChunkHash cr = hash_Bytes (e_B E v)
      \<and> tx_view V d tx (chk_key (bi_Commitment i)) = Some v) (fm_Chunks m) vs"
    using refs by (rule list_all2_mono) (use recorded in blast)
  from collect_chunks_accepts [OF P good this] m(5)
  have coll: "collect_chunks E d tx (fm_Chunks m) [] = Inr (Some f)" by simp
  obtain b where b: "marshal (e_file E) m = Inr b" using enc [OF m(2)] by blast
  have nil: "\<not> nil_maps tx" using good by (simp add: tx_good_def)
  obtain tx' where put: "PutFileManifest E tx (heap, i) m = Inr tx'"
    using PutFileManifest_put [OF P nil b, of heap i g d] by blast
  have run: "SyncFileManifest E d tx heap (bi_Height i) ?blob m = Inr (True, tx', heap + 1)"
    using coll m(3,4) put by (cases i) (simp add: SyncFileManifest_def Let_def)
  have "GetFileData E (Inr d') i = Inr f" if d': "content V d' = tx_view V d tx'" for d'
  proof -
    have view: "content V d' = (tx_view V d tx)(fman_key i \<mapsto> b)"
      using PutFileManifest_effect(1) [OF P(1) put, of d] b d' by auto
    have "unmarshal (e_file E) b = Inr m" using env_okD(5) [OF E(1)] b by (simp add: codec_ok_def)
    then have man: "node_GetFileManifest E (Inr d') i = Inr m"
      by (intro node_GetFileManifest_stored [OF P]) (simp add: stored_file_def view)
    have "list_all2 (\<lambda>cr v. \<exists>k. chunk_key_of cr = Inr k \<and> content V d' (chk_key k) = Some v
       \<and> hash_Bytes (e_B E v) = cr_ChunkHash cr) (fm_Chunks m) vs"
      using refs
    proof (rule list_all2_mono)
      fix cr :: ChunkReference and v
      assume "\<exists>i. cr_Id cr = Some (bi_Proto i) \<and> cr_ChunkHash cr = hash_Bytes (e_B E v) \<and> chunk_placed E placed v i"
      then obtain j where j: "cr_Id cr = Some (bi_Proto j)" "cr_ChunkHash cr = hash_Bytes (e_B E v)"
        "tx_view V d tx (chk_key (bi_Commitment j)) = Some v" using recorded by blast
      have "chk_key (bi_Commitment j) \<noteq> fman_key i" using encode_key_inj [of "KChunk (bi_Commitment j)" "KFile i"] by simp
      with j show "\<exists>k. chunk_key_of cr = Inr k \<and> content V d' (chk_key k) = Some v \<and> hash_Bytes (e_B E v) = cr_ChunkHash cr"
        by (intro exI [of _ "bi_Commitment j"]) (simp add: view chunk_key_of_def pb_commitment_of_def, simp add: bi_Proto_def)
    qed
    from download_chunks_sound [OF P this, of "[]"] m(5)
    have "download_chunks E (Inr d') (fm_Chunks m) [] = Inr f" by simp
    moreover have "unat (of_nat (length f) :: u64) \<le> 2 ^ 48" using len by (subst unat_of_nat_u64) simp_all
    ultimately show ?thesis using man m(3,4) by (simp add: GetFileData_def make_cap_def Let_def)
  qed
  moreover have "unmarshal (e_envelope E) data = Inr (FileManifestE m)"
    using env_okD(4) [OF E(1)] m(2) by (simp add: codec_ok_def)
  ultimately show ?thesis using m(1) run by blast
qed

end
