(* ===== verification/Files_Proofs.thy ===== *)
theory Files_Proofs
  imports Files Upload_Proofs
begin

text \<open>
  What export and upload of files do: decryption inverts encryption; an export writes nothing but the
  files of the manifest below the target, each with data that the node's manifest describes; the
  manifest of an uploaded directory is one that a node accepts.
\<close>

section \<open>Encryption\<close>

text \<open>The documented law of an AEAD.\<close>

definition aes_ok :: "aes \<Rightarrow> bool" where
  "aes_ok A \<longleftrightarrow> (\<forall>key nonce p. length nonce = NonceSize \<longrightarrow> gcm_open A key nonce (gcm_seal A key nonce p) = Inr p)"

lemma Decrypt_Encrypt:
  assumes "aes_ok A" "Encrypt A nonce plaintext key = Inr c" "\<And>x. nonce = Inr x \<Longrightarrow> length x = NonceSize"
  shows "Decrypt A c key = Inr plaintext"
proof -
  obtain x where x: "NewCipher key = Inr ()" "nonce = Inr x" "c = x @ gcm_seal A key x plaintext"
    using assms(2) by (auto simp: Encrypt_def rbind_eq_Inr)
  then have "length x = NonceSize" using assms(3) by blast
  with x assms(1) show ?thesis by (simp add: Decrypt_def aes_ok_def)
qed

section \<open>Export\<close>

text \<open>
  The disk without links: \<open>files\<close> is the content of the regular files by their cleaned paths. A
  write, even one that fails, changes at most its own file.
\<close>

definition disk_ok :: "'s fsys \<Rightarrow> ('s \<Rightarrow> bytes \<Rightarrow> bytes option) \<Rightarrow> bool" where
  "disk_ok F files \<longleftrightarrow>
     (\<forall>s p data r s'. fs_write F s p data = (r, s') \<longrightarrow> (\<forall>q. q \<noteq> path_Clean p \<longrightarrow> files s' q = files s q)
        \<and> (r = Inr () \<longrightarrow> files s' (path_Clean p) = Some data))
     \<and> (\<forall>s p r s'. fs_mkdir F s p = (r, s') \<longrightarrow> files s' = files s)
     \<and> (\<forall>s p data. fs_read F s p = Inr data \<longrightarrow> files s (path_Clean p) = Some data)"

lemma WriteFile_effect:
  assumes disk: "disk_ok F files" and run: "WriteFile F s target data = (r, s')"
  shows "q \<noteq> path_Clean target \<Longrightarrow> files s' q = files s q" and "r = Inr () \<Longrightarrow> files s' (path_Clean target) = Some data"
proof -
  obtain r1 s1 where mk: "fs_mkdir F s (path_Dir target) = (r1, s1)" by (cases "fs_mkdir F s (path_Dir target)")
  with disk have s1: "files s1 = files s" by (auto simp: disk_ok_def)
  obtain r2 s2 where wr: "fs_write F s1 target data = (r2, s2)" by (cases "fs_write F s1 target data")
  have w: "q \<noteq> path_Clean target \<Longrightarrow> files s2 q = files s1 q" "r2 = Inr () \<Longrightarrow> files s2 (path_Clean target) = Some data" for q
    using disk wr unfolding disk_ok_def by blast+
  show "q \<noteq> path_Clean target \<Longrightarrow> files s' q = files s q" "r = Inr () \<Longrightarrow> files s' (path_Clean target) = Some data"
    using run w s1 by (auto simp: WriteFile_def EnsureDir_def mk wr split: sum.splits)
qed

text \<open>What a successful export of a file leaves at the target.\<close>

definition exported :: "blake3 \<Rightarrow> storage_client \<Rightarrow> aes \<Rightarrow> base36 \<Rightarrow> BlobIdentifier \<Rightarrow> bytes option \<Rightarrow> bytes \<Rightarrow> bool" where
  "exported B S A c i key data \<longleftrightarrow> fetch_data S A c i key = Inr data
     \<or> (\<exists>m. sc_GetFileManifest S (bi_ID c i) = Inr (Some m) \<and> fm_FileSize m = of_nat (length data)
          \<and> fm_FileHash m = hash_Bytes (B data))"

lemma ExportFile_effect:
  assumes disk: "disk_ok F files" and run: "ExportFile B F S A c s i target key = (r, s')"
  shows "(\<forall>q. q \<noteq> path_Clean target \<longrightarrow> files s' q = files s q)
    \<and> (r = Inr () \<longrightarrow> (\<exists>data. files s' (path_Clean target) = Some data \<and> exported B S A c i key data))"
proof (cases "up_to_date B F S c s i target")
  case (Inl e)
  with run show ?thesis by (auto simp: ExportFile_def)
next
  case (Inr there)
  show ?thesis
  proof (cases there)
    case True
    then obtain data m where "fs_read F s target = Inr data" "sc_GetFileManifest S (bi_ID c i) = Inr (Some m)"
      "fm_FileSize m = of_nat (length data)" "fm_FileHash m = hash_Bytes (B data)"
      using Inr by (auto simp: up_to_date_def rbind_eq_Inr ReadFile_def present_def split: if_splits option.splits)
    moreover from this(1) disk have "files s (path_Clean target) = Some data" by (auto simp: disk_ok_def)
    moreover have "s' = s" using run Inr True by (simp add: ExportFile_def)
    ultimately show ?thesis by (auto simp: exported_def)
  next
    case False
    show ?thesis
    proof (cases "fetch_data S A c i key")
      case (Inl e)
      with run Inr False show ?thesis by (auto simp: ExportFile_def)
    next
      case (Inr data)
      obtain r1 s1 where wr: "WriteFile F s target data = (r1, s1)" by (cases "WriteFile F s target data")
      with run Inr False \<open>up_to_date B F S c s i target = Inr there\<close>
      have "s' = s1" "r = wrap ''error writing file to disk'' r1" by (auto simp: ExportFile_def)
      with WriteFile_effect [OF disk wr] Inr show ?thesis by (auto simp: exported_def)
    qed
  qed
qed

text \<open>The files of a manifest, at distinct paths.\<close>

abbreviation place :: "bytes \<Rightarrow> FileReference \<Rightarrow> bytes" where
  "place target ref \<equiv> path_Join target (fr_RelativePath ref)"

lemma path_Clean_Join: "a \<noteq> [] \<Longrightarrow> path_Clean (path_Join a b) = path_Join a b"
  by (simp add: path_Join_def)

definition placed_right :: "blake3 \<Rightarrow> storage_client \<Rightarrow> aes \<Rightarrow> base36 \<Rightarrow> bytes option \<Rightarrow> (bytes \<Rightarrow> bytes option) \<Rightarrow> bytes \<Rightarrow> FileReference \<Rightarrow> bool" where
  "placed_right B S A c key fs target ref \<longleftrightarrow> (\<exists>i data. BlobIdentifierFromProto (fr_Id ref) = Inr i
     \<and> fs (place target ref) = Some data \<and> exported B S A c i key data)"

lemma export_list_effect:
  assumes disk: "disk_ok F files" and t: "target \<noteq> []" and "export_list B F S A c target key s refs = (r, s')"
  shows "(\<forall>q. q \<notin> place target ` set refs \<longrightarrow> files s' q = files s q)
    \<and> (r = Inr () \<longrightarrow> distinct (map (place target) refs) \<longrightarrow> (\<forall>ref\<in>set refs. placed_right B S A c key (files s') target ref))"
  using assms(3)
proof (induction refs arbitrary: s)
  case (Cons ref refs)
  let ?p = "place target ref"
  show ?case
  proof (cases "BlobIdentifierFromProto (fr_Id ref)")
    case (Inl e)
    with Cons.prems show ?thesis by (auto simp: Let_def)
  next
    case (Inr i)
    obtain r1 s1 where ex: "ExportFile B F S A c s i ?p key = (r1, s1)" by (cases "ExportFile B F S A c s i ?p key")
    note one = ExportFile_effect [OF disk ex, unfolded path_Clean_Join [OF t]]
    show ?thesis
    proof (cases r1)
      case (Inl e)
      with Cons.prems \<open>BlobIdentifierFromProto (fr_Id ref) = Inr i\<close> ex one show ?thesis by (auto simp: Let_def)
    next
      case r1: (Inr u)
      with Cons.prems Inr ex have rest: "export_list B F S A c target key s1 refs = (r, s')" by (simp add: Let_def)
      note all = Cons.IH [OF rest]
      obtain data where data: "files s1 ?p = Some data" "exported B S A c i key data" using one r1 by auto
      have "placed_right B S A c key (files s') target ref" if "?p \<notin> place target ` set refs"
        using all that data Inr unfolding placed_right_def by metis
      with all one show ?thesis by auto
    qed
  qed
qed simp

text \<open>Where a directory is exported to.\<close>

definition below :: "bytes \<Rightarrow> bytes \<Rightarrow> bool" where
  "below target q \<longleftrightarrow> rooted q = rooted target \<and> (\<exists>rest. elements q = elements target @ rest)"

lemma place_below: "target \<noteq> [] \<Longrightarrow> downward (fr_RelativePath ref) \<Longrightarrow> below target (place target ref)"
  using elements_Join [of target "fr_RelativePath ref"] by (auto simp: below_def)

lemma ExportDirectory_effect:
  assumes disk: "disk_ok F files" and t: "target \<noteq> []" and m: "sc_GetDirectoryManifest S (bi_ID c i) = Inr (Some m)"
    and run: "ExportDirectory B F S A c s i target key = (r, s')"
  shows "(\<forall>q. q \<notin> place target ` set (dm_Files m) \<longrightarrow> files s' q = files s q)
    \<and> (r = Inr () \<longrightarrow> distinct (map (place target) (dm_Files m)) \<longrightarrow>
        (\<forall>ref\<in>set (dm_Files m). placed_right B S A c key (files s') target ref))"
proof -
  obtain r1 s1 where mk: "fs_mkdir F s target = (r1, s1)" by (cases "fs_mkdir F s target")
  with disk have s1: "files s1 = files s" by (auto simp: disk_ok_def)
  show ?thesis
  proof (cases r1)
    case (Inl e)
    with run mk s1 show ?thesis by (auto simp: ExportDirectory_def EnsureDir_def)
  next
    case (Inr u)
    with run mk m have "export_list B F S A c target key s1 (dm_Files m) = (r, s')"
      by (simp add: ExportDirectory_def EnsureDir_def present_def)
    from export_list_effect [OF disk t this] s1 show ?thesis by simp
  qed
qed

text \<open>A client of a node: what is answered is what the node answers.\<close>

definition client_of :: "storage_client \<Rightarrow> ('d, 'b) env \<Rightarrow> base36 \<Rightarrow> 'd result \<Rightarrow> bool" where
  "client_of S E c cs \<longleftrightarrow>
     (\<forall>x m. sc_GetFileManifest S x = Inr m \<longrightarrow> (\<exists>m'. m = Some m' \<and> rpc_GetFileManifest E c cs x = Inr m'))
     \<and> (\<forall>x data. sc_GetFileData S x = Inr data \<longrightarrow> rpc_GetFileData E c cs x = Inr data)
     \<and> (\<forall>x m. sc_GetDirectoryManifest S x = Inr m \<longrightarrow> (\<exists>m'. m = Some m' \<and> rpc_GetDirectoryManifest E c cs x = Inr m'))"

lemma GetFileData_checked:
  assumes "GetFileData E cs i = Inr data"
  shows "\<exists>m. node_GetFileManifest E cs i = Inr m \<and> fm_FileSize m = of_nat (length data) \<and> fm_FileHash m = hash_Bytes (e_B E data)"
  using assms by (auto simp: GetFileData_def rbind_eq_Inr Let_def hash_EqualBytes_def split: if_splits)

lemma exported_matches:
  assumes S: "client_of S E c cs" and c: "base36_ok c" and ex: "exported (e_B E) S A c i None data"
  shows "\<exists>m. node_GetFileManifest E cs i = Inr m \<and> fm_FileSize m = of_nat (length data) \<and> fm_FileHash m = hash_Bytes (e_B E data)"
proof -
  have parse: "parse_id c msg (bi_ID c i) = Inr i" for msg
    by (simp add: parse_id_def BlobIdentifierFromString_bi_ID [OF c])
  from ex show ?thesis unfolding exported_def
  proof
    assume "fetch_data S A c i None = Inr data"
    then have "sc_GetFileData S (bi_ID c i) = Inr data" by (auto simp: fetch_data_def rbind_eq_Inr split: if_splits)
    with S have "rpc_GetFileData E c cs (bi_ID c i) = Inr data" by (simp add: client_of_def)
    then have "GetFileData E cs i = Inr data" using parse by (simp add: rpc_GetFileData_def)
    then show ?thesis by (rule GetFileData_checked)
  next
    assume "\<exists>m. sc_GetFileManifest S (bi_ID c i) = Inr (Some m) \<and> fm_FileSize m = of_nat (length data)
      \<and> fm_FileHash m = hash_Bytes (e_B E data)"
    then obtain m where m: "sc_GetFileManifest S (bi_ID c i) = Inr (Some m)" "fm_FileSize m = of_nat (length data)"
      "fm_FileHash m = hash_Bytes (e_B E data)" by blast
    with S have "rpc_GetFileManifest E c cs (bi_ID c i) = Inr m" by (auto simp: client_of_def)
    then have "node_GetFileManifest E cs i = Inr m" using parse by (simp add: rpc_GetFileManifest_def)
    with m show ?thesis by blast
  qed
qed

section \<open>The files of a directory\<close>

text \<open>What the goroutine of a file leaves, for the data \<open>D path\<close> that it uploads.\<close>

definition uploaded ::
  "('d, 'b) env \<Rightarrow> (BlobIdentifier \<Rightarrow> bytes option) \<Rightarrow> (bytes \<Rightarrow> bytes result) \<Rightarrow> bytes \<times> bytes \<Rightarrow> FileReference \<Rightarrow> bool" where
  "uploaded E placed D = (\<lambda>(path, relPath) ref. \<exists>i f. D path = Inr f \<and> file_placed E placed f i
     \<and> ref = \<lparr>fr_Id = Some (bi_Proto i), fr_RelativePath = relPath\<rparr>)"

definition hashed :: "blake3 \<Rightarrow> (bytes \<Rightarrow> bytes result) \<Rightarrow> (bytes \<rightharpoonup> hash) \<Rightarrow> bytes \<times> bytes \<Rightarrow> bool" where
  "hashed B D hashes = (\<lambda>(path, relPath). \<exists>f. D path = Inr f \<and> hashes relPath = Some (B (relPath @ hash_Bytes (B f))))"

definition dir_run_ok ::
  "('d, 'b) env \<Rightarrow> uploader \<Rightarrow> (BlobIdentifier \<Rightarrow> bytes option) \<Rightarrow> bytes set \<Rightarrow> bytes set \<Rightarrow> (bytes \<Rightarrow> bytes result)
    \<Rightarrow> (bytes \<times> bytes) list \<Rightarrow> 'd dir_run \<Rightarrow> bool" where
  "dir_run_ok E U placed fs vs D ups r \<longleftrightarrow> records_ok E U placed fs vs (dr_db r) \<and> (dr_uploadErr r = None \<longrightarrow>
     list_all2 (uploaded E placed D) ups (dr_Files r) \<and> (\<forall>up\<in>set ups. hashed (e_B E) D (dr_fileHashes r) up))"

text \<open>The data of every file is among those in use.\<close>

definition data_in :: "(bytes \<Rightarrow> bytes result) \<Rightarrow> int \<Rightarrow> bytes set \<Rightarrow> bytes set \<Rightarrow> bytes \<times> bytes \<Rightarrow> bool" where
  "data_in D lim fs vs up \<longleftrightarrow> (\<forall>f. D (fst up) = Inr f \<longrightarrow> f \<in> fs \<and> set (split_loop f (nat lim)) \<subseteq> vs)"

lemma upload_one_ok:
  assumes U: "upload_ok E V U placed" and kd: "keys_differ E fs vs"
    and D: "D = (\<lambda>path. data_to_process F A (su_nonce S path) s path key)" and data: "data_in D lim fs vs (path, relPath)"
    and ok: "dir_run_ok E U placed fs vs D ups r" and new: "relPath \<notin> snd ` set ups"
  shows "dir_run_ok E U placed fs vs D (ups @ [(path, relPath)]) (upload_one E U opened F A S s lim key (path, relPath) r)"
proof (cases "dr_uploadErr r \<noteq> None \<and> \<not> su_passed S path")
  case True
  with ok show ?thesis by (auto simp: upload_one_def dir_run_ok_def)
next
  case run: False
  show ?thesis
  proof (cases "D path")
    case (Inl e)
    with run ok show ?thesis by (auto simp: upload_one_def UploadFile_def dir_run_ok_def D)
  next
    case (Inr f)
    obtain res d' n' where put: "PutFileData E U opened (dr_db r) (dr_n r) (path_Base path) f lim = (res, d', n')"
      by (cases "PutFileData E U opened (dr_db r) (dr_n r) (path_Base path) f lim")
    have f: "f \<in> fs" "set (split_loop f (nat lim)) \<subseteq> vs" using data Inr by (simp_all add: data_in_def)
    have rec: "records_ok E U placed fs vs (dr_db r)" using ok by (simp add: dir_run_ok_def)
    note P = PutFileData_ok [OF U kd rec f put]
    show ?thesis
    proof (cases res)
      case (Inl e)
      with run put P Inr show ?thesis by (auto simp: upload_one_def UploadFile_def dir_run_ok_def D)
    next
      case res: (Inr i)
      let ?r = "upload_one E U opened F A S s lim key (path, relPath) r"
      have r: "dr_db ?r = d'" "dr_uploadErr ?r = dr_uploadErr r"
        "dr_Files ?r = dr_Files r @ [\<lparr>fr_Id = Some (bi_Proto i), fr_RelativePath = relPath\<rparr>]"
        "dr_fileHashes ?r = (dr_fileHashes r)(relPath \<mapsto> e_B E (relPath @ hash_Bytes (e_B E f)))"
        using run put res Inr by (auto simp: upload_one_def UploadFile_def D HashBytes_concat)
      have here: "uploaded E placed D (path, relPath) \<lparr>fr_Id = Some (bi_Proto i), fr_RelativePath = relPath\<rparr>"
        "hashed (e_B E) D (dr_fileHashes ?r) (path, relPath)"
        using P res Inr r(4) by (auto simp: uploaded_def hashed_def)
      have before: "hashed (e_B E) D (dr_fileHashes ?r) up" if "hashed (e_B E) D (dr_fileHashes r) up" "up \<in> set ups" for up
      proof -
        have "snd up \<noteq> relPath" using that(2) new by (metis imageI)
        with that(1) r(4) show ?thesis by (cases up) (simp add: hashed_def)
      qed
      have "list_all2 (uploaded E placed D) (ups @ [(path, relPath)]) (dr_Files ?r)
          \<and> (\<forall>up\<in>set (ups @ [(path, relPath)]). hashed (e_B E) D (dr_fileHashes ?r) up)" if "dr_uploadErr ?r = None"
        using that ok r(2,3) here before unfolding dir_run_ok_def by (auto intro: list_all2_appendI)
      with P r(1) show ?thesis by (simp add: dir_run_ok_def)
    qed
  qed
qed

lemma upload_fold_ok:
  assumes U: "upload_ok E V U placed" and kd: "keys_differ E fs vs"
    and D: "D = (\<lambda>path. data_to_process F A (su_nonce S path) s path key)"
  shows "\<forall>up\<in>set ups'. data_in D lim fs vs up \<Longrightarrow> dir_run_ok E U placed fs vs D ups r \<Longrightarrow> distinct (map snd (ups @ ups')) \<Longrightarrow>
    dir_run_ok E U placed fs vs D (ups @ ups') (fold (upload_one E U opened F A S s lim key) ups' r)"
proof (induction ups' arbitrary: ups r)
  case (Cons up ups')
  obtain path relPath where up: "up = (path, relPath)" by (cases up)
  have "dir_run_ok E U placed fs vs D (ups @ [up]) (upload_one E U opened F A S s lim key up r)"
    unfolding up by (rule upload_one_ok [OF U kd D]) (use Cons.prems up in auto)
  from Cons.IH [OF _ this] Cons.prems show ?case by simp
qed simp

section \<open>The manifest of the directory\<close>

definition leaf_for :: "blake3 \<Rightarrow> bytes \<Rightarrow> bytes \<Rightarrow> bytes" where
  "leaf_for B relPath f = hash_Bytes (B (relPath @ hash_Bytes (B f)))"

text \<open>The manifest lists the files \<open>fs\<close>, with their contents.\<close>

definition lists_files :: "('d, 'b) env \<Rightarrow> (BlobIdentifier \<Rightarrow> bytes option) \<Rightarrow> DirectoryManifest \<Rightarrow> bytes list \<Rightarrow> bool" where
  "lists_files E placed m fs \<longleftrightarrow>
     list_all2 (\<lambda>ref f. \<exists>i. fr_Id ref = Some (bi_Proto i) \<and> file_placed E placed f i) (dm_Files m) fs
     \<and> dm_DirectoryHash m = hash_Bytes (CalculateMerkleRoot (e_B E) (map2 (\<lambda>ref. leaf_for (e_B E) (fr_RelativePath ref)) (dm_Files m) fs))"

lemma uploaded_leaves:
  assumes "\<And>ref. ref \<in> set refs \<Longrightarrow> \<exists>up\<in>set ups. uploaded E placed D up ref"
    and "\<forall>up\<in>set ups. hashed (e_B E) D hashes up"
  shows "\<exists>fs. map_res (merkle_leaf_of hashes) refs = Inr (map2 (\<lambda>ref. leaf_for (e_B E) (fr_RelativePath ref)) refs fs)
    \<and> list_all2 (\<lambda>ref f. \<exists>i. fr_Id ref = Some (bi_Proto i) \<and> file_placed E placed f i
        \<and> (\<exists>up\<in>set ups. snd up = fr_RelativePath ref \<and> D (fst up) = Inr f)) refs fs"
  using assms(1)
proof (induction refs)
  case (Cons ref refs)
  obtain up where up: "up \<in> set ups" "uploaded E placed D up ref" using Cons.prems [of ref] by auto
  obtain path relPath where p: "up = (path, relPath)" by (cases up)
  obtain i f where f: "D path = Inr f" "file_placed E placed f i" "ref = \<lparr>fr_Id = Some (bi_Proto i), fr_RelativePath = relPath\<rparr>"
    using up(2) p by (auto simp: uploaded_def)
  have "hashes relPath = Some (e_B E (relPath @ hash_Bytes (e_B E f)))"
    using assms(2) up(1) p f(1) by (auto simp: hashed_def)
  then have leaf: "merkle_leaf_of hashes ref = Inr (leaf_for (e_B E) (fr_RelativePath ref) f)"
    using f(3) by (simp add: merkle_leaf_of_def leaf_for_def)
  obtain fs where fs: "map_res (merkle_leaf_of hashes) refs = Inr (map2 (\<lambda>ref. leaf_for (e_B E) (fr_RelativePath ref)) refs fs)"
    "list_all2 (\<lambda>ref f. \<exists>i. fr_Id ref = Some (bi_Proto i) \<and> file_placed E placed f i
        \<and> (\<exists>up\<in>set ups. snd up = fr_RelativePath ref \<and> D (fst up) = Inr f)) refs fs"
    using Cons.IH Cons.prems by auto
  have "\<exists>up\<in>set ups. snd up = fr_RelativePath ref \<and> D (fst up) = Inr f" using up(1) p f by (intro bexI [of _ up]) simp_all
  with leaf fs f(2,3) show ?case by (intro exI [of _ "f # fs"]) auto
qed simp

lemma map_sort_key: "map f (sort_key f xs) = sort (map f xs)"
  by (rule properties_for_sort [symmetric]) simp_all

lemma uploaded_paths: "list_all2 (uploaded E placed D) ups files \<Longrightarrow> map fr_RelativePath files = map snd ups"
  by (induction ups files rule: list_all2_induct) (auto simp: uploaded_def)

lemma directory_manifest_ok:
  assumes "list_all2 (uploaded E placed D) ups files" "\<forall>up\<in>set ups. hashed (e_B E) D hashes up"
  shows "\<exists>m fs. directory_manifest (e_B E) source hashes files = Inr (m, CalculateMerkleRoot (e_B E) (map2 (\<lambda>ref. leaf_for (e_B E) (fr_RelativePath ref)) (dm_Files m) fs))
    \<and> dm_Files m = sort_key fr_RelativePath files \<and> lists_files E placed m fs
    \<and> list_all2 (\<lambda>ref f. \<exists>up\<in>set ups. snd up = fr_RelativePath ref \<and> D (fst up) = Inr f) (dm_Files m) fs"
proof -
  let ?refs = "sort_key fr_RelativePath files"
  have "\<exists>up\<in>set ups. uploaded E placed D up ref" if "ref \<in> set ?refs" for ref
    using that assms(1) by (auto simp: list_all2_conv_all_nth in_set_conv_nth) (metis nth_mem)
  from uploaded_leaves [OF this assms(2)] obtain fs where
    fs: "map_res (merkle_leaf_of hashes) ?refs = Inr (map2 (\<lambda>ref. leaf_for (e_B E) (fr_RelativePath ref)) ?refs fs)"
    "list_all2 (\<lambda>ref f. \<exists>i. fr_Id ref = Some (bi_Proto i) \<and> file_placed E placed f i
        \<and> (\<exists>up\<in>set ups. snd up = fr_RelativePath ref \<and> D (fst up) = Inr f)) ?refs fs" by blast
  let ?root = "CalculateMerkleRoot (e_B E) (map2 (\<lambda>ref. leaf_for (e_B E) (fr_RelativePath ref)) ?refs fs)"
  let ?m = "\<lparr>dm_ManifestVersion = ascii ''1.0'', dm_DirectoryName = path_Base source, dm_DirectoryHash = hash_Bytes ?root, dm_Files = ?refs\<rparr>"
  have "directory_manifest (e_B E) source hashes files = Inr (?m, ?root)" using fs(1) by (simp add: directory_manifest_def Let_def)
  moreover have "lists_files E placed ?m fs" using fs(2) by (auto simp: lists_files_def elim!: list_all2_mono)
  moreover have "list_all2 (\<lambda>ref f. \<exists>up\<in>set ups. snd up = fr_RelativePath ref \<and> D (fst up) = Inr f) ?refs fs"
    using fs(2) by (rule list_all2_mono) blast
  ultimately show ?thesis by (intro exI [of _ ?m] exI [of _ fs]) simp
qed

section \<open>The node accepts the directory\<close>

lemma collect_files_accepts:
  assumes P: "pebble_ok (e_db E) V" "pebble_total (e_db E)"
    and "\<And>a. tx_pendingFileManifests tx a \<noteq> None \<Longrightarrow> a < heap"
    and "list_all2 (\<lambda>ref f. \<exists>i m. fr_Id ref = Some (bi_Proto i) \<and> stored_file E (content V d) i m \<and> fm_FileHash m = hash_Bytes (e_B E f)) refs fs"
  shows "\<exists>heap'. collect_files E d tx heap refs acc
    = Inr (Some (acc @ map2 (\<lambda>ref. leaf_for (e_B E) (fr_RelativePath ref)) refs fs), heap')"
  using assms(4,3)
proof (induction refs fs arbitrary: heap acc rule: list_all2_induct)
  case (Cons ref refs f fs)
  obtain i m where i: "fr_Id ref = Some (bi_Proto i)" "stored_file E (content V d) i m" "fm_FileHash m = hash_Bytes (e_B E f)"
    using Cons.hyps(1) by blast
  have "tx_pendingFileManifests tx heap = None" using Cons.prems [of heap] by fastforce
  moreover have "cs_GetFileManifest E d i = Inr (Some m)"
    using i(2) db_get_total [OF P] by (auto simp: cs_GetFileManifest_def stored_file_def key_defs Let_def)
  ultimately have look: "tx_GetFileManifest E d tx (heap, i) = Inr (Some m)" by (simp add: tx_GetFileManifest_def)
  have "\<And>a. tx_pendingFileManifests tx a \<noteq> None \<Longrightarrow> a < heap + 1" using Cons.prems less_SucI by fastforce
  from Cons.IH [OF this, of "acc @ [leaf_for (e_B E) (fr_RelativePath ref) f]"] i look show ?case
    by (simp add: leaf_for_def HashBytes_concat)
qed simp

lemma uploaded_directory_accepted:
  fixes i :: BlobIdentifier
  assumes E: "env_ok E V" "pebble_total (e_db E)" and good: "tx_good E V g d tx heap"
    and m: "lists_files E placed m fs" and b: "marshal (e_dir E) m = Inr b"
    and recorded: "\<And>f j. file_placed E placed f j \<Longrightarrow> \<exists>fm. stored_file E (content V d) j fm \<and> fm_FileHash fm = hash_Bytes (e_B E f)"
  shows "\<exists>tx' heap'. SyncDirectoryManifest E d tx heap (bi_Height i) \<lparr>bl_Commitment = hash_Bytes (bi_Commitment i), bl_Data = data\<rparr> m
    = Inr (True, tx', heap')"
proof -
  note P = env_okD(2) [OF E(1)] E(2)
  have pend: "\<And>a. tx_pendingFileManifests tx a \<noteq> None \<Longrightarrow> a < heap" using good by (simp add: tx_good_def)
  have "list_all2 (\<lambda>ref f. \<exists>i fm. fr_Id ref = Some (bi_Proto i) \<and> stored_file E (content V d) i fm
      \<and> fm_FileHash fm = hash_Bytes (e_B E f)) (dm_Files m) fs"
    using m unfolding lists_files_def by (auto elim!: list_all2_mono dest!: recorded)
  from collect_files_accepts [OF P pend this, where acc = "[]"] obtain heap' where
    cf: "collect_files E d tx heap (dm_Files m) []
      = Inr (Some (map2 (\<lambda>ref. leaf_for (e_B E) (fr_RelativePath ref)) (dm_Files m) fs), heap')" by auto
  have "\<not> nil_maps tx" using good by (simp add: tx_good_def)
  from PutDirectoryManifest_put [OF P this b, of i] obtain tx' where put: "PutDirectoryManifest E tx i m = Inr tx'" by blast
  with cf m show ?thesis by (cases i) (simp add: SyncDirectoryManifest_def lists_files_def Let_def)
qed

section \<open>The whole upload\<close>

text \<open>What \<open>Store\<close> of Celestia promises.\<close>

definition stores :: "(BlobIdentifier \<Rightarrow> bytes option) \<Rightarrow> (bytes \<Rightarrow> (bytes \<times> u64) result) \<Rightarrow> bool" where
  "stores placed store \<longleftrightarrow> (\<forall>data k h. store data = Inr (k, h) \<longrightarrow>
     (\<exists>c. to_hash k = Inr c \<and> placed \<lparr>bi_Height = h, bi_Commitment = c\<rparr> = Some data))"

lemma UploadDirectory_ok:
  assumes U: "upload_ok E V U placed" and kd: "keys_differ E fs vs" and ok: "records_ok E U placed fs vs d" and st: "stores placed store"
    and rec: "GetUploadRecord E U d (HashBytes (e_B E) [source]) = Inr dirState" "\<not> ur_Completed dirState"
    and ups: "files_to_upload source (fs_walk F s source) = Inr ups" "mset (su_order S ups) = mset ups" "distinct (map snd ups)"
    and D: "D = (\<lambda>path. data_to_process F A (su_nonce S path) s path key)" and data: "\<forall>up\<in>set ups. data_in D lim fs vs up"
    and run: "UploadDirectory E U opened store F A S s d n source lim key = (Inr (i, root), d', n')"
  shows "\<exists>m data fs'. placed i = Some data \<and> marshal (e_envelope E) (DirectoryManifestE m) = Inr data \<and> lists_files E placed m fs'
    \<and> map fr_RelativePath (dm_Files m) = sort (map snd ups) \<and> dm_DirectoryHash m = hash_Bytes root
    \<and> list_all2 (\<lambda>ref f. \<exists>up\<in>set ups. snd up = fr_RelativePath ref \<and> D (fst up) = Inr f) (dm_Files m) fs'"
proof -
  let ?r = "upload_files E U opened F A S s lim key d n ups" and ?ord = "su_order S ups"
  let ?init = "\<lparr>dr_db = d, dr_n = n, dr_fileHashes = Map.empty, dr_Files = [], dr_uploadErr = None\<rparr>"
  have ord: "set ?ord = set ups" using ups(2) by (rule mset_eq_setD)
  have "mset (map snd ?ord) = mset (map snd ups)" using ups(2) by (metis mset_map)
  then have "distinct (map snd ?ord) = distinct (map snd ups)" by (rule mset_eq_imp_distinct_iff)
  with ups(3) have dist: "distinct (map snd ([] @ ?ord))" by simp
  have start: "dir_run_ok E U placed fs vs D [] ?init" using ok by (simp add: dir_run_ok_def)
  have "\<forall>up\<in>set ?ord. data_in D lim fs vs up" using data ord by simp
  then have "dir_run_ok E U placed fs vs D ([] @ ?ord) (fold (upload_one E U opened F A S s lim key) ?ord ?init)"
    by (rule upload_fold_ok [OF U kd D _ start dist])
  then have r: "dir_run_ok E U placed fs vs D ?ord ?r" by (simp only: upload_files_def append_Nil)
  from run rec ups(1) have noerr: "dr_uploadErr ?r = None"
    by (cases "dr_uploadErr ?r") (auto simp: UploadDirectory_def Let_def rbind_def wrap_def split: sum.splits)
  with r have files: "list_all2 (uploaded E placed D) ?ord (dr_Files ?r)" "\<forall>up\<in>set ?ord. hashed (e_B E) D (dr_fileHashes ?r) up"
    by (simp_all add: dir_run_ok_def)
  let ?root = "\<lambda>m fs'. CalculateMerkleRoot (e_B E) (map2 (\<lambda>ref. leaf_for (e_B E) (fr_RelativePath ref)) (dm_Files m) fs')"
  obtain m fs' where m: "directory_manifest (e_B E) source (dr_fileHashes ?r) (dr_Files ?r) = Inr (m, ?root m fs')"
    "dm_Files m = sort_key fr_RelativePath (dr_Files ?r)" "lists_files E placed m fs'"
    "list_all2 (\<lambda>ref f. \<exists>up\<in>set ?ord. snd up = fr_RelativePath ref \<and> D (fst up) = Inr f) (dm_Files m) fs'"
    using directory_manifest_ok [OF files, of source] by blast
  obtain d1 where sub: "submit_directory E U store (dr_db ?r) dirState (m, ?root m fs') = (Inr (i, root), d1)"
    using run rec ups(1) noerr m(1) by (auto simp: UploadDirectory_def Let_def rbind_def wrap_def split: sum.splits prod.splits)
  then obtain data k h where put: "marshal (e_envelope E) (DirectoryManifestE m) = Inr data" "store data = Inr (k, h)"
    "to_hash k = Inr (bi_Commitment i)" "bi_Height i = h" "root = ?root m fs'"
    by (auto simp: submit_directory_def sync_PutDirectoryManifest_def rbind_eq_Inr split: sum.splits)
  obtain c where "to_hash k = Inr c" "placed \<lparr>bi_Height = h, bi_Commitment = c\<rparr> = Some data"
    using st put(2) unfolding stores_def by blast
  with put(3,4) have "placed i = Some data" by (cases i) simp
  moreover have "map fr_RelativePath (dr_Files ?r) = map snd ?ord"
    using files(1) by (rule uploaded_paths)
  then have "sort (map fr_RelativePath (dr_Files ?r)) = sort (map snd ups)"
    using \<open>mset (map snd ?ord) = mset (map snd ups)\<close> by (metis sorted_list_of_multiset_mset)
  moreover have "dm_DirectoryHash m = hash_Bytes root" using m(3) put(5) by (simp add: lists_files_def)
  ultimately show ?thesis using m put(1) ord
    by (intro exI [of _ m] exI [of _ data] exI [of _ fs']) (simp add: map_sort_key)
qed

end
