(* ===== verification/Hex.thy ===== *)
theory Hex
  imports Crypto
begin

text \<open>
  Go's \<open>encoding/hex\<close> as the services print and parse hashes with it: two lower-case digits for a byte,
  and upper-case digits accepted when reading.
\<close>

definition hex_digit :: "nat \<Rightarrow> byte" where
  "hex_digit n = (if n < 10 then 48 + of_nat n else 87 + of_nat n)"

definition hex_EncodeToString :: "bytes \<Rightarrow> bytes" where
  "hex_EncodeToString b = concat (map (\<lambda>x. [hex_digit (unat x div 16), hex_digit (unat x mod 16)]) b)"

definition fromHexChar :: "byte \<Rightarrow> nat option" where
  "fromHexChar c =
     (if 48 \<le> c \<and> c \<le> 57 then Some (unat (c - 48))
      else if 97 \<le> c \<and> c \<le> 102 then Some (unat (c - 97) + 10)
      else if 65 \<le> c \<and> c \<le> 70 then Some (unat (c - 65) + 10)
      else None)"

fun hex_DecodeString :: "bytes \<Rightarrow> bytes result" where
  "hex_DecodeString [] = Inr []"
| "hex_DecodeString [a] = Inl (Ext (if fromHexChar a = None then ''invalid byte'' else ''odd length hex string''))"
| "hex_DecodeString (a # b # s) =
     (case (fromHexChar a, fromHexChar b) of
        (Some x, Some y) \<Rightarrow> rbind (hex_DecodeString s) (\<lambda>r. Inr (of_nat (16 * x + y) # r))
      | _ \<Rightarrow> Inl (Ext ''invalid byte''))"

text \<open>\<open>Hash.String\<close>.\<close>

definition hash_String :: "hash \<Rightarrow> bytes" where
  "hash_String h = 48 # 120 # hex_EncodeToString (hash_Bytes h)"

lemma hex_digits_read: "\<forall>n\<in>set [0..<16]. fromHexChar (hex_digit n) = Some n"
  by code_simp

lemma fromHexChar_hex_digit: "n < 16 \<Longrightarrow> fromHexChar (hex_digit n) = Some n"
  using hex_digits_read by simp

lemma hex_EncodeToString_Cons:
  "hex_EncodeToString (x # b) = hex_digit (unat x div 16) # hex_digit (unat x mod 16) # hex_EncodeToString b"
  by (simp add: hex_EncodeToString_def)

lemma length_hex [simp]: "length (hex_EncodeToString b) = 2 * length b"
  by (induction b) (simp_all add: hex_EncodeToString_def)

lemma hex_round_trip [simp]: "hex_DecodeString (hex_EncodeToString b) = Inr b"
proof (induction b)
  case (Cons x b)
  have "unat x div 16 < 16" "unat x mod 16 < 16" using unat_byte_less [of x] by linarith+
  with Cons.IH show ?case by (simp add: hex_EncodeToString_Cons fromHexChar_hex_digit)
qed (simp add: hex_EncodeToString_def)

lemma hex_inj: "hex_EncodeToString a = hex_EncodeToString b \<longleftrightarrow> a = b"
  by (metis hex_round_trip sum.inject(2))

lemma hex_DecodeString_length: "hex_DecodeString s = Inr b \<Longrightarrow> length s = 2 * length b"
  by (induction s arbitrary: b rule: hex_DecodeString.induct) (auto simp: rbind_eq_Inr split: option.splits)

end
