(* ===== verification/Celestia.thy ===== *)
theory Celestia
  imports Retry Submit Files_Proofs Hex
begin

text \<open>
  The client of Celestia: \<open>pkg/celestia\<close>. The Celestia node is the parameter \<open>celestia_rpc\<close>, whose calls
  run on its state \<open>'s\<close>; a blob of the client's namespace is its message, with the commitment that
  \<open>NewBlobV0\<close> computes. Every call but \<open>SyncState\<close> is retried.
\<close>

section \<open>The client\<close>

record ('s, 'p, 'h) celestia_rpc =
  cel_NewBlobV0 :: "bytes \<Rightarrow> bytes result"
  cel_Submit :: "bytes list \<Rightarrow> 's \<Rightarrow> u64 result \<times> 's"
  cel_GetAll :: "u64 \<Rightarrow> 's \<Rightarrow> blob list result \<times> 's"
  cel_Get :: "u64 \<Rightarrow> bytes \<Rightarrow> 's \<Rightarrow> bytes result \<times> 's"
  cel_GetProof :: "u64 \<Rightarrow> bytes \<Rightarrow> 's \<Rightarrow> 'p result \<times> 's"
  cel_Included :: "u64 \<Rightarrow> 'p \<Rightarrow> bytes \<Rightarrow> 's \<Rightarrow> bool result \<times> 's"
  cel_SyncState :: "'s \<Rightarrow> u64 result \<times> 's"
  cel_GetByHeight :: "u64 \<Rightarrow> 's \<Rightarrow> 'h result \<times> 's"

text \<open>
  An operation that stores its result in a variable of the caller: the variable is a part of the
  state, and the result counts when \<open>Retry\<close> returns no error; it is assigned then.
\<close>

definition assigning :: "('s \<Rightarrow> 'a result \<times> 's) \<Rightarrow> 's \<times> 'a option \<Rightarrow> unit result \<times> 's \<times> 'a option" where
  "assigning operation = (\<lambda>(s, x). case operation s of
     (Inl e, s) \<Rightarrow> (Inl e, s, None) | (Inr a, s) \<Rightarrow> (Inr (), s, Some a))"

definition retried_call :: "retry_ctx \<Rightarrow> ('s \<Rightarrow> 'a result \<times> 's) \<Rightarrow> 's \<Rightarrow> 'a result \<times> 's" where
  "retried_call C operation s = (case Retry C DefaultRetryConfig (assigning operation) (s, None) of
     (Inl e, s, x) \<Rightarrow> (Inl e, s)
   | (Inr _, s, None) \<Rightarrow> (Inl (Panic ''nil pointer dereference''), s)
   | (Inr _, s, Some a) \<Rightarrow> (Inr a, s))"

definition submitBlobs :: "('s, 'p, 'h) celestia_rpc \<Rightarrow> retry_ctx \<Rightarrow> bytes list \<Rightarrow> 's \<Rightarrow> u64 result \<times> 's" where
  "submitBlobs R C messages s = (case retried_call C (cel_Submit R messages) s of
     (Inl e, s) \<Rightarrow> (Inl e, s)
   | (Inr height, s) \<Rightarrow> if height = 0 then (Inl (Err ''unexpected response code, height is 0''), s) else (Inr height, s))"

definition da_Store :: "('s, 'p, 'h) celestia_rpc \<Rightarrow> retry_ctx \<Rightarrow> bytes \<Rightarrow> 's \<Rightarrow> (bytes \<times> u64) result \<times> 's" where
  "da_Store R C message s = (case cel_NewBlobV0 R message of
     Inl e \<Rightarrow> (Inl e, s)
   | Inr commitment \<Rightarrow> (case submitBlobs R C [message] s of
        (r, s) \<Rightarrow> (rbind r (\<lambda>height. Inr (commitment, height)), s)))"

definition da_StoreBatch :: "('s, 'p, 'h) celestia_rpc \<Rightarrow> retry_ctx \<Rightarrow> bytes list \<Rightarrow> 's \<Rightarrow> (bytes list \<times> u64) result \<times> 's" where
  "da_StoreBatch R C messages s =
     (if messages = [] then (Inl (Err ''no messages to store''), s)
      else case map_res (cel_NewBlobV0 R) messages of
        Inl e \<Rightarrow> (Inl e, s)
      | Inr commitments \<Rightarrow> (case submitBlobs R C messages s of
           (r, s) \<Rightarrow> (rbind r (\<lambda>height. Inr (commitments, height)), s)))"

definition has_once :: "('s, 'p, 'h) celestia_rpc \<Rightarrow> u64 \<Rightarrow> bytes \<Rightarrow> 's \<Rightarrow> bool result \<times> 's" where
  "has_once R height commitment s = (case cel_GetProof R height commitment s of
     (Inl e, s) \<Rightarrow> (Inl e, s) | (Inr prf, s) \<Rightarrow> cel_Included R height prf commitment s)"

definition da_Has :: "('s, 'p, 'h) celestia_rpc \<Rightarrow> retry_ctx \<Rightarrow> u64 \<Rightarrow> bytes \<Rightarrow> 's \<Rightarrow> bool result \<times> 's" where
  "da_Has R C height commitment = retried_call C (has_once R height commitment)"

definition da_Read :: "('s, 'p, 'h) celestia_rpc \<Rightarrow> retry_ctx \<Rightarrow> u64 \<Rightarrow> bytes \<Rightarrow> 's \<Rightarrow> bytes result \<times> 's" where
  "da_Read R C height commitment = retried_call C (cel_Get R height commitment)"

definition da_GetBlobs :: "('s, 'p, 'h) celestia_rpc \<Rightarrow> retry_ctx \<Rightarrow> u64 \<Rightarrow> 's \<Rightarrow> blob list result \<times> 's" where
  "da_GetBlobs R C height = retried_call C (cel_GetAll R height)"

definition da_GetHeader :: "('s, 'p, 'h) celestia_rpc \<Rightarrow> retry_ctx \<Rightarrow> u64 \<Rightarrow> 's \<Rightarrow> 'h result \<times> 's" where
  "da_GetHeader R C height = retried_call C (cel_GetByHeight R height)"

definition da_LatestHeight :: "('s, 'p, 'h) celestia_rpc \<Rightarrow> 's \<Rightarrow> u64 result \<times> 's" where
  "da_LatestHeight R = cel_SyncState R"

section \<open>Namespaces\<close>

definition BytesToNamespaceV0 :: "(bytes \<Rightarrow> 'n result) \<Rightarrow> bytes \<Rightarrow> 'n result" where
  "BytesToNamespaceV0 NewV0Namespace bs =
     (if length bs = 28 then rbind (slice_of bs 18 (length bs)) NewV0Namespace else NewV0Namespace bs)"

definition HexToNamespaceV0 :: "(bytes \<Rightarrow> 'n result) \<Rightarrow> bytes \<Rightarrow> 'n result" where
  "HexToNamespaceV0 NewV0Namespace namespaceId =
     rbind (hex_DecodeString namespaceId) (BytesToNamespaceV0 NewV0Namespace)"

text \<open>\<open>client\<close> is the outcome of connecting.\<close>

definition NewCelestiaDA :: "(bytes \<Rightarrow> 'n result) \<Rightarrow> unit result \<Rightarrow> bytes \<Rightarrow> 'n result" where
  "NewCelestiaDA NewV0Namespace client namespaceId =
     rbind client (\<lambda>_. if namespaceId = [] then Inl (Err ''namespace id cannot be blank'')
       else HexToNamespaceV0 NewV0Namespace namespaceId)"

section \<open>The dry run\<close>

text \<open>Its state is the last fake height.\<close>

definition NewNoopDA :: u64 where "NewNoopDA = 1"

definition fakeCommit :: "blake3 \<Rightarrow> bytes \<Rightarrow> bytes" where
  "fakeCommit B data = hash_Bytes (HashBytes B [data])"

definition noop_Store :: "blake3 \<Rightarrow> bytes \<Rightarrow> u64 \<Rightarrow> (bytes \<times> u64) result \<times> u64" where
  "noop_Store B msg nextH = (let h = nextH + 1 in (Inr (fakeCommit B msg, h), h))"

definition noop_StoreBatch :: "blake3 \<Rightarrow> bytes list \<Rightarrow> u64 \<Rightarrow> (bytes list \<times> u64) result \<times> u64" where
  "noop_StoreBatch B msgs nextH = (let h = nextH + 1 in (Inr (map (fakeCommit B) msgs, h), h))"

definition noop_data :: "u64 \<Rightarrow> 'a result" where
  "noop_data height = Inl (Err ''dry-run: no data at fake height'')"

section \<open>What a store promises\<close>

text \<open>A submission that returns a height has put its messages on Celestia, under their commitments.\<close>

definition submit_binds :: "('s, 'p, 'h) celestia_rpc \<Rightarrow> (BlobIdentifier \<Rightarrow> bytes option) \<Rightarrow> bool" where
  "submit_binds R placed \<longleftrightarrow> (\<forall>msgs s h s'. cel_Submit R msgs s = (Inr h, s') \<longrightarrow>
     (\<forall>msg\<in>set msgs. \<forall>k. cel_NewBlobV0 R msg = Inr k \<longrightarrow>
        (\<exists>c. to_hash k = Inr c \<and> placed \<lparr>bi_Height = h, bi_Commitment = c\<rparr> = Some msg)))"

text \<open>Retrying with the result in a variable is \<open>RetryWithResult\<close>.\<close>

lemma retry_loop_assigning:
  "\<exists>y. retry_loop C config (assigning operation) attempt e0 (s, x) = (case retry_loop C config operation attempt e0 s of
     (Inl e, s') \<Rightarrow> (Inl e, s', y) | (Inr a, s') \<Rightarrow> (Inr (), s', Some a))"
proof (induction C config operation attempt e0 s arbitrary: x rule: retry_loop.induct)
  case (1 C config operation attempt e0 s)
  obtain r s1 where op: "operation s = (r, s1)" by (cases "operation s")
  show ?case
  proof (cases "\<exists>e. r = Inl e \<and> int attempt < MaxAttempts config \<and> \<not> ctx_cancelled C attempt \<and> \<not> is_panic e
      \<and> RetryableErrors config e \<and> int attempt \<noteq> MaxAttempts config - 1 \<and> \<not> ctx_ends_wait C attempt")
    case True
    then obtain e where e: "r = Inl e" "int attempt < MaxAttempts config" "\<not> ctx_cancelled C attempt" "\<not> is_panic e"
      "RetryableErrors config e" "int attempt \<noteq> MaxAttempts config - 1" "\<not> ctx_ends_wait C attempt" by blast
    have "retry_loop C config operation attempt e0 s = retry_loop C config operation (attempt + 1) e s1"
      "retry_loop C config (assigning operation) attempt e0 (s, x) = retry_loop C config (assigning operation) (attempt + 1) e (s1, None)"
      using e op by (subst retry_loop.simps; simp add: assigning_def)+
    with 1 [of r s1 e None] e op show ?thesis by simp
  next
    case False
    with op show ?thesis
      by (subst (1 2) retry_loop.simps) (auto simp: assigning_def split: sum.splits)
  qed
qed

lemma retried_call_eq: "retried_call C operation s = RetryWithResult C DefaultRetryConfig operation s"
  using retry_loop_assigning [of C DefaultRetryConfig operation 0 "Err ''%!w(<nil>)''" s None]
  unfolding retried_call_def Retry_def RetryWithResult_def
  by (cases "retry_loop C DefaultRetryConfig operation 0 (Err ''%!w(<nil>)'') s";
      cases "fst (retry_loop C DefaultRetryConfig operation 0 (Err ''%!w(<nil>)'') s)") auto

lemma retried_call_success: "fst (retried_call C operation s) = Inr a \<longleftrightarrow> (\<exists>n. succeeds C DefaultRetryConfig operation 0 s n a)"
  by (simp add: retried_call_eq RetryWithResult_def retry_loop_success)

lemma retried_call_attempts:
  "\<exists>n\<le>250. snd (retried_call C operation s) = after operation n s
     \<and> (\<forall>k. Suc k < n \<longrightarrow> (\<exists>e. attempt_result operation k s = Inl e \<and> IsNetworkError e))"
proof -
  obtain r s' where run: "retry_loop C DefaultRetryConfig operation 0 (Err ''%!w(<nil>)'') s = (r, s')"
    by (cases "retry_loop C DefaultRetryConfig operation 0 (Err ''%!w(<nil>)'') s")
  have "int 0 \<le> MaxAttempts DefaultRetryConfig" by (simp add: DefaultRetryConfig_def)
  from retry_loop_trace [OF run this] obtain n where "int n \<le> 250" "s' = after operation n s"
    "\<forall>k. Suc k < n \<longrightarrow> retried DefaultRetryConfig (attempt_result operation k s)"
    by (auto simp: DefaultRetryConfig_def)
  with run show ?thesis
    by (intro exI [of _ n]) (auto simp: retried_call_eq RetryWithResult_def retried_def DefaultRetryConfig_def)
qed

lemma retried_call_result:
  assumes "retried_call C operation s = (Inr a, s')"
  shows "\<exists>s1 s2. operation s1 = (Inr a, s2)"
proof -
  from assms retried_call_success [of C operation s a] obtain n where "attempt_result operation n s = Inr a"
    by (auto simp: succeeds_def)
  then show ?thesis by (metis attempt_result_def prod.collapse)
qed

lemma submitBlobs_success:
  "fst (submitBlobs R C msgs s) = Inr h \<longleftrightarrow> h \<noteq> 0 \<and> (\<exists>n. succeeds C DefaultRetryConfig (cel_Submit R msgs) 0 s n h)"
  unfolding retried_call_success [symmetric] by (auto simp: submitBlobs_def split: prod.splits sum.splits)

lemma submitBlobs_state: "snd (submitBlobs R C msgs s) = snd (retried_call C (cel_Submit R msgs) s)"
  by (simp add: submitBlobs_def split: prod.splits sum.splits)

lemma submitBlobs_result:
  assumes "submitBlobs R C msgs s = (Inr h, s')"
  shows "\<exists>s1 s2. cel_Submit R msgs s1 = (Inr h, s2) \<and> h \<noteq> 0"
  using assms retried_call_result [of C "cel_Submit R msgs" s h]
  by (auto simp: submitBlobs_def split: prod.splits sum.splits if_splits)

lemma da_StoreBatch_store_ok:
  assumes "submit_binds R placed"
  shows "store_ok placed (\<lambda>msgs. fst (da_StoreBatch R C msgs s))"
  unfolding store_ok_def
proof (intro allI impI)
  fix msgs cs h assume run: "fst (da_StoreBatch R C msgs s) = Inr (cs, h)"
  then obtain s' where cs: "map_res (cel_NewBlobV0 R) msgs = Inr cs" "submitBlobs R C msgs s = (Inr h, s')"
    by (auto simp: da_StoreBatch_def rbind_eq_Inr split: if_splits sum.splits prod.splits)
  from submitBlobs_result [OF cs(2)] obtain s1 s2 where sub: "cel_Submit R msgs s1 = (Inr h, s2)" by blast
  have "\<exists>c. to_hash (cs ! k) = Inr c \<and> placed \<lparr>bi_Height = h, bi_Commitment = c\<rparr> = Some (msgs ! k)" if "k < length msgs" for k
    using assms sub map_res_Inr_nth [OF cs(1) that] that unfolding submit_binds_def by (metis nth_mem)
  with map_res_Inr_length [OF cs(1)]
  show "length cs = length msgs \<and> (\<forall>k<length msgs. \<exists>c. to_hash (cs ! k) = Inr c \<and> placed \<lparr>bi_Height = h, bi_Commitment = c\<rparr> = Some (msgs ! k))"
    by blast
qed

lemma da_Store_stores:
  assumes "submit_binds R placed"
  shows "stores placed (\<lambda>data. fst (da_Store R C data s))"
  unfolding stores_def
proof (intro allI impI)
  fix data k h assume "fst (da_Store R C data s) = Inr (k, h)"
  then obtain s' where k: "cel_NewBlobV0 R data = Inr k" "submitBlobs R C [data] s = (Inr h, s')"
    by (auto simp: da_Store_def rbind_eq_Inr split: sum.splits prod.splits)
  from submitBlobs_result [OF k(2)] obtain s1 s2 where "cel_Submit R [data] s1 = (Inr h, s2)" by blast
  with assms k(1) show "\<exists>c. to_hash k = Inr c \<and> placed \<lparr>bi_Height = h, bi_Commitment = c\<rparr> = Some data"
    unfolding submit_binds_def by (metis list.set_intros(1))
qed

lemma da_StoreBatch_attempts:
  "\<exists>n\<le>250. snd (da_StoreBatch R C msgs s) = after (cel_Submit R msgs) n s
    \<and> (\<forall>k. Suc k < n \<longrightarrow> (\<exists>e. attempt_result (cel_Submit R msgs) k s = Inl e \<and> IsNetworkError e))"
proof (cases "msgs \<noteq> [] \<and> (\<exists>cs. map_res (cel_NewBlobV0 R) msgs = Inr cs)")
  case True
  then have "snd (da_StoreBatch R C msgs s) = snd (submitBlobs R C msgs s)" by (auto simp: da_StoreBatch_def split: prod.splits)
  with retried_call_attempts [of C "cel_Submit R msgs" s] show ?thesis by (simp add: submitBlobs_state)
next
  case False
  then have "snd (da_StoreBatch R C msgs s) = after (cel_Submit R msgs) 0 s" by (auto simp: da_StoreBatch_def split: sum.splits)
  then show ?thesis by (intro exI [of _ 0]) simp
qed

lemma da_StoreBatch_success:
  "fst (da_StoreBatch R C msgs s) = Inr (cs, h) \<longleftrightarrow> msgs \<noteq> [] \<and> map_res (cel_NewBlobV0 R) msgs = Inr cs \<and> h \<noteq> 0
    \<and> (\<exists>n. succeeds C DefaultRetryConfig (cel_Submit R msgs) 0 s n h)"
proof -
  have "fst (da_StoreBatch R C msgs s) = Inr (cs, h) \<longleftrightarrow> msgs \<noteq> [] \<and> map_res (cel_NewBlobV0 R) msgs = Inr cs
      \<and> fst (submitBlobs R C msgs s) = Inr h"
    by (auto simp: da_StoreBatch_def rbind_eq_Inr split: sum.splits prod.splits)
  then show ?thesis unfolding submitBlobs_success .
qed

end
