(* ===== verification/Gateway.thy ===== *)
theory Gateway
  imports Files_Proofs "HOL-Library.AList"
begin

text \<open>
  The HTTP gateway \<open>cmd/gateway/start.go\<close>: the path of a request names a manifest and a path in it; the
  answer is a file, a part of a file, or a page of a directory listing. The node is the parameter
  \<open>storage_client\<close> and its batch request; a reply holds the values of its headers, an error reply its
  status and message. Templates, static files and the printing of a size are not modelled.
\<close>

section \<open>Numbers\<close>

text \<open>\<open>strconv.Atoi\<close>.\<close>

definition digits_value :: "bytes \<Rightarrow> int" where
  "digits_value = foldl (\<lambda>n c. n * 10 + uint (c - 48)) 0"

definition all_digits :: "bytes \<Rightarrow> bool" where
  "all_digits s \<longleftrightarrow> list_all (\<lambda>c. 48 \<le> c \<and> c \<le> 57) s"

definition in_int64 :: "int \<Rightarrow> int result" where
  "in_int64 n = (if - (2 ^ 63) \<le> n \<and> n < 2 ^ 63 then Inr n else Inl (Ext ''value out of range''))"

fun Atoi :: "bytes \<Rightarrow> int result" where
  "Atoi (c # s) =
     (let digits = (if c = 43 \<or> c = 45 then s else c # s) in
      if digits = [] \<or> \<not> all_digits digits then Inl (Ext ''invalid syntax'')
      else in_int64 (if c = 45 then - digits_value digits else digits_value digits))"
| "Atoi [] = Inl (Ext ''invalid syntax'')"

text \<open>The decimal digits of a number.\<close>

fun dec :: "nat \<Rightarrow> bytes" where
  "dec n = (if n < 10 then [48 + of_nat n] else dec (n div 10) @ [48 + of_nat (n mod 10)])"

declare dec.simps [simp del]

section \<open>Ranges\<close>

text \<open>The \<open>Range\<close> header of a request for a file of \<open>fileSize\<close> bytes: an error message or start and end.\<close>

definition range_start :: "bytes \<Rightarrow> int \<Rightarrow> int option" where
  "range_start part fileSize =
     (if part = [] then Some 0
      else case Atoi part of Inl e \<Rightarrow> None | Inr start \<Rightarrow> if start \<ge> fileSize then None else Some start)"

definition range_end :: "bytes \<Rightarrow> int \<Rightarrow> int" where
  "range_end part fileSize =
     (if part = [] then fileSize - 1
      else case Atoi part of Inl e \<Rightarrow> fileSize - 1 | Inr end \<Rightarrow> if end \<ge> fileSize then fileSize - 1 else end)"

definition parse_range :: "bytes \<Rightarrow> int \<Rightarrow> string + int \<times> int" where
  "parse_range rangeHeader fileSize =
     (if HasPrefix rangeHeader (ascii ''bytes='') then
        (case split_on 45 (TrimPrefix rangeHeader (ascii ''bytes='')) of
           [a, b] \<Rightarrow> (case range_start a fileSize of None \<Rightarrow> Inl ''Invalid range''
             | Some start \<Rightarrow> let end = range_end b fileSize in
                 if start > end \<or> start \<ge> fileSize then Inl ''Invalid range'' else Inr (start, end))
         | _ \<Rightarrow> Inl ''Invalid range format'')
      else Inl ''Invalid range format'')"

section \<open>Serving a file\<close>

record served =
  sv_ContentType :: bytes
  sv_Attachment :: "bytes option"
  sv_ContentLength :: int
  sv_ContentRange :: "(int \<times> int \<times> int) option"
  sv_Body :: bytes

record pagination =
  pg_BaseURL :: bytes
  pg_CurrentPage :: int
  pg_TotalPages :: int
  pg_HasPrev :: bool
  pg_HasNext :: bool
  pg_PrevPage :: int
  pg_NextPage :: int

record file_item =
  fi_Name :: bytes
  fi_Path :: bytes
  fi_Size :: bytes
  fi_MimeType :: bytes
  fi_ManifestID :: bytes
  fi_ManifestLink :: bytes

record directory_data =
  dd_Title :: bytes
  dd_ManifestID :: bytes
  dd_DisplayID :: bytes
  dd_SubPath :: bytes
  dd_ParentPath :: bytes
  dd_Directories :: "(bytes \<times> bytes) list"
  dd_Files :: "file_item list"
  dd_HasParent :: bool
  dd_TotalFiles :: int
  dd_Pagination :: "pagination option"

datatype reply = HttpError nat string | Served served | StaticFile | HomePage | DirectoryPage directory_data

definition isMediaContentType :: "bytes \<Rightarrow> bool" where
  "isMediaContentType contentType \<longleftrightarrow> (let prefix = hd (split_on slash contentType) in
     prefix = ascii ''image'' \<or> prefix = ascii ''video'' \<or> prefix = ascii ''audio'' \<or> contentType = ascii ''text/plain''
     \<or> contentType = ascii ''text/html'' \<or> contentType = ascii ''application/pdf'')"

definition octet_stream :: bytes where "octet_stream = ascii ''application/octet-stream''"

text \<open>The full reply; a part of the data replaces its last three fields.\<close>

definition full_reply :: "FileManifest \<Rightarrow> bytes \<Rightarrow> served" where
  "full_reply m data = \<lparr>sv_ContentType = (if fm_MimeType m \<noteq> [] then fm_MimeType m else octet_stream),
     sv_Attachment = (if isMediaContentType (fm_MimeType m) then None else Some (path_Base (fm_FileName m))),
     sv_ContentLength = int (length data), sv_ContentRange = None, sv_Body = data\<rparr>"

definition serve_range :: "FileManifest \<Rightarrow> bytes \<Rightarrow> bytes \<Rightarrow> reply result" where
  "serve_range m data rangeHeader =
     (let fileSize = int (length data) in
      case parse_range rangeHeader fileSize of
        Inl msg \<Rightarrow> Inr (HttpError 416 msg)
      | Inr (start, end) \<Rightarrow>
          if start < 0 then Inl (Panic ''slice bounds out of range'')
          else rbind (slice_of data (nat start) (nat (end + 1))) (\<lambda>part.
            Inr (Served ((full_reply m data)\<lparr>sv_ContentLength := end - start + 1,
              sv_ContentRange := Some (start, end, fileSize), sv_Body := part\<rparr>))))"

definition serveFile :: "storage_client \<Rightarrow> base36 \<Rightarrow> BlobIdentifier \<Rightarrow> bytes \<Rightarrow> reply result" where
  "serveFile S c i rangeHeader =
     (case sc_GetFileManifest S (bi_ID c i) of
        Inl e \<Rightarrow> Inr (HttpError 500 ''error fetching file manifest'')
      | Inr fileManifest \<Rightarrow> (case sc_GetFileData S (bi_ID c i) of
          Inl e \<Rightarrow> Inr (HttpError 500 ''error fetching file data'')
        | Inr data \<Rightarrow> rbind (present fileManifest) (\<lambda>m.
            if rangeHeader \<noteq> [] then serve_range m data rangeHeader else Inr (Served (full_reply m data)))))"

section \<open>Sizes\<close>

text \<open>The loop of \<open>formatFileSize\<close>: the divisor and the index of the unit.\<close>

function size_loop :: "u64 \<Rightarrow> u64 \<Rightarrow> nat \<Rightarrow> u64 \<times> nat" where
  "size_loop n d exp = (if n \<ge> 1024 then size_loop (n div 1024) (d * 1024) (exp + 1) else (d, exp))"
  by pat_completeness auto
termination
proof (relation "measure (\<lambda>(n, d, exp). unat n)")
  fix n d :: u64 and exp :: nat assume "n \<ge> 1024"
  then have "1024 \<le> unat n" by (simp add: word_le_nat_alt)
  then show "((n div 1024, d * 1024, exp + 1), n, d, exp) \<in> measure (\<lambda>(n, d, exp). unat n)" by (simp add: unat_div)
qed simp

declare size_loop.simps [simp del]

text \<open>\<open>print\<close> is the printing of a size in bytes, or divided with one decimal and a unit.\<close>

definition formatFileSize :: "(u64 \<Rightarrow> u64 \<Rightarrow> char option \<Rightarrow> bytes) \<Rightarrow> u64 \<Rightarrow> bytes result" where
  "formatFileSize print bytes =
     (if bytes < 1024 then Inr (print bytes 1 None)
      else case size_loop (bytes div 1024) 1024 0 of (d, exp) \<Rightarrow>
        rbind (index_of ''KMGTPE'' exp) (\<lambda>unit. Inr (print bytes d (Some unit))))"

section \<open>Listing a directory\<close>

record gateway =
  gw_client :: storage_client
  gw_BatchGetFileManifest :: "bytes list \<Rightarrow> (bytes \<times> FileManifest option) list result"
  gw_base36 :: base36
  gw_print :: "u64 \<Rightarrow> u64 \<Rightarrow> char option \<Rightarrow> bytes"

text \<open>\<open>strings.SplitN(s, "/", 2)\<close>.\<close>

definition split2 :: "bytes \<Rightarrow> bytes \<times> bytes option" where
  "split2 s = (case dropWhile (\<lambda>c. c \<noteq> slash) s of [] \<Rightarrow> (s, None) | _ # rest \<Rightarrow> (takeWhile (\<lambda>c. c \<noteq> slash) s, Some rest))"

definition under :: "bytes \<Rightarrow> bytes \<Rightarrow> bytes" where
  "under subPath name = (if subPath \<noteq> [] then subPath @ slash # name else name)"

text \<open>The immediate children of the path; the last file decides whether a name is a directory.\<close>

definition child_step :: "bytes \<Rightarrow> FileReference \<Rightarrow> (bytes \<times> bool) list \<Rightarrow> (bytes \<times> bool) list" where
  "child_step subPath f children =
     (let rel = fr_RelativePath f in
      if subPath \<noteq> [] \<and> \<not> HasPrefix rel (subPath @ [slash]) then children
      else let rel = (if subPath \<noteq> [] then TrimPrefix rel (subPath @ [slash]) else rel) in
        case split2 rel of (first, None) \<Rightarrow> AList.update first False children
        | (first, Some _) \<Rightarrow> AList.update first True children)"

definition children_of :: "bytes \<Rightarrow> FileReference list \<Rightarrow> (bytes \<times> bool) list" where
  "children_of subPath files = fold (child_step subPath) files []"

definition filesPerPage :: int where "filesPerPage = 100"

definition total_pages :: "int \<Rightarrow> int" where
  "total_pages totalFiles = (let n = (totalFiles + filesPerPage - 1) div filesPerPage in if n = 0 then 1 else n)"

text \<open>The page asked for by the query, within the bounds.\<close>

definition page_of :: "bytes \<Rightarrow> int \<Rightarrow> int" where
  "page_of query totalPages =
     (let page = (if query \<noteq> [] then (case Atoi query of Inl e \<Rightarrow> 1 | Inr parsed \<Rightarrow> if parsed > 0 then parsed else 1) else 1) in
      if page > totalPages then totalPages else page)"

definition paged_files :: "int \<Rightarrow> 'a list \<Rightarrow> 'a list result" where
  "paged_files page files =
     (let totalFiles = int (length files); startIndex = (page - 1) * filesPerPage;
          endIndex = min (startIndex + filesPerPage) totalFiles in
      if startIndex < totalFiles
      then (if startIndex < 0 then Inl (Panic ''slice bounds out of range'') else slice_of files (nat startIndex) (nat endIndex))
      else Inr [])"

text \<open>The identifiers of the files of a page, by their paths.\<close>

fun page_ids :: "base36 \<Rightarrow> bytes \<Rightarrow> FileReference list \<Rightarrow> bytes list \<Rightarrow> (bytes \<times> bytes) list result" where
  "page_ids c subPath refs [] = Inr []"
| "page_ids c subPath refs (name # names) =
     (let filePath = under subPath name in
      case find (\<lambda>f. fr_RelativePath f = filePath \<or> subPath = [] \<and> fr_RelativePath f = name) refs of
        None \<Rightarrow> page_ids c subPath refs names
      | Some f \<Rightarrow> rbind (BlobIdentifierFromProto (fr_Id f)) (\<lambda>i.
          rbind (page_ids c subPath refs names) (\<lambda>ids. Inr ((filePath, bi_ID c i) # ids))))"

definition page_manifests :: "gateway \<Rightarrow> (bytes \<times> bytes) list \<Rightarrow> bytes \<rightharpoonup> FileManifest option" where
  "page_manifests G ids =
     (if ids = [] then Map.empty
      else case gw_BatchGetFileManifest G (map snd ids) of Inl e \<Rightarrow> Map.empty | Inr ms \<Rightarrow> map_of (rev ms))"

definition shorten :: "bytes \<Rightarrow> bytes result" where
  "shorten s = (if length s < 10 then Inl (Panic ''slice bounds out of range'')
     else Inr (take 10 s @ ascii ''...'' @ drop (length s - 10) s))"

fun file_items :: "gateway \<Rightarrow> bytes \<Rightarrow> (bytes \<rightharpoonup> bytes) \<Rightarrow> (bytes \<rightharpoonup> FileManifest option) \<Rightarrow> bytes list \<Rightarrow> file_item list result" where
  "file_items G subPath ids manifests [] = Inr []"
| "file_items G subPath ids manifests (name # names) =
     (let filePath = under subPath name in
      case ids filePath of
        None \<Rightarrow> file_items G subPath ids manifests names
      | Some manifestId \<Rightarrow>
          rbind (case manifests manifestId of
              Some (Some m) \<Rightarrow> rbind (formatFileSize (gw_print G) (fm_FileSize m)) (\<lambda>fileSize.
                Inr (fileSize, if fm_MimeType m = [] then octet_stream else fm_MimeType m))
            | _ \<Rightarrow> Inr ([], [])) (\<lambda>(fileSize, mimeType).
          rbind (shorten manifestId) (\<lambda>link.
          rbind (file_items G subPath ids manifests names) (\<lambda>items.
          Inr (\<lparr>fi_Name = name, fi_Path = filePath, fi_Size = fileSize, fi_MimeType = mimeType,
            fi_ManifestID = manifestId, fi_ManifestLink = link\<rparr> # items)))))"

definition parent_path :: "bytes \<Rightarrow> bytes" where
  "parent_path subPath = (case dropWhile (\<lambda>c. c \<noteq> slash) (rev subPath) of [] \<Rightarrow> [] | _ # rest \<Rightarrow> rev rest)"

definition make_pagination :: "bytes \<Rightarrow> bytes \<Rightarrow> int \<Rightarrow> int \<Rightarrow> pagination option" where
  "make_pagination manifestID subPath page totalPages =
     (if totalPages > 1
      then Some \<lparr>pg_BaseURL = slash # manifestID @ (if subPath \<noteq> [] then slash # subPath else []), pg_CurrentPage = page,
        pg_TotalPages = totalPages, pg_HasPrev = page > 1, pg_HasNext = page < totalPages, pg_PrevPage = page - 1,
        pg_NextPage = page + 1\<rparr>
      else None)"

definition list_directory :: "gateway \<Rightarrow> bytes \<Rightarrow> bytes \<Rightarrow> bytes \<Rightarrow> FileReference list \<Rightarrow> reply result" where
  "list_directory G manifestID subPath query refs =
     (let children = children_of subPath refs;
          dirs = sort (map fst (filter snd children)); files = sort (map fst (filter (\<lambda>c. \<not> snd c) children));
          totalFiles = int (length files); totalPages = total_pages totalFiles; page = page_of query totalPages in
      rbind (paged_files page files) (\<lambda>pagedFiles.
      rbind (page_ids (gw_base36 G) subPath refs pagedFiles) (\<lambda>ids.
      rbind (file_items G subPath (map_of (rev ids)) (page_manifests G ids) pagedFiles) (\<lambda>items.
      Inr (DirectoryPage \<lparr>dd_Title = ascii ''Blobcast - '' @ manifestID, dd_ManifestID = manifestID,
        dd_DisplayID = (if length manifestID > 20 then take 10 manifestID @ ascii ''...'' @ drop (length manifestID - 10) manifestID
          else manifestID),
        dd_SubPath = subPath, dd_ParentPath = (if subPath \<noteq> [] then parent_path subPath else []),
        dd_Directories = map (\<lambda>name. (name, under subPath name)) dirs, dd_Files = items, dd_HasParent = (subPath \<noteq> []),
        dd_TotalFiles = totalFiles, dd_Pagination = make_pagination manifestID subPath page totalPages\<rparr>)))))"

section \<open>A request\<close>

text \<open>A file whose identifier is nil panics; \<open>crypto.Hash\<close> of its commitment too when it is short.\<close>

definition directoryHandler :: "gateway \<Rightarrow> bytes \<Rightarrow> bytes \<Rightarrow> bytes \<Rightarrow> reply result" where
  "directoryHandler G path query rangeHeader =
     (if HasPrefix path (ascii ''/static/'') then Inr StaticFile
      else let rawPath = TrimPrefix path [slash] in
        if rawPath = [] then Inr HomePage
        else case split2 rawPath of (manifestID, rest) \<Rightarrow>
          let subPath = (case rest of None \<Rightarrow> [] | Some rest \<Rightarrow> TrimPrefix rest [slash]); S = gw_client G; c = gw_base36 G in
          case BlobIdentifierFromString c manifestID of
            Inl e \<Rightarrow> if is_panic e then Inl e else Inr (HttpError 400 ''invalid manifest id'')
          | Inr manifestIdentifier \<Rightarrow> (case sc_GetDirectoryManifest S (bi_ID c manifestIdentifier) of
              Inl e \<Rightarrow> (case sc_GetFileManifest S (bi_ID c manifestIdentifier) of
                 Inl e \<Rightarrow> Inr (HttpError 404 ''Not found'')
               | Inr _ \<Rightarrow> serveFile S c manifestIdentifier rangeHeader)
            | Inr dirManifest \<Rightarrow> rbind (present dirManifest) (\<lambda>m.
                case find (\<lambda>f. fr_RelativePath f = subPath) (dm_Files m) of
                  Some f \<Rightarrow> rbind (BlobIdentifierFromProto (fr_Id f)) (\<lambda>i. serveFile S c i rangeHeader)
                | None \<Rightarrow> list_directory G manifestID subPath query (dm_Files m))))"

end
