(* ===== verification/Commands.thy ===== *)
theory Commands
  imports Celestia Gateway
begin

text \<open>
  The commands \<open>files submit\<close>, \<open>files export\<close> and \<open>files identify\<close> (\<open>cmd/files\<close>) with the sizes that they
  parse (\<open>pkg/util/string.go\<close>): what they check, the network that they choose, and the client that they run.

  Parameters are Unicode white space and upper case, \<open>strconv.ParseFloat\<close>, the stat of a path, and what the
  client's own parameters are (\<open>Files\<close>, \<open>Upload\<close>, \<open>Celestia\<close>). What a command prints is its result.
\<close>

section \<open>Sizes\<close>

text \<open>A \<open>float64\<close>; \<open>Finite a e\<close> is \<open>a * 2 ^ e\<close>.\<close>

datatype f64 = Finite int int | Infinite bool | NotANumber

text \<open>\<open>sz_wide\<close> is the conversion of a product that no \<open>int\<close> holds, which depends on the processor.\<close>

record size_env =
  sz_TrimSpace :: "bytes \<Rightarrow> bytes"
  sz_ToUpper :: "bytes \<Rightarrow> bytes"
  sz_ParseFloat :: "bytes \<Rightarrow> f64 result"
  sz_wide :: "f64 \<Rightarrow> int \<Rightarrow> int"

definition size_units :: "(bytes \<times> int) list" where
  "size_units = [(ascii ''GB'', 2 ^ 30), (ascii ''MB'', 2 ^ 20), (ascii ''KB'', 2 ^ 10),
     (ascii ''G'', 2 ^ 30), (ascii ''M'', 2 ^ 20), (ascii ''K'', 2 ^ 10)]"

definition f64_negative :: "f64 \<Rightarrow> bool" where
  "f64_negative v = (case v of Finite a e \<Rightarrow> a < 0 | Infinite neg \<Rightarrow> neg | NotANumber \<Rightarrow> False)"

text \<open>\<open>int(valFloat * float64(multiplier))\<close> for a value that is not negative.\<close>

definition times_unit :: "(f64 \<Rightarrow> int \<Rightarrow> int) \<Rightarrow> f64 \<Rightarrow> int \<Rightarrow> int" where
  "times_unit wide v multiplier = (case v of
     Finite a e \<Rightarrow> (let n = (if e \<ge> 0 then a * multiplier * 2 ^ nat e else a * multiplier div 2 ^ nat (- e)) in
       if n < 2 ^ 63 then n else wide v multiplier)
   | _ \<Rightarrow> wide v multiplier)"

definition ParseSizeString :: "size_env \<Rightarrow> bytes \<Rightarrow> int result" where
  "ParseSizeString Z sizeStr =
     (let sizeStr = sz_ToUpper Z (sz_TrimSpace Z sizeStr) in
      case find (\<lambda>(suffix, multiplier). HasSuffix sizeStr suffix) size_units of
        None \<Rightarrow> (case Atoi sizeStr of Inl e \<Rightarrow> Inl (Err ''invalid size string format'') | Inr val \<Rightarrow> Inr val)
      | Some (suffix, multiplier) \<Rightarrow> (case sz_ParseFloat Z (TrimSuffix sizeStr suffix) of
          Inl e \<Rightarrow> Inl (Err ''invalid number in size string'')
        | Inr valFloat \<Rightarrow>
            if f64_negative valFloat then Inl (Err ''size cannot be negative'')
            else Inr (times_unit (sz_wide Z) valFloat multiplier)))"

section \<open>Flags\<close>

record file_flags =
  fl_Dir :: bytes
  fl_File :: bytes
  fl_EncryptionKey :: bytes
  fl_MaxBlobSize :: bytes
  fl_MaxTxSize :: bytes
  fl_URL :: bytes

definition no_target :: "file_flags \<Rightarrow> bool" where
  "no_target fl \<longleftrightarrow> fl_Dir fl = [] \<and> fl_File fl = []"

datatype stat = NotThere err | StatFails err | Entry bool

text \<open>The cleaned path, which must exist and be a directory or not; an empty flag is left as it is.\<close>

definition checked_path :: "('s \<Rightarrow> bytes \<Rightarrow> stat) \<Rightarrow> 's \<Rightarrow> bool \<Rightarrow> bytes \<Rightarrow> bytes result" where
  "checked_path os_stat s isDir path =
     (if path = [] then Inr []
      else case os_stat s (path_Clean path) of
        Entry d \<Rightarrow> if d = isDir then Inr (path_Clean path)
          else Inl (Err (if isDir then ''is not a directory'' else ''is not a file''))
      | NotThere e \<Rightarrow> Inl (wrap_err (if isDir then ''error accessing directory'' else ''error accessing file'') e)
      | StatFails e \<Rightarrow> Inl (wrap_err (if isDir then ''error accessing directory'' else ''error accessing file'') e))"

definition positive_size :: "size_env \<Rightarrow> bytes \<Rightarrow> int result" where
  "positive_size Z flag = rbind (wrap ''error parsing size'' (ParseSizeString Z flag)) (\<lambda>n.
     if n \<le> 0 then Inl (Err ''size must be a positive value'') else Inr n)"

definition encryption_key :: "bytes \<Rightarrow> bytes option result" where
  "encryption_key flag =
     (if flag = [] then Inr None
      else rbind (wrap ''error decoding encryption key'' (hex_DecodeString flag)) (\<lambda>key.
        if length key \<noteq> 32 then Inl (Err ''encryption key must be 32 bytes'') else Inr (Some key)))"

section \<open>Submitting\<close>

record ('s, 'c, 'p, 'h, 'n) submit_world =
  sw_size :: size_env
  sw_stat :: "'s \<Rightarrow> bytes \<Rightarrow> stat"
  sw_fs :: "'s fsys"
  sw_aes :: aes
  sw_nonce :: "bytes result"
  sw_schedule :: schedule_up
  sw_connect :: "unit result"
  sw_NewV0Namespace :: "bytes \<Rightarrow> 'n result"
  sw_rpc :: "('c, 'p, 'h) celestia_rpc"
  sw_ctx :: retry_ctx
  sw_ChainID :: "'h \<Rightarrow> bytes"
  sw_opened :: "bytes \<Rightarrow> unit result"
  sw_uploader :: "int \<Rightarrow> uploader"
  sw_store :: "bytes \<Rightarrow> (bytes \<times> u64) result"

definition CelestiaNamespace :: bytes where "CelestiaNamespace = ascii ''626C6F62636173742D31''"

definition network_of :: "bytes \<Rightarrow> bytes result" where
  "network_of celestiaChainID =
     (if celestiaChainID = ascii ''mamo-1'' then Inr (ascii ''mammoth'')
      else if celestiaChainID = ascii ''mocha-4'' then Inr (ascii ''mocha'')
      else if celestiaChainID = ascii ''celestia'' then Inr (ascii ''celestia'')
      else Inl (Err ''unsupported celestia chain ID''))"

text \<open>The network of the Celestia node's newest header.\<close>

definition select_network :: "('s, 'c, 'p, 'h, 'n) submit_world \<Rightarrow> 'c \<Rightarrow> bytes result \<times> 'c" where
  "select_network W c =
     (case NewCelestiaDA (sw_NewV0Namespace W) (sw_connect W) CelestiaNamespace of
        Inl e \<Rightarrow> (Inl (wrap_err ''error creating Celestia client'' e), c)
      | Inr _ \<Rightarrow> (case da_LatestHeight (sw_rpc W) c of
          (Inl e, c) \<Rightarrow> (Inl (wrap_err ''error getting latest celestia height'' e), c)
        | (Inr latest, c) \<Rightarrow> (case da_GetHeader (sw_rpc W) (sw_ctx W) latest c of
            (Inl e, c) \<Rightarrow> (Inl (wrap_err ''error getting celestia header'' e), c)
          | (Inr header, c) \<Rightarrow> (network_of (sw_ChainID W header), c))))"

text \<open>The checks before Celestia is asked: directory, file, sizes and key.\<close>

definition submit_arguments ::
  "('s, 'c, 'p, 'h, 'n) submit_world \<Rightarrow> file_flags \<Rightarrow> 's \<Rightarrow> (bytes \<times> bytes \<times> int \<times> int \<times> bytes option) result" where
  "submit_arguments W fl s =
     (if no_target fl then Inl (Err ''please supply a directory or file to submit'')
      else rbind (checked_path (sw_stat W) s True (fl_Dir fl)) (\<lambda>dir.
        rbind (checked_path (sw_stat W) s False (fl_File fl)) (\<lambda>file'.
        rbind (positive_size (sw_size W) (fl_MaxBlobSize fl)) (\<lambda>maxBlobSize.
        rbind (positive_size (sw_size W) (fl_MaxTxSize fl)) (\<lambda>maxTxSize.
        rbind (encryption_key (fl_EncryptionKey fl)) (\<lambda>key. Inr (dir, file', maxBlobSize, maxTxSize, key)))))))"

text \<open>
  \<open>ds\<close> holds the upload database of every network; a directory has precedence over a file. The result is
  the URL.
\<close>

definition runSubmit ::
  "('d, 'b) env \<Rightarrow> ('s, 'c, 'p, 'h, 'n) submit_world \<Rightarrow> file_flags \<Rightarrow> 'c \<Rightarrow> 's \<Rightarrow> (bytes \<Rightarrow> 'd) \<Rightarrow> nat
    \<Rightarrow> bytes result \<times> 'c \<times> (bytes \<Rightarrow> 'd) \<times> nat" where
  "runSubmit E W fl c s ds n =
     (case submit_arguments W fl s of
        Inl e \<Rightarrow> (Inl e, c, ds, n)
      | Inr (dir, file', maxBlobSize, maxTxSize, key) \<Rightarrow>
          (case select_network W c of
             (Inl e, c) \<Rightarrow> (Inl e, c, ds, n)
           | (Inr network, c) \<Rightarrow>
               (let U = sw_uploader W maxTxSize;
                    url = (\<lambda>(i, h). Inr (bi_URL (up_base36 U) i)) in
                if dir \<noteq> [] then
                  (case UploadDirectory E U (sw_opened W network) (sw_store W) (sw_fs W) (sw_aes W) (sw_schedule W) s (ds network) n
                      dir maxBlobSize key of
                     (r, d, n) \<Rightarrow> (rbind (wrap ''error submitting directory'' r) url, c, ds(network := d), n))
                else
                  (case UploadFile E U (sw_opened W network) (sw_fs W) (sw_aes W) (sw_nonce W) s (ds network) n
                      file' (path_Base file') maxBlobSize key of
                     (r, d, n) \<Rightarrow> (rbind (wrap ''error submitting file'' r) url, c, ds(network := d), n)))))"

section \<open>Exporting\<close>

text \<open>The target directory is created if nothing is at its path.\<close>

definition target_directory :: "'s fsys \<Rightarrow> ('s \<Rightarrow> bytes \<Rightarrow> stat) \<Rightarrow> bytes \<Rightarrow> 's \<Rightarrow> bytes result \<times> 's" where
  "target_directory F os_stat dir s =
     (if dir = [] then (Inr [], s)
      else let dir = path_Clean dir in
        case os_stat s dir of
          NotThere e \<Rightarrow> (case fs_mkdir F s dir of (r, s) \<Rightarrow> (rbind (wrap ''error creating directory'' r) (\<lambda>_. Inr dir), s))
        | StatFails e \<Rightarrow> (Inl (wrap_err ''error checking directory'' e), s)
        | Entry d \<Rightarrow> (Inr dir, s))"

definition runExport ::
  "blake3 \<Rightarrow> 's fsys \<Rightarrow> ('s \<Rightarrow> bytes \<Rightarrow> stat) \<Rightarrow> storage_client result \<Rightarrow> aes \<Rightarrow> base36 \<Rightarrow> file_flags \<Rightarrow> 's \<Rightarrow> unit result \<times> 's" where
  "runExport B F os_stat conn A b36 fl s =
     (if no_target fl then (Inl (Err ''please supply a directory or file to upload''), s)
      else case target_directory F os_stat (fl_Dir fl) s of
        (Inl e, s) \<Rightarrow> (Inl e, s)
      | (Inr dir, s) \<Rightarrow>
          (case rbind (encryption_key (fl_EncryptionKey fl)) (\<lambda>key.
              rbind (wrap ''error parsing manifest identifier'' (BlobIdentifierFromURL b36 (fl_URL fl))) (\<lambda>i.
              rbind (wrap ''error creating gRPC client'' conn) (\<lambda>S. Inr (key, i, S)))) of
             Inl e \<Rightarrow> (Inl e, s)
           | Inr (key, i, S) \<Rightarrow>
               if dir \<noteq> [] then apfst (wrap ''error exporting directory'') (ExportDirectory B F S A b36 s i dir key)
               else apfst (wrap ''error exporting file'') (ExportFile B F S A b36 s i (fl_File fl) key)))"

section \<open>Identifying\<close>

text \<open>The height and the commitment of a URL, in hexadecimal digits.\<close>

definition runIdentify :: "base36 \<Rightarrow> bytes \<Rightarrow> (u64 \<times> bytes) result" where
  "runIdentify b36 url =
     (if \<not> HasPrefix url (ascii ''blobcast://'') then Inl (Err ''invalid URL format: URL must start with blobcast://'')
      else rbind (wrap ''error parsing blobcast URL'' (BlobIdentifierFromURL b36 url)) (\<lambda>i.
        Inr (bi_Height i, hex_EncodeToString (hash_Bytes (bi_Commitment i)))))"

end
