(* ===== verification/Index_Db.thy ===== *)
theory Index_Db
  imports Files
begin

text \<open>
  The index of the explorer, \<open>pkg/state/indexer.go\<close>: six tables of a PostgreSQL database with their
  keys, references and column types, and the statements that write and read them.

  The server is the record \<open>pg_env\<close>: what becomes of the n-th statement, the order in which it visits
  the rows of a table, which bytes it accepts as text, how it rounds a time, its collation, its text search
  and the conversion of its averages. The connection \<open>pg\<close> holds the tables and counts the statements.
\<close>

section \<open>Rows\<close>

record BlockIndex =
  bx_Height :: u64
  bx_Hash :: bytes
  bx_Timestamp :: gotime
  bx_CelestiaHeight :: u64
  bx_ParentHash :: bytes
  bx_DirsRoot :: bytes
  bx_FilesRoot :: bytes
  bx_ChunksRoot :: bytes
  bx_StateRoot :: bytes
  bx_TotalChunks :: int
  bx_TotalFiles :: int
  bx_TotalDirectories :: int
  bx_StorageUsed :: u64

record ChunkIndex =
  cx_BlobID :: bytes
  cx_BlockHeight :: u64
  cx_Index :: int
  cx_ChunkSize :: u64
  cx_ChunkHash :: bytes

record FileIndex =
  fx_BlobID :: bytes
  fx_FileName :: bytes
  fx_MimeType :: bytes
  fx_FileSize :: u64
  fx_FileHash :: bytes
  fx_BlockHeight :: u64
  fx_ChunkCount :: int
  fx_DirectoryReferences :: "bytes list"
  fx_Tags :: "bytes list"

record DirectoryIndex =
  dx_BlobID :: bytes
  dx_DirectoryName :: bytes
  dx_DirectoryHash :: bytes
  dx_BlockHeight :: u64
  dx_FileCount :: int
  dx_TotalSize :: u64
  dx_FileTypes :: "bytes list"
  dx_SubPaths :: "bytes list"

text \<open>
  A block's row is its \<open>BlockIndex\<close>: the columns \<open>version\<close> and \<open>chain_id\<close> keep their defaults and are never
  read. The columns of a file or directory hold lists as one text.
\<close>

record file_row =
  fw_blob_id :: bytes
  fw_filename :: bytes
  fw_mime_type :: bytes
  fw_file_size :: u64
  fw_file_hash :: bytes
  fw_block_height :: u64
  fw_chunk_count :: int
  fw_tags :: bytes

record directory_row =
  dw_blob_id :: bytes
  dw_directory_name :: bytes
  dw_directory_hash :: bytes
  dw_block_height :: u64
  dw_file_count :: int
  dw_total_size :: u64
  dw_file_types :: bytes
  dw_sub_paths :: bytes

record directory_file_row =
  df_directory_id :: bytes
  df_file_id :: bytes
  df_relative_path :: bytes

record file_chunk_row =
  fc_file_id :: bytes
  fc_chunk_id :: bytes
  fc_chunk_index :: int

record tables =
  tb_blocks :: "BlockIndex list"
  tb_files :: "file_row list"
  tb_directories :: "directory_row list"
  tb_directory_files :: "directory_file_row list"
  tb_chunks :: "ChunkIndex list"
  tb_file_chunks :: "file_chunk_row list"

definition no_tables :: tables where
  "no_tables = \<lparr>tb_blocks = [], tb_files = [], tb_directories = [], tb_directory_files = [], tb_chunks = [],
     tb_file_chunks = []\<rparr>"

section \<open>The server\<close>

text \<open>
  A statement is executed and answered, refused, executed with the answer lost, or its answer breaks off
  after some rows.
\<close>

datatype answer = Answered | Refused err | Lost err | Cut nat

record pg_env =
  pg_answer :: "nat \<Rightarrow> answer"
  pg_order :: "nat \<Rightarrow> nat \<Rightarrow> nat list"
  pg_text :: "bytes \<Rightarrow> bool"
  pg_time :: "gotime \<Rightarrow> gotime option"
  pg_collate :: "bytes \<Rightarrow> bytes"
  pg_tsmatch :: "bytes \<Rightarrow> bytes \<Rightarrow> bool"
  pg_ilike :: "bytes \<Rightarrow> bytes \<Rightarrow> bool"
  pg_average :: "nat \<Rightarrow> nat \<Rightarrow> u64"

text \<open>Every row is visited once; rounding a time is idempotent and keeps whole seconds.\<close>

definition pg_ok :: "pg_env \<Rightarrow> bool" where
  "pg_ok P \<longleftrightarrow> (\<forall>n m. distinct (pg_order P n m) \<and> set (pg_order P n m) = {0..<m})
     \<and> (\<forall>t u. pg_time P t = Some u \<longrightarrow> pg_time P u = Some u \<and> (nsec t = 0 \<longrightarrow> u = t))"

record pg =
  pg_tables :: tables
  pg_calls :: nat

definition sbind :: "('s \<Rightarrow> 'a result \<times> 's) \<Rightarrow> ('a \<Rightarrow> 's \<Rightarrow> 'b result \<times> 's) \<Rightarrow> 's \<Rightarrow> 'b result \<times> 's" where
  "sbind m f s = (case m s of (Inl e, s') \<Rightarrow> (Inl e, s') | (Inr a, s') \<Rightarrow> f a s')"

definition broken :: err where "broken = Ext ''driver: bad connection''"
definition ErrNoRows :: err where "ErrNoRows = Ext ''sql: no rows in result set''"

text \<open>\<open>Exec\<close>: the statement changes the tables or violates a constraint.\<close>

definition exec :: "pg_env \<Rightarrow> (tables \<Rightarrow> tables result) \<Rightarrow> pg \<Rightarrow> unit result \<times> pg" where
  "exec P stmt D =
     (let D' = D\<lparr>pg_calls := pg_calls D + 1\<rparr>;
          done = (case stmt (pg_tables D) of Inl e \<Rightarrow> D' | Inr t \<Rightarrow> D'\<lparr>pg_tables := t\<rparr>) in
      case pg_answer P (pg_calls D) of
        Answered \<Rightarrow> (rbind (stmt (pg_tables D)) (\<lambda>_. Inr ()), done)
      | Refused e \<Rightarrow> (Inl e, D')
      | Lost e \<Rightarrow> (Inl e, done)
      | Cut k \<Rightarrow> (Inl broken, done))"

text \<open>\<open>Query\<close>, with the loop over its rows: an answer that breaks off ends the loop like a complete one.\<close>

definition query :: "pg_env \<Rightarrow> (nat \<Rightarrow> tables \<Rightarrow> 'r list result) \<Rightarrow> pg \<Rightarrow> 'r list result \<times> pg" where
  "query P sel D =
     (let n = pg_calls D; D' = D\<lparr>pg_calls := n + 1\<rparr>; rows = sel n (pg_tables D) in
      case pg_answer P n of
        Answered \<Rightarrow> (rows, D')
      | Refused e \<Rightarrow> (Inl e, D')
      | Lost e \<Rightarrow> (Inl e, D')
      | Cut k \<Rightarrow> (rbind rows (\<lambda>rs. Inr (take k rs)), D'))"

text \<open>\<open>QueryRow(...).Scan(...)\<close>.\<close>

definition queryRow :: "pg_env \<Rightarrow> (tables \<Rightarrow> 'r option result) \<Rightarrow> pg \<Rightarrow> 'r result \<times> pg" where
  "queryRow P sel D =
     (let D' = D\<lparr>pg_calls := pg_calls D + 1\<rparr> in
      case pg_answer P (pg_calls D) of
        Answered \<Rightarrow> (rbind (sel (pg_tables D)) (\<lambda>r. case r of None \<Rightarrow> Inl ErrNoRows | Some x \<Rightarrow> Inr x), D')
      | Refused e \<Rightarrow> (Inl e, D')
      | Lost e \<Rightarrow> (Inl e, D')
      | Cut k \<Rightarrow> (Inl broken, D'))"

text \<open>The order in which a statement visits the rows of a table.\<close>

definition visit :: "pg_env \<Rightarrow> nat \<Rightarrow> 'r list \<Rightarrow> 'r list" where
  "visit P n rs = map ((!) rs) (pg_order P n (length rs))"

section \<open>Columns, keys and references\<close>

text \<open>\<open>database/sql\<close> refuses a \<open>uint64\<close> with its highest bit; \<open>INTEGER\<close> has 32 bits.\<close>

definition bigint :: "u64 \<Rightarrow> unit result" where
  "bigint v = (if unat v < 2 ^ 63 then Inr () else Inl (Ext ''uint64 values with high bit set are not supported''))"

definition integer :: "int \<Rightarrow> unit result" where
  "integer v = (if - (2 ^ 31) \<le> v \<and> v < 2 ^ 31 then Inr () else Inl (Ext ''integer out of range''))"

definition as_text :: "pg_env \<Rightarrow> bytes \<Rightarrow> unit result" where
  "as_text P s = (if pg_text P s then Inr () else Inl (Ext ''invalid byte sequence''))"

definition references :: "('r \<Rightarrow> 'k) \<Rightarrow> 'r list \<Rightarrow> 'k \<Rightarrow> unit result" where
  "references key rs k = (if k \<in> key ` set rs then Inr () else Inl (Ext ''violates foreign key constraint''))"

fun checks :: "unit result list \<Rightarrow> unit result" where
  "checks [] = Inr ()"
| "checks (c # cs) = rbind c (\<lambda>_. checks cs)"

lemma checks_ok: "checks cs = Inr () \<longleftrightarrow> (\<forall>c\<in>set cs. c = Inr ())"
  by (induction cs) (auto simp: rbind_eq_Inr)

lemma bigint_ok [simp]: "bigint v = Inr u \<longleftrightarrow> unat v < 2 ^ 63"
  by (simp add: bigint_def)

lemma integer_ok [simp]: "integer v = Inr u \<longleftrightarrow> - (2 ^ 31) \<le> v \<and> v < 2 ^ 31"
  by (simp add: integer_def)

lemma as_text_ok [simp]: "as_text P s = Inr u \<longleftrightarrow> pg_text P s"
  by (simp add: as_text_def)

lemma references_ok [simp]: "references key rs k = Inr u \<longleftrightarrow> k \<in> key ` set rs"
  by (simp add: references_def)

text \<open>\<open>INSERT ... ON CONFLICT (key) DO UPDATE\<close> of every other column.\<close>

fun upsert :: "('r \<Rightarrow> 'k) \<Rightarrow> 'r \<Rightarrow> 'r list \<Rightarrow> 'r list" where
  "upsert key r [] = [r]"
| "upsert key r (x # xs) = (if key x = key r then r # xs else x # upsert key r xs)"

definition row_of :: "('r \<Rightarrow> 'k) \<Rightarrow> 'k \<Rightarrow> 'r list \<Rightarrow> 'r option" where
  "row_of key k rs = find (\<lambda>r. key r = k) rs"

section \<open>Writing\<close>

definition block_columns :: "pg_env \<Rightarrow> BlockIndex \<Rightarrow> unit result list" where
  "block_columns P b = [bigint (bx_Height b), as_text P (bx_Hash b), bigint (bx_CelestiaHeight b), integer (bx_TotalChunks b),
     integer (bx_TotalFiles b), integer (bx_TotalDirectories b), bigint (bx_StorageUsed b), as_text P (bx_ParentHash b),
     as_text P (bx_DirsRoot b), as_text P (bx_FilesRoot b), as_text P (bx_ChunksRoot b), as_text P (bx_StateRoot b)]"

definition insert_block :: "pg_env \<Rightarrow> BlockIndex \<Rightarrow> tables \<Rightarrow> tables result" where
  "insert_block P b t =
     rbind (checks (block_columns P b)) (\<lambda>_.
     case pg_time P (bx_Timestamp b) of
       None \<Rightarrow> Inl (Ext ''timestamp out of range'')
     | Some ts \<Rightarrow> Inr (t\<lparr>tb_blocks := upsert bx_Height (b\<lparr>bx_Timestamp := ts\<rparr>) (tb_blocks t)\<rparr>))"

definition PutBlockIndex :: "pg_env \<Rightarrow> BlockIndex \<Rightarrow> pg \<Rightarrow> unit result \<times> pg" where
  "PutBlockIndex P block = exec P (insert_block P block)"

definition comma :: byte where "comma = 44"

definition file_columns :: "pg_env \<Rightarrow> file_row \<Rightarrow> unit result list" where
  "file_columns P r = [as_text P (fw_blob_id r), as_text P (fw_filename r), as_text P (fw_mime_type r),
     bigint (fw_file_size r), as_text P (fw_file_hash r), bigint (fw_block_height r),
     integer (fw_chunk_count r), as_text P (fw_tags r)]"

definition insert_file :: "pg_env \<Rightarrow> file_row \<Rightarrow> tables \<Rightarrow> tables result" where
  "insert_file P r t =
     rbind (checks (file_columns P r @ [references bx_Height (tb_blocks t) (fw_block_height r)])) (\<lambda>_.
     Inr (t\<lparr>tb_files := upsert fw_blob_id r (tb_files t)\<rparr>))"

definition PutFileIndex :: "pg_env \<Rightarrow> FileIndex \<Rightarrow> pg \<Rightarrow> unit result \<times> pg" where
  "PutFileIndex P f = exec P (insert_file P \<lparr>fw_blob_id = fx_BlobID f, fw_filename = fx_FileName f,
     fw_mime_type = fx_MimeType f, fw_file_size = fx_FileSize f, fw_file_hash = fx_FileHash f,
     fw_block_height = fx_BlockHeight f, fw_chunk_count = fx_ChunkCount f, fw_tags = join_with comma (fx_Tags f)\<rparr>)"

definition fc_key :: "file_chunk_row \<Rightarrow> bytes \<times> bytes" where
  "fc_key r = (fc_file_id r, fc_chunk_id r)"

definition file_chunk_columns :: "pg_env \<Rightarrow> file_chunk_row \<Rightarrow> unit result list" where
  "file_chunk_columns P r = [as_text P (fc_file_id r), as_text P (fc_chunk_id r), integer (fc_chunk_index r)]"

definition insert_file_chunk :: "pg_env \<Rightarrow> file_chunk_row \<Rightarrow> tables \<Rightarrow> tables result" where
  "insert_file_chunk P r t =
     rbind (checks (file_chunk_columns P r @ [references fw_blob_id (tb_files t) (fc_file_id r),
       references cx_BlobID (tb_chunks t) (fc_chunk_id r)])) (\<lambda>_.
     Inr (t\<lparr>tb_file_chunks := upsert fc_key r (tb_file_chunks t)\<rparr>))"

definition PutFileChunk :: "pg_env \<Rightarrow> bytes \<Rightarrow> bytes \<Rightarrow> int \<Rightarrow> pg \<Rightarrow> unit result \<times> pg" where
  "PutFileChunk P fileID chunkID chunkIndex = exec P (insert_file_chunk P
     \<lparr>fc_file_id = fileID, fc_chunk_id = chunkID, fc_chunk_index = chunkIndex\<rparr>)"

definition directory_columns :: "pg_env \<Rightarrow> directory_row \<Rightarrow> unit result list" where
  "directory_columns P r = [as_text P (dw_blob_id r), as_text P (dw_directory_name r), as_text P (dw_directory_hash r),
     bigint (dw_block_height r), integer (dw_file_count r), bigint (dw_total_size r),
     as_text P (dw_file_types r), as_text P (dw_sub_paths r)]"

definition insert_directory :: "pg_env \<Rightarrow> directory_row \<Rightarrow> tables \<Rightarrow> tables result" where
  "insert_directory P r t =
     rbind (checks (directory_columns P r @ [references bx_Height (tb_blocks t) (dw_block_height r)])) (\<lambda>_.
     Inr (t\<lparr>tb_directories := upsert dw_blob_id r (tb_directories t)\<rparr>))"

definition PutDirectoryIndex :: "pg_env \<Rightarrow> DirectoryIndex \<Rightarrow> pg \<Rightarrow> unit result \<times> pg" where
  "PutDirectoryIndex P dir = exec P (insert_directory P \<lparr>dw_blob_id = dx_BlobID dir,
     dw_directory_name = dx_DirectoryName dir, dw_directory_hash = dx_DirectoryHash dir,
     dw_block_height = dx_BlockHeight dir, dw_file_count = dx_FileCount dir, dw_total_size = dx_TotalSize dir,
     dw_file_types = join_with comma (dx_FileTypes dir), dw_sub_paths = join_with comma (dx_SubPaths dir)\<rparr>)"

definition df_key :: "directory_file_row \<Rightarrow> bytes \<times> bytes" where
  "df_key r = (df_directory_id r, df_file_id r)"

definition directory_file_columns :: "pg_env \<Rightarrow> directory_file_row \<Rightarrow> unit result list" where
  "directory_file_columns P r = [as_text P (df_directory_id r), as_text P (df_file_id r), as_text P (df_relative_path r)]"

definition insert_directory_file :: "pg_env \<Rightarrow> directory_file_row \<Rightarrow> tables \<Rightarrow> tables result" where
  "insert_directory_file P r t =
     rbind (checks (directory_file_columns P r @ [references dw_blob_id (tb_directories t) (df_directory_id r),
       references fw_blob_id (tb_files t) (df_file_id r)])) (\<lambda>_.
     Inr (t\<lparr>tb_directory_files := upsert df_key r (tb_directory_files t)\<rparr>))"

definition PutDirectoryFile :: "pg_env \<Rightarrow> bytes \<Rightarrow> bytes \<Rightarrow> bytes \<Rightarrow> pg \<Rightarrow> unit result \<times> pg" where
  "PutDirectoryFile P directoryID fileID relativePath = exec P (insert_directory_file P
     \<lparr>df_directory_id = directoryID, df_file_id = fileID, df_relative_path = relativePath\<rparr>)"

definition chunk_columns :: "pg_env \<Rightarrow> ChunkIndex \<Rightarrow> unit result list" where
  "chunk_columns P r = [as_text P (cx_BlobID r), bigint (cx_BlockHeight r), integer (cx_Index r), bigint (cx_ChunkSize r),
     as_text P (cx_ChunkHash r)]"

definition insert_chunk :: "pg_env \<Rightarrow> ChunkIndex \<Rightarrow> tables \<Rightarrow> tables result" where
  "insert_chunk P r t =
     rbind (checks (chunk_columns P r @ [references bx_Height (tb_blocks t) (cx_BlockHeight r)])) (\<lambda>_.
     Inr (t\<lparr>tb_chunks := upsert cx_BlobID r (tb_chunks t)\<rparr>))"

definition PutChunkIndex :: "pg_env \<Rightarrow> ChunkIndex \<Rightarrow> pg \<Rightarrow> unit result \<times> pg" where
  "PutChunkIndex P chunk = exec P (insert_chunk P chunk)"

section \<open>Reading\<close>

text \<open>\<open>ORDER BY k DESC\<close>; rows that agree in \<open>k\<close> stay in the order of the visit.\<close>

definition order_desc :: "('r \<Rightarrow> u64) \<Rightarrow> 'r list \<Rightarrow> 'r list" where
  "order_desc k rs = sort_key (\<lambda>r. - int (unat (k r))) rs"

definition limit_offset :: "int \<Rightarrow> int \<Rightarrow> 'r list \<Rightarrow> 'r list result" where
  "limit_offset l n rs =
     (if l < 0 then Inl (Ext ''LIMIT must not be negative'')
      else if n < 0 then Inl (Ext ''OFFSET must not be negative'')
      else Inr (take (nat l) (drop (nat n) rs)))"

text \<open>\<open>strings.Split(s, ",")\<close> of a column that is not empty.\<close>

definition column_list :: "bytes \<Rightarrow> bytes list" where
  "column_list s = (if s \<noteq> [] then split_on comma s else [])"

definition scan_file :: "file_row \<Rightarrow> FileIndex" where
  "scan_file r = \<lparr>fx_BlobID = fw_blob_id r, fx_FileName = fw_filename r, fx_MimeType = fw_mime_type r,
     fx_FileSize = fw_file_size r, fx_FileHash = fw_file_hash r, fx_BlockHeight = fw_block_height r,
     fx_ChunkCount = fw_chunk_count r, fx_DirectoryReferences = [], fx_Tags = column_list (fw_tags r)\<rparr>"

definition scan_directory :: "directory_row \<Rightarrow> DirectoryIndex" where
  "scan_directory r = \<lparr>dx_BlobID = dw_blob_id r, dx_DirectoryName = dw_directory_name r,
     dx_DirectoryHash = dw_directory_hash r, dx_BlockHeight = dw_block_height r, dx_FileCount = dw_file_count r,
     dx_TotalSize = dw_total_size r, dx_FileTypes = column_list (dw_file_types r), dx_SubPaths = column_list (dw_sub_paths r)\<rparr>"

definition GetBlockIndex :: "pg_env \<Rightarrow> u64 \<Rightarrow> pg \<Rightarrow> BlockIndex result \<times> pg" where
  "GetBlockIndex P height = queryRow P (\<lambda>t. rbind (bigint height) (\<lambda>_. Inr (row_of bx_Height height (tb_blocks t))))"

definition GetFileIndex :: "pg_env \<Rightarrow> bytes \<Rightarrow> pg \<Rightarrow> FileIndex result \<times> pg" where
  "GetFileIndex P blobID = queryRow P (\<lambda>t. rbind (as_text P blobID) (\<lambda>_.
     Inr (map_option scan_file (row_of fw_blob_id blobID (tb_files t)))))"

text \<open>The join of a file's chunks with the table of chunks.\<close>

definition join_chunk :: "ChunkIndex list \<Rightarrow> file_chunk_row \<Rightarrow> ChunkIndex option" where
  "join_chunk chunks r = map_option (\<lambda>c. c\<lparr>cx_Index := fc_chunk_index r\<rparr>) (row_of cx_BlobID (fc_chunk_id r) chunks)"

definition GetFileChunks :: "pg_env \<Rightarrow> bytes \<Rightarrow> pg \<Rightarrow> ChunkIndex list result \<times> pg" where
  "GetFileChunks P fileID = query P (\<lambda>n t. rbind (as_text P fileID) (\<lambda>_.
     Inr (sort_key cx_Index (List.map_filter (join_chunk (tb_chunks t))
       (filter (\<lambda>r. fc_file_id r = fileID) (visit P n (tb_file_chunks t)))))))"

definition GetLastIndexedHeight :: "pg_env \<Rightarrow> pg \<Rightarrow> u64 result \<times> pg" where
  "GetLastIndexedHeight P = queryRow P (\<lambda>t. Inr (Some (fold max (map bx_Height (tb_blocks t)) 0)))"

definition GetBlocks :: "pg_env \<Rightarrow> int \<Rightarrow> int \<Rightarrow> pg \<Rightarrow> BlockIndex list result \<times> pg" where
  "GetBlocks P limit offset = query P (\<lambda>n t. limit_offset limit offset (order_desc bx_Height (visit P n (tb_blocks t))))"

definition count_rows :: "pg_env \<Rightarrow> (tables \<Rightarrow> nat) \<Rightarrow> pg \<Rightarrow> int result \<times> pg" where
  "count_rows P c = queryRow P (\<lambda>t. Inr (Some (int (c t))))"

definition GetTotalBlocks :: "pg_env \<Rightarrow> pg \<Rightarrow> int result \<times> pg" where
  "GetTotalBlocks P = count_rows P (\<lambda>t. length (tb_blocks t))"

definition GetFiles :: "pg_env \<Rightarrow> int \<Rightarrow> int \<Rightarrow> pg \<Rightarrow> FileIndex list result \<times> pg" where
  "GetFiles P limit offset = query P (\<lambda>n t. rbind (limit_offset limit offset
     (order_desc fw_block_height (visit P n (tb_files t)))) (\<lambda>rs. Inr (map scan_file rs)))"

definition GetTotalFiles :: "pg_env \<Rightarrow> pg \<Rightarrow> int result \<times> pg" where
  "GetTotalFiles P = count_rows P (\<lambda>t. length (tb_files t))"

definition GetDirectories :: "pg_env \<Rightarrow> int \<Rightarrow> int \<Rightarrow> pg \<Rightarrow> DirectoryIndex list result \<times> pg" where
  "GetDirectories P limit offset = query P (\<lambda>n t. rbind (limit_offset limit offset
     (order_desc dw_block_height (visit P n (tb_directories t)))) (\<lambda>rs. Inr (map scan_directory rs)))"

definition GetTotalDirectories :: "pg_env \<Rightarrow> pg \<Rightarrow> int result \<times> pg" where
  "GetTotalDirectories P = count_rows P (\<lambda>t. length (tb_directories t))"

definition GetDirectoryByID :: "pg_env \<Rightarrow> bytes \<Rightarrow> pg \<Rightarrow> DirectoryIndex result \<times> pg" where
  "GetDirectoryByID P blobID = queryRow P (\<lambda>t. rbind (as_text P blobID) (\<lambda>_.
     Inr (map_option scan_directory (row_of dw_blob_id blobID (tb_directories t)))))"

definition GetFilesByBlockHeight :: "pg_env \<Rightarrow> u64 \<Rightarrow> pg \<Rightarrow> FileIndex list result \<times> pg" where
  "GetFilesByBlockHeight P blockHeight = query P (\<lambda>n t. rbind (bigint blockHeight) (\<lambda>_.
     Inr (map scan_file (sort_key (\<lambda>r. pg_collate P (fw_filename r))
       (filter (\<lambda>r. fw_block_height r = blockHeight) (visit P n (tb_files t)))))))"

definition GetDirectoriesByBlockHeight :: "pg_env \<Rightarrow> u64 \<Rightarrow> pg \<Rightarrow> DirectoryIndex list result \<times> pg" where
  "GetDirectoriesByBlockHeight P blockHeight = query P (\<lambda>n t. rbind (bigint blockHeight) (\<lambda>_.
     Inr (map scan_directory (sort_key (\<lambda>r. pg_collate P (dw_directory_name r))
       (filter (\<lambda>r. dw_block_height r = blockHeight) (visit P n (tb_directories t)))))))"

definition GetChunksByBlockHeight :: "pg_env \<Rightarrow> u64 \<Rightarrow> pg \<Rightarrow> ChunkIndex list result \<times> pg" where
  "GetChunksByBlockHeight P blockHeight = query P (\<lambda>n t. rbind (bigint blockHeight) (\<lambda>_.
     Inr (sort_key cx_Index (filter (\<lambda>r. cx_BlockHeight r = blockHeight) (visit P n (tb_chunks t))))))"

section \<open>Searching\<close>

text \<open>The filters of a search; the code never reads the last two.\<close>

record FileFilters =
  ff_MimeType :: bytes
  ff_MinSize :: u64
  ff_MaxSize :: u64
  ff_After :: "gotime option"
  ff_Before :: "gotime option"

text \<open>\<open>strings.TrimSpace(s) = ""\<close>: the string consists of Unicode white space.\<close>

fun all_space :: "bytes \<Rightarrow> bool" where
  "all_space [] = True"
| "all_space (a # s) =
     (if a \<in> {9, 10, 11, 12, 13, 32} then all_space s
      else case s of
        b # s' \<Rightarrow> if a = 0xC2 \<and> b \<in> {0x85, 0xA0} then all_space s'
          else (case s' of
            c # s'' \<Rightarrow>
              a = 0xE1 \<and> b = 0x9A \<and> c = 0x80 \<and> all_space s''
              \<or> a = 0xE2 \<and> b = 0x80 \<and> (0x80 \<le> c \<and> c \<le> 0x8A \<or> c \<in> {0xA8, 0xA9, 0xAF}) \<and> all_space s''
              \<or> a = 0xE2 \<and> b = 0x81 \<and> c = 0x9F \<and> all_space s''
              \<or> a = 0xE3 \<and> b = 0x80 \<and> c = 0x80 \<and> all_space s''
          | [] \<Rightarrow> False)
      | [] \<Rightarrow> False)"

definition file_matches :: "pg_env \<Rightarrow> bytes \<Rightarrow> FileFilters \<Rightarrow> file_row \<Rightarrow> bool" where
  "file_matches P q filters r \<longleftrightarrow>
     (all_space q \<or> pg_tsmatch P (fw_filename r) q \<or> pg_ilike P (fw_filename r) (37 # q @ [37]))
     \<and> (ff_MimeType filters = [] \<or> fw_mime_type r = ff_MimeType filters)
     \<and> (ff_MinSize filters = 0 \<or> fw_file_size r \<ge> ff_MinSize filters)
     \<and> (ff_MaxSize filters = 0 \<or> fw_file_size r \<le> ff_MaxSize filters)"

definition search_arguments :: "pg_env \<Rightarrow> bytes \<Rightarrow> FileFilters \<Rightarrow> unit result" where
  "search_arguments P q filters =
     checks ((if all_space q then [] else [as_text P q]) @ (if ff_MimeType filters = [] then [] else [as_text P (ff_MimeType filters)])
       @ [bigint (ff_MinSize filters), bigint (ff_MaxSize filters)])"

definition SearchFiles :: "pg_env \<Rightarrow> bytes \<Rightarrow> FileFilters \<Rightarrow> int \<Rightarrow> int \<Rightarrow> pg \<Rightarrow> FileIndex list result \<times> pg" where
  "SearchFiles P q filters limit offset = query P (\<lambda>n t. rbind (search_arguments P q filters) (\<lambda>_.
     rbind (limit_offset limit offset (order_desc fw_block_height
       (filter (file_matches P q filters) (visit P n (tb_files t))))) (\<lambda>rs. Inr (map scan_file rs))))"

section \<open>Analytics\<close>

text \<open>The largest files and directories are never set.\<close>

record StorageAnalytics =
  sa_TotalBlocks :: u64
  sa_TotalChunks :: u64
  sa_TotalFiles :: u64
  sa_TotalDirectories :: u64
  sa_TotalStorage :: u64
  sa_AvgBlockSize :: u64
  sa_MostCommonMimeTypes :: "bytes \<rightharpoonup> int"
  sa_FileTypeDistribution :: "bytes \<rightharpoonup> u64"
  sa_LargestFiles :: "FileIndex list"
  sa_LargestDirectories :: "DirectoryIndex list"

definition no_analytics :: StorageAnalytics where
  "no_analytics = \<lparr>sa_TotalBlocks = 0, sa_TotalChunks = 0, sa_TotalFiles = 0, sa_TotalDirectories = 0,
     sa_TotalStorage = 0, sa_AvgBlockSize = 0, sa_MostCommonMimeTypes = Map.empty, sa_FileTypeDistribution = Map.empty,
     sa_LargestFiles = [], sa_LargestDirectories = []\<rparr>"

text \<open>A sum is a \<open>NUMERIC\<close>, which may not fit the variable it is scanned into.\<close>

definition as_uint64 :: "nat \<Rightarrow> u64 result" where
  "as_uint64 n = (if n < 2 ^ 64 then Inr (of_nat n) else Inl (Ext ''value out of range''))"

definition block_stats :: "pg_env \<Rightarrow> tables \<Rightarrow> (u64 \<times> u64 \<times> u64) option result" where
  "block_stats P t =
     (let used = map (\<lambda>b. unat (bx_StorageUsed b)) (tb_blocks t) in
      rbind (as_uint64 (sum_list used)) (\<lambda>used_bytes.
      Inr (Some (of_nat (length used), used_bytes, if used = [] then 0 else pg_average P (sum_list used) (length used)))))"

text \<open>The groups of \<open>GROUP BY mime_type ORDER BY total_size DESC LIMIT 20\<close>.\<close>

definition mime_groups :: "file_row list \<Rightarrow> (bytes \<times> nat \<times> nat) list" where
  "mime_groups rs =
     (let group = (\<lambda>m. filter (\<lambda>r. fw_mime_type r = m) rs);
          groups = map (\<lambda>m. (m, length (group m), sum_list (map (\<lambda>r. unat (fw_file_size r)) (group m))))
            (remdups (filter (\<lambda>m. m \<noteq> []) (map fw_mime_type rs))) in
      take 20 (sort_key (\<lambda>(m, n, used_bytes). - int used_bytes) groups))"

text \<open>A group whose sum does not scan is skipped.\<close>

definition add_group :: "bytes \<times> nat \<times> nat \<Rightarrow> StorageAnalytics \<Rightarrow> StorageAnalytics" where
  "add_group g a = (case g of (m, n, used_bytes) \<Rightarrow> case as_uint64 used_bytes of
     Inl e \<Rightarrow> a
   | Inr w \<Rightarrow> a\<lparr>sa_MostCommonMimeTypes := (sa_MostCommonMimeTypes a)(m \<mapsto> int n),
       sa_FileTypeDistribution := (sa_FileTypeDistribution a)(m \<mapsto> w)\<rparr>)"

definition GetStorageAnalytics :: "pg_env \<Rightarrow> pg \<Rightarrow> StorageAnalytics result \<times> pg" where
  "GetStorageAnalytics P =
     sbind (queryRow P (block_stats P)) (\<lambda>(blocks, used_bytes, avg).
     sbind (count_rows P (\<lambda>t. length (tb_chunks t))) (\<lambda>chunks.
     sbind (count_rows P (\<lambda>t. length (tb_files t))) (\<lambda>files.
     sbind (count_rows P (\<lambda>t. length (tb_directories t))) (\<lambda>directories.
     sbind (query P (\<lambda>n t. Inr (mime_groups (visit P n (tb_files t))))) (\<lambda>groups.
     Pair (Inr (fold add_group groups (no_analytics\<lparr>sa_TotalBlocks := blocks, sa_TotalStorage := used_bytes,
       sa_AvgBlockSize := avg, sa_TotalChunks := of_int chunks, sa_TotalFiles := of_int files,
       sa_TotalDirectories := of_int directories\<rparr>))))))))"

end
