(* ===== verification/Index_Tables.thy ===== *)
theory Index_Tables
  imports Index_Db
begin

text \<open>
  What the statements of the index keep: each table has one row for a key, references lead to rows, and
  columns hold values of their types. The contract of a table with a primary key is a locale, which the six
  tables provide.
\<close>

section \<open>One row for a key\<close>

lemma row_of_Nil [simp]: "row_of key k [] = None"
  by (simp add: row_of_def)

lemma row_of_Cons [simp]: "row_of key k (r # rs) = (if key r = k then Some r else row_of key k rs)"
  by (simp add: row_of_def)

lemma row_of_upsert: "row_of key k (upsert key r rs) = (if k = key r then Some r else row_of key k rs)"
  by (induction rs) auto

lemma keys_upsert: "key ` set (upsert key r rs) = insert (key r) (key ` set rs)"
  by (induction rs) auto

lemma set_upsert: "x \<in> set (upsert key r rs) \<Longrightarrow> x = r \<or> x \<in> set rs"
  by (induction rs) (auto split: if_splits)

lemma distinct_upsert: "distinct (map key rs) \<Longrightarrow> distinct (map key (upsert key r rs))"
proof (induction rs)
  case (Cons x rs)
  moreover have "key x \<notin> key ` set (upsert key r rs)" if "key x \<noteq> key r"
    using that Cons.prems by (simp add: keys_upsert)
  ultimately show ?case by auto
qed simp

lemma row_of_Some: "row_of key k rs = Some r \<Longrightarrow> r \<in> set rs \<and> key r = k"
  by (induction rs) (auto split: if_splits)

lemma row_of_in_set: "distinct (map key rs) \<Longrightarrow> r \<in> set rs \<Longrightarrow> row_of key (key r) rs = Some r"
  by (induction rs) (auto simp: image_iff)

lemma row_of_exists: "k \<in> key ` set rs \<Longrightarrow> \<exists>r. row_of key k rs = Some r"
  by (induction rs) auto

locale pk_table =
  fixes key :: "'r \<Rightarrow> 'k" and rows :: "tables \<Rightarrow> 'r list" and insert_row :: "'r \<Rightarrow> tables \<Rightarrow> tables result"
    and saved :: "'r \<Rightarrow> 'r"
  assumes insert_rows: "insert_row r t = Inr t' \<Longrightarrow> rows t' = upsert key (saved r) (rows t)"
    and saved_key: "key (saved r) = key r"
begin

lemma row_after: "insert_row r t = Inr t' \<Longrightarrow> row_of key k (rows t') = (if k = key r then Some (saved r) else row_of key k (rows t))"
  by (simp add: insert_rows row_of_upsert saved_key)

lemma keys_after: "insert_row r t = Inr t' \<Longrightarrow> key ` set (rows t') = insert (key r) (key ` set (rows t))"
  by (simp add: insert_rows keys_upsert saved_key)

lemma distinct_after: "insert_row r t = Inr t' \<Longrightarrow> distinct (map key (rows t)) \<Longrightarrow> distinct (map key (rows t'))"
  by (simp add: insert_rows distinct_upsert)

lemma member_after: "insert_row r t = Inr t' \<Longrightarrow> x \<in> set (rows t') \<Longrightarrow> x = saved r \<or> x \<in> set (rows t)"
  by (simp add: insert_rows set_upsert)

end

definition saved_block :: "pg_env \<Rightarrow> BlockIndex \<Rightarrow> BlockIndex" where
  "saved_block P b = (case pg_time P (bx_Timestamp b) of None \<Rightarrow> b | Some ts \<Rightarrow> b\<lparr>bx_Timestamp := ts\<rparr>)"

lemma saved_block_simps [simp]:
  "bx_Height (saved_block P b) = bx_Height b" "bx_Hash (saved_block P b) = bx_Hash b"
  "bx_CelestiaHeight (saved_block P b) = bx_CelestiaHeight b" "bx_ParentHash (saved_block P b) = bx_ParentHash b"
  "bx_DirsRoot (saved_block P b) = bx_DirsRoot b" "bx_FilesRoot (saved_block P b) = bx_FilesRoot b"
  "bx_ChunksRoot (saved_block P b) = bx_ChunksRoot b" "bx_StateRoot (saved_block P b) = bx_StateRoot b"
  "bx_TotalChunks (saved_block P b) = bx_TotalChunks b" "bx_TotalFiles (saved_block P b) = bx_TotalFiles b"
  "bx_TotalDirectories (saved_block P b) = bx_TotalDirectories b" "bx_StorageUsed (saved_block P b) = bx_StorageUsed b"
  by (simp_all add: saved_block_def split: option.splits)

lemma block_columns_saved [simp]: "block_columns P (saved_block P b) = block_columns P b"
  by (simp add: block_columns_def)

lemmas insert_defs = insert_block_def insert_file_def insert_file_chunk_def insert_directory_def
  insert_directory_file_def insert_chunk_def

interpretation blocks_table: pk_table bx_Height tb_blocks "insert_block P" "saved_block P" for P
  by unfold_locales (auto simp: insert_block_def saved_block_def rbind_eq_Inr split: option.splits)

interpretation files_table: pk_table fw_blob_id tb_files "insert_file P" "\<lambda>r. r" for P
  by unfold_locales (auto simp: insert_file_def rbind_eq_Inr)

interpretation file_chunks_table: pk_table fc_key tb_file_chunks "insert_file_chunk P" "\<lambda>r. r" for P
  by unfold_locales (auto simp: insert_file_chunk_def rbind_eq_Inr)

interpretation directories_table: pk_table dw_blob_id tb_directories "insert_directory P" "\<lambda>r. r" for P
  by unfold_locales (auto simp: insert_directory_def rbind_eq_Inr)

interpretation directory_files_table: pk_table df_key tb_directory_files "insert_directory_file P" "\<lambda>r. r" for P
  by unfold_locales (auto simp: insert_directory_file_def rbind_eq_Inr)

interpretation chunks_table: pk_table cx_BlobID tb_chunks "insert_chunk P" "\<lambda>r. r" for P
  by unfold_locales (auto simp: insert_chunk_def rbind_eq_Inr)

section \<open>The schema\<close>

definition keys_unique :: "tables \<Rightarrow> bool" where
  "keys_unique t \<longleftrightarrow> distinct (map bx_Height (tb_blocks t)) \<and> distinct (map fw_blob_id (tb_files t))
     \<and> distinct (map dw_blob_id (tb_directories t)) \<and> distinct (map df_key (tb_directory_files t))
     \<and> distinct (map cx_BlobID (tb_chunks t)) \<and> distinct (map fc_key (tb_file_chunks t))"

definition columns_typed :: "pg_env \<Rightarrow> tables \<Rightarrow> bool" where
  "columns_typed P t \<longleftrightarrow>
     (\<forall>r\<in>set (tb_blocks t). checks (block_columns P r) = Inr () \<and> pg_time P (bx_Timestamp r) = Some (bx_Timestamp r))
     \<and> (\<forall>r\<in>set (tb_files t). checks (file_columns P r) = Inr ())
     \<and> (\<forall>r\<in>set (tb_directories t). checks (directory_columns P r) = Inr ())
     \<and> (\<forall>r\<in>set (tb_directory_files t). checks (directory_file_columns P r) = Inr ())
     \<and> (\<forall>r\<in>set (tb_chunks t). checks (chunk_columns P r) = Inr ())
     \<and> (\<forall>r\<in>set (tb_file_chunks t). checks (file_chunk_columns P r) = Inr ())"

definition references_lead :: "tables \<Rightarrow> bool" where
  "references_lead t \<longleftrightarrow>
     (\<forall>r\<in>set (tb_files t). fw_block_height r \<in> bx_Height ` set (tb_blocks t))
     \<and> (\<forall>r\<in>set (tb_directories t). dw_block_height r \<in> bx_Height ` set (tb_blocks t))
     \<and> (\<forall>r\<in>set (tb_chunks t). cx_BlockHeight r \<in> bx_Height ` set (tb_blocks t))
     \<and> (\<forall>r\<in>set (tb_directory_files t). df_directory_id r \<in> dw_blob_id ` set (tb_directories t)
          \<and> df_file_id r \<in> fw_blob_id ` set (tb_files t))
     \<and> (\<forall>r\<in>set (tb_file_chunks t). fc_file_id r \<in> fw_blob_id ` set (tb_files t)
          \<and> fc_chunk_id r \<in> cx_BlobID ` set (tb_chunks t))"

definition schema_ok :: "pg_env \<Rightarrow> tables \<Rightarrow> bool" where
  "schema_ok P t \<longleftrightarrow> keys_unique t \<and> columns_typed P t \<and> references_lead t"

lemma no_tables_ok [simp]: "schema_ok P no_tables"
  by (simp add: schema_ok_def keys_unique_def columns_typed_def references_lead_def no_tables_def)

lemmas schema_defs = schema_ok_def keys_unique_def columns_typed_def references_lead_def

text \<open>What each statement changes.\<close>

lemma insert_block_Inr:
  "insert_block P b t = Inr t' \<longleftrightarrow> checks (block_columns P b) = Inr () \<and> pg_time P (bx_Timestamp b) \<noteq> None
     \<and> t' = t\<lparr>tb_blocks := upsert bx_Height (saved_block P b) (tb_blocks t)\<rparr>"
  by (auto simp: insert_block_def saved_block_def rbind_eq_Inr split: option.splits)

lemma insert_file_Inr:
  "insert_file P r t = Inr t' \<longleftrightarrow> checks (file_columns P r) = Inr () \<and> fw_block_height r \<in> bx_Height ` set (tb_blocks t)
     \<and> t' = t\<lparr>tb_files := upsert fw_blob_id r (tb_files t)\<rparr>"
  by (auto simp: insert_file_def rbind_eq_Inr checks_ok)

lemma insert_chunk_Inr:
  "insert_chunk P r t = Inr t' \<longleftrightarrow> checks (chunk_columns P r) = Inr () \<and> cx_BlockHeight r \<in> bx_Height ` set (tb_blocks t)
     \<and> t' = t\<lparr>tb_chunks := upsert cx_BlobID r (tb_chunks t)\<rparr>"
  by (auto simp: insert_chunk_def rbind_eq_Inr checks_ok)

lemma insert_directory_Inr:
  "insert_directory P r t = Inr t' \<longleftrightarrow> checks (directory_columns P r) = Inr () \<and> dw_block_height r \<in> bx_Height ` set (tb_blocks t)
     \<and> t' = t\<lparr>tb_directories := upsert dw_blob_id r (tb_directories t)\<rparr>"
  by (auto simp: insert_directory_def rbind_eq_Inr checks_ok)

lemma insert_file_chunk_Inr:
  "insert_file_chunk P r t = Inr t' \<longleftrightarrow> checks (file_chunk_columns P r) = Inr () \<and> fc_file_id r \<in> fw_blob_id ` set (tb_files t)
     \<and> fc_chunk_id r \<in> cx_BlobID ` set (tb_chunks t) \<and> t' = t\<lparr>tb_file_chunks := upsert fc_key r (tb_file_chunks t)\<rparr>"
  by (auto simp: insert_file_chunk_def rbind_eq_Inr checks_ok)

lemma insert_directory_file_Inr:
  "insert_directory_file P r t = Inr t' \<longleftrightarrow> checks (directory_file_columns P r) = Inr ()
     \<and> df_directory_id r \<in> dw_blob_id ` set (tb_directories t) \<and> df_file_id r \<in> fw_blob_id ` set (tb_files t)
     \<and> t' = t\<lparr>tb_directory_files := upsert df_key r (tb_directory_files t)\<rparr>"
  by (auto simp: insert_directory_file_def rbind_eq_Inr checks_ok)

lemmas inserts_Inr = insert_block_Inr insert_file_Inr insert_chunk_Inr insert_directory_Inr insert_file_chunk_Inr
  insert_directory_file_Inr

lemma insert_block_typed:
  assumes "pg_ok P" "insert_block P b t = Inr t'" "schema_ok P t"
  shows "schema_ok P t'"
proof -
  have time: "pg_time P (bx_Timestamp (saved_block P b)) = Some (bx_Timestamp (saved_block P b))"
    using assms(1,2) by (auto simp: insert_block_Inr saved_block_def pg_ok_def)
  show ?thesis using assms(2,3) time
    by (auto simp: insert_block_Inr schema_defs distinct_upsert keys_upsert dest!: set_upsert)
qed

lemma insert_chunk_typed: "insert_chunk P r t = Inr t' \<Longrightarrow> schema_ok P t \<Longrightarrow> schema_ok P t'"
  by (auto simp: insert_chunk_Inr schema_defs distinct_upsert keys_upsert dest!: set_upsert)

lemma insert_file_typed: "insert_file P r t = Inr t' \<Longrightarrow> schema_ok P t \<Longrightarrow> schema_ok P t'"
  by (auto simp: insert_file_Inr schema_defs distinct_upsert keys_upsert dest!: set_upsert)

lemma insert_directory_typed: "insert_directory P r t = Inr t' \<Longrightarrow> schema_ok P t \<Longrightarrow> schema_ok P t'"
  by (auto simp: insert_directory_Inr schema_defs distinct_upsert keys_upsert dest!: set_upsert)

lemma insert_file_chunk_typed: "insert_file_chunk P r t = Inr t' \<Longrightarrow> schema_ok P t \<Longrightarrow> schema_ok P t'"
  by (auto simp: insert_file_chunk_Inr schema_defs distinct_upsert dest!: set_upsert)

lemma insert_directory_file_typed: "insert_directory_file P r t = Inr t' \<Longrightarrow> schema_ok P t \<Longrightarrow> schema_ok P t'"
  by (auto simp: insert_directory_file_Inr schema_defs distinct_upsert dest!: set_upsert)

section \<open>Reading\<close>

text \<open>A server that answers every statement.\<close>

definition answers_all :: "pg_env \<Rightarrow> bool" where
  "answers_all P \<longleftrightarrow> (\<forall>n. pg_answer P n = Answered)"

lemma exec_answered: "answers_all P \<Longrightarrow> exec P stmt D = (rbind (stmt (pg_tables D)) (\<lambda>_. Inr ()),
    (case stmt (pg_tables D) of Inl e \<Rightarrow> D\<lparr>pg_calls := pg_calls D + 1\<rparr>
     | Inr t \<Rightarrow> D\<lparr>pg_calls := pg_calls D + 1, pg_tables := t\<rparr>))"
  by (simp add: exec_def Let_def answers_all_def split: sum.splits)

lemma query_answered: "answers_all P \<Longrightarrow> query P sel D = (sel (pg_calls D) (pg_tables D), D\<lparr>pg_calls := pg_calls D + 1\<rparr>)"
  by (simp add: query_def Let_def answers_all_def)

lemma queryRow_answered: "answers_all P \<Longrightarrow> queryRow P sel D
    = (rbind (sel (pg_tables D)) (\<lambda>r. case r of None \<Rightarrow> Inl ErrNoRows | Some x \<Rightarrow> Inr x), D\<lparr>pg_calls := pg_calls D + 1\<rparr>)"
  by (simp add: queryRow_def Let_def answers_all_def)

lemma mset_visit: "pg_ok P \<Longrightarrow> mset (visit P n rs) = mset rs"
proof -
  assume "pg_ok P"
  then have "mset (pg_order P n (length rs)) = mset [0..<length rs]"
    unfolding pg_ok_def by (subst set_eq_iff_mset_eq_distinct [symmetric]) simp_all
  then have "mset (map ((!) rs) (pg_order P n (length rs))) = mset (map ((!) rs) [0..<length rs])"
    by (simp only: mset_map)
  then show ?thesis unfolding visit_def map_nth .
qed

lemma set_visit [simp]: "pg_ok P \<Longrightarrow> set (visit P n rs) = set rs"
  using mset_visit by (metis set_mset_mset)

text \<open>The keys of an ordered answer do not depend on the visit.\<close>

lemma mset_order_desc [simp]: "mset (order_desc k rs) = mset rs"
  by (simp add: order_desc_def)

lemma order_desc_keys: "map (\<lambda>r. unat (k r)) (order_desc k rs) = rev (sort (map (\<lambda>r. unat (k r)) rs))"
proof -
  let ?xs = "map (\<lambda>r. unat (k r)) (order_desc k rs)"
  have "sorted (map (\<lambda>r. - int (unat (k r))) (order_desc k rs))"
    unfolding order_desc_def by (rule sorted_sort_key)
  then have "sorted_wrt (\<lambda>x y. - int (unat (k x)) \<le> - int (unat (k y))) (order_desc k rs)" by (simp only: sorted_wrt_map)
  then have "sorted_wrt (\<lambda>x y. unat (k y) \<le> unat (k x)) (order_desc k rs)" by (rule sorted_wrt_mono_rel [rotated]) linarith
  then have "sorted_wrt (\<lambda>x y. y \<le> x) ?xs" by (simp only: sorted_wrt_map)
  then have "sorted (rev ?xs)" by (simp only: sorted_wrt_rev)
  moreover have "mset (rev ?xs) = mset (map (\<lambda>r. unat (k r)) rs)" by (simp only: mset_rev mset_map mset_order_desc)
  ultimately have "sort (map (\<lambda>r. unat (k r)) rs) = rev ?xs" by (metis properties_for_sort)
  then show ?thesis by simp
qed

end
