(* ===== verification/Indexer.thy ===== *)
theory Indexer
  imports Index_Tables Hex Rollup_Api
begin

text \<open>
  The indexer \<open>pkg/indexer/service.go\<close>: it follows the headers of a node and writes a row for every block,
  and for every chunk, file and directory of its body, to the index.

  The node is the record \<open>node_client\<close>, what its requests answer while one block is indexed; a message of an
  answer may be nil. \<open>index_env\<close> has base36, the sizes of encoded manifests, the order of a map's keys and
  Unicode lower case.
\<close>

section \<open>Tags\<close>

text \<open>\<open>filepath.Ext\<close>: from the last dot of the last element.\<close>

definition filepath_Ext :: "bytes \<Rightarrow> bytes" where
  "filepath_Ext path =
     (let w = rev (takeWhile (\<lambda>c. c \<noteq> slash) (rev path)); e = takeWhile (\<lambda>c. c \<noteq> 46) (rev w) in
      if 46 \<in> set w then 46 # rev e else [])"

text \<open>\<open>strings.FieldsFunc\<close> at underscores, hyphens and spaces.\<close>

definition words_of :: "bytes \<Rightarrow> bytes list" where
  "words_of s = filter (\<lambda>w. w \<noteq> []) (split_on 32 (map (\<lambda>c. if c = 95 \<or> c = 45 then 32 else c) s))"

definition extractTags :: "(bytes \<Rightarrow> bytes) \<Rightarrow> bytes \<Rightarrow> bytes list" where
  "extractTags lower filename =
     (let ext = filepath_Ext filename in
      (if ext \<noteq> [] then [lower (tl ext)] else [])
      @ map lower (filter (\<lambda>w. length w > 2) (words_of (TrimSuffix filename ext))))"

section \<open>One block\<close>

record node_client =
  nc_storage :: storage_client
  nc_GetChunkReference :: "bytes \<Rightarrow> ChunkReference option result"
  nc_GetBlockByHeight :: "u64 \<Rightarrow> pbBlock option result"

record index_env =
  ie_base36 :: base36
  ie_file_size :: "FileManifest \<Rightarrow> u64"
  ie_dir_size :: "DirectoryManifest \<Rightarrow> u64"
  ie_keys :: "bytes list \<Rightarrow> bytes list"
  ie_lower :: "bytes \<Rightarrow> bytes"

text \<open>The visit of a map's keys is in any order.\<close>

definition index_env_ok :: "index_env \<Rightarrow> bool" where
  "index_env_ok I \<longleftrightarrow> base36_ok (ie_base36 I) \<and> (\<forall>ks. distinct ks \<longrightarrow> distinct (ie_keys I ks) \<and> set (ie_keys I ks) = set ks)"

abbreviation lift :: "'a result \<Rightarrow> 's \<Rightarrow> 'a result \<times> 's" where "lift r \<equiv> Pair r"

definition indexChunk ::
  "pg_env \<Rightarrow> index_env \<Rightarrow> node_client \<Rightarrow> pbBlobIdentifier \<Rightarrow> int \<Rightarrow> u64 \<Rightarrow> pg \<Rightarrow> u64 result \<times> pg" where
  "indexChunk P I C chunkID index blockHeight =
     sbind (lift (BlobIdentifierFromProto (Some chunkID))) (\<lambda>i.
     sbind (lift (rbind (nc_GetChunkReference C (bi_ID (ie_base36 I) i)) present)) (\<lambda>chunkReference.
     sbind (PutChunkIndex P \<lparr>cx_BlobID = bi_String (ie_base36 I) i, cx_BlockHeight = blockHeight, cx_Index = index,
       cx_ChunkSize = cr_ChunkSize chunkReference, cx_ChunkHash = hex_EncodeToString (cr_ChunkHash chunkReference)\<rparr>) (\<lambda>_.
     lift (Inr (cr_ChunkSize chunkReference)))))"

fun put_file_chunks ::
  "pg_env \<Rightarrow> index_env \<Rightarrow> bytes \<Rightarrow> int \<Rightarrow> ChunkReference list \<Rightarrow> pg \<Rightarrow> unit result \<times> pg" where
  "put_file_chunks P I fileID i [] = lift (Inr ())"
| "put_file_chunks P I fileID i (chunk # chunks) =
     sbind (lift (BlobIdentifierFromProto (cr_Id chunk))) (\<lambda>c.
     sbind (PutFileChunk P fileID (bi_String (ie_base36 I) c) i) (\<lambda>_.
     put_file_chunks P I fileID (i + 1) chunks))"

definition indexFile ::
  "pg_env \<Rightarrow> index_env \<Rightarrow> node_client \<Rightarrow> pbBlobIdentifier \<Rightarrow> u64 \<Rightarrow> pg \<Rightarrow> u64 result \<times> pg" where
  "indexFile P I C fileID blockHeight =
     sbind (lift (BlobIdentifierFromProto (Some fileID))) (\<lambda>i.
     sbind (lift (rbind (sc_GetFileManifest (nc_storage C) (bi_ID (ie_base36 I) i)) present)) (\<lambda>manifest.
     let blobID = bi_String (ie_base36 I) i in
     sbind (PutFileIndex P \<lparr>fx_BlobID = blobID, fx_FileName = fm_FileName manifest, fx_MimeType = fm_MimeType manifest,
       fx_FileSize = fm_FileSize manifest, fx_FileHash = hex_EncodeToString (fm_FileHash manifest),
       fx_BlockHeight = blockHeight, fx_ChunkCount = int (length (fm_Chunks manifest)), fx_DirectoryReferences = [],
       fx_Tags = extractTags (ie_lower I) (fm_FileName manifest)\<rparr>) (\<lambda>_.
     sbind (put_file_chunks P I blobID 0 (fm_Chunks manifest)) (\<lambda>_.
     lift (Inr (ie_file_size I manifest))))))"

text \<open>The types and the total size of a directory's files; a file whose manifest is not returned is skipped.\<close>

fun directory_stats ::
  "index_env \<Rightarrow> node_client \<Rightarrow> FileReference list \<Rightarrow> bytes list \<Rightarrow> u64 \<Rightarrow> (bytes list \<times> u64) result" where
  "directory_stats I C [] fileTypes totalSize = Inr (fileTypes, totalSize)"
| "directory_stats I C (f # fs) fileTypes totalSize =
     rbind (BlobIdentifierFromProto (fr_Id f)) (\<lambda>i.
     case sc_GetFileManifest (nc_storage C) (bi_ID (ie_base36 I) i) of
       Inl e \<Rightarrow> directory_stats I C fs fileTypes totalSize
     | Inr m \<Rightarrow> rbind (present m) (\<lambda>m.
         directory_stats I C fs (List.insert (fm_MimeType m) fileTypes) (totalSize + fm_FileSize m)))"

fun put_directory_files :: "pg_env \<Rightarrow> index_env \<Rightarrow> bytes \<Rightarrow> FileReference list \<Rightarrow> pg \<Rightarrow> unit result \<times> pg" where
  "put_directory_files P I dirID [] = lift (Inr ())"
| "put_directory_files P I dirID (f # fs) =
     sbind (lift (BlobIdentifierFromProto (fr_Id f))) (\<lambda>i.
     sbind (PutDirectoryFile P dirID (bi_String (ie_base36 I) i) (fr_RelativePath f)) (\<lambda>_.
     put_directory_files P I dirID fs))"

definition indexDirectory ::
  "pg_env \<Rightarrow> index_env \<Rightarrow> node_client \<Rightarrow> pbBlobIdentifier \<Rightarrow> u64 \<Rightarrow> pg \<Rightarrow> u64 result \<times> pg" where
  "indexDirectory P I C dirID blockHeight =
     sbind (lift (BlobIdentifierFromProto (Some dirID))) (\<lambda>i.
     sbind (lift (rbind (sc_GetDirectoryManifest (nc_storage C) (bi_ID (ie_base36 I) i)) present)) (\<lambda>manifest.
     sbind (lift (directory_stats I C (dm_Files manifest) [] 0)) (\<lambda>(fileTypes, totalSize).
     let blobID = bi_String (ie_base36 I) i in
     sbind (PutDirectoryIndex P \<lparr>dx_BlobID = blobID, dx_DirectoryName = dm_DirectoryName manifest,
       dx_DirectoryHash = hex_EncodeToString (dm_DirectoryHash manifest), dx_BlockHeight = blockHeight,
       dx_FileCount = int (length (dm_Files manifest)), dx_TotalSize = totalSize,
       dx_FileTypes = filter (\<lambda>m. m \<noteq> []) (ie_keys I fileTypes), dx_SubPaths = map fr_RelativePath (dm_Files manifest)\<rparr>) (\<lambda>_.
     sbind (put_directory_files P I blobID (dm_Files manifest)) (\<lambda>_.
     lift (Inr (ie_dir_size I manifest)))))))"

text \<open>A loop over the items of a body: an error is logged, a panic is not caught.\<close>

fun index_items :: "('i \<Rightarrow> pg \<Rightarrow> u64 result \<times> pg) \<Rightarrow> 'i list \<Rightarrow> u64 \<Rightarrow> pg \<Rightarrow> u64 result \<times> pg" where
  "index_items f [] storageUsed D = (Inr storageUsed, D)"
| "index_items f (x # xs) storageUsed D =
     (case f x D of
        (Inl e, D) \<Rightarrow> if is_panic e then (Inl e, D) else index_items f xs storageUsed D
      | (Inr n, D) \<Rightarrow> index_items f xs (storageUsed + n) D)"

definition block_index :: "bytes \<Rightarrow> pbBlockHeader \<Rightarrow> pbBlockBody \<Rightarrow> BlockIndex" where
  "block_index hash header body = \<lparr>bx_Height = pbh_Height header, bx_Hash = hex_EncodeToString hash,
     bx_Timestamp = pbh_Timestamp header, bx_CelestiaHeight = pbh_CelestiaBlockHeight header,
     bx_ParentHash = hex_EncodeToString (pbh_ParentHash header), bx_DirsRoot = hex_EncodeToString (pbh_DirsRoot header),
     bx_FilesRoot = hex_EncodeToString (pbh_FilesRoot header), bx_ChunksRoot = hex_EncodeToString (pbh_ChunksRoot header),
     bx_StateRoot = hex_EncodeToString (pbh_StateRoot header), bx_TotalChunks = int (length (pbb_Chunks body)),
     bx_TotalFiles = int (length (pbb_Files body)), bx_TotalDirectories = int (length (pbb_Dirs body)), bx_StorageUsed = 0\<rparr>"

definition indexBlock :: "pg_env \<Rightarrow> index_env \<Rightarrow> node_client \<Rightarrow> u64 \<Rightarrow> pg \<Rightarrow> unit result \<times> pg" where
  "indexBlock P I C height =
     sbind (lift (rbind (wrap ''error fetching block'' (nc_GetBlockByHeight C height)) present)) (\<lambda>block.
     sbind (lift (present (pb_Header block))) (\<lambda>header.
     sbind (lift (present (pb_Body block))) (\<lambda>body.
     let blockIndex = block_index (pb_Hash block) header body; h = pbh_Height header in
     sbind (PutBlockIndex P blockIndex) (\<lambda>_.
     sbind (index_items (\<lambda>(i, chunkID). indexChunk P I C chunkID (int i) h) (enumerate 0 (pbb_Chunks body)) 0) (\<lambda>storageUsed.
     sbind (index_items (\<lambda>fileID. indexFile P I C fileID h) (pbb_Files body) storageUsed) (\<lambda>storageUsed.
     sbind (index_items (\<lambda>dirID. indexDirectory P I C dirID h) (pbb_Dirs body) storageUsed) (\<lambda>storageUsed.
     PutBlockIndex P (blockIndex\<lparr>bx_StorageUsed := storageUsed\<rparr>))))))))"

section \<open>The service\<close>

text \<open>
  The loops of \<open>Start\<close>: subscribing from the height after the last indexed one, receiving headers, and
  reconnecting with a doubled wait of at most 30 seconds. \<open>Stopped\<close> is a return, \<open>Crashed\<close> a panic.
\<close>

datatype ix_phase = Subscribing | Receiving | Reconnecting nat | Stopped err | Crashed

record indexer =
  ix_phase :: ix_phase
  ix_lastIndexed :: u64
  ix_db :: pg

text \<open>\<open>NewIndexerService\<close> on an open database.\<close>

definition NewIndexerService :: "pg_env \<Rightarrow> u64 \<Rightarrow> pg \<Rightarrow> indexer" where
  "NewIndexerService P startHeight D =
     (if startHeight = 0
      then (case GetLastIndexedHeight P D of
          (Inr dbHeight, D) \<Rightarrow> \<lparr>ix_phase = Subscribing, ix_lastIndexed = dbHeight, ix_db = D\<rparr>
        | (Inl e, D) \<Rightarrow> \<lparr>ix_phase = Subscribing, ix_lastIndexed = startHeight, ix_db = D\<rparr>)
      else \<lparr>ix_phase = Subscribing, ix_lastIndexed = startHeight, ix_db = D\<rparr>)"

text \<open>
  What the world does next: the subscription from a height is granted or refused, the stream gives a header
  (or a message without one) or fails, the wait is over with or without an answer of the node, the context
  ends, or the process is started again.
\<close>

datatype ix_event =
    SubscribeOk u64 | SubscribeFails
  | RecvHeader "pbBlockHeader option" node_client | RecvFails
  | WaitOver bool | CtxEnds | StartedAgain u64

definition first_wait :: nat where "first_wait = 1"
definition max_wait :: nat where "max_wait = 30"

text \<open>\<open>reconnectWithBackoff\<close>: after a wait, a node that answers ends the loop, and otherwise the wait doubles.\<close>

definition waited :: "bool \<Rightarrow> nat \<Rightarrow> ix_phase" where
  "waited up backoff = (if up then Subscribing else Reconnecting (min (2 * backoff) max_wait))"

declare waited_def [simp]

definition received :: "pg_env \<Rightarrow> index_env \<Rightarrow> pbBlockHeader option \<Rightarrow> node_client \<Rightarrow> indexer \<Rightarrow> indexer" where
  "received P I header C s =
     (case header of
        None \<Rightarrow> s\<lparr>ix_phase := Crashed\<rparr>
      | Some header \<Rightarrow> (case indexBlock P I C (pbh_Height header) (ix_db s) of
          (Inl e, D) \<Rightarrow> s\<lparr>ix_phase := (if is_panic e then Crashed else Reconnecting first_wait), ix_db := D\<rparr>
        | (Inr _, D) \<Rightarrow> s\<lparr>ix_lastIndexed := pbh_Height header, ix_db := D\<rparr>))"

fun ix_step :: "pg_env \<Rightarrow> index_env \<Rightarrow> indexer \<Rightarrow> ix_event \<Rightarrow> indexer option" where
  "ix_step P I s ev =
     (case (ev, ix_phase s) of
        (SubscribeOk from, Subscribing) \<Rightarrow> if from = ix_lastIndexed s + 1 then Some (s\<lparr>ix_phase := Receiving\<rparr>) else None
      | (SubscribeFails, Subscribing) \<Rightarrow> Some (s\<lparr>ix_phase := Reconnecting first_wait\<rparr>)
      | (RecvHeader header C, Receiving) \<Rightarrow> Some (received P I header C s)
      | (RecvFails, Receiving) \<Rightarrow> Some (s\<lparr>ix_phase := Reconnecting first_wait\<rparr>)
      | (CtxEnds, Receiving) \<Rightarrow> Some (s\<lparr>ix_phase := Stopped (Ext ''context canceled'')\<rparr>)
      | (WaitOver up, Reconnecting backoff) \<Rightarrow>
          Some (s\<lparr>ix_phase := waited up backoff\<rparr>)
      | (CtxEnds, Reconnecting backoff) \<Rightarrow> Some (s\<lparr>ix_phase := Stopped (Ext ''context canceled'')\<rparr>)
      | (StartedAgain startHeight, _) \<Rightarrow> Some (NewIndexerService P startHeight (ix_db s))
      | _ \<Rightarrow> None)"

fun ix_run :: "pg_env \<Rightarrow> index_env \<Rightarrow> indexer \<Rightarrow> ix_event list \<Rightarrow> indexer option" where
  "ix_run P I s [] = Some s"
| "ix_run P I s (ev # evs) = (case ix_step P I s ev of None \<Rightarrow> None | Some s' \<Rightarrow> ix_run P I s' evs)"

end
