(* ===== verification/Index_Runs.thy ===== *)
theory Index_Runs
  imports Indexer
begin

text \<open>
  The indexer against the chain of an honest node: whatever the database and the connections do, the tables
  stay well-typed, every block row describes the block of the chain at its height, and no height at or below
  the last indexed one is left out.
\<close>

section \<open>What a computation keeps\<close>

definition keeps :: "(tables \<Rightarrow> bool) \<Rightarrow> (pg \<Rightarrow> 'a result \<times> pg) \<Rightarrow> bool" where
  "keeps Q m \<longleftrightarrow> (\<forall>D r D'. m D = (r, D') \<longrightarrow> Q (pg_tables D) \<longrightarrow> Q (pg_tables D'))"

named_theorems keeps_rules

lemma exec_cases:
  assumes "exec P stmt D = (r, D')"
  shows "pg_tables D' = pg_tables D \<or> stmt (pg_tables D) = Inr (pg_tables D')"
    and "r = Inr x \<Longrightarrow> stmt (pg_tables D) = Inr (pg_tables D')"
  using assms by (auto simp: exec_def Let_def split: answer.splits sum.splits)

lemma keeps_lift [keeps_rules]: "keeps Q (Pair r)"
  by (simp add: keeps_def)

lemma keeps_sbind [keeps_rules]: "keeps Q m \<Longrightarrow> (\<And>a. keeps Q (f a)) \<Longrightarrow> keeps Q (sbind m f)"
  unfolding keeps_def sbind_def by (fastforce split: prod.splits sum.splits)

lemma keeps_exec: "(\<And>t t'. stmt t = Inr t' \<Longrightarrow> Q t \<Longrightarrow> Q t') \<Longrightarrow> keeps Q (exec P stmt)"
  unfolding keeps_def by (metis exec_cases(1))

lemma keeps_index_items [keeps_rules]: "(\<And>x. keeps Q (f x)) \<Longrightarrow> keeps Q (index_items f xs used)"
proof (induction xs arbitrary: used)
  case (Cons x xs)
  from Cons.IH Cons.prems have "keeps Q (index_items f xs u)" for u by blast
  with Cons.prems [of x] show ?case unfolding keeps_def index_items.simps by (fastforce split: prod.splits sum.splits if_splits)
qed (simp add: keeps_def)

lemma keepsD: "keeps Q m \<Longrightarrow> m D = (r, D') \<Longrightarrow> Q (pg_tables D) \<Longrightarrow> Q (pg_tables D')"
  unfolding keeps_def by blast

text \<open>Statements on the other tables leave the blocks alone.\<close>

abbreviation on_blocks :: "pg_env \<Rightarrow> (BlockIndex list \<Rightarrow> bool) \<Rightarrow> tables \<Rightarrow> bool" where
  "on_blocks P F t \<equiv> schema_ok P t \<and> F (tb_blocks t)"

lemma blocks_unchanged:
  "insert_chunk P c t = Inr t' \<Longrightarrow> tb_blocks t' = tb_blocks t" "insert_file P f t = Inr t' \<Longrightarrow> tb_blocks t' = tb_blocks t"
  "insert_file_chunk P x t = Inr t' \<Longrightarrow> tb_blocks t' = tb_blocks t"
  "insert_directory P d t = Inr t' \<Longrightarrow> tb_blocks t' = tb_blocks t"
  "insert_directory_file P y t = Inr t' \<Longrightarrow> tb_blocks t' = tb_blocks t"
  by (auto simp: inserts_Inr)

lemmas inserts_typed = insert_chunk_typed insert_file_typed insert_file_chunk_typed insert_directory_typed
  insert_directory_file_typed

lemma keeps_puts [keeps_rules]:
  "keeps (on_blocks P F) (PutChunkIndex P c)" "keeps (on_blocks P F) (PutFileIndex P f)"
  "keeps (on_blocks P F) (PutFileChunk P a b n)" "keeps (on_blocks P F) (PutDirectoryIndex P d)"
  "keeps (on_blocks P F) (PutDirectoryFile P a b p)"
  unfolding PutChunkIndex_def PutFileIndex_def PutFileChunk_def PutDirectoryIndex_def PutDirectoryFile_def
  by (rule keeps_exec, simp add: blocks_unchanged inserts_typed)+

lemma keeps_file_chunks [keeps_rules]: "keeps (on_blocks P F) (put_file_chunks P I a n cs)"
  by (induction cs arbitrary: n) (auto intro!: keeps_rules)

lemma keeps_directory_files [keeps_rules]: "keeps (on_blocks P F) (put_directory_files P I a fs)"
  by (induction fs) (auto intro!: keeps_rules)

lemma keeps_items [keeps_rules]:
  "keeps (on_blocks P F) (indexChunk P I C c n h)" "keeps (on_blocks P F) (indexFile P I C f h)"
  "keeps (on_blocks P F) (indexDirectory P I C d h)"
  unfolding indexChunk_def indexFile_def indexDirectory_def Let_def by (auto intro!: keeps_rules split: prod.splits)

lemma PutBlockIndex_keeps:
  assumes "pg_ok P" "\<And>bs. F bs \<Longrightarrow> pg_time P (bx_Timestamp b) \<noteq> None \<Longrightarrow> F (upsert bx_Height (saved_block P b) bs)"
  shows "keeps (on_blocks P F) (PutBlockIndex P b)"
  unfolding PutBlockIndex_def
proof (rule keeps_exec)
  fix t t' assume put: "insert_block P b t = Inr t'" and t: "on_blocks P F t"
  with insert_block_typed [OF assms(1) put] show "on_blocks P F t'" by (auto simp: insert_block_Inr assms(2))
qed

lemma sbind_lift_Inl [simp]: "sbind (Pair (Inl e)) f D = (Inl e, D)"
  by (simp add: sbind_def)

lemma sbind_lift_Inr [simp]: "sbind (Pair (Inr a)) f D = f a D"
  by (simp add: sbind_def)

lemma sbind_Inr: "m D = (Inr a, D') \<Longrightarrow> sbind m f D = f a D'"
  by (simp add: sbind_def)

lemma sbind_InrE:
  assumes "sbind m f D = (Inr b, D'')"
  obtains a D' where "m D = (Inr a, D')" "f a D' = (Inr b, D'')"
  using assms by (auto simp: sbind_def split: prod.splits sum.splits)

lemma present_Inr [simp]: "present p = Inr x \<longleftrightarrow> p = Some x"
  by (simp add: present_def split: option.splits)

text \<open>Indexing a block writes the two states of its row, and leaves one of them.\<close>

lemma keeps_indexBlock:
  assumes P: "pg_ok P"
    and rows: "\<And>p header body used bs. nc_GetBlockByHeight C h = Inr (Some p) \<Longrightarrow> pb_Header p = Some header
       \<Longrightarrow> pb_Body p = Some body \<Longrightarrow> F bs
       \<Longrightarrow> pg_time P (pbh_Timestamp header) \<noteq> None
       \<Longrightarrow> F (upsert bx_Height (saved_block P ((block_index (pb_Hash p) header body)\<lparr>bx_StorageUsed := used\<rparr>)) bs)"
  shows "keeps (on_blocks P F) (indexBlock P I C h)"
proof -
  have put: "keeps (on_blocks P F) (PutBlockIndex P ((block_index (pb_Hash p) header body)\<lparr>bx_StorageUsed := used\<rparr>))"
    if "nc_GetBlockByHeight C h = Inr (Some p)" "pb_Header p = Some header" "pb_Body p = Some body" for p header body used
    by (rule PutBlockIndex_keeps [OF P]) (use rows [OF that] in \<open>simp add: block_index_def\<close>)
  have put0: "keeps (on_blocks P F) (PutBlockIndex P (block_index (pb_Hash p) header body))"
    if "nc_GetBlockByHeight C h = Inr (Some p)" "pb_Header p = Some header" "pb_Body p = Some body" for p header body
    using put [OF that, of 0] by (simp add: block_index_def)
  show ?thesis
  proof (cases "rbind (wrap ''error fetching block'' (nc_GetBlockByHeight C h)) present")
    case (Inr p)
    then have p: "nc_GetBlockByHeight C h = Inr (Some p)" by (auto simp: rbind_eq_Inr)
    show ?thesis
    proof (cases "pb_Header p = None \<or> pb_Body p = None")
      case True
      then show ?thesis using Inr unfolding keeps_def indexBlock_def
        by (auto simp: present_def split: option.splits)
    next
      case False
      then obtain header body where hb: "pb_Header p = Some header" "pb_Body p = Some body" by auto
      have "indexBlock P I C h = (let blockIndex = block_index (pb_Hash p) header body; h = pbh_Height header in
         sbind (PutBlockIndex P blockIndex) (\<lambda>_.
         sbind (index_items (\<lambda>(i, chunkID). indexChunk P I C chunkID (int i) h) (enumerate 0 (pbb_Chunks body)) 0) (\<lambda>storageUsed.
         sbind (index_items (\<lambda>fileID. indexFile P I C fileID h) (pbb_Files body) storageUsed) (\<lambda>storageUsed.
         sbind (index_items (\<lambda>dirID. indexDirectory P I C dirID h) (pbb_Dirs body) storageUsed) (\<lambda>storageUsed.
         PutBlockIndex P (blockIndex\<lparr>bx_StorageUsed := storageUsed\<rparr>))))))"
        by (rule ext) (simp add: indexBlock_def Inr hb present_def)
      then show ?thesis unfolding Let_def by (auto intro!: keeps_rules put put0 p hb)
    qed
  qed (simp add: keeps_def indexBlock_def)
qed

text \<open>What it wrote when it succeeds.\<close>

lemma indexBlock_success:
  assumes "indexBlock P I C h D = (Inr x, D')"
  obtains p header body used t where "nc_GetBlockByHeight C h = Inr (Some p)" "pb_Header p = Some header"
    "pb_Body p = Some body"
    "insert_block P ((block_index (pb_Hash p) header body)\<lparr>bx_StorageUsed := used\<rparr>) t = Inr (pg_tables D')"
proof -
  from assms obtain p where p: "rbind (wrap ''error fetching block'' (nc_GetBlockByHeight C h)) present = Inr p"
    unfolding indexBlock_def by (auto elim: sbind_InrE)
  from assms obtain header body where hb: "present (pb_Header p) = Inr header" "present (pb_Body p) = Inr body"
    unfolding indexBlock_def p by (auto elim!: sbind_InrE)
  from assms obtain used D0 where "PutBlockIndex P ((block_index (pb_Hash p) header body)\<lparr>bx_StorageUsed := used\<rparr>) D0 = (Inr x, D')"
    unfolding indexBlock_def p sbind_lift_Inr hb Let_def by (auto elim!: sbind_InrE)
  then have "insert_block P ((block_index (pb_Hash p) header body)\<lparr>bx_StorageUsed := used\<rparr>) (pg_tables D0) = Inr (pg_tables D')"
    unfolding PutBlockIndex_def by (rule exec_cases(2)) simp
  with p hb show thesis by (intro that) (auto simp: rbind_eq_Inr)
qed

section \<open>Following a chain\<close>

text \<open>The message of a block as a node sends it, and the row that describes a block.\<close>

definition block_sent :: "blake3 \<Rightarrow> Block \<Rightarrow> pbBlock \<Rightarrow> bool" where
  "block_sent B b p \<longleftrightarrow> pb_Header p = Some (bh_Proto (bh_canon (b_Header b))) \<and> pb_Body p = Some (bb_Proto (b_Body b))
     \<and> pb_Hash p = hash_Bytes (header_hash B (b_Header b))"

definition row_describes :: "blake3 \<Rightarrow> Block \<Rightarrow> BlockIndex \<Rightarrow> bool" where
  "row_describes B b r \<longleftrightarrow> (\<exists>used. r = (block_index (hash_Bytes (header_hash B (b_Header b))) (bh_Proto (bh_canon (b_Header b)))
     (bb_Proto (b_Body b)))\<lparr>bx_StorageUsed := used\<rparr>)"

definition honest_node :: "blake3 \<Rightarrow> Block list \<Rightarrow> node_client \<Rightarrow> bool" where
  "honest_node B bs C \<longleftrightarrow> (\<forall>h p. nc_GetBlockByHeight C h = Inr (Some p) \<longrightarrow> unat h < length bs \<and> block_sent B (bs ! unat h) p)"

definition heights_ok :: "Block list \<Rightarrow> bool" where
  "heights_ok bs \<longleftrightarrow> length bs < 2 ^ 64 \<and> (\<forall>h<length bs. bh_Height (b_Header (bs ! h)) = of_nat h)"

definition indexed_heights :: "BlockIndex list \<Rightarrow> nat set" where
  "indexed_heights rs = (\<lambda>r. unat (bx_Height r)) ` set rs"

definition rows_follow :: "blake3 \<Rightarrow> Block list \<Rightarrow> BlockIndex list \<Rightarrow> bool" where
  "rows_follow B bs rs \<longleftrightarrow>
     (\<forall>r\<in>set rs. unat (bx_Height r) < length bs \<and> row_describes B (bs ! unat (bx_Height r)) r)
     \<and> (\<forall>h\<in>indexed_heights rs. {1..h} \<subseteq> indexed_heights rs)"

text \<open>The headers of a subscription leave no height out: the first is at most the one asked for.\<close>

fun gapless :: "nat \<Rightarrow> ix_event list \<Rightarrow> bool" where
  "gapless n [] = True"
| "gapless n (SubscribeOk from # evs) = gapless (unat from) evs"
| "gapless n (RecvHeader (Some header) C # evs) =
     (unat (pbh_Height header) \<le> n \<and> gapless (max n (unat (pbh_Height header) + 1)) evs)"
| "gapless n (ev # evs) = gapless n evs"

definition honest_events :: "blake3 \<Rightarrow> Block list \<Rightarrow> ix_event list \<Rightarrow> bool" where
  "honest_events B bs evs \<longleftrightarrow> (\<forall>ev\<in>set evs. case ev of RecvHeader header C \<Rightarrow> honest_node B bs C | StartedAgain h \<Rightarrow> h = 0 | _ \<Rightarrow> True)"

lemma indexed_upsert: "indexed_heights (upsert bx_Height r rs) = insert (unat (bx_Height r)) (indexed_heights rs)"
  using keys_upsert [of bx_Height r rs] unfolding indexed_heights_def by (metis image_image image_insert)

lemma saved_row:
  assumes "pg_ok P" "pg_time P (bh_Timestamp (bh_canon bh)) \<noteq> None"
  shows "saved_block P ((block_index x (bh_Proto (bh_canon bh)) body)\<lparr>bx_StorageUsed := used\<rparr>)
     = (block_index x (bh_Proto (bh_canon bh)) body)\<lparr>bx_StorageUsed := used\<rparr>"
proof -
  obtain u where u: "pg_time P (bh_Timestamp (bh_canon bh)) = Some u" using assms(2) by auto
  moreover have "nsec (bh_Timestamp (bh_canon bh)) = 0" by (simp add: bh_canon_def)
  ultimately have "u = bh_Timestamp (bh_canon bh)" using assms(1) unfolding pg_ok_def by blast
  with u show ?thesis by (simp add: saved_block_def block_index_def bh_Proto_def)
qed

lemma rows_follow_upsert:
  assumes follow: "rows_follow B bs rs" and h: "h < length bs" "heights_ok bs" "h \<le> 1 \<or> h - 1 \<in> indexed_heights rs"
    and r: "row_describes B (bs ! h) r"
  shows "rows_follow B bs (upsert bx_Height r rs)"
proof -
  have "bx_Height r = bh_Height (b_Header (bs ! h))" using r
    by (auto simp: row_describes_def block_index_def bh_Proto_def bh_canon_def)
  then have height: "unat (bx_Height r) = h" using h by (simp add: heights_ok_def unat_of_nat_u64)
  have "{1..h} \<subseteq> insert h (indexed_heights rs)"
  proof (cases "h \<le> 1")
    case False
    with h(3) follow have "{1..h - 1} \<subseteq> indexed_heights rs" unfolding rows_follow_def by auto
    moreover have "{1..h} \<subseteq> insert h {1..h - 1}" by auto
    ultimately show ?thesis by blast
  qed auto
  then show ?thesis using follow r h(1) height
    unfolding rows_follow_def indexed_upsert by (auto dest!: set_upsert)
qed

lemma indexBlock_follows:
  assumes P: "pg_ok P" and C: "honest_node B bs C" and bs: "heights_ok bs"
    and run: "indexBlock P I C h D = (r, D')" and Q: "schema_ok P (pg_tables D)" "rows_follow B bs (tb_blocks (pg_tables D))"
    and next_height: "unat h \<le> 1 \<or> unat h - 1 \<in> indexed_heights (tb_blocks (pg_tables D))"
  shows "schema_ok P (pg_tables D') \<and> rows_follow B bs (tb_blocks (pg_tables D'))"
    and "indexed_heights (tb_blocks (pg_tables D)) \<subseteq> indexed_heights (tb_blocks (pg_tables D'))"
    and "r = Inr x \<Longrightarrow> unat h \<in> indexed_heights (tb_blocks (pg_tables D'))"
proof -
  define H where "H = indexed_heights (tb_blocks (pg_tables D))"
  let ?F = "\<lambda>rs. rows_follow B bs rs \<and> H \<subseteq> indexed_heights rs"
  have "keeps (on_blocks P ?F) (indexBlock P I C h)"
  proof (rule keeps_indexBlock [OF P])
    fix p header body used rs
    assume p: "nc_GetBlockByHeight C h = Inr (Some p)" "pb_Header p = Some header" "pb_Body p = Some body"
      and F: "?F rs" and time: "pg_time P (pbh_Timestamp header) \<noteq> None"
    from p(1) C have h: "unat h < length bs" and sent: "block_sent B (bs ! unat h) p" unfolding honest_node_def by blast+
    let ?r = "(block_index (pb_Hash p) header body)\<lparr>bx_StorageUsed := used\<rparr>"
    have header: "header = bh_Proto (bh_canon (b_Header (bs ! unat h)))" using sent p(2) by (simp add: block_sent_def)
    have "saved_block P ?r = ?r" using saved_row [OF P, of "b_Header (bs ! unat h)"] time header by (simp add: bh_Proto_def)
    moreover have "row_describes B (bs ! unat h) ?r" using sent p by (auto simp: block_sent_def row_describes_def)
    moreover have "unat h \<le> 1 \<or> unat h - 1 \<in> indexed_heights rs" using next_height F by (auto simp: H_def)
    ultimately show "?F (upsert bx_Height (saved_block P ?r) rs)"
      using F rows_follow_upsert [OF _ h bs] by (auto simp: indexed_upsert)
  qed
  from keepsD [OF this run] Q have "on_blocks P ?F (pg_tables D')" by (simp add: H_def)
  then show "schema_ok P (pg_tables D') \<and> rows_follow B bs (tb_blocks (pg_tables D'))"
    and "indexed_heights (tb_blocks (pg_tables D)) \<subseteq> indexed_heights (tb_blocks (pg_tables D'))"
    by (simp_all add: H_def)
  assume "r = Inr x"
  with run have ok: "indexBlock P I C h D = (Inr x, D')" by simp
  obtain p header body used t where p: "nc_GetBlockByHeight C h = Inr (Some p)" "pb_Header p = Some header"
    "pb_Body p = Some body" "insert_block P ((block_index (pb_Hash p) header body)\<lparr>bx_StorageUsed := used\<rparr>) t = Inr (pg_tables D')"
    by (rule indexBlock_success [OF ok])
  from p(1) C have h: "unat h < length bs" and sent: "block_sent B (bs ! unat h) p" unfolding honest_node_def by blast+
  have "pbh_Height header = h" using sent p(2) bs h by (auto simp: block_sent_def bh_Proto_def heights_ok_def bh_canon_def)
  with blocks_table.keys_after [OF p(4)] have "h \<in> bx_Height ` set (tb_blocks (pg_tables D'))"
    by (simp add: block_index_def)
  then show "unat h \<in> indexed_heights (tb_blocks (pg_tables D'))" by (auto simp: indexed_heights_def)
qed

section \<open>A run of the service\<close>

definition ix_inv :: "pg_env \<Rightarrow> blake3 \<Rightarrow> Block list \<Rightarrow> nat \<Rightarrow> indexer \<Rightarrow> bool" where
  "ix_inv P B bs n s \<longleftrightarrow> schema_ok P (pg_tables (ix_db s)) \<and> rows_follow B bs (tb_blocks (pg_tables (ix_db s)))
     \<and> {1..unat (ix_lastIndexed s)} \<subseteq> indexed_heights (tb_blocks (pg_tables (ix_db s)))
     \<and> (ix_phase s = Receiving \<longrightarrow> {1..n - 1} \<subseteq> indexed_heights (tb_blocks (pg_tables (ix_db s))))"

lemma fold_max_u64: "fold max xs (a :: u64) = Max (insert a (set xs))"
proof (induction xs arbitrary: a)
  case (Cons x xs)
  have "Max (insert (max x a) (set xs)) = Max (insert x (insert a (set xs)))"
    by (cases "xs = []") (simp_all add: max.assoc)
  with Cons.IH show ?case by (simp add: insert_commute)
qed simp

lemma GetLastIndexedHeight_in:
  assumes "GetLastIndexedHeight P D = (Inr h, D')"
  shows "pg_tables D' = pg_tables D" "h = 0 \<or> unat h \<in> indexed_heights (tb_blocks (pg_tables D))"
proof -
  from assms show "pg_tables D' = pg_tables D"
    by (auto simp: GetLastIndexedHeight_def queryRow_def Let_def split: answer.splits)
  let ?S = "set (map bx_Height (tb_blocks (pg_tables D)))"
  from assms have "h = Max (insert 0 ?S)"
    by (auto simp: GetLastIndexedHeight_def queryRow_def Let_def fold_max_u64 split: answer.splits)
  moreover have "Max (insert 0 ?S) \<in> insert 0 ?S" by (rule Max_in) simp_all
  ultimately show "h = 0 \<or> unat h \<in> indexed_heights (tb_blocks (pg_tables D))"
    by (auto simp: indexed_heights_def)
qed

lemma NewIndexerService_inv:
  assumes "schema_ok P (pg_tables D)" "rows_follow B bs (tb_blocks (pg_tables D))"
  shows "ix_inv P B bs n (NewIndexerService P 0 D)"
proof (cases "GetLastIndexedHeight P D")
  case (Pair r D')
  have tables: "pg_tables D' = pg_tables D"
    using Pair by (auto simp: GetLastIndexedHeight_def queryRow_def Let_def split: answer.splits)
  show ?thesis
  proof (cases r)
    case (Inr h)
    have "{1..unat h} \<subseteq> indexed_heights (tb_blocks (pg_tables D))"
      using GetLastIndexedHeight_in(2) [of P D h D'] Pair Inr assms(2) unfolding rows_follow_def by (cases "h = 0") auto
    with Pair Inr tables assms show ?thesis by (simp add: NewIndexerService_def ix_inv_def)
  qed (use Pair tables assms in \<open>simp add: NewIndexerService_def ix_inv_def\<close>)
qed

lemma received_inv:
  assumes P: "pg_ok P" and C: "honest_node B bs C" and bs: "heights_ok bs"
    and inv: "ix_inv P B bs n s" and phase: "ix_phase s = Receiving" and n: "unat (pbh_Height header) \<le> n"
  shows "ix_inv P B bs (max n (unat (pbh_Height header) + 1)) (received P I (Some header) C s)"
proof -
  let ?h = "unat (pbh_Height header)"
  obtain r D' where run: "indexBlock P I C (pbh_Height header) (ix_db s) = (r, D')" by fastforce
  have heights: "{1..n - 1} \<subseteq> indexed_heights (tb_blocks (pg_tables (ix_db s)))" using inv phase by (simp add: ix_inv_def)
  have nh: "?h \<le> 1 \<or> ?h - 1 \<in> indexed_heights (tb_blocks (pg_tables (ix_db s)))"
  proof (cases "?h \<le> 1")
    case False
    then have "?h - 1 \<in> {1..n - 1}" using n by auto
    with heights show ?thesis by blast
  qed simp
  have s: "schema_ok P (pg_tables (ix_db s))" "rows_follow B bs (tb_blocks (pg_tables (ix_db s)))"
    using inv by (simp_all add: ix_inv_def)
  note f = indexBlock_follows [OF P C bs run s nh]
  show ?thesis
  proof (cases r)
    case (Inl e)
    then show ?thesis using f(1,2) inv run by (auto simp: received_def ix_inv_def)
  next
    case (Inr x)
    from f(3) [OF this] f(1) have h: "{1..?h} \<subseteq> indexed_heights (tb_blocks (pg_tables D'))" unfolding rows_follow_def by blast
    have "{1..max n (?h + 1) - 1} \<subseteq> {1..n - 1} \<union> {1..?h}" by auto
    with h heights f(2) have "{1..max n (?h + 1) - 1} \<subseteq> indexed_heights (tb_blocks (pg_tables D'))" by blast
    with h f(1) run Inr show ?thesis by (simp add: received_def ix_inv_def)
  qed
qed

text \<open>Along any events the invariant holds.\<close>

lemma ix_run_inv:
  assumes P: "pg_ok P" and bs: "heights_ok bs"
    and "honest_events B bs evs" "gapless n evs" "ix_inv P B bs n s" "ix_run P I s evs = Some s'"
  shows "\<exists>m. ix_inv P B bs m s'"
  using assms(3-6)
proof (induction evs arbitrary: n s)
  case (Cons ev evs)
  from Cons.prems(4) obtain s1 where step: "ix_step P I s ev = Some s1" and rest: "ix_run P I s1 evs = Some s'"
    by (auto split: option.splits)
  have honest: "honest_events B bs evs" using Cons.prems(1) by (simp add: honest_events_def)
  have "\<exists>k. gapless k evs \<and> ix_inv P B bs k s1"
  proof (cases ev)
    case (SubscribeOk k0)
    with step Cons.prems(2,3) have f: "k0 = ix_lastIndexed s + 1" "s1 = s\<lparr>ix_phase := Receiving\<rparr>" "gapless (unat k0) evs"
      by (auto split: ix_phase.splits if_splits)
    have "unat k0 - 1 \<le> unat (ix_lastIndexed s)" unfolding f(1) by (simp add: unat_word_ariths unat_plus_if')
    then have "{1..unat k0 - 1} \<subseteq> {1..unat (ix_lastIndexed s)}" by auto
    with Cons.prems(3) have "{1..unat k0 - 1} \<subseteq> indexed_heights (tb_blocks (pg_tables (ix_db s)))"
      unfolding ix_inv_def by blast
    with Cons.prems(3) f show ?thesis by (auto simp: ix_inv_def)
  next
    case (RecvHeader header C)
    have C: "honest_node B bs C" using Cons.prems(1) RecvHeader by (simp add: honest_events_def)
    have phase: "ix_phase s = Receiving" and s1: "s1 = received P I header C s"
      using step RecvHeader by (auto split: ix_phase.splits)
    show ?thesis
    proof (cases header)
      case None
      then show ?thesis using Cons.prems(2,3) s1 RecvHeader by (auto simp: received_def ix_inv_def)
    next
      case (Some hd)
      then have g: "unat (pbh_Height hd) \<le> n" "gapless (max n (unat (pbh_Height hd) + 1)) evs"
        using Cons.prems(2) RecvHeader by auto
      from received_inv [OF P C bs Cons.prems(3) phase g(1)] g(2) s1 Some show ?thesis by blast
    qed
  next
    case (StartedAgain h)
    have "h = 0" using Cons.prems(1) StartedAgain by (simp add: honest_events_def)
    with step StartedAgain have "s1 = NewIndexerService P 0 (ix_db s)" by simp
    moreover have "schema_ok P (pg_tables (ix_db s))" "rows_follow B bs (tb_blocks (pg_tables (ix_db s)))"
      using Cons.prems(3) by (simp_all add: ix_inv_def)
    ultimately show ?thesis using NewIndexerService_inv Cons.prems(2) StartedAgain by auto
  qed (use step Cons.prems(2,3) in \<open>auto simp: ix_inv_def split: ix_phase.splits\<close>)
  with Cons.IH [OF honest _ _ rest] show ?case by blast
qed auto

text \<open>Whatever the events, the tables stay well-typed.\<close>

lemma received_typed:
  assumes "pg_ok P" "schema_ok P (pg_tables (ix_db s))"
  shows "schema_ok P (pg_tables (ix_db (received P I header C s)))"
proof (cases header)
  case (Some hd)
  obtain r D' where run: "indexBlock P I C (pbh_Height hd) (ix_db s) = (r, D')" by fastforce
  have "schema_ok P (pg_tables D')"
    using keepsD [OF keeps_indexBlock [OF assms(1), where F = "\<lambda>_. True"] run] assms(2) by simp
  with Some run show ?thesis by (auto simp: received_def split: sum.splits)
qed (use assms in \<open>simp add: received_def\<close>)

lemma NewIndexerService_tables: "pg_tables (ix_db (NewIndexerService P k D)) = pg_tables D"
  by (auto simp: NewIndexerService_def GetLastIndexedHeight_def queryRow_def Let_def split: answer.splits sum.splits prod.splits)

lemma ix_run_typed:
  assumes "pg_ok P" "schema_ok P (pg_tables (ix_db s))" "ix_run P I s evs = Some s'"
  shows "schema_ok P (pg_tables (ix_db s'))"
  using assms(2,3)
proof (induction evs arbitrary: s)
  case (Cons ev evs)
  then obtain s1 where step: "ix_step P I s ev = Some s1" and rest: "ix_run P I s1 evs = Some s'"
    by (auto split: option.splits)
  have "schema_ok P (pg_tables (ix_db s1))"
    using step Cons.prems(1) received_typed [OF assms(1)]
    by (cases ev) (auto simp: NewIndexerService_tables split: ix_phase.splits if_splits)
  with Cons.IH rest show ?case by blast
qed simp

section \<open>The node at the other end\<close>

text \<open>A client of the rollup service of a node that serves a chain is honest.\<close>

lemma rollup_is_honest:
  assumes E: "pebble_ok (e_db E) V" "pebble_total (e_db E)" and repr: "chain_repr (e_B E) cid off (content V d) bs"
    and cache: "cache_ok (e_B E) cache bs" and n: "length bs < 2 ^ 64"
    and C: "\<And>h p. nc_GetBlockByHeight C h = Inr (Some p) \<Longrightarrow> unat h < length bs \<and> fst (rpc_GetBlockByHeight E d cache h) = Inr p"
  shows "honest_node (e_B E) bs C"
  unfolding honest_node_def
proof (intro allI impI)
  fix h p assume "nc_GetBlockByHeight C h = Inr (Some p)"
  with C have h: "unat h < length bs" and p: "fst (rpc_GetBlockByHeight E d cache h) = Inr p" by blast+
  obtain cache' where blk: "GetBlock E d h = Inr (Some (b_canon (bs ! unat h)))"
    "bh_Hash (e_B E) cache (bh_canon (b_Header (bs ! unat h))) = (header_hash (e_B E) (b_Header (bs ! unat h)), cache')"
    using serve_block [OF E repr cache h n] by auto
  with p h show "unat h < length bs \<and> block_sent (e_B E) (bs ! unat h) p"
    by (auto simp: rpc_GetBlockByHeight_def block_sent_def b_Proto_def Let_def)
qed

text \<open>
  The headers of a subscription leave no height out: the history from the height asked for, then headers
  that were published one after the other since the subscription.
\<close>

fun steps_up :: "nat \<Rightarrow> nat list \<Rightarrow> bool" where
  "steps_up n [] = True"
| "steps_up n (h # hs) \<longleftrightarrow> h \<le> n \<and> steps_up (max n (h + 1)) hs"

lemma steps_up_history: "steps_up a ([a..<b] @ hs) \<longleftrightarrow> steps_up (max a b) hs"
proof (induction "b - a" arbitrary: a)
  case (Suc k)
  then have lt: "a < b" "k = b - Suc a" by simp_all
  then have "[a..<b] = a # [Suc a..<b]" "max (Suc a) b = b" "max a b = b" by (simp_all add: upt_rec)
  with Suc.hyps(1) [OF lt(2)] show ?case by simp
qed simp

lemma steps_up_published: "a \<le> b \<Longrightarrow> steps_up b [a..<c]"
proof (induction "c - a" arbitrary: a b)
  case (Suc k)
  then have "[a..<c] = a # [Suc a..<c]" "k = c - Suc a" by (simp_all add: upt_rec)
  with Suc.hyps Suc.prems show ?case by simp
qed simp

lemma gapless_headers:
  "gapless n (map (\<lambda>bh. RecvHeader (Some (bh_Proto bh)) C) hds @ evs)
     \<longleftrightarrow> steps_up n (map (\<lambda>bh. unat (bh_Height bh)) hds) \<and> gapless (foldl (\<lambda>n bh. max n (unat (bh_Height bh) + 1)) n hds) evs"
  by (induction hds arbitrary: n) (simp_all add: bh_Proto_def)

text \<open>In particular what \<open>SubscribeToHeaders\<close> sends.\<close>

lemma subscription_is_gapless:
  assumes bs: "heights_ok bs" and sent: "hds = map (\<lambda>h. bh_canon (b_Header (bs ! h))) [unat start..<n] @ map (\<lambda>h. b_Header (bs ! h)) [a..<c]"
    and "n \<le> length bs" "c \<le> length bs" "a \<le> max (unat start) n"
  shows "gapless (unat start) (map (\<lambda>bh. RecvHeader (Some (bh_Proto bh)) C) hds)"
proof -
  have u: "unat (bh_Height (b_Header (bs ! h))) = h" if "h < length bs" for h
    using bs that by (simp add: heights_ok_def unat_of_nat_u64)
  have 1: "map ((\<lambda>bh. unat (bh_Height bh)) \<circ> (\<lambda>h. bh_canon (b_Header (bs ! h)))) [unat start..<n] = [unat start..<n]"
    using assms(3) by (intro map_idI) (simp add: u)
  have 2: "map ((\<lambda>bh. unat (bh_Height bh)) \<circ> (\<lambda>h. b_Header (bs ! h))) [a..<c] = [a..<c]"
    using assms(4) by (intro map_idI) (simp add: u)
  have "map (\<lambda>bh. unat (bh_Height bh)) hds = [unat start..<n] @ [a..<c]"
    by (simp only: sent map_append list.map_comp 1 2)
  then have "steps_up (unat start) (map (\<lambda>bh. unat (bh_Height bh)) hds)"
    using steps_up_published assms(5) by (simp only: steps_up_history)
  then show ?thesis using gapless_headers [of "unat start" C hds "[]"] by simp
qed

end
