(* ===== verification/Index_Blocks.thy ===== *)
theory Index_Blocks
  imports Index_Runs
begin

text \<open>
  What indexing a block writes when the database answers and the node serves: a row for every chunk, file
  and directory of the body, the chunks of every file and the files of every directory, and the sum of what
  they use. A fact names a row that has been written; statements make facts true and leave others true.
\<close>

section \<open>Computations that succeed\<close>

definition does :: "(tables \<Rightarrow> bool) \<Rightarrow> (pg \<Rightarrow> 'a result \<times> pg) \<Rightarrow> 'a \<Rightarrow> (tables \<Rightarrow> bool) \<Rightarrow> bool" where
  "does Q m v R \<longleftrightarrow> (\<forall>D. Q (pg_tables D) \<longrightarrow> (\<exists>D'. m D = (Inr v, D') \<and> R (pg_tables D')))"

lemma doesD: "does Q m v R \<Longrightarrow> Q (pg_tables D) \<Longrightarrow> \<exists>D'. m D = (Inr v, D') \<and> R (pg_tables D')"
  by (simp add: does_def)

lemma does_lift: "does Q (Pair (Inr v)) v Q"
  by (simp add: does_def)

lemma does_exec:
  assumes "answers_all P" "\<And>t. Q t \<Longrightarrow> \<exists>t'. stmt t = Inr t' \<and> R t'"
  shows "does Q (exec P stmt) () R"
proof (unfold does_def, intro allI impI)
  fix D :: pg assume "Q (pg_tables D)"
  then obtain t' where "stmt (pg_tables D) = Inr t'" "R t'" using assms(2) by blast
  then show "\<exists>D'. exec P stmt D = (Inr (), D') \<and> R (pg_tables D')"
    using assms(1) by (simp add: exec_def Let_def answers_all_def)
qed

lemma does_sbind: "does Q m v R \<Longrightarrow> does R (f v) w S \<Longrightarrow> does Q (sbind m f) w S"
  unfolding does_def by (metis sbind_Inr)

lemma does_lift_sbind: "r = Inr v \<Longrightarrow> does Q (f v) w S \<Longrightarrow> does Q (sbind (Pair r) f) w S"
  unfolding does_def by simp

lemma does_conseq: "does Q m v R \<Longrightarrow> (\<And>t. Q' t \<Longrightarrow> Q t) \<Longrightarrow> (\<And>t. R t \<Longrightarrow> R' t) \<Longrightarrow> does Q' m v R'"
  unfolding does_def by meson

text \<open>A loop over items adds the facts of its items.\<close>

lemma does_items:
  assumes "\<And>x X. x \<in> set xs \<Longrightarrow> A \<subseteq> X \<Longrightarrow> does (\<lambda>t. \<forall>y\<in>X. H y t) (f x) (g x) (\<lambda>t. \<forall>y\<in>X \<union> F x. H y t)" and "A \<subseteq> X"
  shows "does (\<lambda>t. \<forall>y\<in>X. H y t) (index_items f xs used) (used + sum_list (map g xs)) (\<lambda>t. \<forall>y\<in>X \<union> (\<Union>x\<in>set xs. F x). H y t)"
  using assms
proof (induction xs arbitrary: X used)
  case (Cons x xs)
  show ?case
  proof (unfold does_def, intro allI impI)
    fix D :: pg assume "\<forall>y\<in>X. H y (pg_tables D)"
    then obtain D1 where D1: "f x D = (Inr (g x), D1)" "\<forall>y\<in>X \<union> F x. H y (pg_tables D1)"
      using Cons.prems(1) [of x X] Cons.prems(2) unfolding does_def by auto
    have "A \<subseteq> X \<union> F x" using Cons.prems(2) by blast
    from Cons.IH [OF Cons.prems(1) this, of "used + g x"] D1(2)
    obtain D2 where D2: "index_items f xs (used + g x) D1 = (Inr (used + g x + sum_list (map g xs)), D2)"
      "\<forall>y\<in>X \<union> F x \<union> (\<Union>x\<in>set xs. F x). H y (pg_tables D2)" unfolding does_def by auto
    then show "\<exists>D'. index_items f (x # xs) used D = (Inr (used + sum_list (map g (x # xs))), D')
        \<and> (\<forall>y\<in>X \<union> (\<Union>x\<in>set (x # xs). F x). H y (pg_tables D'))"
      using D1(1) by (intro exI [of _ D2]) (auto simp: add.assoc)
  qed
qed (simp add: does_def)

section \<open>Facts\<close>

text \<open>What the node says of the items of a block: references, manifests, and whose chunks and files they list.\<close>

record contents =
  ct_ref :: "BlobIdentifier \<Rightarrow> ChunkReference"
  ct_file :: "BlobIdentifier \<Rightarrow> FileManifest"
  ct_dir :: "BlobIdentifier \<Rightarrow> DirectoryManifest"

definition chunk_row :: "base36 \<Rightarrow> contents \<Rightarrow> u64 \<Rightarrow> nat \<Rightarrow> BlobIdentifier \<Rightarrow> ChunkIndex" where
  "chunk_row c K h j i = \<lparr>cx_BlobID = bi_ID c i, cx_BlockHeight = h, cx_Index = int j, cx_ChunkSize = cr_ChunkSize (ct_ref K i),
     cx_ChunkHash = hex_EncodeToString (cr_ChunkHash (ct_ref K i))\<rparr>"

definition manifest_row :: "index_env \<Rightarrow> contents \<Rightarrow> u64 \<Rightarrow> BlobIdentifier \<Rightarrow> file_row" where
  "manifest_row I K h i = (let m = ct_file K i in \<lparr>fw_blob_id = bi_ID (ie_base36 I) i, fw_filename = fm_FileName m,
     fw_mime_type = fm_MimeType m, fw_file_size = fm_FileSize m, fw_file_hash = hex_EncodeToString (fm_FileHash m),
     fw_block_height = h, fw_chunk_count = int (length (fm_Chunks m)),
     fw_tags = join_with comma (extractTags (ie_lower I) (fm_FileName m))\<rparr>)"

definition file_types :: "contents \<Rightarrow> BlobIdentifier list \<Rightarrow> bytes list" where
  "file_types K js = fold (\<lambda>j. List.insert (fm_MimeType (ct_file K j))) js []"

definition listing_row :: "index_env \<Rightarrow> contents \<Rightarrow> u64 \<Rightarrow> (BlobIdentifier \<Rightarrow> BlobIdentifier list) \<Rightarrow> BlobIdentifier \<Rightarrow> directory_row" where
  "listing_row I K h files_of i = (let m = ct_dir K i in \<lparr>dw_blob_id = bi_ID (ie_base36 I) i, dw_directory_name = dm_DirectoryName m,
     dw_directory_hash = hex_EncodeToString (dm_DirectoryHash m), dw_block_height = h, dw_file_count = int (length (dm_Files m)),
     dw_total_size = sum_list (map (\<lambda>j. fm_FileSize (ct_file K j)) (files_of i)),
     dw_file_types = join_with comma (filter (\<lambda>m. m \<noteq> []) (ie_keys I (file_types K (files_of i)))),
     dw_sub_paths = join_with comma (map fr_RelativePath (dm_Files m))\<rparr>)"

text \<open>The chunks of a file and the files of a directory, by position.\<close>

record layout =
  ly_body :: BlockBody
  ly_height :: u64
  ly_chunks :: "BlobIdentifier \<Rightarrow> BlobIdentifier list"
  ly_files :: "BlobIdentifier \<Rightarrow> BlobIdentifier list"

datatype fact =
    HasBlock u64 | HasChunk BlobIdentifier | HasFile BlobIdentifier | HasDir BlobIdentifier
  | ChunkFact BlobIdentifier | FileFact BlobIdentifier | FileChunk BlobIdentifier BlobIdentifier
  | DirFact BlobIdentifier | DirFile BlobIdentifier BlobIdentifier

fun holds :: "index_env \<Rightarrow> contents \<Rightarrow> layout \<Rightarrow> fact \<Rightarrow> tables \<Rightarrow> bool" where
  "holds I K L (HasBlock h) t \<longleftrightarrow> h \<in> bx_Height ` set (tb_blocks t)"
| "holds I K L (HasChunk i) t \<longleftrightarrow> bi_ID (ie_base36 I) i \<in> cx_BlobID ` set (tb_chunks t)"
| "holds I K L (HasFile i) t \<longleftrightarrow> bi_ID (ie_base36 I) i \<in> fw_blob_id ` set (tb_files t)"
| "holds I K L (HasDir i) t \<longleftrightarrow> bi_ID (ie_base36 I) i \<in> dw_blob_id ` set (tb_directories t)"
| "holds I K L (ChunkFact i) t \<longleftrightarrow> (\<exists>j<length (bb_Chunks (ly_body L)). bb_Chunks (ly_body L) ! j = i
     \<and> row_of cx_BlobID (bi_ID (ie_base36 I) i) (tb_chunks t) = Some (chunk_row (ie_base36 I) K (ly_height L) j i))"
| "holds I K L (FileFact i) t \<longleftrightarrow>
     row_of fw_blob_id (bi_ID (ie_base36 I) i) (tb_files t) = Some (manifest_row I K (ly_height L) i)"
| "holds I K L (FileChunk i k) t \<longleftrightarrow> (\<exists>j<length (ly_chunks L i). ly_chunks L i ! j = k
     \<and> row_of fc_key (bi_ID (ie_base36 I) i, bi_ID (ie_base36 I) k) (tb_file_chunks t)
       = Some \<lparr>fc_file_id = bi_ID (ie_base36 I) i, fc_chunk_id = bi_ID (ie_base36 I) k, fc_chunk_index = int j\<rparr>)"
| "holds I K L (DirFact i) t \<longleftrightarrow>
     row_of dw_blob_id (bi_ID (ie_base36 I) i) (tb_directories t) = Some (listing_row I K (ly_height L) (ly_files L) i)"
| "holds I K L (DirFile i k) t \<longleftrightarrow> (\<exists>j<length (ly_files L i). ly_files L i ! j = k
     \<and> row_of df_key (bi_ID (ie_base36 I) i, bi_ID (ie_base36 I) k) (tb_directory_files t)
       = Some \<lparr>df_directory_id = bi_ID (ie_base36 I) i, df_file_id = bi_ID (ie_base36 I) k,
               df_relative_path = fr_RelativePath (dm_Files (ct_dir K i) ! j)\<rparr>)"

abbreviation all_hold :: "index_env \<Rightarrow> contents \<Rightarrow> layout \<Rightarrow> fact set \<Rightarrow> tables \<Rightarrow> bool" where
  "all_hold I K L X t \<equiv> \<forall>y\<in>X. holds I K L y t"

lemma bi_ID_eq [simp]: "base36_ok c \<Longrightarrow> bi_ID c a = bi_ID c b \<longleftrightarrow> a = b"
  using bi_ID_inj by blast

text \<open>What each statement makes true; every other fact stays true.\<close>

lemma holds_after_block:
  assumes "insert_block P b t = Inr t'" "holds I K L y t"
  shows "holds I K L y t'"
  using assms by (cases y) (auto simp: insert_block_Inr keys_upsert)

lemma holds_after_chunk:
  assumes c: "base36_ok (ie_base36 I)" and j: "j < length (bb_Chunks (ly_body L))" "bb_Chunks (ly_body L) ! j = i"
    and put: "insert_chunk P (chunk_row (ie_base36 I) K (ly_height L) j i) t = Inr t'"
  shows "holds I K L y t \<or> y \<in> {ChunkFact i, HasChunk i} \<Longrightarrow> holds I K L y t'"
  using put c j by (cases y) (auto simp: insert_chunk_Inr keys_upsert row_of_upsert chunk_row_def)

lemma holds_after_file:
  assumes c: "base36_ok (ie_base36 I)" and put: "insert_file P (manifest_row I K (ly_height L) i) t = Inr t'"
  shows "holds I K L y t \<or> y \<in> {FileFact i, HasFile i} \<Longrightarrow> holds I K L y t'"
  using put c by (cases y) (auto simp: insert_file_Inr keys_upsert row_of_upsert manifest_row_def Let_def)

lemma holds_after_file_chunk:
  assumes c: "base36_ok (ie_base36 I)" and j: "j < length (ly_chunks L i)" "ly_chunks L i ! j = k"
    and put: "insert_file_chunk P \<lparr>fc_file_id = bi_ID (ie_base36 I) i, fc_chunk_id = bi_ID (ie_base36 I) k, fc_chunk_index = int j\<rparr> t = Inr t'"
  shows "holds I K L y t \<or> y = FileChunk i k \<Longrightarrow> holds I K L y t'"
  using put c j by (cases y) (auto simp: insert_file_chunk_Inr row_of_upsert fc_key_def)

lemma holds_after_directory:
  assumes c: "base36_ok (ie_base36 I)" and put: "insert_directory P (listing_row I K (ly_height L) (ly_files L) i) t = Inr t'"
  shows "holds I K L y t \<or> y \<in> {DirFact i, HasDir i} \<Longrightarrow> holds I K L y t'"
  using put c by (cases y) (auto simp: insert_directory_Inr keys_upsert row_of_upsert listing_row_def Let_def)

lemma holds_after_directory_file:
  assumes c: "base36_ok (ie_base36 I)" and j: "j < length (ly_files L i)" "ly_files L i ! j = k"
    and put: "insert_directory_file P \<lparr>df_directory_id = bi_ID (ie_base36 I) i, df_file_id = bi_ID (ie_base36 I) k,
      df_relative_path = fr_RelativePath (dm_Files (ct_dir K i) ! j)\<rparr> t = Inr t'"
  shows "holds I K L y t \<or> y = DirFile i k \<Longrightarrow> holds I K L y t'"
  using put c j by (cases y) (auto simp: insert_directory_file_Inr row_of_upsert df_key_def)

section \<open>One item\<close>

text \<open>The node answers for the items of the block, and their rows fit the columns.\<close>

definition listed :: "('a \<Rightarrow> pbBlobIdentifier option) \<Rightarrow> 'a list \<Rightarrow> BlobIdentifier list \<Rightarrow> bool" where
  "listed f xs is \<longleftrightarrow> list_all2 (\<lambda>x i. BlobIdentifierFromProto (f x) = Inr i) xs is"

lemma add_chunk:
  assumes P: "answers_all P" and c: "base36_ok (ie_base36 I)"
    and j: "j < length (bb_Chunks (ly_body L))" "bb_Chunks (ly_body L) ! j = i"
    and ref: "nc_GetChunkReference C (bi_ID (ie_base36 I) i) = Inr (Some (ct_ref K i))"
    and fits: "checks (chunk_columns P (chunk_row (ie_base36 I) K (ly_height L) j i)) = Inr ()"
    and h: "HasBlock (ly_height L) \<in> X"
  shows "does (all_hold I K L X) (indexChunk P I C (bi_Proto i) (int j) (ly_height L)) (cr_ChunkSize (ct_ref K i))
    (all_hold I K L (X \<union> {ChunkFact i, HasChunk i}))"
proof -
  let ?r = "chunk_row (ie_base36 I) K (ly_height L) j i"
  have put: "does (all_hold I K L X) (PutChunkIndex P ?r) () (all_hold I K L (X \<union> {ChunkFact i, HasChunk i}))"
    unfolding PutChunkIndex_def
  proof (rule does_exec [OF P])
    fix t assume t: "all_hold I K L X t"
    then have "ly_height L \<in> bx_Height ` set (tb_blocks t)" using h by fastforce
    then obtain t' where "insert_chunk P ?r t = Inr t'" using fits by (simp add: insert_chunk_Inr) (simp add: chunk_row_def)
    with holds_after_chunk [OF c j] t
    show "\<exists>t'. insert_chunk P ?r t = Inr t' \<and> all_hold I K L (X \<union> {ChunkFact i, HasChunk i}) t'" by fastforce
  qed
  have "indexChunk P I C (bi_Proto i) (int j) (ly_height L) = sbind (Pair (Inr i)) (\<lambda>i. sbind (Pair (Inr (ct_ref K i)))
      (\<lambda>chunkReference. sbind (PutChunkIndex P ?r) (\<lambda>_. Pair (Inr (cr_ChunkSize chunkReference)))))"
    using ref by (simp add: indexChunk_def sbind_def fun_eq_iff chunk_row_def bi_String_def present_def)
  then show ?thesis by (auto intro!: does_lift_sbind does_sbind [OF put] does_lift)
qed

definition fc_row :: "base36 \<Rightarrow> layout \<Rightarrow> BlobIdentifier \<Rightarrow> nat \<Rightarrow> file_chunk_row" where
  "fc_row c L i j = \<lparr>fc_file_id = bi_ID c i, fc_chunk_id = bi_ID c (ly_chunks L i ! j), fc_chunk_index = int j\<rparr>"

definition df_row :: "base36 \<Rightarrow> contents \<Rightarrow> layout \<Rightarrow> BlobIdentifier \<Rightarrow> nat \<Rightarrow> directory_file_row" where
  "df_row c K L i j = \<lparr>df_directory_id = bi_ID c i, df_file_id = bi_ID c (ly_files L i ! j),
     df_relative_path = fr_RelativePath (dm_Files (ct_dir K i) ! j)\<rparr>"

lemma add_file_chunks:
  assumes P: "answers_all P" and c: "base36_ok (ie_base36 I)"
    and "listed cr_Id crs ks" "ks = drop n (ly_chunks L i)" "n \<le> length (ly_chunks L i)"
    and "HasFile i \<in> X" "\<And>k. k \<in> set ks \<Longrightarrow> HasChunk k \<in> X"
    and fits: "\<And>j. j < length (ly_chunks L i) \<Longrightarrow> checks (file_chunk_columns P (fc_row (ie_base36 I) L i j)) = Inr ()"
  shows "does (all_hold I K L X) (put_file_chunks P I (bi_ID (ie_base36 I) i) (int n) crs) ()
    (all_hold I K L (X \<union> FileChunk i ` set ks))"
  using assms(3-7)
proof (induction crs arbitrary: n ks X)
  case Nil
  then show ?case using does_lift by (simp add: listed_def)
next
  case (Cons cr crs)
  from Cons.prems(1) obtain k ks' where ks: "ks = k # ks'" "BlobIdentifierFromProto (cr_Id cr) = Inr k" "listed cr_Id crs ks'"
    unfolding listed_def list_all2_Cons1 by blast
  have n: "n < length (ly_chunks L i)" using Cons.prems(2) ks(1) by (cases "n < length (ly_chunks L i)") auto
  have k: "ly_chunks L i ! n = k" "ks' = drop (Suc n) (ly_chunks L i)"
    using Cons.prems(2) ks(1) n by (simp_all add: Cons_nth_drop_Suc [symmetric])
  have put: "does (all_hold I K L X) (PutFileChunk P (bi_ID (ie_base36 I) i) (bi_ID (ie_base36 I) k) (int n)) ()
      (all_hold I K L (X \<union> {FileChunk i k}))"
    unfolding PutFileChunk_def
  proof (rule does_exec [OF P])
    fix t assume t: "all_hold I K L X t"
    let ?r = "\<lparr>fc_file_id = bi_ID (ie_base36 I) i, fc_chunk_id = bi_ID (ie_base36 I) k, fc_chunk_index = int n\<rparr>"
    have r: "fc_row (ie_base36 I) L i n = ?r" using k by (simp add: fc_row_def)
    have "HasFile i \<in> X" "HasChunk k \<in> X" using Cons.prems(4,5) ks(1) by auto
    with t have "holds I K L (HasFile i) t" "holds I K L (HasChunk k) t" by blast+
    with fits [OF n] have "\<exists>t'. insert_file_chunk P ?r t = Inr t'" unfolding r by (simp add: insert_file_chunk_Inr)
    with holds_after_file_chunk [OF c n k(1)] t
    show "\<exists>t'. insert_file_chunk P ?r t = Inr t' \<and> all_hold I K L (X \<union> {FileChunk i k}) t'" by fastforce
  qed
  have "does (all_hold I K L (X \<union> {FileChunk i k})) (put_file_chunks P I (bi_ID (ie_base36 I) i) (int (Suc n)) crs) ()
      (all_hold I K L (X \<union> {FileChunk i k} \<union> FileChunk i ` set ks'))"
    by (rule Cons.IH [OF ks(3) k(2)]) (use n Cons.prems(4,5) ks(1) in auto)
  then have rest: "does (all_hold I K L (X \<union> {FileChunk i k})) (put_file_chunks P I (bi_ID (ie_base36 I) i) (int n + 1) crs) ()
      (all_hold I K L (X \<union> {FileChunk i k} \<union> FileChunk i ` set ks'))"
    by (simp only: of_nat_Suc add.commute)
  have eq: "X \<union> FileChunk i ` set ks = X \<union> {FileChunk i k} \<union> FileChunk i ` set ks'" using ks(1) by auto
  show ?case unfolding put_file_chunks.simps eq bi_String_def
    by (rule does_lift_sbind [OF ks(2)], rule does_sbind [OF put rest])
qed

lemma add_file:
  assumes P: "answers_all P" and c: "base36_ok (ie_base36 I)"
    and man: "sc_GetFileManifest (nc_storage C) (bi_ID (ie_base36 I) i) = Inr (Some (ct_file K i))"
    and listed: "listed cr_Id (fm_Chunks (ct_file K i)) (ly_chunks L i)"
    and fits: "checks (file_columns P (manifest_row I K (ly_height L) i)) = Inr ()"
      "\<And>j. j < length (ly_chunks L i) \<Longrightarrow> checks (file_chunk_columns P (fc_row (ie_base36 I) L i j)) = Inr ()"
    and h: "HasBlock (ly_height L) \<in> X" and chunks: "\<And>k. k \<in> set (ly_chunks L i) \<Longrightarrow> HasChunk k \<in> X"
  shows "does (all_hold I K L X) (indexFile P I C (bi_Proto i) (ly_height L)) (ie_file_size I (ct_file K i))
    (all_hold I K L (X \<union> ({FileFact i, HasFile i} \<union> FileChunk i ` set (ly_chunks L i))))"
proof -
  let ?r = "manifest_row I K (ly_height L) i" and ?X = "X \<union> {FileFact i, HasFile i}"
  have put: "does (all_hold I K L X) (exec P (insert_file P ?r)) () (all_hold I K L ?X)"
  proof (rule does_exec [OF P])
    fix t assume t: "all_hold I K L X t"
    then have "ly_height L \<in> bx_Height ` set (tb_blocks t)" using h by fastforce
    then have "\<exists>t'. insert_file P ?r t = Inr t'" using fits(1) by (simp add: insert_file_Inr) (simp add: manifest_row_def Let_def)
    with holds_after_file [OF c] t show "\<exists>t'. insert_file P ?r t = Inr t' \<and> all_hold I K L ?X t'" by fastforce
  qed
  have chs: "does (all_hold I K L ?X) (put_file_chunks P I (bi_ID (ie_base36 I) i) (int 0) (fm_Chunks (ct_file K i))) ()
      (all_hold I K L (?X \<union> FileChunk i ` set (ly_chunks L i)))"
    by (rule add_file_chunks [OF P c listed]) (use chunks fits(2) in auto)
  have "indexFile P I C (bi_Proto i) (ly_height L) = sbind (Pair (Inr i)) (\<lambda>i. sbind (Pair (Inr (ct_file K i))) (\<lambda>m.
      sbind (exec P (insert_file P ?r)) (\<lambda>_. sbind (put_file_chunks P I (bi_ID (ie_base36 I) i) (int 0) (fm_Chunks m))
        (\<lambda>_. Pair (Inr (ie_file_size I m))))))"
    using man by (simp add: indexFile_def sbind_def fun_eq_iff manifest_row_def bi_String_def present_def PutFileIndex_def Let_def)
  then show ?thesis using does_sbind [OF put does_sbind [OF chs does_lift]]
    by (auto intro!: does_lift_sbind simp: Un_assoc)
qed

lemma add_directory_files:
  assumes P: "answers_all P" and c: "base36_ok (ie_base36 I)"
    and "listed fr_Id fs ks" "ks = drop n (ly_files L i)" "fs = drop n (dm_Files (ct_dir K i))" "n \<le> length (ly_files L i)"
    and "HasDir i \<in> X" "\<And>k. k \<in> set ks \<Longrightarrow> HasFile k \<in> X"
    and fits: "\<And>j. j < length (ly_files L i) \<Longrightarrow> checks (directory_file_columns P (df_row (ie_base36 I) K L i j)) = Inr ()"
  shows "does (all_hold I K L X) (put_directory_files P I (bi_ID (ie_base36 I) i) fs) ()
    (all_hold I K L (X \<union> DirFile i ` set ks))"
  using assms(3-8)
proof (induction fs arbitrary: n ks X)
  case Nil
  then show ?case using does_lift by (simp add: listed_def)
next
  case (Cons f fs)
  from Cons.prems(1) obtain k ks' where ks: "ks = k # ks'" "BlobIdentifierFromProto (fr_Id f) = Inr k" "listed fr_Id fs ks'"
    unfolding listed_def list_all2_Cons1 by blast
  have n: "n < length (ly_files L i)" "n < length (dm_Files (ct_dir K i))"
    using Cons.prems(2,3) ks(1) by (metis drop_all list.distinct(1) not_le)+
  have k: "ly_files L i ! n = k" "ks' = drop (Suc n) (ly_files L i)"
    "dm_Files (ct_dir K i) ! n = f" "fs = drop (Suc n) (dm_Files (ct_dir K i))"
    using Cons.prems(2,3) ks(1) n by (simp_all add: Cons_nth_drop_Suc [symmetric])
  have put: "does (all_hold I K L X) (PutDirectoryFile P (bi_ID (ie_base36 I) i) (bi_ID (ie_base36 I) k) (fr_RelativePath f)) ()
      (all_hold I K L (X \<union> {DirFile i k}))"
    unfolding PutDirectoryFile_def
  proof (rule does_exec [OF P])
    fix t assume t: "all_hold I K L X t"
    let ?r = "\<lparr>df_directory_id = bi_ID (ie_base36 I) i, df_file_id = bi_ID (ie_base36 I) k,
      df_relative_path = fr_RelativePath f\<rparr>"
    have r: "df_row (ie_base36 I) K L i n = ?r" using k by (simp add: df_row_def)
    have "HasDir i \<in> X" "HasFile k \<in> X" using Cons.prems(5,6) ks(1) by auto
    with t have "holds I K L (HasDir i) t" "holds I K L (HasFile k) t" by blast+
    with fits [OF n(1)] have "\<exists>t'. insert_directory_file P ?r t = Inr t'" unfolding r by (simp add: insert_directory_file_Inr)
    with holds_after_directory_file [OF c n(1) k(1), of P K] t k(3)
    show "\<exists>t'. insert_directory_file P ?r t = Inr t' \<and> all_hold I K L (X \<union> {DirFile i k}) t'" by fastforce
  qed
  have "does (all_hold I K L (X \<union> {DirFile i k})) (put_directory_files P I (bi_ID (ie_base36 I) i) fs) ()
      (all_hold I K L (X \<union> {DirFile i k} \<union> DirFile i ` set ks'))"
    by (rule Cons.IH [OF ks(3) k(2,4)]) (use n Cons.prems(5,6) ks(1) in auto)
  then have rest: "does (all_hold I K L (X \<union> {DirFile i k})) (put_directory_files P I (bi_ID (ie_base36 I) i) fs) ()
      (all_hold I K L (X \<union> {DirFile i k} \<union> DirFile i ` set ks'))" .
  have eq: "X \<union> DirFile i ` set ks = X \<union> {DirFile i k} \<union> DirFile i ` set ks'" using ks(1) by auto
  show ?case unfolding put_directory_files.simps eq bi_String_def
    by (rule does_lift_sbind [OF ks(2)], rule does_sbind [OF put rest])
qed

lemma directory_stats_listed:
  assumes "listed fr_Id fs js"
    and "\<And>j. j \<in> set js \<Longrightarrow> sc_GetFileManifest (nc_storage C) (bi_ID (ie_base36 I) j) = Inr (Some (ct_file K j))"
  shows "directory_stats I C fs ft n = Inr (fold (\<lambda>j. List.insert (fm_MimeType (ct_file K j))) js ft,
    n + sum_list (map (\<lambda>j. fm_FileSize (ct_file K j)) js))"
  using assms
proof (induction fs arbitrary: js ft n)
  case (Cons f fs)
  then obtain j js' where js: "js = j # js'" "BlobIdentifierFromProto (fr_Id f) = Inr j" "listed fr_Id fs js'"
    by (auto simp: listed_def list_all2_Cons1)
  with Cons.IH [OF js(3)] Cons.prems(2) show ?case by (simp add: present_def add.assoc)
qed (simp add: listed_def)

lemma add_directory:
  assumes P: "answers_all P" and c: "base36_ok (ie_base36 I)"
    and man: "sc_GetDirectoryManifest (nc_storage C) (bi_ID (ie_base36 I) i) = Inr (Some (ct_dir K i))"
    and listed: "listed fr_Id (dm_Files (ct_dir K i)) (ly_files L i)"
    and files: "\<And>j. j \<in> set (ly_files L i) \<Longrightarrow> sc_GetFileManifest (nc_storage C) (bi_ID (ie_base36 I) j) = Inr (Some (ct_file K j))"
    and fits: "checks (directory_columns P (listing_row I K (ly_height L) (ly_files L) i)) = Inr ()"
      "\<And>j. j < length (ly_files L i) \<Longrightarrow> checks (directory_file_columns P (df_row (ie_base36 I) K L i j)) = Inr ()"
    and h: "HasBlock (ly_height L) \<in> X" and has: "\<And>k. k \<in> set (ly_files L i) \<Longrightarrow> HasFile k \<in> X"
  shows "does (all_hold I K L X) (indexDirectory P I C (bi_Proto i) (ly_height L)) (ie_dir_size I (ct_dir K i))
    (all_hold I K L (X \<union> ({DirFact i, HasDir i} \<union> DirFile i ` set (ly_files L i))))"
proof -
  let ?r = "listing_row I K (ly_height L) (ly_files L) i" and ?X = "X \<union> {DirFact i, HasDir i}"
  have put: "does (all_hold I K L X) (exec P (insert_directory P ?r)) () (all_hold I K L ?X)"
  proof (rule does_exec [OF P])
    fix t assume t: "all_hold I K L X t"
    then have "ly_height L \<in> bx_Height ` set (tb_blocks t)" using h by fastforce
    then have "\<exists>t'. insert_directory P ?r t = Inr t'" using fits(1) by (simp add: insert_directory_Inr) (simp add: listing_row_def Let_def)
    with holds_after_directory [OF c] t show "\<exists>t'. insert_directory P ?r t = Inr t' \<and> all_hold I K L ?X t'" by fastforce
  qed
  have dfs: "does (all_hold I K L ?X) (put_directory_files P I (bi_ID (ie_base36 I) i) (dm_Files (ct_dir K i))) ()
      (all_hold I K L (?X \<union> DirFile i ` set (ly_files L i)))"
    by (rule add_directory_files [OF P c listed, of 0]) (use has fits(2) in auto)
  have "indexDirectory P I C (bi_Proto i) (ly_height L) = sbind (Pair (Inr i)) (\<lambda>i. sbind (Pair (Inr (ct_dir K i))) (\<lambda>m.
      sbind (exec P (insert_directory P ?r)) (\<lambda>_. sbind (put_directory_files P I (bi_ID (ie_base36 I) i) (dm_Files m))
        (\<lambda>_. Pair (Inr (ie_dir_size I m))))))"
    using man directory_stats_listed [OF listed files]
    by (simp add: indexDirectory_def sbind_def fun_eq_iff listing_row_def bi_String_def present_def PutDirectoryIndex_def Let_def
        file_types_def)
  then show ?thesis using does_sbind [OF put does_sbind [OF dfs does_lift]]
    by (auto intro!: does_lift_sbind simp: Un_assoc)
qed

section \<open>One block\<close>

lemma index_items_map: "index_items f (map p xs) used = index_items (\<lambda>x. f (p x)) xs used"
proof (rule ext)
  show "index_items f (map p xs) used D = index_items (\<lambda>x. f (p x)) xs used D" for D
    by (induction xs arbitrary: used D) (simp_all split: prod.splits sum.splits)
qed

definition node_gives :: "index_env \<Rightarrow> contents \<Rightarrow> layout \<Rightarrow> node_client \<Rightarrow> bool" where
  "node_gives I K L C \<longleftrightarrow> (let c = ie_base36 I; body = ly_body L in
     (\<forall>i\<in>set (bb_Chunks body). nc_GetChunkReference C (bi_ID c i) = Inr (Some (ct_ref K i)))
     \<and> (\<forall>i\<in>set (bb_Files body). sc_GetFileManifest (nc_storage C) (bi_ID c i) = Inr (Some (ct_file K i))
          \<and> listed cr_Id (fm_Chunks (ct_file K i)) (ly_chunks L i))
     \<and> (\<forall>i\<in>set (bb_Dirs body). sc_GetDirectoryManifest (nc_storage C) (bi_ID c i) = Inr (Some (ct_dir K i))
          \<and> listed fr_Id (dm_Files (ct_dir K i)) (ly_files L i)
          \<and> (\<forall>j\<in>set (ly_files L i). sc_GetFileManifest (nc_storage C) (bi_ID c j) = Inr (Some (ct_file K j)))))"

text \<open>Every row of the block has values of its columns' types.\<close>

definition rows_fit :: "pg_env \<Rightarrow> index_env \<Rightarrow> contents \<Rightarrow> layout \<Rightarrow> bool" where
  "rows_fit P I K L \<longleftrightarrow> (let c = ie_base36 I; h = ly_height L; body = ly_body L in
     (\<forall>j<length (bb_Chunks body). checks (chunk_columns P (chunk_row c K h j (bb_Chunks body ! j))) = Inr ())
     \<and> (\<forall>i\<in>set (bb_Files body). checks (file_columns P (manifest_row I K h i)) = Inr ()
          \<and> (\<forall>j<length (ly_chunks L i). checks (file_chunk_columns P (fc_row c L i j)) = Inr ()))
     \<and> (\<forall>i\<in>set (bb_Dirs body). checks (directory_columns P (listing_row I K h (ly_files L) i)) = Inr ()
          \<and> (\<forall>j<length (ly_files L i). checks (directory_file_columns P (df_row c K L i j)) = Inr ())))"

text \<open>The chunks of the files and the files of the directories are in the block or were indexed before.\<close>

definition items_known :: "index_env \<Rightarrow> layout \<Rightarrow> tables \<Rightarrow> bool" where
  "items_known I L t \<longleftrightarrow>
     (\<forall>i\<in>set (bb_Files (ly_body L)). \<forall>k\<in>set (ly_chunks L i). k \<in> set (bb_Chunks (ly_body L))
        \<or> bi_ID (ie_base36 I) k \<in> cx_BlobID ` set (tb_chunks t))
     \<and> (\<forall>i\<in>set (bb_Dirs (ly_body L)). \<forall>k\<in>set (ly_files L i). k \<in> set (bb_Files (ly_body L))
        \<or> bi_ID (ie_base36 I) k \<in> fw_blob_id ` set (tb_files t))"

definition storage_used :: "index_env \<Rightarrow> contents \<Rightarrow> BlockBody \<Rightarrow> u64" where
  "storage_used I K body = sum_list (map (\<lambda>i. cr_ChunkSize (ct_ref K i)) (bb_Chunks body))
     + sum_list (map (\<lambda>i. ie_file_size I (ct_file K i)) (bb_Files body))
     + sum_list (map (\<lambda>i. ie_dir_size I (ct_dir K i)) (bb_Dirs body))"

definition block_facts :: "layout \<Rightarrow> fact set" where
  "block_facts L = ChunkFact ` set (bb_Chunks (ly_body L)) \<union> FileFact ` set (bb_Files (ly_body L))
     \<union> DirFact ` set (bb_Dirs (ly_body L)) \<union> (\<Union>i\<in>set (bb_Files (ly_body L)). FileChunk i ` set (ly_chunks L i))
     \<union> (\<Union>i\<in>set (bb_Dirs (ly_body L)). DirFile i ` set (ly_files L i))"

lemma index_chunks:
  assumes P: "answers_all P" and c: "base36_ok (ie_base36 I)" and C: "node_gives I K L C" and fits: "rows_fit P I K L"
    and h: "HasBlock (ly_height L) \<in> X"
  shows "does (all_hold I K L X)
    (index_items (\<lambda>(i, chunkID). indexChunk P I C chunkID (int i) (ly_height L)) (enumerate 0 (map bi_Proto (bb_Chunks (ly_body L)))) used)
    (used + sum_list (map (\<lambda>i. cr_ChunkSize (ct_ref K i)) (bb_Chunks (ly_body L))))
    (all_hold I K L (X \<union> (ChunkFact ` set (bb_Chunks (ly_body L)) \<union> HasChunk ` set (bb_Chunks (ly_body L)))))"
proof -
  let ?cs = "bb_Chunks (ly_body L)"
  let ?f = "\<lambda>(j, i). indexChunk P I C (bi_Proto i) (int j) (ly_height L)"
  have items: "index_items (\<lambda>(i, chunkID). indexChunk P I C chunkID (int i) (ly_height L)) (enumerate 0 (map bi_Proto ?cs)) used
      = index_items ?f (enumerate 0 ?cs) used"
    using index_items_map [of "\<lambda>(i, chunkID). indexChunk P I C chunkID (int i) (ly_height L)" "map_prod id bi_Proto" "enumerate 0 ?cs" used]
    by (simp add: enumerate_map_upt enumerate_eq_zip zip_map2 map_prod_def split_def)
  have "does (all_hold I K L X) (index_items ?f (enumerate 0 ?cs) used)
      (used + sum_list (map (\<lambda>(j, i). cr_ChunkSize (ct_ref K i)) (enumerate 0 ?cs)))
      (all_hold I K L (X \<union> (\<Union>x\<in>set (enumerate 0 ?cs). case x of (j, i) \<Rightarrow> {ChunkFact i, HasChunk i})))"
  proof (rule does_items [where A = "{HasBlock (ly_height L)}"])
    fix x Y assume x: "x \<in> set (enumerate 0 ?cs)" and Y: "{HasBlock (ly_height L)} \<subseteq> Y"
    obtain j i where ji: "x = (j, i)" "j < length ?cs" "?cs ! j = i" using x
      by (intro that [of "fst x" "snd x"]) (simp_all add: in_set_enumerate_eq)
    then have i: "i \<in> set ?cs" by auto
    have ref: "nc_GetChunkReference C (bi_ID (ie_base36 I) i) = Inr (Some (ct_ref K i))"
      using C i by (simp add: node_gives_def Let_def)
    have fit: "checks (chunk_columns P (chunk_row (ie_base36 I) K (ly_height L) j i)) = Inr ()"
      using fits ji by (auto simp: rows_fit_def Let_def)
    show "does (all_hold I K L Y) (?f x) (case x of (j, i) \<Rightarrow> cr_ChunkSize (ct_ref K i))
        (all_hold I K L (Y \<union> (case x of (j, i) \<Rightarrow> {ChunkFact i, HasChunk i})))"
      using add_chunk [OF P c ji(2,3) ref fit, of Y] Y ji(1) by simp
  qed (use h in simp)
  moreover have "map (\<lambda>(j, i). cr_ChunkSize (ct_ref K i)) (enumerate 0 ?cs) = map (\<lambda>i. cr_ChunkSize (ct_ref K i)) ?cs"
    by (rule nth_equalityI) (simp_all add: nth_enumerate_eq)
  moreover have "(\<Union>x\<in>set (enumerate 0 ?cs). case x of (j, i) \<Rightarrow> {ChunkFact i, HasChunk i}) = ChunkFact ` set ?cs \<union> HasChunk ` set ?cs"
  proof -
    have "(\<Union>x\<in>set (enumerate 0 ?cs). case x of (j, i) \<Rightarrow> {ChunkFact i, HasChunk i})
        = (\<Union>i\<in>snd ` set (enumerate 0 ?cs). {ChunkFact i, HasChunk i})" by (auto simp: split_beta)
    also have "snd ` set (enumerate 0 ?cs) = set ?cs" by (metis list.set_map map_snd_enumerate)
    finally show ?thesis by auto
  qed
  ultimately show ?thesis unfolding items by simp
qed

lemma index_files:
  assumes P: "answers_all P" and c: "base36_ok (ie_base36 I)" and C: "node_gives I K L C" and fits: "rows_fit P I K L"
    and A: "insert (HasBlock (ly_height L)) (HasChunk ` (\<Union>i\<in>set (bb_Files (ly_body L)). set (ly_chunks L i))) \<subseteq> X"
  shows "does (all_hold I K L X)
    (index_items (\<lambda>fileID. indexFile P I C fileID (ly_height L)) (map bi_Proto (bb_Files (ly_body L))) used)
    (used + sum_list (map (\<lambda>i. ie_file_size I (ct_file K i)) (bb_Files (ly_body L))))
    (all_hold I K L (X \<union> (\<Union>i\<in>set (bb_Files (ly_body L)). {FileFact i, HasFile i} \<union> FileChunk i ` set (ly_chunks L i))))"
  unfolding index_items_map
proof (rule does_items [OF _ A])
  fix i Y assume i: "i \<in> set (bb_Files (ly_body L))"
    and Y: "insert (HasBlock (ly_height L)) (HasChunk ` (\<Union>i\<in>set (bb_Files (ly_body L)). set (ly_chunks L i))) \<subseteq> Y"
  show "does (all_hold I K L Y) (indexFile P I C (bi_Proto i) (ly_height L)) (ie_file_size I (ct_file K i))
      (all_hold I K L (Y \<union> ({FileFact i, HasFile i} \<union> FileChunk i ` set (ly_chunks L i))))"
    by (rule add_file [OF P c]) (use C fits i Y [unfolded insert_subset image_subset_iff] in \<open>auto simp: node_gives_def rows_fit_def Let_def\<close>)
qed

lemma index_directories:
  assumes P: "answers_all P" and c: "base36_ok (ie_base36 I)" and C: "node_gives I K L C" and fits: "rows_fit P I K L"
    and A: "insert (HasBlock (ly_height L)) (HasFile ` (\<Union>i\<in>set (bb_Dirs (ly_body L)). set (ly_files L i))) \<subseteq> X"
  shows "does (all_hold I K L X)
    (index_items (\<lambda>dirID. indexDirectory P I C dirID (ly_height L)) (map bi_Proto (bb_Dirs (ly_body L))) used)
    (used + sum_list (map (\<lambda>i. ie_dir_size I (ct_dir K i)) (bb_Dirs (ly_body L))))
    (all_hold I K L (X \<union> (\<Union>i\<in>set (bb_Dirs (ly_body L)). {DirFact i, HasDir i} \<union> DirFile i ` set (ly_files L i))))"
  unfolding index_items_map
proof (rule does_items [OF _ A])
  fix i Y assume i: "i \<in> set (bb_Dirs (ly_body L))"
    and Y: "insert (HasBlock (ly_height L)) (HasFile ` (\<Union>i\<in>set (bb_Dirs (ly_body L)). set (ly_files L i))) \<subseteq> Y"
  show "does (all_hold I K L Y) (indexDirectory P I C (bi_Proto i) (ly_height L)) (ie_dir_size I (ct_dir K i))
      (all_hold I K L (Y \<union> ({DirFact i, HasDir i} \<union> DirFile i ` set (ly_files L i))))"
    by (rule add_directory [OF P c]) (use C fits i Y [unfolded insert_subset image_subset_iff] in \<open>auto simp: node_gives_def rows_fit_def Let_def\<close>)
qed

text \<open>The row of the block, before and after its items.\<close>

abbreviation the_block_row :: "blake3 \<Rightarrow> Block \<Rightarrow> u64 \<Rightarrow> BlockIndex" where
  "the_block_row B b used \<equiv> (block_index (hash_Bytes (header_hash B (b_Header b))) (bh_Proto (bh_canon (b_Header b)))
     (bb_Proto (b_Body b)))\<lparr>bx_StorageUsed := used\<rparr>"

lemma put_block:
  assumes P: "answers_all P" "pg_ok P" and h: "ly_height L = bh_Height (b_Header b)"
    and fits: "checks (block_columns P (the_block_row B b used)) = Inr ()" "pg_time P (bh_Timestamp (bh_canon (b_Header b))) \<noteq> None"
  shows "does (all_hold I K L X) (PutBlockIndex P (the_block_row B b used)) ()
    (\<lambda>t. all_hold I K L (insert (HasBlock (ly_height L)) X) t
       \<and> row_of bx_Height (ly_height L) (tb_blocks t) = Some (the_block_row B b used))"
  unfolding PutBlockIndex_def
proof (rule does_exec [OF P(1)])
  let ?r = "the_block_row B b used"
  have key: "bx_Height ?r = ly_height L" by (simp add: h block_index_def bh_Proto_def bh_canon_def)
  fix t assume t: "all_hold I K L X t"
  have time: "pg_time P (bx_Timestamp ?r) \<noteq> None" using fits(2) by (simp add: block_index_def bh_Proto_def)
  then obtain t' where put: "insert_block P ?r t = Inr t'" using fits(1) by (simp add: insert_block_Inr)
  have "row_of bx_Height (ly_height L) (tb_blocks t') = Some ?r"
    using blocks_table.row_after [OF put, of "ly_height L"] key saved_row [OF P(2) fits(2)] by simp
  moreover have "all_hold I K L (insert (HasBlock (ly_height L)) X) t'"
    using holds_after_block [OF put] t put key by (auto simp: insert_block_Inr keys_upsert)
  ultimately show "\<exists>t'. insert_block P ?r t = Inr t' \<and> all_hold I K L (insert (HasBlock (ly_height L)) X) t'
      \<and> row_of bx_Height (ly_height L) (tb_blocks t') = Some ?r" using put by blast
qed

definition indexable :: "pg_env \<Rightarrow> index_env \<Rightarrow> contents \<Rightarrow> layout \<Rightarrow> node_client \<Rightarrow> blake3 \<Rightarrow> Block \<Rightarrow> bool" where
  "indexable P I K L C B b \<longleftrightarrow> node_gives I K L C \<and> rows_fit P I K L
     \<and> ly_body L = b_Body b \<and> ly_height L = bh_Height (b_Header b)
     \<and> (\<exists>p. nc_GetBlockByHeight C (ly_height L) = Inr (Some p) \<and> block_sent B b p)
     \<and> (\<forall>used\<in>{0, storage_used I K (b_Body b)}. checks (block_columns P (the_block_row B b used)) = Inr ())
     \<and> pg_time P (bh_Timestamp (bh_canon (b_Header b))) \<noteq> None"

lemma indexBlock_writes:
  assumes P: "answers_all P" "pg_ok P" and c: "base36_ok (ie_base36 I)" and ok: "indexable P I K L C B b"
    and known: "items_known I L (pg_tables D)"
  shows "\<exists>D'. indexBlock P I C (ly_height L) D = (Inr (), D') \<and> all_hold I K L (block_facts L) (pg_tables D')
    \<and> row_of bx_Height (ly_height L) (tb_blocks (pg_tables D')) = Some (the_block_row B b (storage_used I K (b_Body b)))"
proof -
  have C: "node_gives I K L C" and fits: "rows_fit P I K L" and L: "ly_body L = b_Body b" "ly_height L = bh_Height (b_Header b)"
    and time: "pg_time P (bh_Timestamp (bh_canon (b_Header b))) \<noteq> None" using ok unfolding indexable_def by blast+
  obtain p where blk: "nc_GetBlockByHeight C (ly_height L) = Inr (Some p)" "block_sent B b p" using ok unfolding indexable_def by blast
  have row: "checks (block_columns P (the_block_row B b used)) = Inr ()" if "used \<in> {0, storage_used I K (b_Body b)}" for used
    using ok that unfolding indexable_def by blast
  note row = this time
  let ?h = "ly_height L" and ?row = "the_block_row B b" and ?body = "bb_Proto (b_Body b)"
  define X0 where "X0 = {HasChunk k |k. bi_ID (ie_base36 I) k \<in> cx_BlobID ` set (tb_chunks (pg_tables D))}
    \<union> {HasFile k |k. bi_ID (ie_base36 I) k \<in> fw_blob_id ` set (tb_files (pg_tables D))}"
  have X0: "all_hold I K L X0 (pg_tables D)" by (auto simp: X0_def)
  let ?X1 = "insert (HasBlock ?h) X0"
  let ?X2 = "?X1 \<union> (ChunkFact ` set (bb_Chunks (ly_body L)) \<union> HasChunk ` set (bb_Chunks (ly_body L)))"
  let ?X3 = "?X2 \<union> (\<Union>i\<in>set (bb_Files (ly_body L)). {FileFact i, HasFile i} \<union> FileChunk i ` set (ly_chunks L i))"
  let ?X4 = "?X3 \<union> (\<Union>i\<in>set (bb_Dirs (ly_body L)). {DirFact i, HasDir i} \<union> DirFile i ` set (ly_files L i))"
  have k3: "insert (HasBlock ?h) (HasChunk ` (\<Union>i\<in>set (bb_Files (ly_body L)). set (ly_chunks L i))) \<subseteq> ?X2"
  proof -
    have "HasChunk k \<in> ?X2" if "i \<in> set (bb_Files (ly_body L))" "k \<in> set (ly_chunks L i)" for i k
      using known that unfolding items_known_def X0_def by blast
    then show ?thesis by (auto simp: image_subset_iff)
  qed
  have k4: "insert (HasBlock ?h) (HasFile ` (\<Union>i\<in>set (bb_Dirs (ly_body L)). set (ly_files L i))) \<subseteq> ?X3"
  proof -
    have "HasFile k \<in> ?X3" if "i \<in> set (bb_Dirs (ly_body L))" "k \<in> set (ly_files L i)" for i k
      using known that unfolding items_known_def X0_def by blast
    then show ?thesis by (auto simp: image_subset_iff)
  qed
  have run: "indexBlock P I C ?h = sbind (PutBlockIndex P (?row 0)) (\<lambda>_.
      sbind (index_items (\<lambda>(i, chunkID). indexChunk P I C chunkID (int i) ?h) (enumerate 0 (map bi_Proto (bb_Chunks (ly_body L)))) 0) (\<lambda>used.
      sbind (index_items (\<lambda>fileID. indexFile P I C fileID ?h) (map bi_Proto (bb_Files (ly_body L))) used) (\<lambda>used.
      sbind (index_items (\<lambda>dirID. indexDirectory P I C dirID ?h) (map bi_Proto (bb_Dirs (ly_body L))) used) (\<lambda>used.
      PutBlockIndex P (?row used)))))"
    using blk L by (simp add: indexBlock_def fun_eq_iff block_sent_def present_def Let_def bb_Proto_def bh_Proto_def bh_canon_def
        block_index_def)
  have sum: "0 + sum_list (map (\<lambda>i. cr_ChunkSize (ct_ref K i)) (bb_Chunks (ly_body L)))
      + sum_list (map (\<lambda>i. ie_file_size I (ct_file K i)) (bb_Files (ly_body L)))
      + sum_list (map (\<lambda>i. ie_dir_size I (ct_dir K i)) (bb_Dirs (ly_body L))) = storage_used I K (b_Body b)"
    by (simp add: storage_used_def L)
  let ?Post = "\<lambda>t. all_hold I K L (insert (HasBlock ?h) ?X4) t
        \<and> row_of bx_Height ?h (tb_blocks t) = Some (?row (storage_used I K (b_Body b)))"
  have last_put: "does (all_hold I K L ?X4) (PutBlockIndex P (?row (storage_used I K (b_Body b)))) () ?Post"
    by (rule put_block [OF P L(2) row]) simp
  let ?U1 = "0 + sum_list (map (\<lambda>i. cr_ChunkSize (ct_ref K i)) (bb_Chunks (ly_body L)))"
  let ?U2 = "?U1 + sum_list (map (\<lambda>i. ie_file_size I (ct_file K i)) (bb_Files (ly_body L)))"
  let ?dirs = "\<lambda>used. sbind (index_items (\<lambda>dirID. indexDirectory P I C dirID ?h) (map bi_Proto (bb_Dirs (ly_body L))) used) (\<lambda>used.
      PutBlockIndex P (?row used))"
  let ?files = "\<lambda>used. sbind (index_items (\<lambda>fileID. indexFile P I C fileID ?h) (map bi_Proto (bb_Files (ly_body L))) used) ?dirs"
  have dirs: "does (all_hold I K L ?X3) (?dirs ?U2) () ?Post"
    by (rule does_sbind [OF index_directories [OF P(1) c C fits k4]]) (unfold sum, rule last_put)
  have files: "does (all_hold I K L ?X2) (?files ?U1) () ?Post"
    by (rule does_sbind [OF index_files [OF P(1) c C fits k3]]) (rule dirs)
  have chunks: "does (all_hold I K L ?X1) (sbind (index_items (\<lambda>(i, chunkID). indexChunk P I C chunkID (int i) ?h)
      (enumerate 0 (map bi_Proto (bb_Chunks (ly_body L)))) 0) ?files) () ?Post"
    by (rule does_sbind [OF index_chunks [OF P(1) c C fits insertI1]]) (rule files)
  have first_put: "does (all_hold I K L X0) (PutBlockIndex P (?row 0)) () (all_hold I K L ?X1)"
    by (rule does_conseq [OF put_block [OF P L(2) row(1) row(2)]]) (simp, assumption, elim conjE, assumption)
  have "does (all_hold I K L X0) (indexBlock P I C ?h) () ?Post"
    unfolding run by (rule does_sbind [OF first_put chunks])
  from doesD [OF this X0] obtain D'
    where D': "indexBlock P I C ?h D = (Inr (), D')" and post: "?Post (pg_tables D')" by blast
  have "block_facts L \<subseteq> insert (HasBlock ?h) ?X4" unfolding block_facts_def by fast
  with post have "all_hold I K L (block_facts L) (pg_tables D')" by (meson subsetD)
  with D' post show ?thesis by blast
qed

end
