(* ===== verification/Gateway_Proofs.thy ===== *)
theory Gateway_Proofs
  imports Gateway
begin

text \<open>
  The gateway serves exactly the bytes of a range, prints every size and lists every directory.
\<close>

section \<open>Numbers\<close>

lemma digits_value_append: "digits_value (a @ [c]) = digits_value a * 10 + uint (c - 48)"
  by (simp add: digits_value_def)

lemma digits_value_nonneg: "0 \<le> digits_value s"
proof (induction s rule: rev_induct)
  case (snoc c s)
  then show ?case by (simp add: digits_value_append)
qed (simp add: digits_value_def)

lemma Atoi_nonneg: "Atoi s = Inr n \<Longrightarrow> 45 \<notin> set s \<Longrightarrow> 0 \<le> n"
  by (cases s) (auto simp: in_int64_def digits_value_nonneg Let_def split: if_splits)

lemma dec_digit: "n < 10 \<Longrightarrow> uint ((48 + of_nat n :: byte) - 48) = int n" "n < 10 \<Longrightarrow> (48 :: byte) \<le> 48 + of_nat n"
  "n < 10 \<Longrightarrow> 48 + of_nat n \<le> (57 :: byte)"
proof -
  assume n: "n < 10"
  have u: "unat (of_nat n :: byte) = n" using n by (simp add: unat_of_nat)
  then have s: "unat (48 + of_nat n :: byte) = 48 + n" using n by (subst unat_add_lem [THEN iffD1]) simp_all
  show "(48 :: byte) \<le> 48 + of_nat n" "48 + of_nat n \<le> (57 :: byte)" using n s by (simp_all add: word_le_nat_alt)
  show "uint ((48 + of_nat n :: byte) - 48) = int n" using u by (simp add: uint_nat)
qed

lemma digits_dec: "all_digits (dec n) \<and> digits_value (dec n) = int n \<and> dec n \<noteq> [] \<and> 43 \<notin> set (dec n) \<and> 45 \<notin> set (dec n)"
proof (induction n rule: dec.induct)
  case (1 n)
  have no_sign: "(48 :: byte) \<le> c \<Longrightarrow> c \<noteq> 43 \<and> c \<noteq> 45" for c by (auto simp: word_le_nat_alt)
  show ?case
  proof (cases "n < 10")
    case True
    then show ?thesis using dec_digit [of n] no_sign [of "48 + of_nat n"]
      by (subst (1 2 3 4 5) dec.simps) (auto simp: all_digits_def digits_value_def)
  next
    case False
    have m: "n mod 10 < 10" by simp
    have "int (n div 10) * 10 + int (n mod 10) = int n" by presburger
    with 1 False dec_digit [OF m] no_sign [of "48 + of_nat (n mod 10)"] show ?thesis
      by (subst (1 2 3 4 5) dec.simps) (auto simp: all_digits_def digits_value_append)
  qed
qed

lemma Atoi_dec:
  assumes "n < 2 ^ 63"
  shows "Atoi (dec n) = Inr (int n)"
proof -
  note d = digits_dec [of n]
  then obtain c s where cs: "dec n = c # s" by (cases "dec n") auto
  have "int n < 2 ^ 63" using assms by (metis of_nat_less_iff of_nat_numeral of_nat_power)
  with d cs show ?thesis by (auto simp: in_int64_def)
qed

section \<open>Ranges\<close>

lemma range_end_bound: "range_end part n < n"
  by (auto simp: range_end_def split: sum.splits)

lemma range_start_bound: "range_start part n = Some a \<Longrightarrow> 45 \<notin> set part \<Longrightarrow> 0 \<le> a"
  by (auto simp: range_start_def dest: Atoi_nonneg split: if_splits sum.splits)

lemma parse_range_bounds:
  assumes "parse_range h n = Inr (a, b)"
  shows "0 \<le> a \<and> a \<le> b \<and> b < n"
proof -
  obtain x y where xy: "split_on 45 (TrimPrefix h (ascii ''bytes='')) = [x, y]" "range_start x n = Some a" "b = range_end y n" "a \<le> b"
    using assms by (auto simp: parse_range_def Let_def split: if_splits list.splits option.splits)
  have "45 \<notin> set x" using split_on_words [of x 45 "TrimPrefix h (ascii ''bytes='')"] xy(1) by simp
  with xy range_start_bound range_end_bound show ?thesis by auto
qed

lemma serve_range_parsed:
  assumes "parse_range h (int (length data)) = Inr (int a, int b)"
  shows "serve_range m data h = Inr (Served ((full_reply m data)\<lparr>sv_ContentLength := int b - int a + 1,
      sv_ContentRange := Some (int a, int b, int (length data)), sv_Body := take (b - a + 1) (drop a data)\<rparr>))"
proof -
  have r: "a \<le> b" "b < length data" using parse_range_bounds [OF assms] by simp_all
  then have "nat (int b + 1) = Suc b" "Suc b - a = b - a + 1" by simp_all
  then have "slice_of data (nat (int a)) (nat (int b + 1)) = Inr (take (b - a + 1) (drop a data))"
    using r by (simp add: slice_of_def)
  with assms show ?thesis by (simp add: serve_range_def Let_def)
qed

lemma serve_range_cases:
  obtains (failed) msg where "serve_range m data h = Inr (HttpError 416 msg)"
  | (part) a b where "parse_range h (int (length data)) = Inr (int a, int b)" "a \<le> b" "b < length data"
proof (cases "parse_range h (int (length data))")
  case (Inl msg)
  then show ?thesis by (intro failed [of msg]) (simp add: serve_range_def)
next
  case (Inr r)
  then obtain a b where "parse_range h (int (length data)) = Inr (int a, int b)" "a \<le> b" "b < length data"
    using parse_range_bounds [of h "int (length data)" "fst r" "snd r"]
    by (metis nat_int nat_0_le of_nat_le_iff of_nat_less_iff order_trans prod.collapse)
  then show ?thesis by (rule part)
qed

text \<open>A range in decimal digits is understood.\<close>

lemma parse_range_dec:
  assumes "a \<le> b" "a < n" "a < 2 ^ 63" "b < 2 ^ 63"
  shows "parse_range (ascii ''bytes='' @ dec a @ 45 # dec b) (int n) = Inr (int a, int (min b (n - 1)))"
proof -
  have split: "split_on 45 (dec a @ 45 # dec b) = [dec a, dec b]" using digits_dec [of a] digits_dec [of b] by (simp add: split_on_append)
  have start: "range_start (dec a) (int n) = Some (int a)"
    using digits_dec [of a] Atoi_dec [OF assms(3)] assms(2) by (simp add: range_start_def)
  have "range_end (dec b) (int n) = int (min b (n - 1))"
    using digits_dec [of b] Atoi_dec [OF assms(4)] assms(2) by (auto simp: range_end_def of_nat_diff min_def)
  with split start assms(1,2) show ?thesis by (simp add: parse_range_def)
qed

text \<open>A range of the last bytes is answered with the first ones.\<close>

lemma suffix_range_is_a_prefix:
  assumes "b < n" "b < 2 ^ 63"
  shows "parse_range (ascii ''bytes=-'' @ dec b) (int n) = Inr (0, int b)"
proof -
  have "ascii ''bytes=-'' = ascii ''bytes='' @ [45]" by (simp add: ascii_def)
  moreover have "split_on 45 (45 # dec b) = [[], dec b]" using digits_dec [of b] by simp
  moreover have "range_end (dec b) (int n) = int b" using digits_dec [of b] Atoi_dec [OF assms(2)] assms(1) by (simp add: range_end_def)
  ultimately show ?thesis using assms(1) by (simp add: parse_range_def range_start_def)
qed

section \<open>Sizes\<close>

lemma size_loop_unit: "unat n < 1024 ^ (k + 1) \<Longrightarrow> snd (size_loop n d exp) \<le> exp + k"
proof (induction n d exp arbitrary: k rule: size_loop.induct)
  case (1 n d exp)
  show ?case
  proof (cases "n \<ge> 1024")
    case True
    then have "1024 \<le> unat n" by (simp add: word_le_nat_alt)
    with "1.prems" obtain j where k: "k = Suc j" by (cases k) auto
    then have "unat (n div 1024) < 1024 ^ (j + 1)" using "1.prems" by (simp add: unat_div less_mult_imp_div_less mult.commute)
    from "1.IH" [OF True this] k True show ?thesis by (subst size_loop.simps) simp
  next
    case False
    then show ?thesis by (subst size_loop.simps) simp
  qed
qed

lemma formatFileSize_total: "\<exists>s. formatFileSize print n = Inr s"
proof (cases "n < 1024")
  case False
  have "unat (n div 1024) < 1024 ^ (5 + 1)" 
  proof -
    have "unat n < 2 ^ 64" by (rule order_less_le_trans [OF unsigned_less]) simp
    then show ?thesis by (simp add: unat_div less_mult_imp_div_less)
  qed
  from size_loop_unit [OF this, of 1024 0] have "snd (size_loop (n div 1024) 1024 0) \<le> 5" by simp
  with False show ?thesis by (auto simp: formatFileSize_def index_of_def split: prod.splits)
qed (simp add: formatFileSize_def)

section \<open>Listing\<close>

lemma total_pages_pos: "0 \<le> n \<Longrightarrow> 1 \<le> total_pages n"
  by (auto simp: total_pages_def filesPerPage_def Let_def)

lemma page_of_bounds: "1 \<le> n \<Longrightarrow> 1 \<le> page_of query n \<and> page_of query n \<le> n"
  by (auto simp: page_of_def Let_def split: sum.splits)

lemma paged_files_total: "1 \<le> page \<Longrightarrow> \<exists>fs. paged_files page files = Inr fs \<and> set fs \<subseteq> set files"
proof -
  assume "1 \<le> page"
  then have "0 \<le> (page - 1) * filesPerPage" by (simp add: filesPerPage_def)
  then show ?thesis
    by (auto simp: paged_files_def Let_def slice_of_def filesPerPage_def nat_le_iff dest!: in_set_takeD in_set_dropD)
qed

lemma page_ids_total:
  assumes "\<forall>ref\<in>set refs. \<exists>i. BlobIdentifierFromProto (fr_Id ref) = Inr i"
  shows "\<exists>ids. page_ids c subPath refs names = Inr ids \<and> (\<forall>x\<in>set ids. \<exists>i. snd x = bi_ID c i)"
proof (induction names)
  case (Cons name names)
  then obtain ids where ids: "page_ids c subPath refs names = Inr ids" "\<forall>x\<in>set ids. \<exists>i. snd x = bi_ID c i" by blast
  show ?case
  proof (cases "find (\<lambda>f. fr_RelativePath f = under subPath name \<or> subPath = [] \<and> fr_RelativePath f = name) refs")
    case None
    with ids show ?thesis by (simp add: Let_def)
  next
    case (Some f)
    then have "f \<in> set refs" by (auto simp: find_Some_iff)
    with assms obtain i where "BlobIdentifierFromProto (fr_Id f) = Inr i" by blast
    with Some ids show ?thesis by (auto simp: Let_def)
  qed
qed simp

definition long_ids :: "base36 \<Rightarrow> bool" where
  "long_ids c \<longleftrightarrow> (\<forall>x. length x = 40 \<longrightarrow> 8 \<le> length (b36_encode c x))"

lemma shorten_id: "long_ids c \<Longrightarrow> \<exists>s. shorten (bi_ID c i) = Inr s"
proof -
  assume "long_ids c"
  then have "8 \<le> length (b36_encode c (bi_Bytes i))" by (simp add: long_ids_def)
  then show ?thesis by (simp add: shorten_def bi_ID_def ascii_def)
qed

lemma file_items_total:
  assumes "long_ids c" "\<forall>path x. ids path = Some x \<longrightarrow> (\<exists>i. x = bi_ID c i)"
  shows "\<exists>items. file_items G subPath ids manifests names = Inr items"
proof (induction names)
  case (Cons name names)
  then obtain items where items: "file_items G subPath ids manifests names = Inr items" by blast
  show ?case
  proof (cases "ids (under subPath name)")
    case None
    with items show ?thesis by (simp add: Let_def)
  next
    case (Some x)
    obtain link where link: "shorten x = Inr link" using assms Some shorten_id by blast
    have "\<exists>r. (case manifests x of
        Some (Some m) \<Rightarrow> rbind (formatFileSize (gw_print G) (fm_FileSize m)) (\<lambda>fileSize.
          Inr (fileSize, if fm_MimeType m = [] then octet_stream else fm_MimeType m))
      | _ \<Rightarrow> Inr ([], [])) = Inr r"
    proof (cases "manifests x")
      case (Some y)
      then show ?thesis
      proof (cases y)
        case (Some m)
        obtain s where "formatFileSize (gw_print G) (fm_FileSize m) = Inr s" using formatFileSize_total by blast
        with Some \<open>manifests x = Some y\<close> show ?thesis by simp
      qed simp
    qed simp
    then obtain r where "(case manifests x of
        Some (Some m) \<Rightarrow> rbind (formatFileSize (gw_print G) (fm_FileSize m)) (\<lambda>fileSize.
          Inr (fileSize, if fm_MimeType m = [] then octet_stream else fm_MimeType m))
      | _ \<Rightarrow> Inr ([], [])) = Inr r" by blast
    with Some link items show ?thesis by (cases r) (simp add: Let_def)
  qed
qed simp

lemma list_directory_total:
  assumes c: "long_ids (gw_base36 G)" and refs: "\<forall>ref\<in>set refs. \<exists>i. BlobIdentifierFromProto (fr_Id ref) = Inr i"
  shows "\<exists>dd. list_directory G manifestID subPath query refs = Inr (DirectoryPage dd)"
proof -
  let ?files = "sort (map fst (filter (\<lambda>c. \<not> snd c) (children_of subPath refs)))"
  let ?page = "page_of query (total_pages (int (length ?files)))"
  have "1 \<le> total_pages (int (length ?files))" by (rule total_pages_pos) simp
  then have "1 \<le> ?page" by (rule page_of_bounds [THEN conjunct1])
  from paged_files_total [OF this, of ?files] obtain fs where fs: "paged_files ?page ?files = Inr fs" by (elim exE conjE)
  obtain ids where ids: "page_ids (gw_base36 G) subPath refs fs = Inr ids" "\<forall>x\<in>set ids. \<exists>i. snd x = bi_ID (gw_base36 G) i"
    using page_ids_total [OF refs] by blast
  have "\<forall>path x. map_of (rev ids) path = Some x \<longrightarrow> (\<exists>i. x = bi_ID (gw_base36 G) i)"
    using ids(2) by (fastforce dest!: map_of_SomeD)
  from file_items_total [OF c this] obtain items where
    "file_items G subPath (map_of (rev ids)) (page_manifests G ids) fs = Inr items" by blast
  with fs ids(1) show ?thesis unfolding list_directory_def Let_def by (simp only: rbind_simps) blast
qed

section \<open>A request\<close>

text \<open>What a file reply holds, for the data of the file.\<close>

definition serves_part :: "served \<Rightarrow> bytes \<Rightarrow> bool" where
  "serves_part sv data \<longleftrightarrow> sv_ContentLength sv = int (length (sv_Body sv)) \<and>
     (sv_ContentRange sv = None \<and> sv_Body sv = data
      \<or> (\<exists>a b. a \<le> b \<and> b < length data \<and> sv_ContentRange sv = Some (int a, int b, int (length data))
           \<and> sv_Body sv = take (b - a + 1) (drop a data)))"

lemma serve_range_part: "\<exists>reply. serve_range m data h = Inr reply \<and> (\<forall>sv. reply = Served sv \<longrightarrow> serves_part sv data)"
proof (cases rule: serve_range_cases [of m data h])
  case (part a b)
  with serve_range_parsed [OF part(1), of m] show ?thesis by (auto simp: serves_part_def full_reply_def)
qed simp

lemma serveFile_part:
  assumes S: "client_of S E c cs" and c: "base36_ok c"
  shows "\<exists>reply. serveFile S c i h = Inr reply \<and> (\<forall>sv. reply = Served sv \<longrightarrow>
    (\<exists>m data. node_GetFileManifest E cs i = Inr m \<and> fm_FileHash m = hash_Bytes (e_B E data) \<and> serves_part sv data))"
proof (cases "sc_GetFileManifest S (bi_ID c i)")
  case (Inl e)
  then show ?thesis by (simp add: serveFile_def)
next
  case (Inr r)
  with S obtain m where m: "r = Some m" by (auto simp: client_of_def)
  show ?thesis
  proof (cases "sc_GetFileData S (bi_ID c i)")
    case (Inl e)
    with Inr show ?thesis by (simp add: serveFile_def)
  next
    case data: (Inr data)
    with S have "rpc_GetFileData E c cs (bi_ID c i) = Inr data" by (simp add: client_of_def)
    then have "GetFileData E cs i = Inr data"
      by (simp add: rpc_GetFileData_def parse_id_def BlobIdentifierFromString_bi_ID [OF c])
    then obtain fm where fm: "node_GetFileManifest E cs i = Inr fm" "fm_FileHash fm = hash_Bytes (e_B E data)"
      using GetFileData_checked by blast
    have reply: "serveFile S c i h = (if h \<noteq> [] then serve_range m data h else Inr (Served (full_reply m data)))"
      using Inr m data by (simp add: serveFile_def present_def)
    show ?thesis
    proof (cases "h = []")
      case True
      with reply fm show ?thesis by (auto simp: serves_part_def full_reply_def)
    next
      case False
      with reply fm serve_range_part [of m data h] show ?thesis by auto
    qed
  qed
qed

lemma BlobIdentifierFromString_no_panic:
  assumes "\<And>s e. b36_decode c s = Inl e \<Longrightarrow> \<not> is_panic e" "BlobIdentifierFromString c s = Inl e"
  shows "\<not> is_panic e"
proof -
  have bytes: "\<exists>i. BlobIdentifierFromBytes b = Inr i" for b
  proof (cases "length b = 40")
    case True
    then have "length (drop 8 b) = 32" by simp
    with to_hash_32 obtain h where "to_hash (drop 8 b) = Inr h" by blast
    moreover obtain n where "Uint64FromBytes (take 8 b) = Inr n" using True by (simp add: Uint64FromBytes_def slice_of_def)
    ultimately show ?thesis using True by (simp add: BlobIdentifierFromBytes_def slice_of_def)
  qed (simp add: BlobIdentifierFromBytes_def)
  have prefix: "is_panic (wrap_err m x) = is_panic x" for m x by (cases x) simp_all
  show ?thesis
  proof (cases "b36_decode c (TrimPrefix s (ascii ''bc''))")
    case (Inl x)
    with assms(1) [OF this] assms(2) prefix show ?thesis by (auto simp: BlobIdentifierFromString_def split: if_splits)
  next
    case (Inr b)
    obtain i where "BlobIdentifierFromBytes b = Inr i" using bytes by blast
    with Inr assms(2) show ?thesis by (auto simp: BlobIdentifierFromString_def split: if_splits)
  qed
qed

end
