(* ===== verification/Explorer.thy ===== *)
theory Explorer
  imports Index_Tables Gateway_Proofs
begin

text \<open>
  The block explorer \<open>pkg/explorer\<close>: what a request reads from the index, and the data of the page or the
  JSON document that it answers with. A handler runs on the connection \<open>pg\<close>; \<open>Inl\<close> is a panic.

  \<open>explorer_env\<close> prints sizes and times and holds the URL of the gateway, which every page has beside the
  data here. The times of files and directories are never set and left out, like constant titles. Executing
  an HTML template is not modelled.
\<close>

section \<open>Numbers and texts\<close>

record explorer_env =
  ex_print :: "u64 \<Rightarrow> u64 \<Rightarrow> char option \<Rightarrow> bytes"
  ex_time :: "string \<Rightarrow> gotime \<Rightarrow> bytes"
  ex_gatewayUrl :: bytes

text \<open>\<open>strconv.ParseUint(s, 10, 64)\<close>.\<close>

definition ParseUint :: "bytes \<Rightarrow> u64 result" where
  "ParseUint s =
     (if s = [] \<or> \<not> all_digits s then Inl (Ext ''invalid syntax'')
      else if digits_value s < 2 ^ 64 then Inr (of_int (digits_value s)) else Inl (Ext ''value out of range''))"

text \<open>Go's \<open>int\<close> wraps around.\<close>

definition as_int64 :: "int \<Rightarrow> int" where
  "as_int64 n = (n + 2 ^ 63) mod 2 ^ 64 - 2 ^ 63"

lemma as_int64_id: "- (2 ^ 63) \<le> n \<Longrightarrow> n < 2 ^ 63 \<Longrightarrow> as_int64 n = n"
  by (simp add: as_int64_def)

definition formatBytes :: "explorer_env \<Rightarrow> u64 \<Rightarrow> bytes result" where
  "formatBytes X b =
     (if b < 1024 then Inr (ex_print X b 1 None)
      else case size_loop (b div 1024) 1024 0 of (d, exp) \<Rightarrow>
        rbind (index_of ''KMGTPE'' exp) (\<lambda>unit. Inr (ex_print X b d (Some unit))))"

lemma formatBytes_total: "\<exists>s. formatBytes X b = Inr s"
  using formatFileSize_total [of "ex_print X" b] by (simp add: formatBytes_def formatFileSize_def)

definition truncateString :: "bytes \<Rightarrow> nat \<Rightarrow> bytes" where
  "truncateString s n =
     (if length s \<le> n then s
      else let half = n div 2 in take half s @ ascii ''...'' @ drop (length s - half) s)"

section \<open>The data of the templates\<close>

record BlockData =
  bd_Height :: u64
  bd_Hash :: bytes
  bd_Timestamp :: bytes
  bd_CelestiaHeight :: u64
  bd_TotalFiles :: int
  bd_TotalDirectories :: int
  bd_TotalChunks :: int
  bd_StorageUsed :: bytes
  bd_ParentHash :: bytes
  bd_DirsRoot :: bytes
  bd_FilesRoot :: bytes
  bd_ChunksRoot :: bytes
  bd_StateRoot :: bytes

record FileData =
  fd_BlobID :: bytes
  fd_FileName :: bytes
  fd_MimeType :: bytes
  fd_FileSize :: bytes
  fd_FileHash :: bytes
  fd_BlockHeight :: u64
  fd_ChunkCount :: int

record DirectoryData =
  di_BlobID :: bytes
  di_DirectoryName :: bytes
  di_DirectoryHash :: bytes
  di_FileCount :: int
  di_TotalSize :: bytes
  di_BlockHeight :: u64
  di_FileTypes :: "bytes list"

record ChunkInfo =
  ci_BlobID :: bytes
  ci_Index :: int
  ci_BlockHeight :: u64
  ci_ChunkSize :: bytes
  ci_ChunkHash :: bytes

record AnalyticsData =
  an_TotalBlocks :: int
  an_TotalChunks :: int
  an_TotalFiles :: int
  an_TotalDirectories :: int
  an_TotalStorage :: bytes
  an_AvgBlockSize :: bytes
  an_MostCommonMimeTypes :: "bytes \<rightharpoonup> int"
  an_FileTypeDistribution :: "bytes \<rightharpoonup> bytes"

record BlockJson =
  bj_height :: u64
  bj_hash :: bytes
  bj_full_hash :: bytes
  bj_timestamp :: bytes
  bj_celestia_height :: u64
  bj_total_files :: int
  bj_total_directories :: int
  bj_total_chunks :: int
  bj_storage_used :: bytes
  bj_storage_bytes :: u64

record 'r list_page =
  lp_Title :: bytes
  lp_Items :: "'r list"
  lp_Total :: int
  lp_Pagination :: pagination

record block_page =
  bp_Title :: bytes
  bp_Block :: BlockData
  bp_Files :: "FileData list"
  bp_Directories :: "DirectoryData list"
  bp_Chunks :: "ChunkInfo list"
  bp_HasFiles :: bool

datatype ex_reply =
    ExError nat string "err option"
  | HomeR AnalyticsData "BlockData list"
  | BlocksR "BlockData list_page"
  | BlockR block_page
  | FilesR "FileData list_page"
  | FileR bytes FileData "ChunkInfo list"
  | DirectoriesR "DirectoryData list_page"
  | DirectoryR bytes DirectoryData
  | SearchR bytes "FileData list" bool
  | JsonBlocks "BlockJson list"
  | JsonAnalytics StorageAnalytics

abbreviation short_time :: string where "short_time \<equiv> ''2006-01-02 15:04:05''"

definition block_item :: "explorer_env \<Rightarrow> BlockIndex \<Rightarrow> BlockData result" where
  "block_item X b = rbind (formatBytes X (bx_StorageUsed b)) (\<lambda>used.
     Inr \<lparr>bd_Height = bx_Height b, bd_Hash = truncateString (bx_Hash b) 20, bd_Timestamp = ex_time X short_time (bx_Timestamp b),
       bd_CelestiaHeight = bx_CelestiaHeight b, bd_TotalFiles = bx_TotalFiles b, bd_TotalDirectories = bx_TotalDirectories b,
       bd_TotalChunks = bx_TotalChunks b, bd_StorageUsed = used, bd_ParentHash = [], bd_DirsRoot = [], bd_FilesRoot = [],
       bd_ChunksRoot = [], bd_StateRoot = []\<rparr>)"

definition block_details :: "explorer_env \<Rightarrow> BlockIndex \<Rightarrow> BlockData result" where
  "block_details X b = rbind (formatBytes X (bx_StorageUsed b)) (\<lambda>used.
     Inr \<lparr>bd_Height = bx_Height b, bd_Hash = bx_Hash b, bd_Timestamp = ex_time X ''2006-01-02 15:04:05 UTC'' (bx_Timestamp b),
       bd_CelestiaHeight = bx_CelestiaHeight b, bd_TotalFiles = bx_TotalFiles b, bd_TotalDirectories = bx_TotalDirectories b,
       bd_TotalChunks = bx_TotalChunks b, bd_StorageUsed = used, bd_ParentHash = bx_ParentHash b, bd_DirsRoot = bx_DirsRoot b,
       bd_FilesRoot = bx_FilesRoot b, bd_ChunksRoot = bx_ChunksRoot b, bd_StateRoot = bx_StateRoot b\<rparr>)"

definition file_data :: "explorer_env \<Rightarrow> FileIndex \<Rightarrow> FileData result" where
  "file_data X f = rbind (formatBytes X (fx_FileSize f)) (\<lambda>fileSize.
     Inr \<lparr>fd_BlobID = fx_BlobID f, fd_FileName = fx_FileName f, fd_MimeType = fx_MimeType f, fd_FileSize = fileSize,
       fd_FileHash = fx_FileHash f, fd_BlockHeight = fx_BlockHeight f, fd_ChunkCount = fx_ChunkCount f\<rparr>)"

definition dir_data :: "explorer_env \<Rightarrow> DirectoryIndex \<Rightarrow> DirectoryData result" where
  "dir_data X d = rbind (formatBytes X (dx_TotalSize d)) (\<lambda>totalSize.
     Inr \<lparr>di_BlobID = dx_BlobID d, di_DirectoryName = dx_DirectoryName d, di_DirectoryHash = dx_DirectoryHash d,
       di_FileCount = dx_FileCount d, di_TotalSize = totalSize, di_BlockHeight = dx_BlockHeight d, di_FileTypes = dx_FileTypes d\<rparr>)"

definition chunk_info :: "explorer_env \<Rightarrow> ChunkIndex \<Rightarrow> ChunkInfo result" where
  "chunk_info X c = rbind (formatBytes X (cx_ChunkSize c)) (\<lambda>chunkSize.
     Inr \<lparr>ci_BlobID = cx_BlobID c, ci_Index = cx_Index c, ci_BlockHeight = cx_BlockHeight c, ci_ChunkSize = chunkSize,
       ci_ChunkHash = cx_ChunkHash c\<rparr>)"

section \<open>Handlers\<close>

text \<open>A read whose error is replaced by a value.\<close>

definition or_else :: "(pg \<Rightarrow> 'a result \<times> pg) \<Rightarrow> 'a \<Rightarrow> pg \<Rightarrow> 'a result \<times> pg" where
  "or_else m v D = (case m D of (Inl e, D) \<Rightarrow> (Inr v, D) | (Inr x, D) \<Rightarrow> (Inr x, D))"

text \<open>A read whose error is a reply.\<close>

definition or_reply :: "(pg \<Rightarrow> 'a result \<times> pg) \<Rightarrow> (err \<Rightarrow> ex_reply) \<Rightarrow> ('a \<Rightarrow> pg \<Rightarrow> ex_reply result \<times> pg) \<Rightarrow> pg \<Rightarrow> ex_reply result \<times> pg" where
  "or_reply m fail f D = (case m D of (Inl e, D) \<Rightarrow> (Inr (fail e), D) | (Inr x, D) \<Rightarrow> f x D)"

definition page_size :: int where "page_size = 20"

text \<open>The page of the query, 1 unless it is a positive number, and its offset.\<close>

definition page_number :: "bytes \<Rightarrow> int" where
  "page_number p = (if p \<noteq> [] then (case Atoi p of Inl e \<Rightarrow> 1 | Inr parsed \<Rightarrow> if parsed > 0 then parsed else 1) else 1)"

definition page_offset :: "int \<Rightarrow> int" where
  "page_offset page = as_int64 ((page - 1) * page_size)"

definition page_links :: "string \<Rightarrow> int \<Rightarrow> int \<Rightarrow> pagination" where
  "page_links baseURL page rows = (let totalPages = (rows + page_size - 1) div page_size in
     \<lparr>pg_BaseURL = ascii baseURL, pg_CurrentPage = page, pg_TotalPages = totalPages, pg_HasPrev = page > 1,
      pg_HasNext = page < totalPages, pg_PrevPage = page - 1, pg_NextPage = as_int64 (page + 1)\<rparr>)"

definition handleHome :: "pg_env \<Rightarrow> explorer_env \<Rightarrow> pg \<Rightarrow> ex_reply result \<times> pg" where
  "handleHome P X =
     sbind (or_else (GetStorageAnalytics P) no_analytics) (\<lambda>a.
     sbind (or_else (GetBlocks P 50 0) []) (\<lambda>blocks.
     Pair (rbind (map_res (block_item X) blocks) (\<lambda>items.
       rbind (formatBytes X (sa_TotalStorage a)) (\<lambda>storage. rbind (formatBytes X (sa_AvgBlockSize a)) (\<lambda>avg.
       Inr (HomeR \<lparr>an_TotalBlocks = sint (sa_TotalBlocks a), an_TotalChunks = sint (sa_TotalChunks a),
         an_TotalFiles = sint (sa_TotalFiles a), an_TotalDirectories = sint (sa_TotalDirectories a), an_TotalStorage = storage,
         an_AvgBlockSize = avg, an_MostCommonMimeTypes = sa_MostCommonMimeTypes a,
         an_FileTypeDistribution = (\<lambda>k. case sa_FileTypeDistribution a k of None \<Rightarrow> None
           | Some v \<Rightarrow> (case formatBytes X v of Inl e \<Rightarrow> None | Inr s \<Rightarrow> Some s))\<rparr> items)))))))"

definition handleBlocks :: "pg_env \<Rightarrow> explorer_env \<Rightarrow> bytes \<Rightarrow> pg \<Rightarrow> ex_reply result \<times> pg" where
  "handleBlocks P X query_page =
     (let page = page_number query_page in
      or_reply (GetBlocks P page_size (page_offset page)) (\<lambda>e. ExError 500 ''Error fetching blocks: '' (Some e)) (\<lambda>blocks.
      sbind (or_else (GetTotalBlocks P) 0) (\<lambda>totalBlocks.
      Pair (rbind (map_res (block_item X) blocks) (\<lambda>items.
        Inr (BlocksR \<lparr>lp_Title = ascii ''Blocks'', lp_Items = items, lp_Total = totalBlocks,
          lp_Pagination = page_links ''/blocks'' page totalBlocks\<rparr>))))))"

definition handleBlockDetails :: "pg_env \<Rightarrow> explorer_env \<Rightarrow> bytes \<Rightarrow> pg \<Rightarrow> ex_reply result \<times> pg" where
  "handleBlockDetails P X heightStr =
     (case ParseUint heightStr of
        Inl e \<Rightarrow> Pair (Inr (ExError 400 ''Invalid block height'' None))
      | Inr height \<Rightarrow>
          or_reply (GetBlockIndex P height) (\<lambda>e. if e = ErrNoRows then ExError 404 ''Block not found'' None
            else ExError 500 ''Error fetching block: '' (Some e)) (\<lambda>block.
          sbind (or_else (GetFilesByBlockHeight P height) []) (\<lambda>files.
          sbind (or_else (GetDirectoriesByBlockHeight P height) []) (\<lambda>directories.
          sbind (or_else (GetChunksByBlockHeight P height) []) (\<lambda>chunks.
          Pair (rbind (map_res (chunk_info X) chunks) (\<lambda>chunksData. rbind (block_details X block) (\<lambda>blockData.
            rbind (map_res (file_data X) files) (\<lambda>fileData. rbind (map_res (dir_data X) directories) (\<lambda>directoryData.
            Inr (BlockR \<lparr>bp_Title = ascii ''Block '' @ dec (unat height), bp_Block = blockData, bp_Files = fileData,
              bp_Directories = directoryData, bp_Chunks = chunksData, bp_HasFiles = (fileData \<noteq> [])\<rparr>)))))))))))"

definition handleFiles :: "pg_env \<Rightarrow> explorer_env \<Rightarrow> bytes \<Rightarrow> pg \<Rightarrow> ex_reply result \<times> pg" where
  "handleFiles P X query_page =
     (let page = page_number query_page in
      or_reply (GetFiles P page_size (page_offset page)) (\<lambda>e. ExError 500 ''Error fetching files: '' (Some e)) (\<lambda>files.
      sbind (or_else (GetTotalFiles P) 0) (\<lambda>totalFiles.
      Pair (rbind (map_res (file_data X) files) (\<lambda>items.
        Inr (FilesR \<lparr>lp_Title = ascii ''Files'', lp_Items = items, lp_Total = totalFiles,
          lp_Pagination = page_links ''/files'' page totalFiles\<rparr>))))))"

definition handleFileDetails :: "pg_env \<Rightarrow> explorer_env \<Rightarrow> bytes \<Rightarrow> pg \<Rightarrow> ex_reply result \<times> pg" where
  "handleFileDetails P X blobId =
     or_reply (GetFileIndex P blobId) (\<lambda>e. if e = ErrNoRows then ExError 404 ''File not found'' None
       else ExError 500 ''Error fetching file: '' (Some e)) (\<lambda>f.
     sbind (or_else (GetFileChunks P (fx_BlobID f)) []) (\<lambda>chunks.
     Pair (rbind (file_data X f) (\<lambda>fileData. rbind (map_res (chunk_info X) chunks) (\<lambda>chunksData.
       Inr (FileR (truncateString (fx_FileName f) 30) fileData chunksData))))))"

definition handleDirectories :: "pg_env \<Rightarrow> explorer_env \<Rightarrow> bytes \<Rightarrow> pg \<Rightarrow> ex_reply result \<times> pg" where
  "handleDirectories P X query_page =
     (let page = page_number query_page in
      or_reply (GetDirectories P page_size (page_offset page)) (\<lambda>e. ExError 500 ''Error fetching directories: '' (Some e)) (\<lambda>dirs.
      sbind (or_else (GetTotalDirectories P) 0) (\<lambda>totalDirectories.
      Pair (rbind (map_res (\<lambda>d. map_sum id (\<lambda>x. x\<lparr>di_DirectoryName := truncateString (dx_DirectoryName d) 30\<rparr>) (dir_data X d)) dirs)
        (\<lambda>items. Inr (DirectoriesR \<lparr>lp_Title = ascii ''Directories'', lp_Items = items, lp_Total = totalDirectories,
          lp_Pagination = page_links ''/directories'' page totalDirectories\<rparr>))))))"

definition handleDirectoryDetails :: "pg_env \<Rightarrow> explorer_env \<Rightarrow> bytes \<Rightarrow> pg \<Rightarrow> ex_reply result \<times> pg" where
  "handleDirectoryDetails P X blobId =
     or_reply (GetDirectoryByID P blobId) (\<lambda>e. if e = ErrNoRows then ExError 404 ''Directory not found'' None
       else ExError 500 ''Error fetching directory: '' (Some e)) (\<lambda>d.
     Pair (rbind (dir_data X d) (\<lambda>directoryData. Inr (DirectoryR (dx_DirectoryName d) directoryData))))"

definition no_filters :: FileFilters where
  "no_filters = \<lparr>ff_MimeType = [], ff_MinSize = 0, ff_MaxSize = 0, ff_After = None, ff_Before = None\<rparr>"

text \<open>The results of a search have no hash.\<close>

definition handleSearch :: "pg_env \<Rightarrow> explorer_env \<Rightarrow> bytes \<Rightarrow> pg \<Rightarrow> ex_reply result \<times> pg" where
  "handleSearch P X q =
     (if q = [] then Pair (Inr (SearchR q [] False))
      else sbind (or_else (SearchFiles P q no_filters 50 0) []) (\<lambda>files.
        Pair (rbind (map_res (\<lambda>f. map_sum id (\<lambda>x. x\<lparr>fd_FileHash := []\<rparr>) (file_data X f)) files) (\<lambda>items. Inr (SearchR q items True)))))"

definition block_json :: "explorer_env \<Rightarrow> BlockIndex \<Rightarrow> BlockJson result" where
  "block_json X b = rbind (formatBytes X (bx_StorageUsed b)) (\<lambda>used.
     Inr \<lparr>bj_height = bx_Height b, bj_hash = truncateString (bx_Hash b) 20, bj_full_hash = bx_Hash b,
       bj_timestamp = ex_time X short_time (bx_Timestamp b), bj_celestia_height = bx_CelestiaHeight b,
       bj_total_files = bx_TotalFiles b, bj_total_directories = bx_TotalDirectories b, bj_total_chunks = bx_TotalChunks b,
       bj_storage_used = used, bj_storage_bytes = bx_StorageUsed b\<rparr>)"

definition apiGetBlocks :: "pg_env \<Rightarrow> explorer_env \<Rightarrow> bytes \<Rightarrow> pg \<Rightarrow> ex_reply result \<times> pg" where
  "apiGetBlocks P X l =
     (let limit = (if l \<noteq> [] then (case Atoi l of Inl e \<Rightarrow> 50 | Inr parsed \<Rightarrow> if parsed > 0 \<and> parsed \<le> 100 then parsed else 50) else 50) in
      or_reply (GetBlocks P limit 0) (\<lambda>e. ExError 500 [] (Some e)) (\<lambda>blocks.
      Pair (rbind (map_res (block_json X) blocks) (\<lambda>items. Inr (JsonBlocks items)))))"

definition apiGetAnalytics :: "pg_env \<Rightarrow> pg \<Rightarrow> ex_reply result \<times> pg" where
  "apiGetAnalytics P = or_reply (GetStorageAnalytics P) (\<lambda>e. ExError 500 [] (Some e)) (\<lambda>a. Pair (Inr (JsonAnalytics a)))"

end
