(* ===== verification/Rest.thy ===== *)
theory Rest
  imports Hex Explorer_Proofs Rollup_Api
begin

text \<open>
  The REST API \<open>pkg/api/rest\<close>: blocks by height and by hash, manifests and chain information as JSON. The
  node's rollup service is the record \<open>rollup_client\<close> and its storage service \<open>storage_client\<close>; a message of an
  answer may be nil. The hash of a block is computed again, through the cache of the API's own process.
\<close>

section \<open>Responses\<close>

record BlockResponse =
  br_ChainID :: bytes
  br_Height :: u64
  br_CelestiaBlockHeight :: u64
  br_Timestamp :: int
  br_Hash :: bytes
  br_ParentHash :: bytes
  br_DirsRoot :: bytes
  br_FilesRoot :: bytes
  br_ChunksRoot :: bytes
  br_StateRoot :: bytes
  br_Chunks :: "bytes list"
  br_Files :: "bytes list"
  br_Dirs :: "bytes list"

record FileManifestResponse =
  fr_FileName :: bytes
  fr_MimeType :: bytes
  fr_FileSize :: u64
  fr_FileHash :: bytes
  fr_CompressionAlgorithm :: string
  fr_Chunks :: "bytes list"

record DirectoryManifestResponse =
  dr_DirectoryName :: bytes
  dr_DirectoryHash :: bytes
  dr_Files :: "(bytes \<times> bytes) list"

datatype rest_reply =
    RestError nat string
  | ChainInfoR ChainInfo
  | BlockRespR BlockResponse
  | FileManifestR FileManifestResponse
  | DirectoryManifestR DirectoryManifestResponse
  | HealthyR

record rollup_client =
  rc_GetChainInfo :: "ChainInfo result"
  rc_GetBlockByHeight :: "u64 \<Rightarrow> pbBlock option result"
  rc_GetBlockByHash :: "bytes \<Rightarrow> pbBlock option result"
  rc_GetLatestBlock :: "pbBlock option result"

record rest_server =
  rs_rollup :: rollup_client
  rs_storage :: storage_client
  rs_base36 :: base36
  rs_B :: blake3

definition is_NotFound :: "err \<Rightarrow> bool" where
  "is_NotFound e \<longleftrightarrow> (case e of Status c m \<Rightarrow> c = NotFound | _ \<Rightarrow> False)"

definition compressionAlgorithmToString :: "CompressionAlgorithm \<Rightarrow> string" where
  "compressionAlgorithmToString a = (case a of NONE \<Rightarrow> ''none'' | UNSPECIFIED \<Rightarrow> ''unknown'')"

text \<open>The identifiers of a body, as strings.\<close>

definition id_strings :: "base36 \<Rightarrow> pbBlobIdentifier list \<Rightarrow> bytes list result" where
  "id_strings c ms = map_res (\<lambda>m. rbind (BlobIdentifierFromProto (Some m)) (\<lambda>i. Inr (bi_String c i))) ms"

definition blockToResponse :: "rest_server \<Rightarrow> pbBlock \<Rightarrow> hash_cache \<Rightarrow> BlockResponse result \<times> hash_cache" where
  "blockToResponse R block cache =
     (case rbind (present (pb_Body block)) (\<lambda>body.
         rbind (id_strings (rs_base36 R) (pbb_Chunks body)) (\<lambda>chunks.
         rbind (id_strings (rs_base36 R) (pbb_Files body)) (\<lambda>files.
         rbind (id_strings (rs_base36 R) (pbb_Dirs body)) (\<lambda>dirs.
         rbind (BlockHeaderFromProto (pb_Header block)) (\<lambda>bh. Inr (chunks, files, dirs, bh)))))) of
        Inl e \<Rightarrow> (Inl e, cache)
      | Inr (chunks, files, dirs, bh) \<Rightarrow> (let (hash, cache) = bh_Hash (rs_B R) cache bh in
          (Inr \<lparr>br_ChainID = bh_ChainID bh, br_Height = bh_Height bh, br_CelestiaBlockHeight = bh_CelestiaBlockHeight bh,
             br_Timestamp = sint (unix_sec (bh_Timestamp bh)), br_Hash = hash_String hash,
             br_ParentHash = hash_String (bh_ParentHash bh), br_DirsRoot = hash_String (bh_DirsRoot bh),
             br_FilesRoot = hash_String (bh_FilesRoot bh), br_ChunksRoot = hash_String (bh_ChunksRoot bh),
             br_StateRoot = hash_String (bh_StateRoot bh), br_Chunks = chunks, br_Files = files, br_Dirs = dirs\<rparr>, cache)))"

section \<open>Handlers\<close>

definition getChainInfo :: "rest_server \<Rightarrow> rest_reply result" where
  "getChainInfo R = (case rc_GetChainInfo (rs_rollup R) of
     Inl e \<Rightarrow> Inr (RestError 500 ''Failed to get chain info'')
   | Inr chainInfo \<Rightarrow> Inr (ChainInfoR chainInfo))"

text \<open>What the answer of the node becomes.\<close>

definition block_reply :: "rest_server \<Rightarrow> string \<Rightarrow> string \<Rightarrow> pbBlock option result \<Rightarrow> hash_cache \<Rightarrow> rest_reply result \<times> hash_cache" where
  "block_reply R missing failed resp cache =
     (case resp of
        Inl e \<Rightarrow> (Inr (if is_NotFound e then RestError 404 missing else RestError 500 failed), cache)
      | Inr block \<Rightarrow> (case present block of
          Inl e \<Rightarrow> (Inl e, cache)
        | Inr block \<Rightarrow> apfst (\<lambda>r. rbind r (\<lambda>b. Inr (BlockRespR b))) (blockToResponse R block cache)))"

definition getBlockByHeight :: "rest_server \<Rightarrow> bytes \<Rightarrow> hash_cache \<Rightarrow> rest_reply result \<times> hash_cache" where
  "getBlockByHeight R heightStr cache =
     (case ParseUint heightStr of
        Inl e \<Rightarrow> (Inr (RestError 400 ''Invalid height''), cache)
      | Inr height \<Rightarrow> block_reply R ''Block not found'' ''Failed to get block'' (rc_GetBlockByHeight (rs_rollup R) height) cache)"

definition getBlockByHash :: "rest_server \<Rightarrow> bytes \<Rightarrow> hash_cache \<Rightarrow> rest_reply result \<times> hash_cache" where
  "getBlockByHash R hashStr cache =
     (let hashStr = (if HasPrefix hashStr (ascii ''0x'') then drop 2 hashStr else hashStr) in
      case hex_DecodeString hashStr of
        Inl e \<Rightarrow> (Inr (RestError 400 ''Invalid hash format''), cache)
      | Inr hashBytes \<Rightarrow>
          if length hashBytes \<noteq> 32 then (Inr (RestError 400 ''Hash must be 32 bytes''), cache)
          else block_reply R ''Block not found'' ''Failed to get block'' (rc_GetBlockByHash (rs_rollup R) hashBytes) cache)"

definition getBlockByHeightOrHash :: "rest_server \<Rightarrow> bytes \<Rightarrow> hash_cache \<Rightarrow> rest_reply result \<times> hash_cache" where
  "getBlockByHeightOrHash R heightOrHash cache =
     (if HasPrefix heightOrHash (ascii ''0x'') \<or> length heightOrHash = 64 then getBlockByHash R heightOrHash cache
      else getBlockByHeight R heightOrHash cache)"

definition getLatestBlock :: "rest_server \<Rightarrow> hash_cache \<Rightarrow> rest_reply result \<times> hash_cache" where
  "getLatestBlock R cache =
     block_reply R ''No blocks available'' ''Failed to get latest block'' (rc_GetLatestBlock (rs_rollup R)) cache"

definition getFileManifest :: "rest_server \<Rightarrow> bytes \<Rightarrow> rest_reply result" where
  "getFileManifest R idStr =
     (case BlobIdentifierFromString (rs_base36 R) idStr of
        Inl e \<Rightarrow> if is_panic e then Inl e else Inr (RestError 400 ''Invalid manifest ID'')
      | Inr i \<Rightarrow> (case sc_GetFileManifest (rs_storage R) (bi_ID (rs_base36 R) i) of
          Inl e \<Rightarrow> Inr (RestError 404 ''Manifest not found'')
        | Inr manifest \<Rightarrow> rbind (present manifest) (\<lambda>m. rbind (to_hash (fm_FileHash m)) (\<lambda>fileHash.
            rbind (map_res (\<lambda>chunk. rbind (BlobIdentifierFromProto (cr_Id chunk)) (\<lambda>i. Inr (bi_String (rs_base36 R) i))) (fm_Chunks m)) (\<lambda>chunks.
            Inr (FileManifestR \<lparr>fr_FileName = fm_FileName m, fr_MimeType = fm_MimeType m, fr_FileSize = fm_FileSize m,
              fr_FileHash = hash_String fileHash, fr_CompressionAlgorithm = compressionAlgorithmToString (fm_Compression m),
              fr_Chunks = chunks\<rparr>))))))"

definition getDirectoryManifest :: "rest_server \<Rightarrow> bytes \<Rightarrow> rest_reply result" where
  "getDirectoryManifest R idStr =
     (case BlobIdentifierFromString (rs_base36 R) idStr of
        Inl e \<Rightarrow> if is_panic e then Inl e else Inr (RestError 400 ''Invalid manifest ID'')
      | Inr i \<Rightarrow> (case sc_GetDirectoryManifest (rs_storage R) (bi_ID (rs_base36 R) i) of
          Inl e \<Rightarrow> Inr (RestError 404 ''Manifest not found'')
        | Inr manifest \<Rightarrow> rbind (present manifest) (\<lambda>m. rbind (to_hash (dm_DirectoryHash m)) (\<lambda>directoryHash.
            rbind (map_res (\<lambda>f. rbind (BlobIdentifierFromProto (fr_Id f)) (\<lambda>i. Inr (bi_String (rs_base36 R) i, fr_RelativePath f))) (dm_Files m))
              (\<lambda>files. Inr (DirectoryManifestR \<lparr>dr_DirectoryName = dm_DirectoryName m, dr_DirectoryHash = hash_String directoryHash,
              dr_Files = files\<rparr>))))))"

definition healthCheck :: "rest_reply" where
  "healthCheck = HealthyR"

section \<open>Over a node\<close>

text \<open>The rollup service of a node with the database \<open>d\<close>, as its clients see it.\<close>

definition rollup_of :: "('d, 'b) env \<Rightarrow> 'd \<Rightarrow> hash_cache \<Rightarrow> rollup_client" where
  "rollup_of E d cache = \<lparr>rc_GetChainInfo = rpc_GetChainInfo E d,
     rc_GetBlockByHeight = (\<lambda>h. map_sum id Some (fst (rpc_GetBlockByHeight E d cache h))),
     rc_GetBlockByHash = (\<lambda>x. map_sum id Some (fst (rpc_GetBlockByHash E d cache x))),
     rc_GetLatestBlock = map_sum id Some (fst (rpc_GetLatestBlock E d cache))\<rparr>"

text \<open>The response that describes a block.\<close>

definition response_of :: "base36 \<Rightarrow> blake3 \<Rightarrow> Block \<Rightarrow> BlockResponse" where
  "response_of c B b = (let bh = bh_canon (b_Header b) in
     \<lparr>br_ChainID = bh_ChainID bh, br_Height = bh_Height bh, br_CelestiaBlockHeight = bh_CelestiaBlockHeight bh,
      br_Timestamp = sint (unix_sec (bh_Timestamp bh)), br_Hash = hash_String (header_hash B bh),
      br_ParentHash = hash_String (bh_ParentHash bh), br_DirsRoot = hash_String (bh_DirsRoot bh),
      br_FilesRoot = hash_String (bh_FilesRoot bh), br_ChunksRoot = hash_String (bh_ChunksRoot bh),
      br_StateRoot = hash_String (bh_StateRoot bh), br_Chunks = map (bi_String c) (bb_Chunks (b_Body b)),
      br_Files = map (bi_String c) (bb_Files (b_Body b)), br_Dirs = map (bi_String c) (bb_Dirs (b_Body b))\<rparr>)"

lemma id_strings_bi_Proto [simp]: "id_strings c (map bi_Proto is) = Inr (map (bi_String c) is)"
  by (induction "is") (simp_all add: id_strings_def)

lemma BlockHeaderFromProto_bh_Proto [simp]: "BlockHeaderFromProto (Some (bh_Proto bh)) = Inr bh"
  by (simp add: BlockHeaderFromProto_def bh_Proto_def)

lemma blockToResponse_b_Proto:
  assumes "bh_Hash (rs_B R) cache (bh_canon (b_Header b)) = (header_hash (rs_B R) (b_Header b), cache')"
    and "pb_Header p = Some (bh_Proto (bh_canon (b_Header b)))" "pb_Body p = Some (bb_Proto (b_Body b))"
  shows "blockToResponse R p cache = (Inr (response_of (rs_base36 R) (rs_B R) b), cache')"
  using assms by (simp add: blockToResponse_def present_def bb_Proto_def response_of_def Let_def)

text \<open>What the node sends for a stored block.\<close>

lemma b_Proto_parts: "pb_Header (fst (b_Proto B cache b)) = Some (bh_Proto (b_Header b))"
  "pb_Body (fst (b_Proto B cache b)) = Some (bb_Proto (b_Body b))"
  by (simp_all add: b_Proto_def split_beta Let_def)

lemma node_sends_block:
  assumes "GetBlock E d h = Inr (Some (b_canon b))" "pb = fst (b_Proto (e_B E) cache (b_canon b))"
  shows "rc_GetBlockByHeight (rollup_of E d cache) h = Inr (Some pb)"
  using assms by (simp add: rollup_of_def rpc_GetBlockByHeight_def split_beta)

lemma node_sends_hash:
  assumes "GetBlockByHash E d x = Inr (Some (b_canon b))" "pb = fst (b_Proto (e_B E) cache (b_canon b))"
  shows "rc_GetBlockByHash (rollup_of E d cache) (hash_Bytes x) = Inr (Some pb)"
  using assms by (simp add: rollup_of_def rpc_GetBlockByHash_def split_beta)

lemma ParseUint_dec: "n < 2 ^ 64 \<Longrightarrow> ParseUint (dec n) = Inr (of_nat n)"
  using digits_dec [of n] by (simp add: ParseUint_def)

lemma length_dec: "n < 10 ^ k \<Longrightarrow> 0 < k \<Longrightarrow> length (dec n) \<le> k"
proof (induction k arbitrary: n)
  case (Suc k)
  show ?case
  proof (cases "n < 10")
    case False
    then have "0 < k" using Suc.prems(1) by (cases k) auto
    moreover have "n div 10 < 10 ^ k" using Suc.prems(1) by (simp add: less_mult_imp_div_less mult.commute)
    ultimately show ?thesis using Suc.IH [of "n div 10"] False by (subst dec.simps) simp
  qed (subst dec.simps, simp)
qed simp

text \<open>A decimal number is not taken for a hash.\<close>

lemma dec_is_no_hash: "n < 2 ^ 64 \<Longrightarrow> \<not> HasPrefix (dec n) (ascii ''0x'') \<and> length (dec n) \<noteq> 64"
proof -
  assume "n < 2 ^ 64"
  then have "n < 10 ^ 20" by simp
  then have len: "length (dec n) \<le> 20" by (rule length_dec) simp
  have "(120 :: byte) \<notin> set (dec n)" using digits_dec [of n] by (auto simp: all_digits_def list_all_iff)
  then have "\<not> HasPrefix (dec n) (ascii ''0x'')" by (auto simp: HasPrefix_iff ascii_def)
  with len show ?thesis by simp
qed

end
