(* ===== verification/Index_Views.thy ===== *)
theory Index_Views
  imports Index_Blocks Rest Bodies
begin

text \<open>
  The index, the explorer and the REST API put together: the page of a block shows what the indexer wrote
  for it, and the REST API answers with the blocks of the node's chain.
\<close>

section \<open>The pages of an indexed block\<close>

lemma map_res_member: "map_res f xs = Inr ys \<Longrightarrow> x \<in> set xs \<Longrightarrow> \<exists>y\<in>set ys. f x = Inr y"
  by (induction xs arbitrary: ys) (auto simp: rbind_eq_Inr)

lemma sbind_answer: "m D = (Inr x, D') \<Longrightarrow> sbind (or_else m v) f D = f x D'"
  by (simp add: sbind_def or_else_def)

lemma or_reply_answer: "m D = (Inr x, D') \<Longrightarrow> or_reply m fail f D = f x D'"
  by (simp add: or_reply_def)

text \<open>Reads of a server that answers; the tables stay as they are.\<close>

lemma reads_answered:
  assumes P: "answers_all P" "pg_ok P" and h: "unat h < 2 ^ 63"
  shows "\<exists>xs. GetFilesByBlockHeight P h D = (Inr xs, D\<lparr>pg_calls := pg_calls D + 1\<rparr>)
      \<and> set xs = scan_file ` {r \<in> set (tb_files (pg_tables D)). fw_block_height r = h}"
    and "\<exists>xs. GetDirectoriesByBlockHeight P h D = (Inr xs, D\<lparr>pg_calls := pg_calls D + 1\<rparr>)
      \<and> set xs = scan_directory ` {r \<in> set (tb_directories (pg_tables D)). dw_block_height r = h}"
    and "\<exists>xs. GetChunksByBlockHeight P h D = (Inr xs, D\<lparr>pg_calls := pg_calls D + 1\<rparr>)
      \<and> set xs = {r \<in> set (tb_chunks (pg_tables D)). cx_BlockHeight r = h}"
    and "row_of bx_Height h (tb_blocks (pg_tables D)) = Some b
      \<Longrightarrow> GetBlockIndex P h D = (Inr b, D\<lparr>pg_calls := pg_calls D + 1\<rparr>)"
  using h
  by (simp_all add: set_visit [OF P(2)] GetFilesByBlockHeight_def GetDirectoriesByBlockHeight_def GetChunksByBlockHeight_def GetBlockIndex_def
      query_answered [OF P(1)] queryRow_answered [OF P(1)] bigint_def)

text \<open>The page of a block with a row.\<close>

lemma block_page:
  assumes P: "answers_all P" "pg_ok P" and h: "unat h < 2 ^ 63"
    and row: "row_of bx_Height h (tb_blocks (pg_tables D)) = Some b"
  shows "\<exists>pg D'. handleBlockDetails P X (dec (unat h)) D = (Inr (BlockR pg), D') \<and> block_details X b = Inr (bp_Block pg)
    \<and> (\<forall>r\<in>set (tb_files (pg_tables D)). fw_block_height r = h \<longrightarrow> (\<exists>x\<in>set (bp_Files pg). file_data X (scan_file r) = Inr x))
    \<and> (\<forall>r\<in>set (tb_directories (pg_tables D)). dw_block_height r = h \<longrightarrow> (\<exists>x\<in>set (bp_Directories pg). dir_data X (scan_directory r) = Inr x))
    \<and> (\<forall>r\<in>set (tb_chunks (pg_tables D)). cx_BlockHeight r = h \<longrightarrow> (\<exists>x\<in>set (bp_Chunks pg). chunk_info X r = Inr x))"
proof -
  define D1 where "D1 = D\<lparr>pg_calls := pg_calls D + 1\<rparr>"
  define D2 where "D2 = D1\<lparr>pg_calls := pg_calls D1 + 1\<rparr>"
  define D3 where "D3 = D2\<lparr>pg_calls := pg_calls D2 + 1\<rparr>"
  have t: "pg_tables D1 = pg_tables D" "pg_tables D2 = pg_tables D" by (simp_all add: D1_def D2_def)
  obtain fs where fs: "GetFilesByBlockHeight P h D1 = (Inr fs, D2)"
    "set fs = scan_file ` {r \<in> set (tb_files (pg_tables D)). fw_block_height r = h}"
    using reads_answered(1) [OF P h, of D1] unfolding D2_def [symmetric] t by blast
  obtain ds where ds: "GetDirectoriesByBlockHeight P h D2 = (Inr ds, D3)"
    "set ds = scan_directory ` {r \<in> set (tb_directories (pg_tables D)). dw_block_height r = h}"
    using reads_answered(2) [OF P h, of D2] unfolding D3_def [symmetric] t by blast
  obtain cs D4 where cs: "GetChunksByBlockHeight P h D3 = (Inr cs, D4)"
    "set cs = {r \<in> set (tb_chunks (pg_tables D)). cx_BlockHeight r = h}"
    using reads_answered(3) [OF P h, of D3] by (auto simp: D3_def t)
  have blk: "GetBlockIndex P h D = (Inr b, D1)" unfolding D1_def by (rule reads_answered(4) [OF P h row])
  obtain xf xd xc xb where x: "map_res (file_data X) fs = Inr xf" "map_res (dir_data X) ds = Inr xd"
    "map_res (chunk_info X) cs = Inr xc" "block_details X b = Inr xb"
    using map_res_total [of "file_data X" fs] map_res_total [of "dir_data X" ds] map_res_total [of "chunk_info X" cs]
      file_data_total [of X] dir_data_total [of X] chunk_info_total [of X] block_details_total [of X b] by blast
  have "ParseUint (dec (unat h)) = Inr h" using ParseUint_dec [OF unat_less_pow64, of h] by simp
  then have "handleBlockDetails P X (dec (unat h)) D = (Inr (BlockR \<lparr>bp_Title = ascii ''Block '' @ dec (unat h), bp_Block = xb,
      bp_Files = xf, bp_Directories = xd, bp_Chunks = xc, bp_HasFiles = (xf \<noteq> [])\<rparr>), D4)"
    unfolding handleBlockDetails_def
    by (simp add: or_reply_answer [where m = "GetBlockIndex P h", OF blk]
        sbind_answer [where m = "GetFilesByBlockHeight P h", OF fs(1)] sbind_answer [where m = "GetDirectoriesByBlockHeight P h", OF ds(1)]
        sbind_answer [where m = "GetChunksByBlockHeight P h", OF cs(1)] x)
  then show ?thesis using map_res_member [OF x(1)] map_res_member [OF x(2)] map_res_member [OF x(3)] x(4) fs(2) ds(2) cs(2)
    by (intro exI conjI) (assumption | simp)+
qed

text \<open>The page of a file with its chunks.\<close>

lemma file_page:
  assumes P: "answers_all P" "pg_ok P" and ok: "schema_ok P (pg_tables D)"
    and row: "row_of fw_blob_id i (tb_files (pg_tables D)) = Some r"
  shows "\<exists>title f chs D'. handleFileDetails P X i D = (Inr (FileR title f chs), D') \<and> file_data X (scan_file r) = Inr f
    \<and> (\<forall>k n. \<lparr>fc_file_id = i, fc_chunk_id = k, fc_chunk_index = n\<rparr> \<in> set (tb_file_chunks (pg_tables D))
         \<longrightarrow> (\<exists>x\<in>set chs. ci_BlobID x = k \<and> ci_Index x = n))"
proof -
  have r: "r \<in> set (tb_files (pg_tables D))" "fw_blob_id r = i" using row_of_Some [OF row] by auto
  then have "checks (file_columns P r) = Inr ()" using ok by (simp add: schema_defs)
  then have name: "pg_text P i" using r(2) by (simp add: file_columns_def rbind_eq_Inr)
  define D1 where "D1 = D\<lparr>pg_calls := pg_calls D + 1\<rparr>"
  have get: "GetFileIndex P i D = (Inr (scan_file r), D1)"
    using row name by (simp add: as_text_def GetFileIndex_def queryRow_answered [OF P(1)] D1_def)
  let ?cs = "sort_key cx_Index (List.map_filter (join_chunk (tb_chunks (pg_tables D)))
       (filter (\<lambda>r. fc_file_id r = i) (visit P (pg_calls D1) (tb_file_chunks (pg_tables D)))))"
  have chunks: "GetFileChunks P (fx_BlobID (scan_file r)) D1 = (Inr ?cs, D1\<lparr>pg_calls := pg_calls D1 + 1\<rparr>)"
    using name r(2) by (simp add: as_text_def GetFileChunks_def query_answered [OF P(1)] D1_def scan_file_def)
  obtain f xs where x: "file_data X (scan_file r) = Inr f" "map_res (chunk_info X) ?cs = Inr xs"
    using file_data_total [of X "scan_file r"] map_res_total [of "chunk_info X" ?cs] chunk_info_total [of X] by blast
  have "\<exists>y\<in>set xs. ci_BlobID y = k \<and> ci_Index y = n"
    if mem: "\<lparr>fc_file_id = i, fc_chunk_id = k, fc_chunk_index = n\<rparr> \<in> set (tb_file_chunks (pg_tables D))" for k n
  proof -
    let ?e = "\<lparr>fc_file_id = i, fc_chunk_id = k, fc_chunk_index = n\<rparr>"
    have "k \<in> cx_BlobID ` set (tb_chunks (pg_tables D))" using ok mem by (force simp: schema_defs)
    then obtain ch where ch: "row_of cx_BlobID k (tb_chunks (pg_tables D)) = Some ch" using row_of_exists by metis
    then have key: "cx_BlobID ch = k" using row_of_Some by metis
    have "join_chunk (tb_chunks (pg_tables D)) ?e = Some (ch\<lparr>cx_Index := n\<rparr>)" by (simp add: join_chunk_def ch)
    then have "ch\<lparr>cx_Index := n\<rparr> \<in> set ?cs"
      using mem set_visit [OF P(2)] by (force simp: map_filter_def image_iff)
    from map_res_member [OF x(2) this] obtain y where y: "y \<in> set xs" "chunk_info X (ch\<lparr>cx_Index := n\<rparr>) = Inr y" by blast
    from y(2) key have "ci_BlobID y = k \<and> ci_Index y = n" by (auto simp: chunk_info_def rbind_eq_Inr)
    with y(1) show ?thesis by blast
  qed
  moreover have "handleFileDetails P X i D = (Inr (FileR (truncateString (fx_FileName (scan_file r)) 30) f xs), D1\<lparr>pg_calls := pg_calls D1 + 1\<rparr>)"
    unfolding handleFileDetails_def by (simp add: or_reply_answer [where m = "GetFileIndex P i", OF get]
        sbind_answer [where m = "GetFileChunks P (fx_BlobID (scan_file r))", OF chunks] x)
  ultimately show ?thesis using x(1) by blast
qed

section \<open>An indexed block\<close>

lemma indexBlock_typed: "pg_ok P \<Longrightarrow> indexBlock P I C h D = (r, D') \<Longrightarrow> schema_ok P (pg_tables D) \<Longrightarrow> schema_ok P (pg_tables D')"
  using keepsD [OF keeps_indexBlock [where F = "\<lambda>_. True"]] by blast

lemma formatted_block:
  "block_details X (the_block_row B b used) = Inr x \<Longrightarrow> bd_Hash x = hex_EncodeToString (hash_Bytes (header_hash B (b_Header b)))
     \<and> bd_StateRoot x = hex_EncodeToString (hash_Bytes (bh_StateRoot (b_Header b)))
     \<and> bd_TotalChunks x = int (length (bb_Chunks (b_Body b))) \<and> formatBytes X used = Inr (bd_StorageUsed x)"
  by (auto simp: block_details_def rbind_eq_Inr block_index_def bh_Proto_def bh_canon_def bb_Proto_def)

text \<open>What the page of an indexed block shows.\<close>

definition page_shows :: "index_env \<Rightarrow> contents \<Rightarrow> layout \<Rightarrow> explorer_env \<Rightarrow> blake3 \<Rightarrow> Block \<Rightarrow> block_page \<Rightarrow> bool" where
  "page_shows I K L X B b pg \<longleftrightarrow>
     bd_Hash (bp_Block pg) = hex_EncodeToString (hash_Bytes (header_hash B (b_Header b)))
     \<and> bd_StateRoot (bp_Block pg) = hex_EncodeToString (hash_Bytes (bh_StateRoot (b_Header b)))
     \<and> bd_TotalChunks (bp_Block pg) = int (length (bb_Chunks (b_Body b)))
     \<and> formatBytes X (storage_used I K (b_Body b)) = Inr (bd_StorageUsed (bp_Block pg))
     \<and> (\<forall>i\<in>set (bb_Chunks (b_Body b)). \<exists>x\<in>set (bp_Chunks pg). ci_BlobID x = bi_ID (ie_base36 I) i
          \<and> ci_ChunkHash x = hex_EncodeToString (cr_ChunkHash (ct_ref K i)))
     \<and> (\<forall>i\<in>set (bb_Files (b_Body b)). \<exists>x\<in>set (bp_Files pg). fd_BlobID x = bi_ID (ie_base36 I) i
          \<and> fd_FileName x = fm_FileName (ct_file K i) \<and> fd_FileHash x = hex_EncodeToString (fm_FileHash (ct_file K i)))
     \<and> (\<forall>i\<in>set (bb_Dirs (b_Body b)). \<exists>x\<in>set (bp_Directories pg). di_BlobID x = bi_ID (ie_base36 I) i
          \<and> di_DirectoryName x = dm_DirectoryName (ct_dir K i) \<and> di_FileCount x = int (length (dm_Files (ct_dir K i))))"

lemma facts_on_page:
  assumes facts: "all_hold I K L (block_facts L) t" and L: "ly_body L = b_Body b"
    and blk: "block_details X (the_block_row B b (storage_used I K (b_Body b))) = Inr (bp_Block pg)"
    and fs: "\<forall>r\<in>set (tb_files t). fw_block_height r = ly_height L \<longrightarrow> (\<exists>x\<in>set (bp_Files pg). file_data X (scan_file r) = Inr x)"
    and ds: "\<forall>r\<in>set (tb_directories t). dw_block_height r = ly_height L \<longrightarrow> (\<exists>x\<in>set (bp_Directories pg). dir_data X (scan_directory r) = Inr x)"
    and cs: "\<forall>r\<in>set (tb_chunks t). cx_BlockHeight r = ly_height L \<longrightarrow> (\<exists>x\<in>set (bp_Chunks pg). chunk_info X r = Inr x)"
  shows "page_shows I K L X B b pg"
  unfolding page_shows_def
proof (intro conjI ballI)
  fix i
  {
    assume i: "i \<in> set (bb_Chunks (b_Body b))"
    then have "ChunkFact i \<in> block_facts L" by (simp add: block_facts_def L)
    with facts obtain j where "row_of cx_BlobID (bi_ID (ie_base36 I) i) (tb_chunks t) = Some (chunk_row (ie_base36 I) K (ly_height L) j i)"
      by fastforce
    then have "chunk_row (ie_base36 I) K (ly_height L) j i \<in> set (tb_chunks t)" by (rule row_of_Some [THEN conjunct1])
    with cs obtain x where x: "x \<in> set (bp_Chunks pg)" "chunk_info X (chunk_row (ie_base36 I) K (ly_height L) j i) = Inr x"
      by (fastforce simp: chunk_row_def)
    then have "ci_BlobID x = bi_ID (ie_base36 I) i \<and> ci_ChunkHash x = hex_EncodeToString (cr_ChunkHash (ct_ref K i))"
      by (auto simp: chunk_info_def chunk_row_def rbind_eq_Inr)
    with x(1) show "\<exists>x\<in>set (bp_Chunks pg). ci_BlobID x = bi_ID (ie_base36 I) i
        \<and> ci_ChunkHash x = hex_EncodeToString (cr_ChunkHash (ct_ref K i))" by blast
  next
    assume i: "i \<in> set (bb_Files (b_Body b))"
    then have "FileFact i \<in> block_facts L" by (simp add: block_facts_def L)
    with facts have "row_of fw_blob_id (bi_ID (ie_base36 I) i) (tb_files t) = Some (manifest_row I K (ly_height L) i)"
      by fastforce
    then have "manifest_row I K (ly_height L) i \<in> set (tb_files t)" by (rule row_of_Some [THEN conjunct1])
    with fs obtain x where x: "x \<in> set (bp_Files pg)" "file_data X (scan_file (manifest_row I K (ly_height L) i)) = Inr x"
      by (fastforce simp: manifest_row_def Let_def)
    then have "fd_BlobID x = bi_ID (ie_base36 I) i \<and> fd_FileName x = fm_FileName (ct_file K i)
        \<and> fd_FileHash x = hex_EncodeToString (fm_FileHash (ct_file K i))"
      by (auto simp: file_data_def scan_file_def manifest_row_def Let_def rbind_eq_Inr)
    with x(1) show "\<exists>x\<in>set (bp_Files pg). fd_BlobID x = bi_ID (ie_base36 I) i \<and> fd_FileName x = fm_FileName (ct_file K i)
        \<and> fd_FileHash x = hex_EncodeToString (fm_FileHash (ct_file K i))" by blast
  next
    assume i: "i \<in> set (bb_Dirs (b_Body b))"
    let ?r = "listing_row I K (ly_height L) (ly_files L) i"
    from i have "DirFact i \<in> block_facts L" by (simp add: block_facts_def L)
    with facts have "row_of dw_blob_id (bi_ID (ie_base36 I) i) (tb_directories t) = Some ?r" by fastforce
    then have "?r \<in> set (tb_directories t)" by (rule row_of_Some [THEN conjunct1])
    with ds obtain x where x: "x \<in> set (bp_Directories pg)" "dir_data X (scan_directory ?r) = Inr x"
      by (fastforce simp: listing_row_def Let_def)
    then have "di_BlobID x = bi_ID (ie_base36 I) i \<and> di_DirectoryName x = dm_DirectoryName (ct_dir K i)
        \<and> di_FileCount x = int (length (dm_Files (ct_dir K i)))"
      by (auto simp: dir_data_def scan_directory_def listing_row_def Let_def rbind_eq_Inr)
    with x(1) show "\<exists>x\<in>set (bp_Directories pg). di_BlobID x = bi_ID (ie_base36 I) i
        \<and> di_DirectoryName x = dm_DirectoryName (ct_dir K i) \<and> di_FileCount x = int (length (dm_Files (ct_dir K i)))" by blast
  }
qed (use formatted_block [OF blk] in simp_all)

lemma indexed_block_page:
  assumes P: "answers_all P" "pg_ok P" and c: "base36_ok (ie_base36 I)" and ok: "indexable P I K L C B b"
    and known: "items_known I L (pg_tables D)" and typed: "schema_ok P (pg_tables D)"
  shows "\<exists>D' pg D''. indexBlock P I C (ly_height L) D = (Inr (), D')
    \<and> handleBlockDetails P X (dec (unat (ly_height L))) D' = (Inr (BlockR pg), D'') \<and> page_shows I K L X B b pg
    \<and> (\<forall>i\<in>set (bb_Files (b_Body b)). \<exists>title f chs D3. handleFileDetails P X (bi_ID (ie_base36 I) i) D' = (Inr (FileR title f chs), D3)
         \<and> (\<forall>k\<in>set (ly_chunks L i). \<exists>x\<in>set chs. ci_BlobID x = bi_ID (ie_base36 I) k))"
proof -
  let ?row = "the_block_row B b (storage_used I K (b_Body b))"
  obtain D' where D': "indexBlock P I C (ly_height L) D = (Inr (), D')" and facts: "all_hold I K L (block_facts L) (pg_tables D')"
    and row: "row_of bx_Height (ly_height L) (tb_blocks (pg_tables D')) = Some ?row"
    using indexBlock_writes [OF P c ok known] by blast
  have L: "ly_body L = b_Body b" and h: "ly_height L = bh_Height (b_Header b)" using ok unfolding indexable_def by blast+
  have "checks (block_columns P ?row) = Inr ()" using ok unfolding indexable_def by blast
  then have small: "unat (ly_height L) < 2 ^ 63"
    by (simp add: block_columns_def rbind_eq_Inr h block_index_def bh_Proto_def bh_canon_def)
  obtain pg D'' where pg: "handleBlockDetails P X (dec (unat (ly_height L))) D' = (Inr (BlockR pg), D'')"
    "block_details X ?row = Inr (bp_Block pg)"
    "\<forall>r\<in>set (tb_files (pg_tables D')). fw_block_height r = ly_height L \<longrightarrow> (\<exists>x\<in>set (bp_Files pg). file_data X (scan_file r) = Inr x)"
    "\<forall>r\<in>set (tb_directories (pg_tables D')). dw_block_height r = ly_height L \<longrightarrow> (\<exists>x\<in>set (bp_Directories pg). dir_data X (scan_directory r) = Inr x)"
    "\<forall>r\<in>set (tb_chunks (pg_tables D')). cx_BlockHeight r = ly_height L \<longrightarrow> (\<exists>x\<in>set (bp_Chunks pg). chunk_info X r = Inr x)"
    using block_page [OF P small row] by blast
  have shows_it: "page_shows I K L X B b pg" by (rule facts_on_page [OF facts L pg(2-5)])
  have typed': "schema_ok P (pg_tables D')" by (rule indexBlock_typed [OF P(2) D' typed])
  have "\<exists>title f chs D3. handleFileDetails P X (bi_ID (ie_base36 I) i) D' = (Inr (FileR title f chs), D3)
      \<and> (\<forall>k\<in>set (ly_chunks L i). \<exists>x\<in>set chs. ci_BlobID x = bi_ID (ie_base36 I) k)" if i: "i \<in> set (bb_Files (b_Body b))" for i
  proof -
    from i have "FileFact i \<in> block_facts L" by (simp add: block_facts_def L)
    with facts have r: "row_of fw_blob_id (bi_ID (ie_base36 I) i) (tb_files (pg_tables D')) = Some (manifest_row I K (ly_height L) i)"
      by fastforce
    from file_page [OF P typed' r] obtain title f chs D3 where page: "handleFileDetails P X (bi_ID (ie_base36 I) i) D' = (Inr (FileR title f chs), D3)"
      "\<And>k n. \<lparr>fc_file_id = bi_ID (ie_base36 I) i, fc_chunk_id = k, fc_chunk_index = n\<rparr> \<in> set (tb_file_chunks (pg_tables D'))
         \<Longrightarrow> \<exists>x\<in>set chs. ci_BlobID x = k \<and> ci_Index x = n" by blast
    have "\<exists>x\<in>set chs. ci_BlobID x = bi_ID (ie_base36 I) k" if k: "k \<in> set (ly_chunks L i)" for k
    proof -
      have "FileChunk i k \<in> block_facts L" using i k unfolding block_facts_def L by blast
      with facts obtain j where "row_of fc_key (bi_ID (ie_base36 I) i, bi_ID (ie_base36 I) k) (tb_file_chunks (pg_tables D'))
          = Some \<lparr>fc_file_id = bi_ID (ie_base36 I) i, fc_chunk_id = bi_ID (ie_base36 I) k, fc_chunk_index = int j\<rparr>" by fastforce
      from page(2) [OF row_of_Some [OF this, THEN conjunct1]] show ?thesis by blast
    qed
    with page(1) show ?thesis by blast
  qed
  with D' pg(1) shows_it show ?thesis by blast
qed

section \<open>Blocks over REST\<close>

lemma rest_block:
  assumes E: "pebble_ok (e_db E) V" "pebble_total (e_db E)" and repr: "chain_repr (e_B E) cid off (content V d) bs"
    and ix: "indexed (e_B E) (content V d) bs" and cache: "cache_ok (e_B E) rcache bs"
    and h: "h < length bs" "length bs < 2 ^ 64" and R: "rs_rollup R = rollup_of E d cache" "rs_B R = e_B E"
    and s: "s \<in> {dec h, hash_String (header_hash (e_B E) (b_Header (bs ! h))), hex_EncodeToString (hash_Bytes (header_hash (e_B E) (b_Header (bs ! h))))}"
  shows "\<exists>cache'. getBlockByHeightOrHash R s rcache = (Inr (BlockRespR (response_of (rs_base36 R) (e_B E) (bs ! h))), cache')
    \<and> cache_ok (e_B E) cache' bs"
proof -
  let ?b = "bs ! h" and ?x = "header_hash (e_B E) (b_Header (bs ! h))"
  define pb where "pb = fst (b_Proto (e_B E) cache (b_canon ?b))"
  note parts = b_Proto_parts [where B = "e_B E" and cache = cache and b = "b_canon ?b", folded pb_def]
  have byh: "rc_GetBlockByHeight (rs_rollup R) (of_nat h) = Inr (Some pb)"
    unfolding R(1) using GetBlock_total [OF E chain_block(1,2) [OF repr h(1)]] by (intro node_sends_block) (simp_all add: pb_def)
  have byx: "rc_GetBlockByHash (rs_rollup R) (hash_Bytes ?x) = Inr (Some pb)"
    unfolding R(1) using GetBlockByHash_indexed [OF E repr ix h(1)] by (intro node_sends_hash) (simp_all add: pb_def)
  obtain cache' where c: "bh_Hash (e_B E) rcache (bh_canon (b_Header ?b)) = (?x, cache')" "cache_ok (e_B E) cache' bs"
    using serve_block(2) [OF E repr cache h] by auto
  have reply: "block_reply R m f (Inr (Some pb)) rcache = (Inr (BlockRespR (response_of (rs_base36 R) (e_B E) ?b)), cache')" for m f
    using blockToResponse_b_Proto [of R rcache ?b cache' pb] c(1) parts R(2) by (simp add: block_reply_def present_def)
  have hash_reply: "getBlockByHash R t rcache = (Inr (BlockRespR (response_of (rs_base36 R) (e_B E) ?b)), cache')"
    if "t = hash_String ?x \<or> t = hex_EncodeToString (hash_Bytes ?x)" for t
  proof -
    have no: "\<not> HasPrefix (hex_EncodeToString (hash_Bytes ?x)) (ascii ''0x'')"
    proof
      assume "HasPrefix (hex_EncodeToString (hash_Bytes ?x)) (ascii ''0x'')"
      then obtain u where "hex_EncodeToString (hash_Bytes ?x) = 48 # 120 # u" by (auto simp: HasPrefix_iff ascii_def)
      then have "hex_DecodeString (48 # 120 # u) = Inr (hash_Bytes ?x)" by (metis hex_round_trip)
      then show False by (simp add: fromHexChar_def)
    qed
    have yes: "HasPrefix (hash_String ?x) (ascii ''0x'')" by (simp add: hash_String_def HasPrefix_def ascii_def)
    have "drop 2 (hash_String ?x) = hex_EncodeToString (hash_Bytes ?x)" by (simp add: hash_String_def)
    with that no yes byx reply show ?thesis by (auto simp: getBlockByHash_def)
  qed
  have "getBlockByHeightOrHash R s rcache = (Inr (BlockRespR (response_of (rs_base36 R) (e_B E) ?b)), cache')"
  proof (cases "s = dec h")
    case True
    have hh: "h < 2 ^ 64" using h by linarith
    show ?thesis using dec_is_no_hash [OF hh] ParseUint_dec [OF hh] byh reply True
      by (simp add: getBlockByHeightOrHash_def getBlockByHeight_def)
  next
    case False
    then have "HasPrefix s (ascii ''0x'') \<or> length s = 64" using s
      by (auto simp: hash_String_def HasPrefix_def ascii_def)
    with False s hash_reply [of s] show ?thesis by (simp add: getBlockByHeightOrHash_def)
  qed
  with c(2) show ?thesis by blast
qed

end
