(* ===== verification/Node.thy ===== *)
theory Node
  imports Sync_Run
begin

text \<open>
  \<open>cmd/node\<close> and \<open>pkg/state/consts.go\<close>: the node command on its network, and the life of a
  node process as a step relation: it starts, produces blocks, serves subscribers, fails, and
  may be killed at any moment. Whatever happens, the database holds a chain that only grows.
\<close>

section \<open>Networks\<close>

definition ChainIDMocha :: bytes where "ChainIDMocha = ascii ''blobcast-mocha-1''"
definition ChainIDMammoth :: bytes where "ChainIDMammoth = ascii ''blobcast-mamo-1''"
definition ChainIDCelestia :: bytes where "ChainIDCelestia = ascii ''blobcast-1''"
definition StartHeightMocha :: u64 where "StartHeightMocha = 6383285"
definition StartHeightMammoth :: u64 where "StartHeightMammoth = 1140775"
definition StartHeightCelestia :: u64 where "StartHeightCelestia = 1000000000"

text \<open>The two \<open>switch\<close> statements of \<open>initNode\<close>.\<close>

definition network_params :: "string \<Rightarrow> (bytes \<times> u64) option" where
  "network_params network =
     (if network = ''mocha'' then Some (ChainIDMocha, StartHeightMocha)
      else if network = ''mammoth'' then Some (ChainIDMammoth, StartHeightMammoth)
      else if network = ''celestia'' then Some (ChainIDCelestia, StartHeightCelestia)
      else None)"

text \<open>The errors of the two writes are dropped; a write that failed left the database as it was.\<close>

definition initNode :: "('d, 'b) env \<Rightarrow> string \<Rightarrow> 'd \<Rightarrow> 'd result" where
  "initNode E network d =
     (case network_params network of
        None \<Rightarrow> Inl (Err ''invalid network'')
      | Some (chainID, heightOffset) \<Rightarrow>
          let d = (case SetChainID E d chainID of Inl _ \<Rightarrow> d | Inr d \<Rightarrow> d)
          in Inr (case SetCelestiaHeightOffset E d heightOffset of Inl _ \<Rightarrow> d | Inr d \<Rightarrow> d))"

text \<open>
  \<open>runStart\<close>; \<open>client\<close> and \<open>listen\<close> are the results of connecting to Celestia and of opening
  the server's port. The value is the returned error and the database at the end.
\<close>

definition runStart ::
  "('d, 'b) env \<Rightarrow> da \<Rightarrow> string \<Rightarrow> unit result \<Rightarrow> unit result \<Rightarrow> (u64 \<Rightarrow> nat \<Rightarrow> bool) \<Rightarrow> u64 result list
    \<Rightarrow> u64 list result \<Rightarrow> 'd \<Rightarrow> (unit result \<times> 'd) option"
where
  "runStart E D network client listen slow heights heads d =
     (case wrap ''error initializing node'' (initNode E network d) of
        Inl e \<Rightarrow> Some (Inl e, d)
      | Inr d \<Rightarrow> (case rbind (wrap ''error creating Celestia client'' client)
            (\<lambda>_. rbind (wrap ''error creating blobcast chain'' (NewBlobcastChain E d))
            (\<lambda>bc. rbind (wrap ''error listening'' listen) (\<lambda>_. Inr bc))) of
          Inl e \<Rightarrow> Some (Inl e, d)
        | Inr bc \<Rightarrow> map_option (\<lambda>(r, bc). (wrap ''error syncing chain'' r, cs_db (bc_state bc)))
            (SyncChain E D slow heights heads bc)))"

section \<open>The database of a network\<close>

definition network_db ::
  "('d, 'b) env \<Rightarrow> ('d, 'b) store_view \<Rightarrow> (hash \<Rightarrow> bytes) \<Rightarrow> bytes \<Rightarrow> u64 \<Rightarrow> 'd \<Rightarrow> Block list \<Rightarrow> bool" where
  "network_db E V g cid off d bs \<longleftrightarrow>
     chain_repr (e_B E) cid off (content V d) bs \<and> store_sound E g (content V d)"

lemma network_db_empty: "content V d = (\<lambda>k. None) \<Longrightarrow> network_db E V g cid off d []"
  by (simp add: network_db_def chain_repr_def ranges_ok_def meta_ok_def store_sound_def db_keys_ok_empty)

lemma chain_repr_meta:
  assumes "chain_repr B cid off c bs" "K = KChainID \<and> v = cid \<or> K = KOffset \<and> v = BytesFromUint64 off"
  shows "chain_repr B cid off (c(encode_key K \<mapsto> v)) bs"
proof -
  let ?c = "c(encode_key K \<mapsto> v)"
  have "?c (blk_key h) = c (blk_key h)" "?c (mmr_key h) = c (mmr_key h)"
    "?c keyFinalizedHeight = c keyFinalizedHeight" for h
    using encode_key_inj [of "KBlock h" K] encode_key_inj [of "KMMR h" K] encode_key_inj [of KFinalized K]
      assms(2) by auto
  moreover have "meta_ok cid off ?c"
    using assms encode_key_inj [of KChainID KOffset] by (auto simp: meta_ok_def chain_repr_def)
  ultimately show ?thesis
    using assms(1) db_keys_ok_upd [of c K v] unfolding chain_repr_def ranges_ok_def by simp
qed

lemma network_db_meta:
  assumes "network_db E V g cid off d bs" "K = KChainID \<and> v = cid \<or> K = KOffset \<and> v = BytesFromUint64 off"
    and "content V d' = (content V d)(encode_key K \<mapsto> v)"
  shows "network_db E V g cid off d' bs"
proof -
  have "same_storage (content V d) (content V d')"
    unfolding assms(3) using assms(2) by (intro same_storage_upd [OF _ same_storage_refl]) auto
  with assms chain_repr_meta [of "e_B E" cid off "content V d" bs K v] show ?thesis
    by (auto simp: network_db_def intro: store_sound_same)
qed

lemma db_setD: "pebble_ok P V \<Longrightarrow> db_set P d k v = Inr d' \<Longrightarrow> content V d' = (content V d)(k \<mapsto> v)"
  by (simp add: pebble_ok_def)

lemma initNode_db:
  assumes P: "pebble_ok (e_db E) V" "pebble_total (e_db E)" and net: "network_params network = Some (cid, off)"
    and db: "network_db E V g cid off d bs" and run: "initNode E network d = Inr d'"
  shows "network_db E V g cid off d' bs" "ChainID E d' = Inr cid" "CelestiaHeightOffset E d' = Inr off"
proof -
  obtain d1 d2 where d1: "SetChainID E d cid = Inr d1" and d2: "SetCelestiaHeightOffset E d1 off = Inr d2"
    using P(2) unfolding pebble_total_def SetChainID_def SetCelestiaHeightOffset_def by metis
  have c1: "content V d1 = (content V d)(encode_key KChainID \<mapsto> cid)"
    using db_setD [OF P(1)] d1 by (simp add: SetChainID_def)
  have c2: "content V d2 = (content V d1)(encode_key KOffset \<mapsto> BytesFromUint64 off)"
    using db_setD [OF P(1)] d2 by (simp add: SetCelestiaHeightOffset_def)
  have d': "d' = d2" using run by (simp add: initNode_def net d1 d2)
  from network_db_meta [OF network_db_meta [OF db _ c1] _ c2] d' show "network_db E V g cid off d' bs" by simp
  have "content V d' keyChainID = Some cid" "content V d' keyCelestiaHeightOffset = Some (BytesFromUint64 off)"
    using encode_key_inj [of KChainID KOffset] by (simp_all add: d' c1 c2)
  then show "ChainID E d' = Inr cid" "CelestiaHeightOffset E d' = Inr off"
    using db_get_total [OF P] by (simp_all add: ChainID_def CelestiaHeightOffset_def)
qed

lemma NewBlobcastChain_fresh:
  assumes "ChainID E d = Inr cid" "network_db E V g cid off d bs" "NewBlobcastChain E d = Inr bc"
  shows "fresh_node E V g cid off bc bs" "cs_db (bc_state bc) = d"
  using assms by (auto simp: NewBlobcastChain_def fresh_node_def network_db_def)

text \<open>A whole run of the node command extends the chain of its network.\<close>

lemma runStart_network_db:
  assumes E: "env_ok E V" "pebble_total (e_db E)" and g: "commitments_bind D g" "blobs_fit D"
    and net: "network_params network = Some (cid, off)" and db: "network_db E V g cid off d bs"
    and n: "length bs \<le> 2 ^ 37 + 1"
    and bounds: "\<And>L. Inr L \<in> set heights \<Longrightarrow> unat L \<le> 2 ^ 37" "\<And>L hs. heads = Inr hs \<Longrightarrow> L \<in> set hs \<Longrightarrow> unat L \<le> 2 ^ 37"
    and run: "runStart E D network client listen slow heights heads d = Some (r, d')"
  shows "\<exists>bs'. extends bs bs' \<and> network_db E V g cid off d' bs'"
proof -
  note P = env_okD(2) [OF E(1)] E(2)
  have off: "unat off \<le> 2 ^ 37"
    using net by (auto simp: network_params_def StartHeightMocha_def StartHeightMammoth_def
        StartHeightCelestia_def split: if_splits)
  obtain d1 where d1: "initNode E network d = Inr d1" using net by (auto simp: initNode_def Let_def)
  note init = initNode_db [OF P net db d1]
  have same: "\<exists>bs'. extends bs bs' \<and> network_db E V g cid off d1 bs'"
    using init(1) by (auto simp: extends_def)
  obtain bc where bc: "NewBlobcastChain E d1 = Inr bc" using init(2) by (simp add: NewBlobcastChain_def)
  note fresh = NewBlobcastChain_fresh [OF init(2,1) bc]
  show ?thesis
  proof (cases "client = Inr () \<and> listen = Inr ()")
    case False
    with run d1 bc have "d' = d1" by (cases client; cases listen) (auto simp: runStart_def)
    with same show ?thesis by simp
  next
    case True
    with run d1 bc obtain r' bc' where sync: "SyncChain E D slow heights heads bc = Some (r', bc')"
      "d' = cs_db (bc_state bc')" by (auto simp: runStart_def)
    have "run_ok E V g cid off bs bc'"
      using fresh(2) init(3) by (intro SyncChain_run_ok [OF E(1) g off fresh(1) n _ bounds sync(1)]) simp_all
    with sync(2) show ?thesis by (simp add: run_ok_def network_db_def)
  qed
qed

section \<open>The life of a node\<close>

text \<open>
  A node is a running process, with the offset it read and the height and parent it produces
  next, or a database on disk. Produced and Failed are the iterations of either loop of
  \<open>SyncChain\<close>; a failure ends the process.
\<close>

datatype 'd node = Up "'d bchain" u64 u64 "Block option" | Down 'd

inductive node_step :: "('d, 'b) env \<Rightarrow> da \<Rightarrow> string \<Rightarrow> 'd node \<Rightarrow> 'd node \<Rightarrow> bool"
  for E :: "('d, 'b) env" and D :: da and network :: string
where
  Started: "initNode E network d = Inr d1 \<Longrightarrow> NewBlobcastChain E d1 = Inr bc \<Longrightarrow>
    CelestiaHeightOffset E d1 = Inr off \<Longrightarrow> start_sync E D off bc = (Inr (h, prev), bc') \<Longrightarrow>
    node_step E D network (Down d) (Up bc' off h prev)"
| NotStarted: "initNode E network d = Inr d1 \<Longrightarrow> NewBlobcastChain E d1 = Inr bc \<Longrightarrow>
    CelestiaHeightOffset E d1 = Inr off \<Longrightarrow> start_sync E D off bc = (Inl e, bc') \<Longrightarrow>
    node_step E D network (Down d) (Down (cs_db (bc_state bc')))"
| Produced: "sync_step E D slow h (h + off) prev bc = (Inr b, bc') \<Longrightarrow>
    node_step E D network (Up bc off h prev) (Up bc' off (h + 1) (Some b))"
| Failed: "sync_step E D slow h (h + off) prev bc = (Inl e, bc') \<Longrightarrow>
    node_step E D network (Up bc off h prev) (Down (cs_db (bc_state bc')))"
| Subscribed: "node_step E D network (Up bc off h prev)
    (Up (bc\<lparr>bc_subs := SubscribeToNewHeaders ident (bc_subs bc)\<rparr>) off h prev)"
| Unsubscribed: "node_step E D network (Up bc off h prev)
    (Up (bc\<lparr>bc_subs := Unsubscribe sub (bc_subs bc)\<rparr>) off h prev)"
| Killed: "node_step E D network (Up bc off h prev) (Down (cs_db (bc_state bc)))"

inductive_cases node_step_UpE: "node_step E D network (Up bc off h prev) s"
inductive_cases node_step_DownE: "node_step E D network (Down d) s"

inductive node_steps :: "('d, 'b) env \<Rightarrow> da \<Rightarrow> string \<Rightarrow> nat \<Rightarrow> 'd node \<Rightarrow> 'd node \<Rightarrow> bool"
  for E :: "('d, 'b) env" and D :: da and network :: string
where
  Here: "node_steps E D network 0 s s"
| Step: "node_steps E D network n s t \<Longrightarrow> node_step E D network t u \<Longrightarrow> node_steps E D network (Suc n) s u"

inductive_simps node_steps_0 [simp]: "node_steps E D network 0 s t"

fun node_db :: "'d node \<Rightarrow> 'd" where
  "node_db (Up bc off h prev) = cs_db (bc_state bc)"
| "node_db (Down d) = d"

text \<open>The invariant: the chain on disk, and for a running process its position on it.\<close>

fun node_ok ::
  "('d, 'b) env \<Rightarrow> ('d, 'b) store_view \<Rightarrow> (hash \<Rightarrow> bytes) \<Rightarrow> bytes \<Rightarrow> u64 \<Rightarrow> Block list \<Rightarrow> 'd node \<Rightarrow> bool" where
  "node_ok E V g cid off bs (Up bc off' h prev) \<longleftrightarrow> node_inv E V g cid off bc bs \<and> bs \<noteq> []
     \<and> prev_ok prev bs \<and> h = of_nat (length bs) \<and> off' = off"
| "node_ok E V g cid off bs (Down d) \<longleftrightarrow> network_db E V g cid off d bs"

lemma node_ok_db: "node_ok E V g cid off bs s \<Longrightarrow> network_db E V g cid off (node_db s) bs"
  by (cases s) (auto simp: node_inv_def network_db_def)

lemma node_step_ok:
  assumes E: "env_ok E V" "pebble_total (e_db E)" and g: "commitments_bind D g" "blobs_fit D"
    and net: "network_params network = Some (cid, off)"
    and ok: "node_ok E V g cid off bs s" and n: "length bs \<le> 2 ^ 37" and step: "node_step E D network s t"
  shows "\<exists>bs'. extends bs bs' \<and> length bs' \<le> Suc (length bs) \<and> node_ok E V g cid off bs' t"
proof -
  note P = env_okD(2) [OF E(1)] E(2)
  have same: "\<exists>bs'. extends bs bs' \<and> length bs' \<le> Suc (length bs) \<and> node_ok E V g cid off bs' t"
    if "node_ok E V g cid off bs t"
    using that by (intro exI [of _ bs]) (simp add: extends_def)
  show ?thesis
    using step
  proof cases
    case (Started d d1 bc off' h prev bc')
    note init = initNode_db [OF P net _ Started(3)]
    have db: "network_db E V g cid off d bs" using ok Started(1) by simp
    have "off' = off" using init(3) [OF db] Started(5) by simp
    note fresh = NewBlobcastChain_fresh [OF init(2,1) [OF db] Started(4)]
    have "length bs \<le> 2 ^ 37 + 1" using n by simp
    then obtain bs' where bs': "extends bs bs'" "bs' \<noteq> []" "length bs' = max 1 (length bs)"
      "h = of_nat (length bs')" "node_inv E V g cid off bc' bs'" "prev_ok prev bs'"
      by (rule start_sync_node [OF E(1) fresh(1) _ Started(6) [unfolded \<open>off' = off\<close>]])
    then show ?thesis using Started(2) \<open>off' = off\<close> by (intro exI [of _ bs']) simp
  next
    case (NotStarted d d1 bc off' e bc')
    have db: "network_db E V g cid off d bs" using ok NotStarted(1) by simp
    note init = initNode_db [OF P net db NotStarted(3)]
    from NewBlobcastChain_fresh(2) [OF init(2,1) NotStarted(4)] start_sync_fails [OF NotStarted(6)] init(1)
    show ?thesis by (intro same) (simp add: NotStarted(2))
  next
    case (Produced slow h off' prev bc b bc')
    have inv: "node_inv E V g cid off bc bs" "bs \<noteq> []" "prev_ok prev bs" "h = of_nat (length bs)" "off' = off"
      using ok Produced(1) by simp_all
    from step_progress [OF E(1) g inv(1-3) n Produced(3) [unfolded inv(4,5)]]
    have "node_inv E V g cid off bc' (bs @ [b])" "prev_ok (Some b) (bs @ [b])" by simp_all
    then show ?thesis
      by (intro exI [of _ "bs @ [b]"]) (auto simp: extends_def Produced(2) inv(2,4,5) add.commute)
  next
    case (Failed slow h off' prev bc e bc')
    with ok sync_step_fails(1) [OF E(1) Failed(3)] show ?thesis
      by (intro same) (auto simp: node_inv_def network_db_def)
  qed (rule same; use ok in \<open>auto simp: node_inv_def network_db_def\<close>)+
qed

lemma extends_trans: "extends as bs \<Longrightarrow> extends bs cs \<Longrightarrow> length as \<le> length bs \<Longrightarrow> extends as cs"
  by (auto simp: extends_def split: if_splits)

lemma node_steps_ok:
  assumes "node_steps E D network n s t"
    and E: "env_ok E V" "pebble_total (e_db E)" and g: "commitments_bind D g" "blobs_fit D"
    and net: "network_params network = Some (cid, off)"
    and ok: "node_ok E V g cid off bs s" and n: "length bs + n \<le> 2 ^ 37"
  shows "\<exists>bs'. extends bs bs' \<and> length bs \<le> length bs' \<and> length bs' \<le> length bs + n \<and> node_ok E V g cid off bs' t"
  using assms(1,7,8)
proof (induction rule: node_steps.induct)
  case (Here s)
  then show ?case by (intro exI [of _ bs]) (simp add: extends_def)
next
  case (Step n s t u)
  from Step.IH Step.prems obtain bs' where bs': "extends bs bs'" "length bs \<le> length bs'"
    "length bs' \<le> length bs + n" "node_ok E V g cid off bs' t" by auto
  with Step.prems have "length bs' \<le> 2 ^ 37" by simp
  from node_step_ok [OF E g net bs'(4) this Step.hyps(2)] obtain cs where
    cs: "extends bs' cs" "length cs \<le> Suc (length bs')" "node_ok E V g cid off cs u" by blast
  have "length bs' \<le> length cs" using cs(1) by (cases cs) (auto simp: extends_def split: if_splits dest: arg_cong [of _ _ length])
  with cs bs' extends_trans [OF bs'(1) cs(1) bs'(2)] show ?case by (intro exI [of _ cs]) simp
qed

end
