(* ===== verification/Instance.thy ===== *)
theory Instance
  imports Store
begin

text \<open>
  An environment that satisfies \<open>env_ok\<close>: an in-memory store, a list of writes with the
  newest first, and codecs for messages that carry one byte string each. The theorems of the
  development apply to it, so their hypotheses can hold together.
\<close>

section \<open>The last key\<close>

text \<open>The greatest of a list of keys.\<close>

definition last_key :: "bytes \<Rightarrow> bytes list \<Rightarrow> bytes" where
  "last_key k ks = fold (\<lambda>k m. if bytes_less m k then k else m) ks k"

lemma last_key_Cons [simp]:
  "last_key k [] = k" "last_key k (a # ks) = last_key (if bytes_less k a then a else k) ks"
  by (simp_all add: last_key_def)

lemma last_key_in: "last_key k ks \<in> set (k # ks)"
proof (induction ks arbitrary: k)
  case (Cons a ks)
  from Cons [of "if bytes_less k a then a else k"] show ?case by auto
qed simp

lemma last_key_top: "k' \<in> set (k # ks) \<Longrightarrow> \<not> bytes_less (last_key k ks) k'"
proof (induction ks arbitrary: k k')
  case (Cons a ks)
  let ?m = "if bytes_less k a then a else k"
  have top: "\<not> bytes_less (last_key ?m ks) ?m" by (rule Cons.IH) simp
  have "\<not> bytes_less (last_key ?m ks) k" if "bytes_less k a"
    using top that bytes_less_trans [of "last_key ?m ks" k a] by auto
  moreover have "\<not> bytes_less (last_key ?m ks) a" if "\<not> bytes_less k a"
  proof
    assume less: "bytes_less (last_key ?m ks) a"
    from that bytes_less_linear [of a k] consider "a = k" | "bytes_less a k" by blast
    then show False
      using less that top bytes_less_trans [of "last_key ?m ks" a k] by cases auto
  qed
  ultimately show ?case using Cons.prems top Cons.IH [of k' ?m] by auto
qed simp

section \<open>The store\<close>

type_synonym mem = "(bytes \<times> bytes) list"

definition mem_last :: "mem \<Rightarrow> bytes \<Rightarrow> bytes \<Rightarrow> bytes option" where
  "mem_last d lo hi = (case filter (in_range lo hi) (map fst d) of
     [] \<Rightarrow> None | k # ks \<Rightarrow> map_of d (last_key k ks))"

definition mem_pebble :: "(mem, mem) pebble" where
  "mem_pebble = \<lparr>db_get = (\<lambda>d k. Inr (map_of d k)), db_set = (\<lambda>d k v. Inr ((k, v) # d)),
     db_last = mem_last, new_batch = (\<lambda>d. []), batch_set = (\<lambda>b k v. Inr ((k, v) # b)),
     batch_commit = (\<lambda>d b. Inr (b @ d))\<rparr>"

definition mem_view :: "(mem, mem) store_view" where
  "mem_view = \<lparr>content = map_of, writes = rev\<rparr>"

lemma content_mem [simp]: "content mem_view = map_of" "writes mem_view = rev"
  by (simp_all add: mem_view_def)

lemma apply_writes_rev: "apply_writes (rev b) c = c ++ map_of b"
  by (induction b) (auto simp: apply_writes_def map_add_def fun_eq_iff)

lemma mem_last_spec:
  "case mem_last d lo hi of
     None \<Rightarrow> (\<forall>k. in_range lo hi k \<longrightarrow> map_of d k = None)
   | Some v \<Rightarrow> (\<exists>k. in_range lo hi k \<and> map_of d k = Some v
       \<and> (\<forall>k'. in_range lo hi k' \<longrightarrow> map_of d k' \<noteq> None \<longrightarrow> \<not> bytes_less k k'))"
proof (cases "filter (in_range lo hi) (map fst d)")
  case Nil
  then have "in_range lo hi k \<Longrightarrow> map_of d k = None" for k
    by (force simp: filter_empty_conv map_of_eq_None_iff)
  with Nil show ?thesis by (simp add: mem_last_def)
next
  case (Cons k ks)
  let ?m = "last_key k ks"
  have set: "k' \<in> set (k # ks) \<longleftrightarrow> in_range lo hi k' \<and> map_of d k' \<noteq> None" for k'
    unfolding Cons [symmetric] by (auto simp: map_of_eq_None_iff)
  obtain v where v: "in_range lo hi ?m" "map_of d ?m = Some v"
    using last_key_in [of k ks] set [of ?m] by blast
  moreover have "\<not> bytes_less ?m k'" if "in_range lo hi k'" "map_of d k' \<noteq> None" for k'
    using last_key_top [of k' k ks] set [of k'] that by blast
  moreover have "mem_last d lo hi = Some v" using v(2) by (simp add: mem_last_def Cons)
  ultimately show ?thesis by auto
qed

lemma mem_pebble_ok: "pebble_ok mem_pebble mem_view" "pebble_total mem_pebble"
  using mem_last_spec unfolding pebble_ok_def pebble_total_def mem_pebble_def content_mem pebble.simps
  by (simp_all add: apply_writes_rev)

section \<open>The codecs\<close>

fun mem_marshal :: "Envelope \<Rightarrow> bytes result" where
  "mem_marshal (ChunkDataE cd) = (if cd_Version cd = [] then Inr (1 # cd_ChunkData cd) else Inl (Ext ''marshal''))"
| "mem_marshal (FileManifestE m) = Inl (Ext ''marshal'')"
| "mem_marshal (DirectoryManifestE m) = Inl (Ext ''marshal'')"
| "mem_marshal NoPayload = Inr []"

fun mem_unmarshal :: "bytes \<Rightarrow> Envelope result" where
  "mem_unmarshal [] = Inr NoPayload"
| "mem_unmarshal (t # x) = (if t = 1 then Inr (ChunkDataE \<lparr>cd_Version = [], cd_ChunkData = x\<rparr>)
     else Inl (Ext ''unmarshal''))"

definition name_manifest :: "bytes \<Rightarrow> FileManifest" where
  "name_manifest x = \<lparr>fm_ManifestVersion = [], fm_FileName = x, fm_MimeType = [], fm_FileSize = 0, fm_FileHash = [],
     fm_Compression = NONE, fm_Chunks = []\<rparr>"

definition name_directory :: "bytes \<Rightarrow> DirectoryManifest" where
  "name_directory x = \<lparr>dm_ManifestVersion = [], dm_DirectoryName = x, dm_DirectoryHash = [], dm_Files = []\<rparr>"

definition mem_env :: "(mem, mem) env" where
  "mem_env = \<lparr>e_B = toy_hash, e_db = mem_pebble, e_iter = (\<lambda>m. SOME xs. iter_of xs m),
     e_envelope = \<lparr>marshal = mem_marshal, unmarshal = mem_unmarshal\<rparr>,
     e_file = \<lparr>marshal = (\<lambda>m. if m = name_manifest (fm_FileName m) then Inr (fm_FileName m)
         else Inl (Ext ''marshal'')), unmarshal = (\<lambda>b. Inr (name_manifest b))\<rparr>,
     e_dir = \<lparr>marshal = (\<lambda>m. if m = name_directory (dm_DirectoryName m) then Inr (dm_DirectoryName m)
         else Inl (Ext ''marshal'')), unmarshal = (\<lambda>b. Inr (name_directory b))\<rparr>\<rparr>"

lemma mem_env_simps [simp]: "e_B mem_env = toy_hash" "e_db mem_env = mem_pebble"
  "e_envelope mem_env = \<lparr>marshal = mem_marshal, unmarshal = mem_unmarshal\<rparr>"
  by (simp_all add: mem_env_def)

lemma mem_envelope_ok: "codec_ok \<lparr>marshal = mem_marshal, unmarshal = mem_unmarshal\<rparr>"
proof -
  have "mem_unmarshal b = Inr m" if "mem_marshal m = Inr b" for m b
    using that by (cases m rule: mem_marshal.cases) (auto split: if_splits)
  then show ?thesis by (simp add: codec_ok_def)
qed

lemma mem_env_ok: "env_ok mem_env mem_view"
proof -
  have "iter_of (e_iter mem_env m) m" if fin: "finite (dom (m_leafIndexes m))" for m
  proof -
    obtain hs where hs: "set hs = dom (m_leafIndexes m)" "distinct hs"
      using finite_distinct_list [OF fin] by blast
    define xs where "xs = map (\<lambda>h. (h, the (m_leafIndexes m h))) hs"
    have "distinct (map fst xs)" using hs(2) by (simp add: xs_def comp_def)
    moreover have "map_of xs = m_leafIndexes m"
      using hs(1) by (auto simp: xs_def map_of_map_restrict fun_eq_iff restrict_map_def dom_def)
    ultimately    have "\<exists>xs. iter_of xs m" by (auto simp: iter_of_def)
    then have "iter_of (SOME xs. iter_of xs m) m" by (rule someI_ex)
    then show ?thesis by (simp add: mem_env_def)
  qed
  moreover have "codec_ok (e_file mem_env)" "codec_ok (e_dir mem_env)"
    by (simp_all add: codec_ok_def mem_env_def)
  ultimately show ?thesis using mem_pebble_ok(1) mem_envelope_ok by (simp add: env_ok_def)
qed

end
