(* ===== verification/Examples.thy ===== *)
theory Examples
  imports Node Chain_Live Instance Mmr_Proofs
begin

text \<open>
  Concrete inputs for the theorems: a Celestia that serves the same chunk at every height, the
  node on the in-memory store, and mountain ranges of one and two leaves.
\<close>

section \<open>A Celestia with one chunk per height\<close>

definition chunk_blob :: blob where
  "chunk_blob = \<lparr>bl_Commitment = hash_Bytes 7, bl_Data = [1, 42]\<rparr>"

definition chunk_da :: da where
  "chunk_da = \<lparr>da_header = (\<lambda>h. Inr gotime_zero), da_blobs = (\<lambda>h. Inr [chunk_blob])\<rparr>"

lemma chunk_da_simps [simp]:
  "da_header chunk_da h = Inr gotime_zero" "da_blobs chunk_da h = Inr [chunk_blob]"
  by (simp_all add: chunk_da_def)

lemma chunk_da_ok: "commitments_bind chunk_da (\<lambda>k. [1, 42])" "blobs_fit chunk_da"
  by (auto simp: commitments_bind_def blobs_fit_def chunk_blob_def)

lemma mem_empty: "content mem_view [] = (\<lambda>k. None)"
  by simp

lemma mem_simps [simp]:
  "db_get mem_pebble d k = Inr (map_of d k)" "db_set mem_pebble d k v = Inr ((k, v) # d)"
  "new_batch mem_pebble d = []" "batch_set mem_pebble b k v = Inr ((k, v) # b)"
  "batch_commit mem_pebble d b = Inr (b @ d)"
  by (simp_all add: mem_pebble_def)

text \<open>A first start writes the genesis block.\<close>

lemma mem_tx_write [simp]: "tx_write mem_env tx k v = Inr (tx\<lparr>tx_batch := (k, v) # tx_batch tx\<rparr>)"
  by (simp add: tx_write_def)

lemma mem_PutBlock: "\<exists>tx' cache'. PutBlock mem_env cache tx h b = Inr (tx', cache')
    \<and> tx_committed tx' = tx_committed tx \<and> tx_aborted tx' = tx_aborted tx"
  by (cases "b_Hash toy_hash cache b") (simp add: PutBlock_def Let_def)

lemma mem_Commit: "\<not> nil_maps tx \<Longrightarrow> fst (Commit mem_env tx s) = Inr ()"
  by (simp add: Commit_def nil_maps_def)

lemma mem_genesis:
  "\<not> cs_pending (bc_state bc) \<Longrightarrow> \<exists>b bc'. genesis_step mem_env chunk_da off bc = (Inr b, bc')"
proof -
  assume p: "\<not> cs_pending (bc_state bc)"
  let ?tx = "NewChainStateTransaction mem_env (cs_db (bc_state bc))"
  obtain b tx cache where g: "CreateGenesisBlock mem_env chunk_da (bc_chainID bc) (bc_cache bc) ?tx off = (Inr (b, tx), cache)"
    and t: "\<not> nil_maps tx"
  proof -
    let ?b = "genesis_block toy_hash (bc_chainID bc) off gotime_zero"
    obtain tx cache where "PutBlock mem_env (snd (b_Hash toy_hash (bc_cache bc) ?b)) ?tx (b_Height ?b) ?b = Inr (tx, cache)"
      "tx_committed tx = tx_committed ?tx" "tx_aborted tx = tx_aborted ?tx"
      using mem_PutBlock by blast
    then show thesis
      using that [of ?b tx cache]
      by (cases "b_Hash toy_hash (bc_cache bc) ?b")
         (auto simp: CreateGenesisBlock_def Let_def genesis_block_def nil_maps_def NewChainStateTransaction_def)
  qed
  obtain r tx' s where c: "Commit mem_env tx ((bc_state bc)\<lparr>cs_pending := True\<rparr>) = (r, tx', s)"
    by (cases "Commit mem_env tx ((bc_state bc)\<lparr>cs_pending := True\<rparr>)")
  with mem_Commit [OF t] have "r = Inr ()" by (metis fst_conv)
  with p g c show ?thesis by (simp add: genesis_step_def BeginTransaction_def Let_def)
qed

lemma mem_initNode: "\<exists>d. initNode mem_env ''mocha'' [] = Inr d"
  by (simp add: initNode_def network_params_def SetChainID_def SetCelestiaHeightOffset_def)

lemma mem_network: "network_params ''mocha'' = Some (ChainIDMocha, StartHeightMocha)"
  by (simp add: network_params_def)

definition mem_fresh :: mem where
  "mem_fresh = [(keyCelestiaHeightOffset, BytesFromUint64 StartHeightMocha), (keyChainID, ChainIDMocha)]"

lemma mem_fresh_db: "network_db mem_env mem_view (\<lambda>k. [1, 42]) ChainIDMocha StartHeightMocha mem_fresh []"
  "ChainID mem_env mem_fresh = Inr ChainIDMocha" "CelestiaHeightOffset mem_env mem_fresh = Inr StartHeightMocha"
proof -
  have init: "initNode mem_env ''mocha'' [] = Inr mem_fresh"
    by (simp add: initNode_def network_params_def SetChainID_def SetCelestiaHeightOffset_def mem_fresh_def)
  have P: "pebble_ok (e_db mem_env) mem_view" "pebble_total (e_db mem_env)" using mem_pebble_ok by simp_all
  note initNode_db [OF P mem_network network_db_empty init]
  then show "network_db mem_env mem_view (\<lambda>k. [1, 42]) ChainIDMocha StartHeightMocha mem_fresh []"
    "ChainID mem_env mem_fresh = Inr ChainIDMocha" "CelestiaHeightOffset mem_env mem_fresh = Inr StartHeightMocha"
    by simp_all
qed

text \<open>A node just opened on the fresh database, and the same node after genesis.\<close>

definition mem_node :: "mem bchain" where
  "mem_node = \<lparr>bc_chainID = ChainIDMocha, bc_state = \<lparr>cs_db = mem_fresh, cs_pending = False\<rparr>,
     bc_cache = Map.empty, bc_heap = 0, bc_subs = Map.empty\<rparr>"

lemma mem_node_new: "NewBlobcastChain mem_env mem_fresh = Inr mem_node"
  by (simp add: NewBlobcastChain_def mem_fresh_db mem_node_def)

lemma mem_node_fresh: "fresh_node mem_env mem_view (\<lambda>k. [1, 42]) ChainIDMocha StartHeightMocha mem_node []"
  by (rule NewBlobcastChain_fresh(1) [OF mem_fresh_db(2,1) mem_node_new])

lemma mem_node_started:
  obtains b bc where "genesis_step mem_env chunk_da StartHeightMocha mem_node = (Inr b, bc)"
    "start_sync mem_env chunk_da StartHeightMocha mem_node = (Inr (1, Some b), bc)"
    "node_inv mem_env mem_view (\<lambda>k. [1, 42]) ChainIDMocha StartHeightMocha bc [b]" "prev_ok (Some b) [b]"
proof -
  have "\<not> cs_pending (bc_state mem_node)" by (simp add: mem_node_def)
  from mem_genesis [OF this] obtain b bc where
    g: "genesis_step mem_env chunk_da StartHeightMocha mem_node = (Inr b, bc)" by blast
  have "FinalizedHeight mem_env mem_fresh = Inr 0"
    using encode_key_inj [of KFinalized KOffset] encode_key_inj [of KFinalized KChainID]
    by (simp add: FinalizedHeight_def mem_fresh_def)
  then have "start_sync mem_env chunk_da StartHeightMocha mem_node = (Inr (1, Some b), bc)"
    using g by (simp add: start_sync_def mem_node_def)
  moreover have "node_inv mem_env mem_view (\<lambda>k. [1, 42]) ChainIDMocha StartHeightMocha bc [b]" "prev_ok (Some b) [b]"
    using mem_node_fresh genesis_step_node [OF mem_env_ok _ _ _ _ _ g, where bs = "[]"]
    by (simp_all add: fresh_node_def prev_ok_def)
  ultimately show thesis using g that by blast
qed

lemma StartHeightMocha_bound: "unat StartHeightMocha \<le> 2 ^ 37"
  by (simp add: StartHeightMocha_def)

text \<open>The chunk is taken at every height, so the started node produces its next block.\<close>

lemma chunk_blob_taken:
  "\<exists>s. SyncBlobs mem_env d (NewChainStateTransaction mem_env d) heap h [chunk_blob] = Inr s"
proof -
  let ?tx = "NewChainStateTransaction mem_env d"
  have "to_hash (bl_Commitment chunk_blob) = Inr 7" by (simp add: chunk_blob_def)
  moreover have "mem_unmarshal (bl_Data chunk_blob) = Inr (ChunkDataE \<lparr>cd_Version = [], cd_ChunkData = [42]\<rparr>)"
    by (simp add: chunk_blob_def)
  moreover have "\<exists>tx. PutChunk mem_env ?tx 7 [42] (toy_hash [42]) = Inr tx"
    by (simp add: PutChunk_def nil_assign_def nil_maps_def NewChainStateTransaction_def Let_def)
  ultimately show ?thesis
    by (auto simp: SyncBlobs_def SyncBlob_def SyncChunk_def)
qed

lemma mem_node_produces:
  obtains b bc b' bc' where
    "node_inv mem_env mem_view (\<lambda>k. [1, 42]) ChainIDMocha StartHeightMocha bc [b]" "prev_ok (Some b) [b]"
    "sync_step mem_env chunk_da (\<lambda>_. False) (of_nat (length [b])) (of_nat (length [b]) + StartHeightMocha) (Some b) bc = (Inr b', bc')"
proof -
  obtain b bc where node: "node_inv mem_env mem_view (\<lambda>k. [1, 42]) ChainIDMocha StartHeightMocha bc [b]"
    "prev_ok (Some b) [b]" by (rule mem_node_started)
  obtain s where s: "SyncBlobs mem_env (cs_db (bc_state bc)) (NewChainStateTransaction mem_env (cs_db (bc_state bc)))
      (bc_heap bc) (of_nat (length [b]) + StartHeightMocha) [chunk_blob] = Inr s"
    using chunk_blob_taken by blast
  have "pebble_total (e_db mem_env)" using mem_pebble_ok by simp
  from sync_step_live [OF mem_env_ok this node(1) _ node(2) _ _ _ _ s, where D = chunk_da and slow = "\<lambda>_. False"]
  show thesis using that [OF node] by auto
qed

text \<open>A step at a height without blobs adds no leaf.\<close>

lemma empty_step_leaves:
  assumes run: "sync_step E D slow h ch prev bc = (Inr b, bc')" and D: "da_blobs D ch = Inr []"
  shows "state_leaves b = []"
proof -
  obtain tx bc1 tx' s where step: "run_block E D h ch prev (NewChainStateTransaction E (cs_db (bc_state bc)))
       (bc\<lparr>bc_state := (bc_state bc)\<lparr>cs_pending := True\<rparr>\<rparr>) = (Inr (b, tx), bc1)"
    using run by (rule sync_step_cases)
  obtain b0 tx1 heap tx2 cache where
    prod: "ProduceBlock E D (bc_chainID bc) (cs_db (bc_state bc)) (NewChainStateTransaction E (cs_db (bc_state bc)))
      (bc_heap bc) h ch = Inr (b0, tx1, heap)"
    and app: "ApplyBlock E (cs_db (bc_state bc)) (bc_cache bc) tx1 b0 prev = (Inr (tx2, b), cache)"
    by (rule run_block_cases [OF step]) (use that in auto)
  have "state_leaves b0 = []"
    using prod D
    by (auto simp: ProduceBlock_def ProduceBlockFromCelestiaHeight_def SyncCelestiaHeight_def SyncBlobs_def rbind_eq_Inr
        state_leaves_def NewBlock_def NewBlockFromHeader_def CopyBlockHeader_def empty_root hash_IsZero_def)
  with app show ?thesis
    by (auto simp: ApplyBlock_def apply_state_def rbind_eq_Inr Let_def state_leaves_def
        split: sum.splits prod.splits if_splits)
qed

text \<open>A step that records the chunk adds the root of its identifier.\<close>

lemma chunk_step_leaves:
  assumes run: "sync_step mem_env chunk_da slow h ch prev bc = (Inr b, bc')"
  shows "state_leaves b \<noteq> []"
proof -
  obtain tx bc1 tx' s where step: "run_block mem_env chunk_da h ch prev (NewChainStateTransaction mem_env (cs_db (bc_state bc)))
       (bc\<lparr>bc_state := (bc_state bc)\<lparr>cs_pending := True\<rparr>\<rparr>) = (Inr (b, tx), bc1)"
    using run by (rule sync_step_cases)
  obtain b0 tx1 heap tx2 cache where
    prod: "ProduceBlock mem_env chunk_da (bc_chainID bc) (cs_db (bc_state bc)) (NewChainStateTransaction mem_env (cs_db (bc_state bc)))
      (bc_heap bc) h ch = Inr (b0, tx1, heap)"
    and app: "ApplyBlock mem_env (cs_db (bc_state bc)) (bc_cache bc) tx1 b0 prev = (Inr (tx2, b), cache)"
    by (rule run_block_cases [OF step]) (use that in auto)
  let ?i = "\<lparr>bi_Height = ch, bi_Commitment = 7\<rparr>"
  have "bh_ChunksRoot (b_Header b0) = BlobIdentifiersMerkleRoot toy_hash [?i]"
    using prod
    by (auto simp: ProduceBlock_def ProduceBlockFromCelestiaHeight_def SyncCelestiaHeight_def SyncBlobs_def SyncBlob_def
        SyncChunk_def chunk_blob_def rbind_eq_Inr NewBlock_def NewBlockFromHeader_def)
  then have "bh_ChunksRoot (b_Header b0) \<noteq> 0"
    using CalculateMerkleRoot_nonzero [of "[bi_Bytes ?i]" toy_hash] by (simp add: BlobIdentifiersMerkleRoot_def)
  then have "state_leaves b0 \<noteq> []" by (simp add: state_leaves_def hash_IsZero_def)
  with app show ?thesis
    by (auto simp: ApplyBlock_def apply_state_def rbind_eq_Inr Let_def state_leaves_def
        split: sum.splits prod.splits if_splits)
qed

section \<open>A file and its directory in one block\<close>

definition any_codec :: "FileManifest codec" where
  "any_codec = \<lparr>marshal = (\<lambda>m. Inr (fm_FileName m)), unmarshal = (\<lambda>b. Inl (Ext ''unmarshal''))\<rparr>"

definition empty_file :: FileManifest where
  "empty_file = \<lparr>fm_ManifestVersion = ascii ''1.0'', fm_FileName = [], fm_MimeType = [], fm_FileSize = 0, fm_FileHash = hash_Bytes (toy_hash []),
     fm_Compression = NONE, fm_Chunks = []\<rparr>"

definition one_file_dir :: "BlobIdentifier \<Rightarrow> DirectoryManifest" where
  "one_file_dir i = \<lparr>dm_ManifestVersion = ascii ''1.0'', dm_DirectoryName = [], dm_DirectoryHash = hash_Bytes (CalculateMerkleRoot toy_hash
       [hash_Bytes (toy_hash ([97] @ fm_FileHash empty_file))]),
     dm_Files = [\<lparr>fr_Id = Some (bi_Proto i), fr_RelativePath = [97]\<rparr>]\<rparr>"

lemma empty_file_accepted:
  obtains tx where
    "SyncFileManifest (mem_env\<lparr>e_file := any_codec\<rparr>) [] (NewChainStateTransaction mem_env []) 0 3 chunk_blob empty_file = Inr (True, tx, 1)"
    "PutFileManifest (mem_env\<lparr>e_file := any_codec\<rparr>) (NewChainStateTransaction mem_env []) (0, \<lparr>bi_Height = 3, bi_Commitment = 7\<rparr>)
      empty_file = Inr tx"
proof -
  obtain tx where tx: "PutFileManifest (mem_env\<lparr>e_file := any_codec\<rparr>) (NewChainStateTransaction mem_env [])
      (0, \<lparr>bi_Height = 3, bi_Commitment = 7\<rparr>) empty_file = Inr tx"
    by (simp add: PutFileManifest_def any_codec_def nil_assign_def nil_maps_def NewChainStateTransaction_def tx_write_def Let_def)
  then have "SyncFileManifest (mem_env\<lparr>e_file := any_codec\<rparr>) [] (NewChainStateTransaction mem_env []) 0 3 chunk_blob empty_file
      = Inr (True, tx, 1)"
    by (simp add: SyncFileManifest_def empty_file_def chunk_blob_def Let_def hash_EqualBytes_def)
  with tx that show thesis by blast
qed

lemma one_file_dir_runs:
  assumes "\<forall>a. tx_pendingFileManifests tx a \<noteq> None \<longrightarrow> a < 1"
  obtains acc tx' heap' where
    "SyncDirectoryManifest (mem_env\<lparr>e_file := any_codec\<rparr>) [] tx 1 3 chunk_blob (one_file_dir i) = Inr (acc, tx', heap')"
proof -
  have "tx_pendingFileManifests tx 1 = None" using assms by (metis less_irrefl)
  then have "collect_files (mem_env\<lparr>e_file := any_codec\<rparr>) [] tx 1 (dm_Files (one_file_dir i)) [] = Inr (None, 2)"
    by (simp add: one_file_dir_def tx_GetFileManifest_def cs_GetFileManifest_def Let_def)
  then show thesis
    using that [of False tx 2] by (simp add: SyncDirectoryManifest_def chunk_blob_def Let_def)
qed

section \<open>Mountain ranges\<close>

text \<open>The toy hash is injective on node inputs: they begin with their positions.\<close>

lemma toy_hash_prefix:
  assumes "toy_hash x = toy_hash y" "31 \<le> length x" "31 \<le> length y"
  shows "take 31 x = take 31 y"
proof -
  have "le_val (take 31 x) = le_val (take 31 y)"
    using arg_cong [OF assms(1), of unat] by (simp add: unat_toy_hash)
  moreover have "length (take 31 x) = length (take 31 y)" using assms(2,3) by simp
  ultimately show ?thesis using le_bytes_le_val [of "take 31 x"] le_bytes_le_val [of "take 31 y"] by metis
qed

lemma length_node_data: "40 \<le> length (node_data B L h e)"
  by (cases h) (simp_all add: node_data_def)

lemma toy_hash_nodes: "n < 2 ^ 60 \<Longrightarrow> inj_on toy_hash (tree_inputs toy_hash L n)"
proof (rule inj_onI)
  fix x y
  assume n: "n < 2 ^ 60" and x: "x \<in> tree_inputs toy_hash L n" and y: "y \<in> tree_inputs toy_hash L n"
    and eq: "toy_hash x = toy_hash y"
  obtain e h where xe: "e < n" "h < n" "2 ^ h dvd Suc e" "x = node_data toy_hash L h e"
    using x by (auto simp: tree_inputs_def)
  obtain e' h' where ye: "e' < n" "h' < n" "2 ^ h' dvd Suc e'" "y = node_data toy_hash L h' e'"
    using y by (auto simp: tree_inputs_def)
  have "31 \<le> length x" "31 \<le> length y" unfolding xe(4) ye(4) by (rule order_trans [OF _ length_node_data], simp)+
  from arg_cong [OF toy_hash_prefix [OF eq this], of "take 8"]
  have "take 8 x = take 8 y" by (simp add: take_take)
  then have "BytesFromUint64 (of_nat (mpos e + h)) = BytesFromUint64 (of_nat (mpos e' + h'))"
    by (simp add: xe(4) ye(4) node_data_def)
  then have "of_nat (mpos e + h) = (of_nat (mpos e' + h') :: u64)" by (rule u64le.enc_inj [THEN iffD1])
  then have "unat (of_nat (mpos e + h) :: u64) = unat (of_nat (mpos e' + h') :: u64)" by simp
  moreover have "mpos e + h < 2 ^ 64" "mpos e' + h' < 2 ^ 64"
    using mpos_le [of e] mpos_le [of e'] xe(1,2) ye(1,2) n by simp_all
  ultimately have "mpos e + h = mpos e' + h'" by (simp only: unat_of_nat_u64)
  with node_unique [OF xe(3) ye(3)] xe(4) ye(4) show "x = y" by simp
qed

definition two_leaves :: mmr where "two_leaves = add_leaves toy_hash [[1], [2]]"

lemma two_leaves_repr: "mmr_repr toy_hash [toy_hash [1], toy_hash [2]] two_leaves"
  using add_leaves_repr [of toy_hash "[[1], [2]]"] by (simp add: two_leaves_def)

text \<open>The proof of the first of two leaves: its sibling is the second.\<close>

lemma two_leaves_proof:
  obtains ipf where "VerifyInclusionProof toy_hash two_leaves ipf" "ip_LeafIndex ipf = 0"
    "length (ip_Siblings ipf) = 1"
    "set (climb_inputs toy_hash (ip_Siblings ipf) (ip_LeafHash ipf) (leafIndextoMMRIndex (ip_LeafIndex ipf)))
      \<subseteq> tree_inputs toy_hash ((!) [toy_hash [1], toy_hash [2]]) 2"
    "ip_MMRSize ipf = m_size two_leaves"
proof -
  let ?ls = "[toy_hash [1], toy_hash [2]]" and ?B = toy_hash
  let ?L = "(!) ?ls"
  define p where "p = \<lparr>ip_LeafIndex = 0, ip_LeafHash = nodeh ?B ?L 0 0, ip_Siblings = [nodeh ?B ?L 0 1],
    ip_Peaks = peaksLR two_leaves, ip_MMRSize = m_size two_leaves\<rparr>"
  have pos: "leafIndextoMMRIndex 0 = 0" by (simp add: leafIndextoMMRIndex_def countOnes_def countOnes_loop.simps)
  obtain pp sp where fam: "family 0 = (pp, sp)" "unat pp = mpos (0 + 2 ^ 0) + Suc 0" "unat sp = mpos (0 + 2 ^ 0) + 0"
    "\<not> isLeftSibling sp"
    by (rule family_cases [of 0 0 0]) auto
  have m1: "mpos 1 = 1" by (simp add: mpos_def pop.simps)
  have pp: "pp = 2" using fam(2) m1 of_nat_unat_u64 [of pp] by simp
  have climb: "verify_climb ?B (ip_Siblings p) (ip_LeafHash p) (leafIndextoMMRIndex (ip_LeafIndex p)) = nodeh ?B ?L 1 1"
    using fam m1 by (simp add: p_def pos pp)
  have d: "climb_inputs ?B (ip_Siblings p) (ip_LeafHash p) (leafIndextoMMRIndex (ip_LeafIndex p)) = [node_data ?B ?L 1 1]"
    using fam m1 by (simp add: p_def pos pp node_data_def)
  have "node_data ?B ?L 1 1 \<in> tree_inputs ?B ?L 2" by (rule node_data_tree) simp_all
  moreover have "VerifyInclusionProof ?B two_leaves p"
  proof -
    have "expected_peaks (m_nodes two_leaves) (peakPositionsAtSize (m_size two_leaves)) = Some (peaksLR two_leaves)"
      using expected_peaks_repr [of ?B ?ls two_leaves "[]" two_leaves] two_leaves_repr by simp
    moreover have "nodeh ?B ?L 1 1 \<in> set (peaksLR two_leaves)"
    proof -
      have "1 \<in> set (peak_heights (length ?ls))" by (simp add: heights_odd)
      moreover have "peaksLR two_leaves = map (\<lambda>h. nodeh ?B ?L h (peak_end (length ?ls) h)) (peak_heights (length ?ls))"
        using peaksLR_heights [OF _ two_leaves_repr] by simp
      moreover have "peak_end (length ?ls) 1 = 1" by (simp add: peak_end_def)
      ultimately show ?thesis by force
    qed
    ultimately show ?thesis
      using climb by (simp add: VerifyInclusionProof_def Let_def list_ex_iff p_def)
  qed
  ultimately show thesis by (intro that [of p]) (simp_all add: d, simp_all add: p_def)
qed

lemma root_of_nonzero: "ls \<noteq> [] \<Longrightarrow> \<forall>x. B x \<noteq> 0 \<Longrightarrow> root_of B ls \<noteq> 0"
  by (simp add: root_of_def bagPeaksWithSize_def HashBytes_concat)

lemma toy_hash_one_root: "inj_on toy_hash (root_inputs toy_hash [toy_hash [1]])"
proof -
  let ?ls = "[toy_hash [1]]"
  let ?r = "BytesFromUint64 (of_nat (mpos (length ?ls))) @ hash_Bytes (bagPeaks toy_hash (peak_hashes toy_hash ?ls))"
  have heights: "peak_hashes toy_hash ?ls = [nodeh toy_hash ((!) ?ls) 0 0]"
    by (simp add: peak_hashes_def peak_at_def peak_end_def bit_len.simps [of "Suc 0"] bit_len.simps [of 0] hash_IsZero_def
        hashWithPosition_def HashBytes_concat)
  have tree: "tree_inputs toy_hash ((!) ?ls) (length ?ls) = {node_data toy_hash ((!) ?ls) 0 0}"
    by (auto simp: tree_inputs_def)
  have inputs: "root_inputs toy_hash ?ls = {node_data toy_hash ((!) ?ls) 0 0, ?r}"
    unfolding root_inputs_def tree heights by (simp add: insert_commute)
  have "toy_hash ?r \<noteq> toy_hash (node_data toy_hash ((!) ?ls) 0 0)"
  proof
    assume "toy_hash ?r = toy_hash (node_data toy_hash ((!) ?ls) 0 0)"
    then have "take 31 ?r = take 31 (node_data toy_hash ((!) ?ls) 0 0)"
      by (rule toy_hash_prefix) (simp_all add: node_data_def)
    from arg_cong [OF this, of "take 8"] have "BytesFromUint64 1 = BytesFromUint64 0"
      by (simp add: node_data_def mpos_def pop.simps)
    then show False by (simp add: u64le.enc_inj)
  qed
  then show ?thesis unfolding inputs by auto
qed

lemma merkle_inputs_one: "merkle_inputs B [x] = [leaf_input 0 x]"
  by (simp add: merkle_inputs_def leaf_inputs_def level_inputs.simps)

end
