(* ===== verification/Stream_Copy.thy ===== *)
theory Stream_Copy
  imports Stream_Client
begin

text \<open>
  Committing blocks received from a server: a batch of consecutive blocks, in whatever order they
  were received, extends the chain that the database holds, and a whole sync copies the server's
  chain.
\<close>

section \<open>A chain before its height is finalized\<close>

definition chain_part :: "blake3 \<Rightarrow> bytes \<Rightarrow> u64 \<Rightarrow> (bytes \<Rightarrow> bytes option) \<Rightarrow> Block list \<Rightarrow> bool" where
  "chain_part B cid off c bs \<longleftrightarrow> db_keys_ok c \<and> meta_ok cid off c
     \<and> (\<forall>h<length bs. c (blk_key (of_nat h)) = Some (b_Bytes (bs ! h)) \<and> block_ok B cid off bs h)
     \<and> ranges_ok B c bs"

definition finalized_entry :: "Block list \<Rightarrow> bytes option" where
  "finalized_entry bs = (if length bs \<le> 1 then None else Some (BytesFromUint64 (of_nat (length bs - 1))))"

lemma chain_part_repr:
  "chain_part B cid off c bs \<longleftrightarrow> chain_repr B cid off (c(keyFinalizedHeight := finalized_entry bs)) bs"
proof -
  define c' where "c' = c(keyFinalizedHeight := finalized_entry bs)"
  have keys: "c' (blk_key h) = c (blk_key h)" "c' (mmr_key h) = c (mmr_key h)" "c' keyChainID = c keyChainID"
    "c' keyCelestiaHeightOffset = c keyCelestiaHeightOffset" "c' keyFinalizedHeight = finalized_entry bs" for h
    unfolding c'_def using encode_key_inj [of "KBlock h" KFinalized] encode_key_inj [of "KMMR h" KFinalized]
      encode_key_inj [of KChainID KFinalized] encode_key_inj [of KOffset KFinalized] by simp_all
  have "\<exists>K. keyFinalizedHeight = encode_key K" by (rule exI [of _ KFinalized]) simp
  then have "db_keys_ok c' \<longleftrightarrow> db_keys_ok c" unfolding db_keys_ok_def c'_def by (metis fun_upd_apply)
  then have "chain_part B cid off c bs \<longleftrightarrow> chain_repr B cid off c' bs"
    by (simp add: chain_part_def chain_repr_def meta_ok_def ranges_ok_def keys finalized_entry_def)
  then show ?thesis by (simp add: c'_def)
qed

lemma chain_part_start:
  assumes "chain_repr B cid off c bs"
  shows "chain_part B cid off c bs" and "length bs \<le> 1 \<Longrightarrow> chain_part B cid off c []"
proof -
  show "chain_part B cid off c bs" using assms by (simp add: chain_part_def chain_repr_def)
  assume "length bs \<le> 1"
  have "c (mmr_key j) = None" for j
  proof (rule ccontr)
    assume "c (mmr_key j) \<noteq> None"
    then have "0 < unat j \<and> unat j < length bs" using assms unfolding chain_repr_def ranges_ok_def by blast
    with \<open>length bs \<le> 1\<close> show False by linarith
  qed
  then show "chain_part B cid off c []" using assms by (simp add: chain_part_def chain_repr_def ranges_ok_def)
qed

section \<open>One block\<close>

definition block_write ::
  "('d, 'b) env \<Rightarrow> (hash \<Rightarrow> bytes) \<Rightarrow> Block list \<Rightarrow> nat \<Rightarrow> (bytes \<Rightarrow> bytes option) \<Rightarrow> (bytes \<Rightarrow> bytes option) \<Rightarrow> bool" where
  "block_write E g bs h c c' \<longleftrightarrow> (\<exists>c1. storage_write E g c c1 \<and> body_stored c1 (bs ! h)
     \<and> (let c2 = c1(blk_key (of_nat h) \<mapsto> b_Bytes (bs ! h),
              blkh_key (header_hash (e_B E) (b_Header (bs ! h))) \<mapsto> BytesFromUint64Key (of_nat h))
        in if 0 < h \<and> state_leaves (bs ! h) \<noteq> []
           then \<exists>s m. NewMMRFromSnapshot s = Inr m
             \<and> mmr_state (e_B E) (map (e_B E) (chain_leaves (take (Suc h) bs))) m \<and> c' = c2(mmr_key (of_nat h) \<mapsto> s)
           else c' = c2))"

definition blocks_ok :: "blake3 \<Rightarrow> bytes \<Rightarrow> u64 \<Rightarrow> Block list \<Rightarrow> bool" where
  "blocks_ok B cid off bs \<longleftrightarrow> (\<forall>h<length bs. block_ok B cid off bs h)"

lemma chain_repr_blocks: "chain_repr B cid off c bs \<Longrightarrow> blocks_ok B cid off bs"
  by (simp add: chain_repr_def blocks_ok_def)

lemma block_ok_take: "h < n \<Longrightarrow> n \<le> length bs \<Longrightarrow> block_ok B cid off (take n bs) h = block_ok B cid off bs h"
  using block_ok_append [of h "take n bs" B cid off "drop n bs"] by simp

lemma b_Bytes_canon [simp]: "b_Bytes (b_canon b) = b_Bytes b"
  by (simp add: b_Bytes_def)

lemma block_write_first:
  assumes c: "chain_part (e_B E) cid off c []" and w: "block_write E g bs 0 c c'" and bs: "blocks_ok (e_B E) cid off bs" "bs \<noteq> []"
  shows "chain_part (e_B E) cid off c' (take 1 bs)"
proof -
  let ?x = "header_hash (e_B E) (b_Header (bs ! 0))"
  obtain c1 where c1: "storage_write E g c c1"
    and c': "c' = c1(blk_key 0 \<mapsto> b_Bytes (bs ! 0), blkh_key ?x \<mapsto> BytesFromUint64Key 0)"
    using w by (auto simp: block_write_def Let_def)
  have frame: "chain_frame c c1" using c1 by (simp add: storage_write_def)
  have keys: "c' (mmr_key j) = c1 (mmr_key j)" "c' keyChainID = c1 keyChainID"
    "c' keyCelestiaHeightOffset = c1 keyCelestiaHeightOffset" "c' (blk_key 0) = Some (b_Bytes (bs ! 0))" for j
    using encode_key_inj [of "KMMR j" "KBlock 0"] encode_key_inj [of "KMMR j" "KBlockHash ?x"]
      encode_key_inj [of KChainID "KBlock 0"] encode_key_inj [of KChainID "KBlockHash ?x"]
      encode_key_inj [of KOffset "KBlock 0"] encode_key_inj [of KOffset "KBlockHash ?x"]
      encode_key_inj [of "KBlock 0" "KBlockHash ?x"] by (simp_all add: c')
  have "db_keys_ok c1" using c frame by (simp add: chain_part_def chain_frame_def)
  then have "db_keys_ok c'"
    unfolding c' using db_keys_ok_upd [OF db_keys_ok_upd [where K = "KBlock 0"], where K = "KBlockHash ?x"] by simp
  moreover have "c1 (mmr_key j) = None" for j
    using c frame by (simp add: chain_part_def chain_frame_def ranges_ok_def)
  then have "ranges_ok (e_B E) c' (take 1 bs)" by (simp add: ranges_ok_def keys)
  moreover have "meta_ok cid off c'" using c frame by (simp add: chain_part_def chain_frame_def meta_ok_def keys)
  moreover have "block_ok (e_B E) cid off (take 1 bs) 0"
    using bs block_ok_take [of 0 1 bs] by (cases bs) (simp_all add: blocks_ok_def)
  moreover have "take 1 bs = [bs ! 0]" using bs(2) by (cases bs) simp_all
  ultimately show ?thesis by (simp add: chain_part_def keys)
qed

lemma applied_self:
  assumes "block_ok B cid off bs h" "0 < h" "h < length bs"
  shows "applied B (take h bs) (bs ! h) = bs ! h"
proof -
  have "take h bs \<noteq> []" using assms(2,3) by (cases bs) simp_all
  then have "last (take h bs) = bs ! (h - 1)" using assms(2,3) by (simp add: last_conv_nth)
  moreover have "take h bs @ [bs ! h] = take (Suc h) bs" using assms(3) by (simp add: take_Suc_conv_app_nth)
  ultimately show ?thesis using assms(1,2) by (simp add: applied_def block_ok_def Let_def)
qed

lemma block_write_next:
  assumes c: "chain_part (e_B E) cid off c (take h bs)" and w: "block_write E g bs h c c'"
    and bs: "blocks_ok (e_B E) cid off bs" and h: "0 < h" "h < length bs" "length bs < 2 ^ 38"
  shows "chain_part (e_B E) cid off c' (take (Suc h) bs)"
proof -
  let ?B = "e_B E" and ?b = "bs ! h" and ?n = "of_nat h :: u64" and ?F = keyFinalizedHeight
  let ?x = "header_hash ?B (b_Header ?b)" and ?e = "finalized_entry (take h bs)"
  have len: "length (take h bs) = h" using h by simp
  have suc: "take (Suc h) bs = take h bs @ [?b]" using h(2) by (simp add: take_Suc_conv_app_nth)
  have ok: "block_ok ?B cid off bs h" and ne: "bs \<noteq> []" using bs h by (auto simp: blocks_ok_def)
  obtain c1 where c1: "storage_write E g c c1"
    and c': "let c2 = c1(blk_key ?n \<mapsto> b_Bytes ?b, blkh_key ?x \<mapsto> BytesFromUint64Key ?n)
        in if 0 < h \<and> state_leaves ?b \<noteq> []
           then \<exists>s m. NewMMRFromSnapshot s = Inr m \<and> mmr_state ?B (map ?B (chain_leaves (take (Suc h) bs))) m
             \<and> c' = c2(mmr_key ?n \<mapsto> s)
           else c' = c2"
    using w unfolding block_write_def by blast
  have repr: "chain_repr ?B cid off (c(?F := ?e)) (take h bs)" using c by (simp add: chain_part_repr)
  have frame: "chain_frame (c(?F := ?e)) (c1(?F := ?e))"
  proof -
    have "db_keys_ok (c(?F := ?e))" "db_keys_ok c1 \<Longrightarrow> db_keys_ok (c1(?F := ?e))"
      using repr db_keys_ok_upd [of c1 KFinalized]
      by (auto simp: chain_repr_def finalized_entry_def db_keys_ok_def split: if_splits)
    moreover have "db_keys_ok c1" using c c1 by (simp add: chain_part_def storage_write_def chain_frame_def)
    moreover have "chain_frame c c1" using c1 by (simp add: storage_write_def)
    ultimately show ?thesis by (simp add: chain_frame_def)
  qed
  define c2 where "c2 = (if state_leaves ?b = [] then c1(?F := ?e) else (c1(mmr_key ?n := c' (mmr_key ?n)))(?F := ?e))"
  have neq: "blk_key ?n \<noteq> ?F" "blkh_key ?x \<noteq> ?F" "mmr_key ?n \<noteq> ?F" "mmr_key ?n \<noteq> blk_key ?n" "mmr_key ?n \<noteq> blkh_key ?x"
    using encode_key_inj [of "KBlock ?n" KFinalized] encode_key_inj [of "KBlockHash ?x" KFinalized]
      encode_key_inj [of "KMMR ?n" KFinalized] encode_key_inj [of "KMMR ?n" "KBlock ?n"]
      encode_key_inj [of "KMMR ?n" "KBlockHash ?x"] by simp_all
  have mw: "mmr_write ?B (take h bs) ?b (c1(?F := ?e)) c2"
  proof (cases "state_leaves ?b = []")
    case False
    with c' h(1) obtain s m where s: "NewMMRFromSnapshot s = Inr m"
      "mmr_state ?B (map ?B (chain_leaves (take (Suc h) bs))) m" "c' (mmr_key ?n) = Some s" by auto
    have "c2 = (c1(?F := ?e))(mmr_key ?n \<mapsto> s)"
      using False neq(3) s(3) by (simp add: c2_def fun_upd_twist)
    with s False show ?thesis unfolding mmr_write_def len suc [symmetric] by auto
  qed (simp add: mmr_write_def c2_def)
  have c3: "c'(?F \<mapsto> BytesFromUint64 ?n) = c2(blk_key ?n \<mapsto> b_Bytes ?b, blkh_key ?x \<mapsto> BytesFromUint64Key ?n,
      ?F \<mapsto> BytesFromUint64 ?n)"
    using c' h(1) neq by (cases "state_leaves ?b = []") (auto simp: c2_def fun_eq_iff)
  have "chain_repr ?B cid off (c'(?F \<mapsto> BytesFromUint64 ?n)) (take h bs @ [?b])"
    by (rule chain_repr_snoc [OF repr _ _ frame _ _ _ _ _ _ mw])
       (use h ok len ne applied_self [OF ok h(1,2)] c3 in \<open>simp_all add: block_ok_def Let_def b_Height_def\<close>)
  moreover have "finalized_entry (take (Suc h) bs) = Some (BytesFromUint64 ?n)"
  proof -
    have "length (take (Suc h) bs) = Suc h" using h by simp
    then show ?thesis using h(1) by (simp add: finalized_entry_def del: length_take)
  qed
  ultimately show ?thesis by (simp add: chain_part_repr suc)
qed

lemma block_write_chain:
  assumes "chain_part (e_B E) cid off c (take h bs)" "block_write E g bs h c c'" "blocks_ok (e_B E) cid off bs"
    and "h < length bs" "length bs < 2 ^ 38"
  shows "chain_part (e_B E) cid off c' (take (Suc h) bs)"
  using assms block_write_first [of E cid off c g bs c'] block_write_next [of E cid off c h bs g c']
  by (cases "h = 0") auto

text \<open>What a block's commit keeps besides.\<close>

lemma block_write_keeps:
  assumes "block_write E g bs h c c'"
  shows "never_dropped c c'" "body_stored c' (bs ! h)" "chunks_sound E g c \<Longrightarrow> chunks_sound E g c'"
    "c' (blkh_key (header_hash (e_B E) (b_Header (bs ! h)))) = Some (BytesFromUint64Key (of_nat h))"
    "x \<noteq> header_hash (e_B E) (b_Header (bs ! h)) \<Longrightarrow> c' (blkh_key x) = c (blkh_key x)"
proof -
  let ?x = "header_hash (e_B E) (b_Header (bs ! h))"
  obtain c1 where c1: "storage_write E g c c1" "body_stored c1 (bs ! h)"
    and c': "let c2 = c1(blk_key (of_nat h) \<mapsto> b_Bytes (bs ! h), blkh_key ?x \<mapsto> BytesFromUint64Key (of_nat h))
        in if 0 < h \<and> state_leaves (bs ! h) \<noteq> []
           then \<exists>s m. NewMMRFromSnapshot s = Inr m
             \<and> mmr_state (e_B E) (map (e_B E) (chain_leaves (take (Suc h) bs))) m \<and> c' = c2(mmr_key (of_nat h) \<mapsto> s)
           else c' = c2"
    using assms unfolding block_write_def by blast
  define c2 where "c2 = c1(blk_key (of_nat h) \<mapsto> b_Bytes (bs ! h), blkh_key ?x \<mapsto> BytesFromUint64Key (of_nat h))"
  have c2: "c' = c2 \<or> (\<exists>s. c' = c2(mmr_key (of_nat h) \<mapsto> s))"
    using c' unfolding c2_def Let_def by (cases "0 < h \<and> state_leaves (bs ! h) \<noteq> []") auto
  have "never_dropped c1 c2" by (simp add: c2_def never_dropped_upd)
  with c2 have n: "never_dropped c1 c'" by (auto simp: never_dropped_upd)
  have "c2 (chk_key k) = c1 (chk_key k)" "chk_key k \<noteq> mmr_key (of_nat h)" for k
    using encode_key_inj [of "KChunk k" "KBlock (of_nat h)"] encode_key_inj [of "KChunk k" "KBlockHash ?x"]
      encode_key_inj [of "KChunk k" "KMMR (of_nat h)"] by (simp_all add: c2_def)
  then have same: "c' (chk_key k) = c1 (chk_key k)" for k using c2 by (elim disjE exE) simp_all
  have "c2 (blkh_key y) = (if y = ?x then Some (BytesFromUint64Key (of_nat h)) else c1 (blkh_key y))"
    and neq: "blkh_key y \<noteq> mmr_key (of_nat h)" for y
    using encode_key_inj [of "KBlockHash y" "KBlock (of_nat h)"] encode_key_inj [of "KBlockHash y" "KBlockHash ?x"]
      encode_key_inj [of "KBlockHash y" "KMMR (of_nat h)"] by (simp_all add: c2_def)
  moreover have "c' (blkh_key y) = c2 (blkh_key y)" for y
    using c2 neq [of y] by (elim disjE exE) simp_all
  ultimately have hash: "c' (blkh_key y) = (if y = ?x then Some (BytesFromUint64Key (of_nat h)) else c1 (blkh_key y))" for y
    by (simp only:)
  have "never_dropped c c1" using c1(1) by (simp add: storage_write_def)
  from this n show "never_dropped c c'" by (rule never_dropped_trans)
  show "body_stored c' (bs ! h)" by (rule body_stored_mono [OF c1(2) n])
  show "chunks_sound E g c'" if "chunks_sound E g c"
  proof -
    have "chunks_sound E g c1" using c1(1) that by (simp only: storage_write_def)
    then show ?thesis by (simp only: chunks_sound_def same)
  qed
  show "c' (blkh_key ?x) = Some (BytesFromUint64Key (of_nat h))" by (simp add: hash)
  show "c' (blkh_key x) = c (blkh_key x)" if "x \<noteq> ?x" using that c1(1) by (simp add: hash storage_write_def)
qed

section \<open>One block's commit\<close>

text \<open>A message that was parsed can be encoded again.\<close>

definition reencodes :: "'m codec \<Rightarrow> bool" where
  "reencodes c \<longleftrightarrow> (\<forall>data m. unmarshal c data = Inr m \<longrightarrow> (\<exists>b. marshal c m = Inr b))"

definition copy_ok :: "('d, 'b) env \<Rightarrow> ('d, 'b) store_view \<Rightarrow> map_iters \<Rightarrow> bool" where
  "copy_ok E V I \<longleftrightarrow> env_ok E V \<and> pebble_total (e_db E) \<and> reencodes (e_file E) \<and> reencodes (e_dir E) \<and> map_iters_ok I"

lemma visits_mem: "visits xs m \<Longrightarrow> (k, v) \<in> set xs \<longleftrightarrow> m k = Some v"
  unfolding visits_def by (metis map_of_SomeD map_of_is_SomeI)

lemma PutStateMMRRaw_put:
  assumes P: "pebble_ok (e_db E) V" "pebble_total (e_db E)" and h: "h \<noteq> 0"
  shows "\<exists>tx'. PutStateMMRRaw E tx h raw = Inr tx' \<and> nil_maps tx' = nil_maps tx
    \<and> tx_view V d tx' = (tx_view V d tx)(mmr_key h \<mapsto> raw)"
proof -
  obtain b where b: "tx_write E tx (prefixHeightKey h stateMMRPrefix) raw = Inr (tx\<lparr>tx_batch := b\<rparr>)"
    using tx_write_total [OF P(2)] by blast
  with tx_write_effect [OF P(1) b] h show ?thesis
    by (auto simp: PutStateMMRRaw_def key_defs nil_maps_def)
qed

lemma commit_storage:
  assumes C: "copy_ok E V I" and sound: "chunks_sound E g cs" and pd: "pd_ok E cs bs h data" and nil: "\<not> nil_maps tx"
  shows "\<exists>t1 t2 t3. fold_res (\<lambda>tx (key, chunkData). wrap ''error storing chunk in batch'' (PutChunk E tx key chunkData
         (case pd_chunkHashes data key of None \<Rightarrow> 0 | Some hash \<Rightarrow> hash))) tx (mi_chunks I (pd_chunks data)) = Inr t1
    \<and> fold_res (\<lambda>tx (a, fileId, manifest). wrap ''error storing file manifest in batch''
         (PutFileManifest E tx (a, fileId) manifest)) t1 (mi_files I (pd_fileManifests data)) = Inr t2
    \<and> fold_res (\<lambda>tx (a, dirId, manifest). wrap ''error storing directory manifest in batch''
         (PutDirectoryManifest E tx dirId manifest)) t2 (mi_dirs I (pd_dirManifests data)) = Inr t3
    \<and> \<not> nil_maps t3 \<and> storage_write E g (tx_view V d tx) (tx_view V d t3) \<and> body_stored (tx_view V d t3) (bs ! h)"
    (is "\<exists>t1 t2 t3. fold_res ?f1 _ ?xs1 = _ \<and> fold_res ?f2 _ ?xs2 = _ \<and> fold_res ?f3 _ ?xs3 = _ \<and> _")
proof -
  let ?v = "tx_view V d"
  have P: "pebble_ok (e_db E) V" "pebble_total (e_db E)" using C env_okD(2) by (auto simp: copy_ok_def)
  have v1: "visits ?xs1 (pd_chunks data)" and v2: "visits ?xs2 (pd_fileManifests data)"
    and v3: "visits ?xs3 (pd_dirManifests data)"
    using C pd by (simp_all add: copy_ok_def map_iters_ok_def pd_ok_def)
  have "\<exists>t1. fold_res ?f1 tx ?xs1 = Inr t1 \<and> \<not> nil_maps t1 \<and> storage_write E g (?v tx) (?v t1)
      \<and> (\<forall>x\<in>set ?xs1. ?v t1 (chk_key (fst x)) \<noteq> None)"
  proof (rule fold_puts [OF _ nil])
    fix tx :: "'b tx" and x assume x: "x \<in> set ?xs1" and nil: "\<not> nil_maps tx"
    obtain k v where [simp]: "x = (k, v)" by fastforce
    have "cs (chk_key k) = Some v" using x pd visits_mem [OF v1] by (simp add: pd_ok_def)
    with sound have "v = chunk_of E g k" unfolding chunks_sound_def by blast
    from PutChunk_put [OF P nil this] show "\<exists>tx'. ?f1 tx x = Inr tx' \<and> \<not> nil_maps tx'
      \<and> storage_write E g (?v tx) (?v tx') \<and> ?v tx' (chk_key (fst x)) \<noteq> None" by fastforce
  qed
  then obtain t1 where t1: "fold_res ?f1 tx ?xs1 = Inr t1" "\<not> nil_maps t1" "storage_write E g (?v tx) (?v t1)"
    "\<forall>x\<in>set ?xs1. ?v t1 (chk_key (fst x)) \<noteq> None" by blast
  have "\<exists>t2. fold_res ?f2 t1 ?xs2 = Inr t2 \<and> \<not> nil_maps t2 \<and> storage_write E g (?v t1) (?v t2)
      \<and> (\<forall>x\<in>set ?xs2. ?v t2 (fman_key (fst (snd x))) \<noteq> None)"
  proof (rule fold_puts [OF _ t1(2)])
    fix tx :: "'b tx" and x assume x: "x \<in> set ?xs2" and nil: "\<not> nil_maps tx"
    obtain a i m where [simp]: "x = (a, i, m)" by (cases x)
    have "stored_file E cs i m" using x pd visits_mem [OF v2] by (simp add: pd_ok_def)
    with C obtain b where "marshal (e_file E) m = Inr b"
      unfolding stored_file_def copy_ok_def reencodes_def by blast
    from PutFileManifest_put [OF P nil this] show "\<exists>tx'. ?f2 tx x = Inr tx' \<and> \<not> nil_maps tx'
      \<and> storage_write E g (?v tx) (?v tx') \<and> ?v tx' (fman_key (fst (snd x))) \<noteq> None" by fastforce
  qed
  then obtain t2 where t2: "fold_res ?f2 t1 ?xs2 = Inr t2" "\<not> nil_maps t2" "storage_write E g (?v t1) (?v t2)"
    "\<forall>x\<in>set ?xs2. ?v t2 (fman_key (fst (snd x))) \<noteq> None" by blast
  have "\<exists>t3. fold_res ?f3 t2 ?xs3 = Inr t3 \<and> \<not> nil_maps t3 \<and> storage_write E g (?v t2) (?v t3)
      \<and> (\<forall>x\<in>set ?xs3. ?v t3 (dman_key (fst (snd x))) \<noteq> None)"
  proof (rule fold_puts [OF _ t2(2)])
    fix tx :: "'b tx" and x assume x: "x \<in> set ?xs3" and nil: "\<not> nil_maps tx"
    obtain a i m where [simp]: "x = (a, i, m)" by (cases x)
    have "stored_dir E cs i m" using x pd visits_mem [OF v3] by (simp add: pd_ok_def)
    with C obtain b where "marshal (e_dir E) m = Inr b"
      unfolding stored_dir_def copy_ok_def reencodes_def by blast
    from PutDirectoryManifest_put [OF P nil this] show "\<exists>tx'. ?f3 tx x = Inr tx' \<and> \<not> nil_maps tx'
      \<and> storage_write E g (?v tx) (?v tx') \<and> ?v tx' (dman_key (fst (snd x))) \<noteq> None" by fastforce
  qed
  then obtain t3 where t3: "fold_res ?f3 t2 ?xs3 = Inr t3" "\<not> nil_maps t3" "storage_write E g (?v t2) (?v t3)"
    "\<forall>x\<in>set ?xs3. ?v t3 (dman_key (fst (snd x))) \<noteq> None" by blast
  have n23: "never_dropped (?v t2) (?v t3)" and n12: "never_dropped (?v t1) (?v t2)"
    using t2(3) t3(3) by (simp_all only: storage_write_def)
  have "?v t3 (chk_key (bi_Commitment i)) \<noteq> None" if i: "i \<in> set (bb_Chunks (b_Body (bs ! h)))" for i
  proof -
    obtain v where "pd_chunks data (bi_Commitment i) = Some v" using pd i unfolding pd_ok_def by blast
    then have "(bi_Commitment i, v) \<in> set ?xs1" by (simp add: visits_mem [OF v1])
    with t1(4) n12 n23 show ?thesis unfolding never_dropped_def by fastforce
  qed
  moreover have "?v t3 (fman_key i) \<noteq> None" if i: "i \<in> set (bb_Files (b_Body (bs ! h)))" for i
  proof -
    obtain a m where "pd_fileManifests data a = Some (i, m)" using pd i unfolding pd_ok_def by blast
    then have "(a, i, m) \<in> set ?xs2" by (simp add: visits_mem [OF v2])
    with t2(4) n23 show ?thesis unfolding never_dropped_def by fastforce
  qed
  moreover have "?v t3 (dman_key i) \<noteq> None" if i: "i \<in> set (bb_Dirs (b_Body (bs ! h)))" for i
  proof -
    obtain a m where "pd_dirManifests data a = Some (i, m)" using pd i unfolding pd_ok_def by blast
    then have "(a, i, m) \<in> set ?xs3" by (simp add: visits_mem [OF v3])
    with t3(4) show ?thesis by fastforce
  qed
  ultimately have "body_stored (?v t3) (bs ! h)" by (simp add: body_stored_def ids_stored_def)
  with t1(1) t2(1) t3(1,2) storage_write_trans [OF storage_write_trans [OF t1(3) t2(3)] t3(3)]
  show ?thesis by blast
qed

lemma commit_block_write:
  assumes C: "copy_ok E V I" and sound: "chunks_sound E g cs" and pd: "pd_ok E cs bs h data" and nil: "\<not> nil_maps tx"
    and h: "h < length bs" "length bs < 2 ^ 38" and height: "bh_Height (b_Header (bs ! h)) = of_nat h"
  shows "\<exists>tx'. commit_block E I (tx, cache) data
      = Inr (tx', cache(of_nat h \<mapsto> header_hash (e_B E) (b_Header (bs ! h))))
    \<and> \<not> nil_maps tx' \<and> block_write E g bs h (tx_view V d tx) (tx_view V d tx')"
proof -
  let ?v = "tx_view V d" and ?n = "of_nat h :: u64" and ?x = "header_hash (e_B E) (b_Header (bs ! h))"
  let ?cache = "cache(?n \<mapsto> ?x)"
  have P: "pebble_ok (e_db E) V" "pebble_total (e_db E)" using C env_okD(2) by (auto simp: copy_ok_def)
  have data: "pd_height data = ?n" "pd_block data = b_canon (bs ! h)" "pd_blockHash data = ?x"
    and snap: "range_msg_ok (e_B E) bs h (pd_mmrSnapshot data)" using pd by (simp_all add: pd_ok_def)
  have nat: "unat ?n = h" using h by (intro unat_of_nat_u64) simp
  have pos: "?n > 0 \<longleftrightarrow> h > 0" by (simp add: word_less_nat_alt nat)
  have cached: "b_Hash (e_B E) ?cache (b_canon (bs ! h)) = (?x, ?cache)"
    "UpdateHashCache cache (bh_canon (b_Header (bs ! h))) ?x = ?cache"
    by (simp_all add: b_Hash_def bh_Hash_def height UpdateHashCache_def)
  obtain t1 t2 t3 where t: "fold_res (\<lambda>tx (key, chunkData). wrap ''error storing chunk in batch'' (PutChunk E tx key chunkData
         (case pd_chunkHashes data key of None \<Rightarrow> 0 | Some hash \<Rightarrow> hash))) tx (mi_chunks I (pd_chunks data)) = Inr t1"
    "fold_res (\<lambda>tx (a, fileId, manifest). wrap ''error storing file manifest in batch''
         (PutFileManifest E tx (a, fileId) manifest)) t1 (mi_files I (pd_fileManifests data)) = Inr t2"
    "fold_res (\<lambda>tx (a, dirId, manifest). wrap ''error storing directory manifest in batch''
         (PutDirectoryManifest E tx dirId manifest)) t2 (mi_dirs I (pd_dirManifests data)) = Inr t3"
    and nil3: "\<not> nil_maps t3" and w: "storage_write E g (?v tx) (?v t3)" "body_stored (?v t3) (bs ! h)"
    using commit_storage [OF C sound pd nil, of d] by blast
  obtain t4 cache4 where put: "PutBlock E ?cache t3 ?n (b_canon (bs ! h)) = Inr (t4, cache4)"
    using PutBlock_total [OF P(2)] by blast
  note pb = PutBlock_effect [OF P(1) put]
  have cache4: "cache4 = ?cache" using pb(2) cached(1) by simp
  have v4: "?v t4 = (?v t3)(blk_key ?n \<mapsto> b_Bytes (bs ! h), blkh_key ?x \<mapsto> BytesFromUint64Key ?n)"
    using pb(1) [of d] cached(1) by simp
  have run: "commit_block E I (tx, cache) data =
      rbind (if length (pd_mmrSnapshot data) > 0 \<and> ?n > 0
         then wrap ''error storing MMR in batch'' (PutStateMMRRaw E t4 ?n (pd_mmrSnapshot data)) else Inr t4)
        (\<lambda>tx. Inr (tx, ?cache))"
    by (simp add: commit_block_def t data Let_def put cached cache4)
  show ?thesis
  proof (cases "0 < h \<and> state_leaves (bs ! h) \<noteq> []")
    case True
    with snap obtain m where s: "pd_mmrSnapshot data \<noteq> []" "NewMMRFromSnapshot (pd_mmrSnapshot data) = Inr m"
      "mmr_state (e_B E) (map (e_B E) (chain_leaves (take (Suc h) bs))) m" by (auto simp: range_msg_ok_def)
    have "?n \<noteq> 0" using True pos by auto
    from PutStateMMRRaw_put [OF P this, of t4 "pd_mmrSnapshot data" d] obtain t5 where
      t5: "PutStateMMRRaw E t4 ?n (pd_mmrSnapshot data) = Inr t5" "nil_maps t5 = nil_maps t4"
      "?v t5 = (?v t4)(mmr_key ?n \<mapsto> pd_mmrSnapshot data)" by blast
    have "block_write E g bs h (?v tx) (?v t5)"
      unfolding block_write_def Let_def using True s w by (intro exI [of _ "?v t3"]) (auto simp: t5(3) v4)
    moreover have "commit_block E I (tx, cache) data = Inr (t5, ?cache)"
      using run s(1) True pos t5(1) by simp
    ultimately show ?thesis using t5(2) pb(3) nil3 by blast
  next
    case False
    then have "pd_mmrSnapshot data = []" using snap by (auto simp: range_msg_ok_def)
    then have "commit_block E I (tx, cache) data = Inr (t4, ?cache)" using run by simp
    moreover have "block_write E g bs h (?v tx) (?v t4)"
      unfolding block_write_def Let_def using False w by (intro exI [of _ "?v t3"]) (auto simp: v4)
    ultimately show ?thesis using pb(3) nil3 by blast
  qed
qed

end
