(* ===== verification/Stream_Commit.thy ===== *)
theory Stream_Commit
  imports Stream_Copy
begin

text \<open>
  The committer over a whole stream: a batch of consecutive blocks extends the copied chain, in
  whatever order its blocks arrived, and batch after batch the node ends with the server's chain,
  its bodies, and the finalized height of its last block.
\<close>

section \<open>A copied chain\<close>

definition copied ::
  "('d, 'b) env \<Rightarrow> (hash \<Rightarrow> bytes) \<Rightarrow> bytes \<Rightarrow> u64 \<Rightarrow> Block list \<Rightarrow> nat \<Rightarrow> (bytes \<Rightarrow> bytes option) \<Rightarrow> bool" where
  "copied E g cid off bs n c \<longleftrightarrow> chain_part (e_B E) cid off c (take n bs)
     \<and> servable (e_B E) c (take n bs) \<and> chunks_sound E g c"

text \<open>What is known of the server's chain.\<close>

definition source_ok :: "('d, 'b) env \<Rightarrow> bytes \<Rightarrow> u64 \<Rightarrow> Block list \<Rightarrow> bool" where
  "source_ok E cid off bs \<longleftrightarrow> blocks_ok (e_B E) cid off bs \<and> hashes_differ (e_B E) bs \<and> length bs < 2 ^ 38"

lemma source_height: "source_ok E cid off bs \<Longrightarrow> h < length bs \<Longrightarrow> bh_Height (b_Header (bs ! h)) = of_nat h"
  by (simp add: source_ok_def blocks_ok_def block_ok_def Let_def)

lemma copied_step:
  assumes src: "source_ok E cid off bs" and c: "copied E g cid off bs n c" and w: "block_write E g bs n c c'"
    and n: "n < length bs"
  shows "copied E g cid off bs (Suc n) c'"
proof -
  let ?B = "e_B E" and ?b = "bs ! n"
  note keeps = block_write_keeps [OF w]
  have suc: "take (Suc n) bs = take n bs @ [?b]" using n by (simp add: take_Suc_conv_app_nth)
  have len: "length (take n bs) = n" using n by simp
  have "distinct (take (Suc n) (map (\<lambda>b. header_hash ?B (b_Header b)) bs))"
    using src unfolding source_ok_def hashes_differ_def by (intro distinct_take) simp
  then have "hashes_differ ?B (take n bs @ [?b])" by (simp only: hashes_differ_def take_map suc)
  moreover have "indexed ?B c (take n bs)" using c by (simp add: copied_def servable_def)
  ultimately have "indexed ?B c' (take (Suc n) bs)"
    unfolding suc by (intro indexed_snoc [where c = c]) (use keeps(4,5) len in \<open>simp_all del: length_take\<close>)
  moreover have "body_stored c' b" if "b \<in> set (take (Suc n) bs)" for b
  proof (cases "b = ?b")
    case False
    with that have "b \<in> set (take n bs)" by (simp add: suc)
    with c have "body_stored c b" by (simp add: copied_def servable_def)
    then show ?thesis by (rule body_stored_mono [OF _ keeps(1)])
  qed (simp add: keeps(2))
  moreover have "chain_part ?B cid off c' (take (Suc n) bs)"
    using src c w n by (intro block_write_chain) (auto simp: copied_def source_ok_def)
  moreover have "chunks_sound E g c'" using c by (intro keeps(3)) (simp add: copied_def)
  ultimately show ?thesis by (simp add: copied_def servable_def)
qed

lemma copied_finalized: "copied E g cid off bs n c \<Longrightarrow> copied E g cid off bs n (c(keyFinalizedHeight \<mapsto> v))"
proof -
  let ?c = "c(keyFinalizedHeight \<mapsto> v)"
  assume c: "copied E g cid off bs n c"
  have eqs: "?c (chk_key k) = c (chk_key k)" "?c (blkh_key x) = c (blkh_key x)" for k x
    using encode_key_inj [of "KChunk k" KFinalized] encode_key_inj [of "KBlockHash x" KFinalized] by simp_all
  have "chunks_sound E g ?c = chunks_sound E g c" "indexed (e_B E) ?c (take n bs) = indexed (e_B E) c (take n bs)"
    by (simp_all only: chunks_sound_def indexed_def eqs)
  then have "chunks_sound E g ?c" "indexed (e_B E) ?c (take n bs)" using c by (simp_all add: copied_def servable_def)
  moreover have "body_stored ?c b" if "b \<in> set (take n bs)" for b
  proof (rule body_stored_mono)
    show "body_stored c b" using c that unfolding copied_def servable_def by blast
    show "never_dropped c ?c" by (rule never_dropped_upd [OF never_dropped_refl])
  qed
  moreover have "chain_part (e_B E) cid off ?c (take n bs)"
    using c by (simp add: copied_def chain_part_repr)
  ultimately show ?thesis by (simp add: copied_def servable_def)
qed

section \<open>The writes of a batch\<close>

lemma cache_ok_upd:
  assumes "cache_ok B cache bs" "h < length bs" "length bs < 2 ^ 64"
  shows "cache_ok B (cache(of_nat h \<mapsto> header_hash B (b_Header (bs ! h)))) bs"
proof -
  have "unat (of_nat h :: u64) = h" using assms(2,3) by (intro unat_of_nat_u64) linarith
  with assms(1,2) show ?thesis by (auto simp: cache_ok_def)
qed

lemma fold_commit:
  assumes C: "copy_ok E V I" and src: "source_ok E cid off bs" and sound: "chunks_sound E g cs"
    and blocks: "\<And>h. n \<le> h \<Longrightarrow> h < n + k \<Longrightarrow> \<exists>data. blocks (of_nat h) = Some data \<and> pd_ok E cs bs h data"
    and n: "n + k \<le> length bs" and tx: "\<not> nil_maps tx" "copied E g cid off bs n (tx_view V d tx)"
    and cache: "cache_ok (e_B E) cache bs"
  shows "\<exists>tx' cache'. fold_res (\<lambda>s height. case blocks height of
         None \<Rightarrow> Inl (Panic ''nil pointer dereference'') | Some data \<Rightarrow> commit_block E I s data) (tx, cache)
         (map of_nat [n..<n + k]) = Inr (tx', cache')
    \<and> \<not> nil_maps tx' \<and> copied E g cid off bs (n + k) (tx_view V d tx') \<and> cache_ok (e_B E) cache' bs"
  using blocks n tx cache
proof (induction k arbitrary: n tx cache)
  case (Suc k)
  let ?f = "\<lambda>s height. case blocks height of
         None \<Rightarrow> Inl (Panic ''nil pointer dereference'') | Some data \<Rightarrow> commit_block E I s data"
  let ?cache = "cache(of_nat n \<mapsto> header_hash (e_B E) (b_Header (bs ! n)))"
  have h: "n < length bs" "length bs < 2 ^ 38" using Suc.prems(2) src by (simp_all add: source_ok_def)
  obtain data where data: "blocks (of_nat n) = Some data" "pd_ok E cs bs n data" using Suc.prems(1) [of n] by auto
  from commit_block_write [OF C sound data(2) Suc.prems(3) h source_height [OF src h(1)], of cache d]
  obtain tx1 where tx1: "commit_block E I (tx, cache) data = Inr (tx1, ?cache)" "\<not> nil_maps tx1"
    "block_write E g bs n (tx_view V d tx) (tx_view V d tx1)" by blast
  have p: "(2 :: nat) ^ 38 < 2 ^ 64" by simp
  have "cache_ok (e_B E) ?cache bs"
    using Suc.prems(5) h(1) by (rule cache_ok_upd) (use h p in linarith)
  moreover have "copied E g cid off bs (Suc n) (tx_view V d tx1)" by (rule copied_step [OF src Suc.prems(4) tx1(3) h(1)])
  moreover have "\<exists>data. blocks (of_nat h) = Some data \<and> pd_ok E cs bs h data" if "Suc n \<le> h" "h < Suc n + k" for h
    using that by (intro Suc.prems(1)) simp_all
  moreover have "Suc n + k \<le> length bs" using Suc.prems(2) by simp
  ultimately obtain tx' cache' where r: "fold_res ?f (tx1, ?cache) (map of_nat [Suc n..<Suc n + k]) = Inr (tx', cache')"
    "\<not> nil_maps tx'" "copied E g cid off bs (Suc n + k) (tx_view V d tx')" "cache_ok (e_B E) cache' bs"
    using Suc.IH [of "Suc n" tx1 ?cache] tx1(2) by blast
  have "[n..<n + Suc k] = n # [Suc n..<Suc n + k]" by (simp add: upt_conv_Cons)
  then have "fold_res ?f (tx, cache) (map of_nat [n..<n + Suc k]) = Inr (tx', cache')"
    using data(1) tx1(1) r(1) by (simp del: upt_Suc fun_upd_apply)
  with r(2-4) show ?case by (metis add_Suc_shift)
qed simp

text \<open>The blocks of a batch, in the order of their arrival.\<close>

definition block_map :: "processed list \<Rightarrow> (u64 \<rightharpoonup> processed) \<Rightarrow> u64 \<rightharpoonup> processed" where
  "block_map xs m = fold (\<lambda>data m. m(pd_height data \<mapsto> data)) xs m"

definition batch_ok ::
  "('d, 'b) env \<Rightarrow> (bytes \<Rightarrow> bytes option) \<Rightarrow> Block list \<Rightarrow> nat \<Rightarrow> nat \<Rightarrow> processed list \<Rightarrow> bool" where
  "batch_ok E cs bs n k xs \<longleftrightarrow> mset (map pd_height xs) = mset (map of_nat [n..<n + k])
     \<and> (\<forall>data\<in>set xs. \<exists>h<length bs. pd_ok E cs bs h data)"

lemma block_map_alt: "block_map xs m = m ++ map_of (rev (map (\<lambda>data. (pd_height data, data)) xs))"
  unfolding block_map_def by (induction xs arbitrary: m) (simp_all del: fun_upd_apply)

lemma block_map_lookup:
  "block_map xs Map.empty k = Some data \<Longrightarrow> data \<in> set xs \<and> pd_height data = k"
  "k \<in> set (map pd_height xs) \<Longrightarrow> \<exists>data. block_map xs Map.empty k = Some data"
proof -
  let ?kvs = "rev (map (\<lambda>data. (pd_height data, data)) xs)"
  have alt: "block_map xs Map.empty = map_of ?kvs" by (simp add: block_map_alt)
  show "data \<in> set xs \<and> pd_height data = k" if "block_map xs Map.empty k = Some data"
    using map_of_SomeD [of ?kvs k data] that alt by auto
  show "\<exists>data. block_map xs Map.empty k = Some data" if "k \<in> set (map pd_height xs)"
  proof (rule ccontr)
    assume "\<nexists>data. block_map xs Map.empty k = Some data"
    then have "map_of ?kvs k = None" by (simp add: alt)
    then have "k \<notin> fst ` set ?kvs" by (rule map_of_eq_None_iff [THEN iffD1])
    with that show False by (auto simp: image_image)
  qed
qed

lemma batch_ok_lookup:
  assumes "batch_ok E cs bs n k xs" "n \<le> h" "h < n + k" "n + k \<le> length bs" "length bs < 2 ^ 64"
  shows "\<exists>data. block_map xs Map.empty (of_nat h) = Some data \<and> pd_ok E cs bs h data"
proof -
  have "set (map pd_height xs) = of_nat ` {n..<n + k}"
    using assms(1) unfolding batch_ok_def by (metis list.set_map mset_eq_setD set_upt)
  then have "(of_nat h :: u64) \<in> set (map pd_height xs)" using assms(2,3) by simp
  then obtain data where data: "block_map xs Map.empty (of_nat h) = Some data"
    using block_map_lookup(2) by blast
  then have "data \<in> set xs" "pd_height data = of_nat h" using block_map_lookup(1) [OF data] by simp_all
  moreover from this assms(1) obtain h' where h': "h' < length bs" "pd_ok E cs bs h' data"
    unfolding batch_ok_def by blast
  ultimately have "(of_nat h' :: u64) = of_nat h" by (simp add: pd_ok_def)
  then have "unat (of_nat h' :: u64) = unat (of_nat h :: u64)" by simp
  then have "h' = h" using h'(1) assms(3-5) by (simp add: unat_of_nat_u64)
  with data h'(2) show ?thesis by blast
qed

lemma sort_heights:
  assumes "mset hs = mset (map of_nat [n..<n + k])" "n + k \<le> 2 ^ 64"
  shows "sort hs = (map of_nat [n..<n + k] :: u64 list)"
proof (rule properties_for_sort [OF assms(1) [symmetric]])
  have "(of_nat i :: u64) \<le> of_nat j" if "i \<le> j" "j < n + k" for i j
    using that assms(2) by (simp add: word_le_nat_alt unat_of_nat_u64)
  then have "sorted_wrt (\<lambda>i j. (of_nat i :: u64) \<le> of_nat j) [n..<n + k]"
    by (auto simp: sorted_wrt_iff_nth_less simp del: of_nat_add)
  then show "sorted (map of_nat [n..<n + k] :: u64 list)" by (simp only: sorted_wrt_map)
qed

section \<open>A batch, and all batches\<close>

definition copying ::
  "('d, 'b) env \<Rightarrow> ('d, 'b) store_view \<Rightarrow> (hash \<Rightarrow> bytes) \<Rightarrow> bytes \<Rightarrow> u64 \<Rightarrow> Block list \<Rightarrow> nat \<Rightarrow> 'd bchain \<Rightarrow> bool" where
  "copying E V g cid off bs n bc \<longleftrightarrow> bc_chainID bc = cid \<and> \<not> cs_pending (bc_state bc)
     \<and> copied E g cid off bs n (content V (cs_db (bc_state bc))) \<and> cache_ok (e_B E) (bc_cache bc) bs"

lemma commitBatch_copied:
  assumes C: "copy_ok E V I" and src: "source_ok E cid off bs" and sound: "chunks_sound E g cs"
    and xs: "batch_ok E cs bs n k xs" and n: "0 < k" "n + k \<le> length bs" and bc: "copying E V g cid off bs n bc"
  shows "\<exists>bc'. commitBatch E I slow (block_map xs Map.empty) (map pd_height xs) bc = (Inr (), bc')
    \<and> copying E V g cid off bs (n + k) bc'
    \<and> content V (cs_db (bc_state bc')) keyFinalizedHeight = Some (BytesFromUint64 (of_nat (n + k - 1)))"
proof -
  let ?d = "cs_db (bc_state bc)" and ?hs = "map of_nat [n..<n + k] :: u64 list" and ?blocks = "block_map xs Map.empty"
  define s1 where "s1 = (bc_state bc)\<lparr>cs_pending := True\<rparr>"
  have P: "pebble_ok (e_db E) V" "pebble_total (e_db E)" using C env_okD(2) by (auto simp: copy_ok_def)
  have p: "(2 :: nat) ^ 38 < 2 ^ 64" by simp
  have len: "length bs < 2 ^ 64" using src p unfolding source_ok_def by linarith
  have hs: "sort (map pd_height xs) = ?hs"
    using xs n(2) len by (intro sort_heights) (auto simp: batch_ok_def)
  have "[n..<n + k] = [n..<n + k - 1] @ [n + k - 1]" using n(1) upt_Suc_append [of n "n + k - 1"] by simp
  then have last: "last ?hs = of_nat (n + k - 1)" by simp
  have start: "BeginTransaction E (bc_state bc) = Inr (NewChainStateTransaction E ?d, s1)"
    using bc by (simp add: copying_def BeginTransaction_def s1_def)
  let ?tx = "NewChainStateTransaction E ?d"
  have tx: "\<not> nil_maps ?tx" "copied E g cid off bs n (tx_view V ?d ?tx)"
    using bc by (simp_all add: copying_def tx_view_new [OF P(1)]) (simp add: nil_maps_def NewChainStateTransaction_def)
  have cache: "cache_ok (e_B E) (bc_cache bc) bs" using bc by (simp add: copying_def)
  obtain tx1 cache1 where w: "fold_res (\<lambda>s height. case ?blocks height of
         None \<Rightarrow> Inl (Panic ''nil pointer dereference'') | Some data \<Rightarrow> commit_block E I s data) (?tx, bc_cache bc) ?hs
       = Inr (tx1, cache1)" "\<not> nil_maps tx1" "copied E g cid off bs (n + k) (tx_view V ?d tx1)"
    "cache_ok (e_B E) cache1 bs"
    using fold_commit [OF C src sound batch_ok_lookup [OF xs _ _ n(2) len] n(2) tx cache] by blast
  obtain tx2 where fin: "SetFinalizedHeight E tx1 (of_nat (n + k - 1)) = Inr tx2"
    using tx_write_total [OF P(2)] unfolding SetFinalizedHeight_def by blast
  note eff = SetFinalizedHeight_effect [OF P(1) fin]
  have batch: "write_batch E I ?blocks ?hs ?tx (bc_cache bc) = Inr (tx2, cache1)"
    unfolding write_batch_def w(1) rbind_simps prod.case last fin wrap_simps ..
  have nil2: "\<not> nil_maps tx2" using eff(2) w(2) by simp
  obtain d' where d': "batch_commit (e_db E) (cs_db s1) (tx_batch tx2) = Inr d'" using P(2) unfolding pebble_total_def by blast
  then obtain tx3 where commit: "Commit E tx2 s1 = (Inr (), tx3, s1\<lparr>cs_db := d', cs_pending := False\<rparr>)"
    using nil2 by (simp add: Commit_def nil_maps_def)
  have "content V d' = tx_view V ?d tx2" using Commit_cases(1) [OF P(1) nil2 commit] by (simp add: s1_def)
  then have db: "content V d' = (tx_view V ?d tx1)(keyFinalizedHeight \<mapsto> BytesFromUint64 (of_nat (n + k - 1)))"
    by (simp only: eff(1))
  obtain subs where run: "commitBatch E I slow ?blocks (map pd_height xs) bc
      = (Inr (), bc\<lparr>bc_state := s1\<lparr>cs_db := d', cs_pending := False\<rparr>, bc_cache := cache1, bc_subs := subs\<rparr>)"
    by (simp add: commitBatch_def hs start batch commit Let_def)
  let ?bc = "bc\<lparr>bc_state := s1\<lparr>cs_db := d', cs_pending := False\<rparr>, bc_cache := cache1, bc_subs := subs\<rparr>"
  have "copying E V g cid off bs (n + k) ?bc"
    using bc w(3,4) copied_finalized [OF w(3)] by (simp add: copying_def db del: fun_upd_apply)
  moreover have "content V (cs_db (bc_state ?bc)) keyFinalizedHeight = Some (BytesFromUint64 (of_nat (n + k - 1)))"
    by (simp add: db)
  ultimately show ?thesis using run by blast
qed

text \<open>The results of a batch arrive before those of the next.\<close>

definition in_batches :: "nat \<Rightarrow> 'a list \<Rightarrow> 'a list \<Rightarrow> bool" where
  "in_batches N xs ys \<longleftrightarrow> (\<forall>j. mset (take (j * N) xs) = mset (take (j * N) ys))"

lemma in_batches_refl [simp]: "in_batches N xs xs"
  by (simp add: in_batches_def)

lemma in_batches_mset: "in_batches N xs ys \<Longrightarrow> 0 < N \<Longrightarrow> mset xs = mset ys"
proof -
  assume b: "in_batches N xs ys" and N: "0 < N"
  let ?j = "length xs + length ys"
  have "?j \<le> ?j * N" using N by simp
  then have "length xs \<le> ?j * N" "length ys \<le> ?j * N" by linarith+
  then have "take (?j * N) xs = xs" "take (?j * N) ys = ys" by (simp_all only: take_all)
  with b show ?thesis unfolding in_batches_def by metis
qed

lemma in_batches_drop: "in_batches N xs ys \<Longrightarrow> in_batches N (drop N xs) (drop N ys)"
  unfolding in_batches_def
proof
  fix j
  assume b: "\<forall>j. mset (take (j * N) xs) = mset (take (j * N) ys)"
  have "mset (take (N + j * N) zs) = mset (take N zs) + mset (take (j * N) (drop N zs))" for zs :: "'a list"
    by (simp add: take_add)
  moreover have "mset (take (N + j * N) xs) = mset (take (N + j * N) ys)" using b [rule_format, of "Suc j"] by simp
  moreover have "mset (take N xs) = mset (take N ys)" using b [rule_format, of 1] by simp
  ultimately show "mset (take (j * N) (drop N xs)) = mset (take (j * N) (drop N ys))" by simp
qed

lemma collect_fill:
  assumes "distinct (hs @ map pd_height xs)" "length hs + length xs < N"
  shows "collect_results E I slow N (map Inr xs @ rs) blocks hs bc
    = collect_results E I slow N rs (block_map xs blocks) (hs @ map pd_height xs) bc"
  using assms
proof (induction xs arbitrary: blocks hs)
  case (Cons x xs)
  then have "length (remdups (hs @ [pd_height x])) < N" by (simp add: distinct_remdups_id)
  moreover have "distinct ((hs @ [pd_height x]) @ map pd_height xs)" using Cons.prems(1) by auto
  moreover have "length (hs @ [pd_height x]) + length xs < N" using Cons.prems(2) by simp
  ultimately show ?case
    using Cons.IH [of "hs @ [pd_height x]" "blocks(pd_height x \<mapsto> x)"]
    by (simp add: Let_def block_map_def del: fun_upd_apply)
qed (simp add: block_map_def)

lemma collect_batch:
  assumes d: "distinct (map pd_height xs)" and xs: "length xs = N" "0 < N"
    and ok: "commitBatch E I slow (block_map xs Map.empty) (map pd_height xs) bc = (Inr (), bc')"
  shows "collect_results E I slow N (map Inr xs @ rs) Map.empty [] bc = collect_results E I slow N rs Map.empty [] bc'"
proof -
  obtain ys y where ys: "xs = ys @ [y]" using xs by (metis length_greater_0_conv rev_exhaust)
  have "length (remdups (map pd_height ys @ [pd_height y])) = N"
    using d xs(1) by (simp add: distinct_remdups_id ys)
  moreover have "block_map xs Map.empty = (block_map ys Map.empty)(pd_height y \<mapsto> y)" by (simp add: ys block_map_def)
  ultimately show ?thesis
    using collect_fill [of "[]" ys N E I slow "Inr y # rs" Map.empty bc] d xs(1) ok
    by (simp add: ys Let_def del: fun_upd_apply)
qed

lemma batch_okI:
  assumes "list_all2 (pd_ok E cs bs) [n..<n + k] ds" "mset xs = mset ds" "n + k \<le> length bs"
  shows "batch_ok E cs bs n k xs"
proof -
  have "map pd_height ds = map of_nat [n..<n + k]"
    using assms(1) by (auto simp: list_all2_conv_all_nth pd_ok_def intro!: nth_equalityI)
  then have "mset (map pd_height xs) = mset (map of_nat [n..<n + k])" using assms(2) by (metis mset_map)
  moreover have "\<exists>h<length bs. pd_ok E cs bs h data" if "data \<in> set xs" for data
  proof -
    have "data \<in> set ds" using that mset_eq_setD [OF assms(2)] by simp
    then obtain i where "i < length ds" "ds ! i = data" by (auto simp: in_set_conv_nth)
    with assms(1,3) show ?thesis by (intro exI [of _ "n + i"]) (auto simp: list_all2_conv_all_nth)
  qed
  ultimately show ?thesis by (simp add: batch_ok_def)
qed

lemma batch_ok_distinct:
  assumes "batch_ok E cs bs n k xs" "n + k \<le> 2 ^ 64"
  shows "distinct (map pd_height xs)"
proof -
  have "inj_on (of_nat :: nat \<Rightarrow> u64) {n..<n + k}"
  proof (rule inj_onI)
    fix i j assume i: "i \<in> {n..<n + k}" "j \<in> {n..<n + k}" and "of_nat i = (of_nat j :: u64)"
    then have "unat (of_nat i :: u64) = unat (of_nat j :: u64)" by simp
    then show "i = j" using i assms(2) by (simp add: unat_of_nat_u64)
  qed
  then have "distinct (map of_nat [n..<n + k] :: u64 list)" by (simp add: distinct_map del: upt_Suc)
  then show ?thesis using assms(1) unfolding batch_ok_def by (metis mset_eq_imp_distinct_iff)
qed

lemma batchCommitter_step:
  assumes "distinct (map pd_height xs)" "length xs = N" "0 < N"
    and "commitBatch E I slow (block_map xs Map.empty) (map pd_height xs) bc = (Inr (), bc')"
  shows "batchCommitter E I slow N (map Inr xs @ rs) bc = batchCommitter E I slow N rs bc'"
  unfolding batchCommitter_def collect_batch [OF assms] ..

lemma batchCommitter_last:
  assumes "distinct (map pd_height xs)" "length xs < N" "xs \<noteq> []"
    and "commitBatch E I slow (block_map xs Map.empty) (map pd_height xs) bc = (Inr (), bc')"
  shows "batchCommitter E I slow N (map Inr xs) bc = (Inr (), [], bc')"
  using collect_fill [of "[]" xs N E I slow "[]" Map.empty bc] assms by (simp add: batchCommitter_def)

lemma batchCommitter_copied:
  assumes C: "copy_ok E V I" and src: "source_ok E cid off bs" and sound: "chunks_sound E g cs" and N: "0 < N"
    and ds: "list_all2 (pd_ok E cs bs) [n..<n + k] ds" and xs: "in_batches N xs ds"
    and n: "0 < k" "n + k \<le> length bs" and bc: "copying E V g cid off bs n bc"
  shows "\<exists>bc'. batchCommitter E I slow N (map Inr xs) bc = (Inr (), [], bc') \<and> copying E V g cid off bs (n + k) bc'
    \<and> content V (cs_db (bc_state bc')) keyFinalizedHeight = Some (BytesFromUint64 (of_nat (n + k - 1)))"
  using ds xs n bc
proof (induction k arbitrary: n ds xs bc rule: less_induct)
  case (less k)
  have len: "length ds = k" using list_all2_lengthD [OF less.prems(1)] by simp
  have mset: "mset xs = mset ds" using less.prems(2) N by (rule in_batches_mset)
  then have lenx: "length xs = k" using len by (metis mset_eq_length)
  have p: "(2 :: nat) ^ 38 < 2 ^ 64" by simp
  have big: "n + k \<le> 2 ^ 64" using less.prems(4) src p unfolding source_ok_def by linarith
  show ?case
  proof (cases "k < N")
    case True
    have b: "batch_ok E cs bs n k xs" by (rule batch_okI [OF less.prems(1) mset less.prems(4)])
    from commitBatch_copied [OF C src sound b less.prems(3-5)] obtain bc' where
      c: "commitBatch E I slow (block_map xs Map.empty) (map pd_height xs) bc = (Inr (), bc')"
      "copying E V g cid off bs (n + k) bc'"
      "content V (cs_db (bc_state bc')) keyFinalizedHeight = Some (BytesFromUint64 (of_nat (n + k - 1)))" by blast
    have "batchCommitter E I slow N (map Inr xs) bc = (Inr (), [], bc')"
      by (rule batchCommitter_last [OF batch_ok_distinct [OF b big] _ _ c(1)]) (use True lenx less.prems(3) in auto)
    with c show ?thesis by blast
  next
    case False
    let ?xs = "take N xs" and ?ds = "take N ds"
    have "mset (take (1 * N) xs) = mset (take (1 * N) ds)" using less.prems(2) unfolding in_batches_def by blast
    then have m: "mset ?xs = mset ?ds" by simp
    have "list_all2 (pd_ok E cs bs) (take N [n..<n + k]) ?ds" using less.prems(1) by (rule list_all2_takeI)
    then have d1: "list_all2 (pd_ok E cs bs) [n..<n + N] ?ds" using False by (simp add: take_upt)
    have "list_all2 (pd_ok E cs bs) (drop N [n..<n + k]) (drop N ds)" using less.prems(1) by (rule list_all2_dropI)
    then have d2: "list_all2 (pd_ok E cs bs) [n + N..<(n + N) + (k - N)] (drop N ds)" using False by (simp add: drop_upt)
    have le: "n + N \<le> length bs" "n + N \<le> 2 ^ 64" using False less.prems(4) big by linarith+
    have b: "batch_ok E cs bs n N ?xs" by (rule batch_okI [OF d1 m le(1)])
    from commitBatch_copied [OF C src sound b N le(1) less.prems(5)] obtain bc1 where
      c: "commitBatch E I slow (block_map ?xs Map.empty) (map pd_height ?xs) bc = (Inr (), bc1)"
      "copying E V g cid off bs (n + N) bc1"
      "content V (cs_db (bc_state bc1)) keyFinalizedHeight = Some (BytesFromUint64 (of_nat (n + N - 1)))" by blast
    have "length ?xs = N" using False lenx by simp
    from batchCommitter_step [OF batch_ok_distinct [OF b le(2)] this N c(1), of "map Inr (drop N xs)"]
    have run: "batchCommitter E I slow N (map Inr xs) bc = batchCommitter E I slow N (map Inr (drop N xs)) bc1"
      by (simp flip: map_append)
    show ?thesis
    proof (cases "k = N")
      case True
      then have "drop N xs = []" using lenx by simp
      then have "batchCommitter E I slow N (map Inr xs) bc = (Inr (), [], bc1)"
        unfolding run by (simp add: batchCommitter_def)
      with c(2,3) True show ?thesis by blast
    next
      case ne: False
      have lt: "k - N < k" "0 < k - N" "(n + N) + (k - N) \<le> length bs" using False ne N less.prems(4) by linarith+
      have "(n + N) + (k - N) = n + k" using False by simp
      with less.IH [OF lt(1) d2 in_batches_drop [OF less.prems(2)] lt(2,3) c(2)] run show ?thesis by simp
    qed
  qed
qed

section \<open>The whole sync\<close>

lemma indexed_differ:
  assumes "indexed B c bs" "length bs < 2 ^ 64"
  shows "hashes_differ B bs"
  unfolding hashes_differ_def distinct_conv_nth
proof (intro allI impI)
  let ?hash = "\<lambda>b. header_hash B (b_Header b)"
  fix i j assume ij: "i < length (map ?hash bs)" "j < length (map ?hash bs)" "i \<noteq> j"
  show "map ?hash bs ! i \<noteq> map ?hash bs ! j"
  proof
    assume "map ?hash bs ! i = map ?hash bs ! j"
    then have "?hash (bs ! i) = ?hash (bs ! j)" using ij by simp
    then have "BytesFromUint64Key (of_nat i) = BytesFromUint64Key (of_nat j)"
      using assms(1) ij unfolding indexed_def by (metis length_map option.inject)
    then have "of_nat i = (of_nat j :: u64)" by (metis Uint64Key_less linorder_neq_iff)
    then have "unat (of_nat i :: u64) = unat (of_nat j :: u64)" by simp
    with ij assms(2) show False by (simp add: unat_of_nat_u64)
  qed
qed

lemma in_batches_Inr:
  assumes "in_batches N ys (map Inr ds)" "0 < N"
  shows "\<exists>xs. ys = map Inr xs \<and> in_batches N xs ds"
proof (intro exI conjI)
  let ?xs = "map projr ys"
  have "set ys = set (map Inr ds)" using in_batches_mset [OF assms] by (rule mset_eq_setD)
  then have "map (Inr \<circ> projr) ys = ys" by (intro map_idI) auto
  then show "ys = map Inr ?xs" by simp
  have "mset (take (j * N) ?xs) = mset (take (j * N) ds)" for j
  proof -
    have "mset (take (j * N) ?xs) = image_mset projr (mset (take (j * N) ys))" by (simp add: take_map)
    also have "mset (take (j * N) ys) = mset (take (j * N) (map Inr ds))"
      using assms(1) unfolding in_batches_def by blast
    finally show ?thesis by (simp add: take_map multiset.map_comp comp_def)
  qed
  then show "in_batches N ?xs ds" by (simp add: in_batches_def)
qed

lemma cache_ok_take: "cache_ok B cache (take n bs) \<Longrightarrow> cache_ok B cache bs"
  by (fastforce simp: cache_ok_def)

text \<open>The client holds the first \<open>m\<close> blocks with their bodies.\<close>

definition client_ok ::
  "('d, 'b) env \<Rightarrow> ('d, 'b) store_view \<Rightarrow> (hash \<Rightarrow> bytes) \<Rightarrow> bytes \<Rightarrow> u64 \<Rightarrow> Block list \<Rightarrow> 'd bchain \<Rightarrow> bool" where
  "client_ok E V g cid off bs bc \<longleftrightarrow> bc_chainID bc = cid \<and> \<not> cs_pending (bc_state bc)
     \<and> chain_repr (e_B E) cid off (content V (cs_db (bc_state bc))) bs
     \<and> servable (e_B E) (content V (cs_db (bc_state bc))) bs
     \<and> chunks_sound E g (content V (cs_db (bc_state bc))) \<and> cache_ok (e_B E) (bc_cache bc) bs"

text \<open>A client's stream is what the server's handler sends, and how the handler ends.\<close>

definition served_by ::
  "('d, 'b) env \<Rightarrow> 'd \<Rightarrow> client \<Rightarrow> hash_cache \<Rightarrow> (u64 \<Rightarrow> u64 \<Rightarrow> (StreamBlocksResponse list \<times> unit result) result) \<Rightarrow> bool" where
  "served_by E d cl cache remote \<longleftrightarrow>
     (\<forall>a b r st. StreamBlocks E d cl a b cache = Some (r, st) \<longrightarrow> remote a b = Inr (st_sent st, r))"

lemma copying_start:
  assumes "client_ok E V g cid off (take m bs) bc" "m \<le> length bs"
  shows "copying E V g cid off bs (if m \<le> 1 then 0 else m) bc"
proof -
  have c: "chain_repr (e_B E) cid off (content V (cs_db (bc_state bc))) (take m bs)"
    using assms(1) by (simp add: client_ok_def)
  have "chain_part (e_B E) cid off (content V (cs_db (bc_state bc))) (take (if m \<le> 1 then 0 else m) bs)"
    using chain_part_start [OF c] assms(2) by auto
  moreover have "servable (e_B E) (content V (cs_db (bc_state bc))) (take (if m \<le> 1 then 0 else m) bs)"
  proof (cases "m \<le> 1")
    case False
    with assms(1) show ?thesis by (simp only: client_ok_def if_False)
  qed (simp add: servable_def indexed_def)
  moreover have "cache_ok (e_B E) (bc_cache bc) bs"
    using assms(1) cache_ok_take unfolding client_ok_def by blast
  ultimately show ?thesis using assms(1) unfolding client_ok_def copying_def copied_def by blast
qed

lemma copying_done:
  assumes c: "copying E V g cid off bs (length bs) bc" and n: "2 \<le> length bs"
    and f: "content V (cs_db (bc_state bc)) keyFinalizedHeight = Some (BytesFromUint64 (of_nat (length bs - 1)))"
  shows "client_ok E V g cid off bs bc"
proof -
  let ?c = "content V (cs_db (bc_state bc))"
  have "?c(keyFinalizedHeight := finalized_entry bs) = ?c"
    using f n by (simp add: finalized_entry_def fun_upd_idem del: of_nat_diff)
  then have "chain_repr (e_B E) cid off ?c bs"
    using c chain_part_repr [of "e_B E" cid off ?c bs] by (simp add: copying_def copied_def)
  with c show ?thesis by (simp add: copying_def copied_def client_ok_def)
qed

lemma sync_copies:
  assumes C: "copy_ok E V I" and srv: "serves_chain E V g cid off ds bs" "indexed (e_B E) (content V ds) bs"
    and cl: "willing cl" "cache_ok (e_B E) scache bs" "served_by E ds cl scache remote"
    and info: "rpc_GetChainInfo E ds = Inr i" and S: "\<And>rs. in_batches batchSize (sc_arrive S rs) rs"
    and bc: "client_ok E V g cid off (take m bs) bc"
    and m: "2 \<le> length bs" "m \<le> 1 \<or> m + 1 < length bs"
  shows "\<exists>bc'. SyncChainFromGrpc E I S slow (Inr i) remote bc = Some (Inr (), bc')
    \<and> client_ok E V g cid off bs bc'"
proof -
  let ?db = "cs_db (bc_state bc)" and ?N = "length bs"
  define top n where "top = ?N - 1" and "n = (if m \<le> 1 then 0 else m)"
  have P: "pebble_ok (e_db E) V" "pebble_total (e_db E)" and E: "env_ok E V" using C env_okD(2) by (auto simp: copy_ok_def)
  have p: "(2 :: nat) ^ 38 < 2 ^ 64" by simp
  have n38: "?N < 2 ^ 38" and srepr: "chain_repr (e_B E) cid off (content V ds) bs"
    and sound: "chunks_sound E g (content V ds)"
    using srv(1) store_sound_chunks by (auto simp: serves_chain_def)
  then have n64: "?N < 2 ^ 64" using p by linarith
  have src: "source_ok E cid off bs"
    using chain_repr_blocks [OF srepr] indexed_differ [OF srv(2) n64] n38 by (simp add: source_ok_def)
  have range: "n \<le> top" "n < top" "0 < top" "top < ?N" "Suc top = ?N" "m \<le> ?N"
    using m unfolding top_def n_def by (auto split: if_splits)
  have nat: "unat (of_nat n :: u64) = n" "unat (of_nat top :: u64) = top"
    using range n64 by (auto simp: unat_of_nat_u64)
  have lent: "length (take m bs) = m" using range(6) by simp
  have crepr: "chain_repr (e_B E) cid off (content V ?db) (take m bs)" using bc by (simp add: client_ok_def)
  have fin: "FinalizedHeight E ?db = Inr (if m \<le> 1 then 0 else of_nat (m - 1))"
    using FinalizedHeight_chain [OF P crepr] unfolding lent .
  have "FinalizedHeight E ds = Inr (of_nat top)"
    using FinalizedHeight_chain [OF P srepr] m(1) by (simp add: top_def)
  then have i: "ci_FinalizedHeight i = of_nat top" using info by (auto simp: rpc_GetChainInfo_def rbind_eq_Inr)
  have start: "(if h > 0 then h + 1 else 0) = (of_nat n :: u64)" if "h = (if m \<le> 1 then 0 else of_nat (m - 1))" for h :: u64
  proof (cases "m \<le> 1")
    case False
    then have "(of_nat (m - 1) :: u64) \<noteq> 0" using range(6) n64 by (intro of_nat_u64_nonzero) linarith+
    moreover have "(of_nat (m - 1) :: u64) + 1 = of_nat (Suc (m - 1))" by simp
    ultimately show ?thesis using that False by (simp add: n_def word_neq_0_conv [symmetric])
  qed (use that in \<open>simp add: n_def\<close>)
  have behind: "\<not> (of_nat top :: u64) \<le> of_nat n" using nat range(2) by (simp add: word_le_nat_alt)
  obtain st where st: "StreamBlocks E ds cl (of_nat n) (of_nat top) scache = Some (Inr (), st)"
    "list_all2 (resp_ok E (content V ds) bs) [n..<Suc top] (st_sent st)"
    using StreamBlocks_chain [OF E P(2) srv(1) cl(1,2) range(1,3,4)] by blast
  have remote: "remote (of_nat n) (of_nat top) = Inr (st_sent st, Inr ())"
    using cl(3) st(1) unfolding served_by_def by blast
  have copying: "copying E V g cid off bs n bc" using copying_start [OF bc range(6)] by (simp add: n_def)
  have cache: "cache_ok (e_B E) (bc_cache bc) bs" using copying by (simp add: copying_def)
  obtain rs cache' heap' where w: "run_workers (e_B E) (bc_cache bc) (bc_heap bc) (st_sent st) = (map Inr rs, cache', heap')"
    "list_all2 (pd_ok E (content V ds) bs) [n..<Suc top] rs" "cache_ok (e_B E) cache' bs"
    using run_workers_ok [OF st(2) cache _ n64, of "bc_heap bc"] source_height [OF src] range(4)
    by (auto simp del: upt_Suc)
  have N: "0 < batchSize" by (simp add: batchSize_def)
  obtain xs where xs: "sc_arrive S (map Inr rs) = map Inr xs" "in_batches batchSize xs rs"
    using in_batches_Inr [OF S N] by blast
  let ?bc = "bc\<lparr>bc_cache := cache', bc_heap := heap'\<rparr>" and ?k = "Suc top - n"
  have "[n..<Suc top] = [n..<n + ?k]" using range(1) by simp
  then have rs: "list_all2 (pd_ok E (content V ds) bs) [n..<n + ?k] rs" using w(2) by (simp only:)
  have k: "0 < ?k" "n + ?k \<le> ?N" "n + ?k = ?N" using range by linarith+
  have "copying E V g cid off bs n ?bc" using copying w(3) by (simp add: copying_def)
  from batchCommitter_copied [OF C src sound N rs xs(2) k(1,2) this] obtain bc' where
    run: "batchCommitter E I slow batchSize (map Inr xs) ?bc = (Inr (), [], bc')"
    and c': "copying E V g cid off bs ?N bc'"
      "content V (cs_db (bc_state bc')) keyFinalizedHeight = Some (BytesFromUint64 (of_nat (?N - 1)))"
    unfolding k(3) by blast
  have "SyncChainFromGrpc E I S slow (Inr i) remote bc
      = syncWithStream E I S slow remote (of_nat n) (of_nat top) bc"
    using start behind by (simp add: SyncChainFromGrpc_def fin i Let_def)
  also have "\<dots> = Some (Inr (), bc')"
    by (simp add: syncWithStream_def remote w(1) xs(1) run Let_def)
  finally show ?thesis using copying_done [OF c'(1) m(1) c'(2)] by blast
qed

end
