(* ===== verification/Serving.thy ===== *)
theory Serving
  imports Examples Storage_Api Stream_Commit
begin

text \<open>
  The properties of serving a chain and copying it, C30 to C34: the services answer from the
  chain and its bodies, a subscriber receives every header, a client copies the chain. The
  example is a node on the in-memory store after its genesis block and one block with a chunk.
\<close>

section \<open>A server with two blocks\<close>

lemma header_hash_heights:
  assumes "bh_Version (b_Header x) = bh_Version (b_Header y)" "bh_ChainID (b_Header x) = ChainIDMocha"
    "bh_ChainID (b_Header y) = ChainIDMocha" "bh_Height (b_Header x) \<noteq> bh_Height (b_Header y)"
  shows "header_hash toy_hash (b_Header x) \<noteq> header_hash toy_hash (b_Header y)"
proof
  let ?p = "BytesFromUint32 (bh_Version (b_Header y)) @ BytesFromShortString ChainIDMocha"
  assume "header_hash toy_hash (b_Header x) = header_hash toy_hash (b_Header y)"
  then have "toy_hash (bh_Bytes (b_Header x)) = toy_hash (bh_Bytes (b_Header y))" by (simp add: header_hash_def)
  then have "take 31 (bh_Bytes (b_Header x)) = take 31 (bh_Bytes (b_Header y))"
    by (rule toy_hash_prefix) (simp_all add: bh_Bytes_def)
  then have eq: "take 8 (drop 21 (take 31 (bh_Bytes (b_Header x)))) = take 8 (drop 21 (take 31 (bh_Bytes (b_Header y))))" by simp
  have "length ?p = 21" by (simp add: ChainIDMocha_def BytesFromShortString_def ascii_def Let_def)
  moreover have "\<exists>r. bh_Bytes (b_Header x) = ?p @ BytesFromUint64 (bh_Height (b_Header x)) @ r"
    "\<exists>r. bh_Bytes (b_Header y) = ?p @ BytesFromUint64 (bh_Height (b_Header y)) @ r"
    using assms(1-3) by (simp_all add: bh_Bytes_def)
  ultimately have "BytesFromUint64 (bh_Height (b_Header x)) = BytesFromUint64 (bh_Height (b_Header y))"
    using eq by auto
  with assms(4) show False by (simp add: u64le.enc_inj)
qed

abbreviation mem_g :: "hash \<Rightarrow> bytes" where "mem_g \<equiv> (\<lambda>k. [1, 42])"

definition mem_serves :: "mem bchain \<Rightarrow> Block list \<Rightarrow> bool" where
  "mem_serves bc bs \<longleftrightarrow> node_inv mem_env mem_view mem_g ChainIDMocha StartHeightMocha bc bs
     \<and> servable toy_hash (content mem_view (cs_db (bc_state bc))) bs
     \<and> never_dropped (content mem_view mem_fresh) (content mem_view (cs_db (bc_state bc)))"

lemma mem_serves_first:
  obtains b bc where "mem_serves bc [b]" "prev_ok (Some b) [b]"
proof -
  obtain b bc where g: "genesis_step mem_env chunk_da StartHeightMocha mem_node = (Inr b, bc)"
    and node: "node_inv mem_env mem_view mem_g ChainIDMocha StartHeightMocha bc [b]" "prev_ok (Some b) [b]"
    by (rule mem_node_started)
  have P: "pebble_ok (e_db mem_env) mem_view" using mem_pebble_ok by simp
  have "bc_cache mem_node = Map.empty" by (simp add: mem_node_def)
  note s = genesis_step_servable [OF P this g]
  have "cs_db (bc_state mem_node) = mem_fresh" by (simp add: mem_node_def)
  with s node that [of bc b] show thesis unfolding mem_serves_def by simp
qed

text \<open>The next block with its chunk; the node still serves.\<close>

lemma mem_serves_step:
  assumes "mem_serves bc [b]" "prev_ok (Some b) [b]"
  obtains b' bc' where "sync_step mem_env chunk_da (\<lambda>_. False) (of_nat (length [b])) (of_nat (length [b]) + StartHeightMocha)
      (Some b) bc = (Inr b', bc')" "mem_serves bc' [b, b']" "hashes_differ toy_hash [b, b']"
proof -
  have node: "node_inv mem_env mem_view mem_g ChainIDMocha StartHeightMocha bc [b]"
    and serve: "servable toy_hash (content mem_view (cs_db (bc_state bc))) [b]"
    and kept: "never_dropped (content mem_view mem_fresh) (content mem_view (cs_db (bc_state bc)))"
    using assms(1) by (simp_all add: mem_serves_def)
  obtain s where s: "SyncBlobs mem_env (cs_db (bc_state bc)) (NewChainStateTransaction mem_env (cs_db (bc_state bc)))
      (bc_heap bc) (of_nat (length [b]) + StartHeightMocha) [chunk_blob] = Inr s"
    using chunk_blob_taken by blast
  have total: "pebble_total (e_db mem_env)" using mem_pebble_ok by simp
  obtain b' bc' where run: "sync_step mem_env chunk_da (\<lambda>_. False) (of_nat (length [b]))
      (of_nat (length [b]) + StartHeightMocha) (Some b) bc = (Inr b', bc')"
    using sync_step_live [OF mem_env_ok total node _ assms(2) _ _ _ _ s, where D = chunk_da and slow = "\<lambda>_. False"] by auto
  have node': "node_inv mem_env mem_view mem_g ChainIDMocha StartHeightMocha bc' ([b] @ [b'])"
    by (rule sync_step_extends [OF mem_env_ok chunk_da_ok node _ assms(2) _ run]) simp_all
  then have ok: "block_ok toy_hash ChainIDMocha StartHeightMocha [b, b'] h" if "h < 2" for h
    using that by (simp add: node_inv_def chain_repr_def)
  have "header_hash toy_hash (b_Header b) \<noteq> header_hash toy_hash (b_Header b')"
    using ok [of 0] ok [of 1] by (intro header_hash_heights) (simp_all add: block_ok_def Let_def)
  then have differ: "hashes_differ toy_hash ([b] @ [b'])" by (simp add: hashes_differ_def)
  have serve': "servable (e_B mem_env) (content mem_view (cs_db (bc_state bc))) [b]" using serve by simp
  note next_ok = sync_step_servable [OF mem_env_ok chunk_da_ok node _ assms(2) _ serve' run]
  have "servable toy_hash (content mem_view (cs_db (bc_state bc'))) ([b] @ [b'])"
    using next_ok(1) differ by simp
  moreover have "never_dropped (content mem_view (cs_db (bc_state bc))) (content mem_view (cs_db (bc_state bc')))"
    using next_ok(2) differ by simp
  ultimately have "mem_serves bc' [b, b']"
    using node' never_dropped_trans [OF kept] by (simp add: mem_serves_def)
  with run differ that show thesis by simp
qed

lemma mem_serves_info:
  assumes "mem_serves bc bs"
  shows "\<exists>i. rpc_GetChainInfo mem_env (cs_db (bc_state bc)) = Inr i"
proof -
  let ?d = "cs_db (bc_state bc)"
  have P: "pebble_ok (e_db mem_env) mem_view" "pebble_total (e_db mem_env)" using mem_pebble_ok by simp_all
  have repr: "chain_repr (e_B mem_env) ChainIDMocha StartHeightMocha (content mem_view ?d) bs"
    using assms by (simp add: mem_serves_def node_inv_def)
  have "content mem_view mem_fresh keyChainID \<noteq> None" "content mem_view mem_fresh keyCelestiaHeightOffset \<noteq> None"
    by (simp_all add: mem_fresh_def)
  with assms have "content mem_view ?d keyChainID \<noteq> None" "content mem_view ?d keyCelestiaHeightOffset \<noteq> None"
    unfolding mem_serves_def never_dropped_def by blast+
  with repr have "content mem_view ?d keyChainID = Some ChainIDMocha"
    "content mem_view ?d keyCelestiaHeightOffset = Some (BytesFromUint64 StartHeightMocha)"
    unfolding chain_repr_def meta_ok_def by auto
  then have "ChainID mem_env ?d = Inr ChainIDMocha" "CelestiaHeightOffset mem_env ?d = Inr StartHeightMocha"
    using db_get_total [OF P] by (simp_all add: ChainID_def CelestiaHeightOffset_def)
  then show ?thesis using FinalizedHeight_chain [OF P repr] by (simp add: rpc_GetChainInfo_def)
qed

section \<open>The chain and its bodies\<close>

text \<open>
  C30: one iteration of the loops of \<open>SyncChain\<close> keeps the chain servable: the data that the bodies of
  all blocks name is in the database, and every block is found under its hash, as long as no
  two headers of the chain have the same hash.
\<close>

theorem sync_step_keeps_servable:
  assumes "env_ok E V" "commitments_bind D g" "blobs_fit D" "node_inv E V g cid off bc bs" "bs \<noteq> []"
    and "prev_ok prev bs" "length bs < 2 ^ 38" "servable (e_B E) (content V (cs_db (bc_state bc))) bs"
    and "sync_step E D slow (of_nat (length bs)) (of_nat (length bs) + off) prev bc = (Inr b, bc')"
    and "hashes_differ (e_B E) (bs @ [b])"
  shows "servable (e_B E) (content V (cs_db (bc_state bc'))) (bs @ [b])"
  by (rule sync_step_servable(1) [OF assms])

theorem sync_step_keeps_servable_witness:
  "\<exists>b bc b' bc'. sync_step mem_env chunk_da (\<lambda>_. False) 1 (1 + StartHeightMocha) (Some b) bc = (Inr b', bc')
     \<and> servable toy_hash (content mem_view (cs_db (bc_state bc'))) [b, b']"
proof -
  obtain b bc where s: "mem_serves bc [b]" "prev_ok (Some b) [b]" by (rule mem_serves_first)
  then have node: "node_inv mem_env mem_view mem_g ChainIDMocha StartHeightMocha bc [b]"
    and serve: "servable (e_B mem_env) (content mem_view (cs_db (bc_state bc))) [b]" by (simp_all add: mem_serves_def)
  obtain b' bc' where run: "sync_step mem_env chunk_da (\<lambda>_. False) (of_nat (length [b])) (of_nat (length [b]) + StartHeightMocha)
      (Some b) bc = (Inr b', bc')" and "hashes_differ toy_hash [b, b']"
    using mem_serves_step [OF s] by metis
  then have "servable (e_B mem_env) (content mem_view (cs_db (bc_state bc'))) ([b] @ [b'])"
    by (intro sync_step_keeps_servable [OF mem_env_ok chunk_da_ok node _ s(2) _ serve run]) simp_all
  with run show ?thesis by auto
qed

text \<open>
  C31: the storage service serves every stored file, under its printed identifier: the data has the size
  and the hash that the manifest states.
\<close>

theorem stored_files_are_served:
  assumes "pebble_ok (e_db E) V" "pebble_total (e_db E)" "base36_ok c" "store_sound E g (content V d)"
    and "stored_file E (content V d) i m" "unat (fm_FileSize m) \<le> 2 ^ 48"
  shows "\<exists>data. rpc_GetFileManifest E c (Inr d) (bi_ID c i) = Inr m \<and> rpc_GetFileData E c (Inr d) (bi_ID c i) = Inr data
    \<and> fm_FileHash m = hash_Bytes (e_B E data) \<and> fm_FileSize m = of_nat (length data)"
  using GetFileData_serves [OF assms(1,2,4-6)] node_GetFileManifest_stored [OF assms(1,2,5)]
  by (auto simp: rpc_GetFileManifest_def rpc_GetFileData_def parse_id_def BlobIdentifierFromString_bi_ID [OF assms(3)])

definition file_env :: "(mem, mem) env" where
  "file_env = mem_env\<lparr>e_envelope := \<lparr>marshal = (\<lambda>m. Inr []), unmarshal = (\<lambda>b. Inr (FileManifestE empty_file))\<rparr>,
     e_file := \<lparr>marshal = (\<lambda>m. Inr []), unmarshal = (\<lambda>b. Inr empty_file)\<rparr>\<rparr>"

theorem stored_files_are_served_witness:
  "\<exists>data. rpc_GetFileData file_env id_base36 (Inr [(encode_key (KFile \<lparr>bi_Height = 3, bi_Commitment = 7\<rparr>), [])])
     (bi_ID id_base36 \<lparr>bi_Height = 3, bi_Commitment = 7\<rparr>) = Inr data \<and> toy_hash data = toy_hash []"
proof -
  let ?i = "\<lparr>bi_Height = 3, bi_Commitment = 7\<rparr>"
  let ?d = "[(encode_key (KFile ?i), [])] :: mem"
  have P: "pebble_ok (e_db file_env) mem_view" "pebble_total (e_db file_env)"
    using mem_pebble_ok by (simp_all add: file_env_def)
  have keys: "chk_key k \<noteq> encode_key (KFile ?i)" "chkh_key k \<noteq> encode_key (KFile ?i)" "dman_key j \<noteq> encode_key (KFile ?i)" for k j
    using encode_key_inj [of "KChunk k" "KFile ?i"] encode_key_inj [of "KChunkHash k" "KFile ?i"]
      encode_key_inj [of "KDir j" "KFile ?i"] by simp_all
  have "file_sound file_env (content mem_view ?d) empty_file []"
    by (simp add: file_sound_def empty_file_def file_env_def)
  then have sound: "store_sound file_env (\<lambda>k. []) (content mem_view ?d)"
    using keys by (auto simp: store_sound_def file_env_def split: if_splits)
  have m: "stored_file file_env (content mem_view ?d) ?i empty_file" by (simp add: stored_file_def file_env_def)
  have "unat (fm_FileSize empty_file) \<le> 2 ^ 48" by (simp add: empty_file_def)
  from stored_files_are_served [OF P id_base36_ok sound m this] obtain data where
    data: "rpc_GetFileData file_env id_base36 (Inr ?d) (bi_ID id_base36 ?i) = Inr data"
    "fm_FileHash empty_file = hash_Bytes (e_B file_env data)" by blast
  from data(2) have "toy_hash data = toy_hash []" by (simp add: empty_file_def file_env_def)
  with data(1) show ?thesis by blast
qed


text \<open>A header that is both in the history and in the channel.\<close>

definition willing_client :: client where
  "willing_client = \<lparr>cl_send = (\<lambda>n. Inr ()), cl_done = (\<lambda>n. False)\<rparr>"

lemma willing_client [simp]: "willing willing_client"
  by (simp add: willing_def willing_client_def)


section \<open>Copying a chain\<close>

text \<open>
  C33: a client that is more than one block behind a server copies the server's chain: after
  \<open>SyncChainFromGrpc\<close> its database holds the same blocks, the data of all bodies, chunks that are what
  their commitments name, and the finalized height of the server, in whatever order the workers
  finish within a batch.
\<close>

theorem sync_copies_the_chain:
  assumes "copy_ok E V I" "serves_chain E V g cid off ds bs" "indexed (e_B E) (content V ds) bs"
    and "willing cl" "cache_ok (e_B E) scache bs" "served_by E ds cl scache remote" "rpc_GetChainInfo E ds = Inr i"
    and "\<And>rs. in_batches batchSize (sc_arrive S rs) rs"
    and "client_ok E V g cid off (take m bs) bc" "2 \<le> length bs" "m \<le> 1 \<or> m + 1 < length bs"
  shows "\<exists>bc'. SyncChainFromGrpc E I S slow (Inr i) remote bc = Some (Inr (), bc') \<and> client_ok E V g cid off bs bc'"
  by (rule sync_copies [OF assms])

definition sorted_iter :: "('k::linorder \<rightharpoonup> 'v) \<Rightarrow> ('k \<times> 'v) list" where
  "sorted_iter m = map (\<lambda>k. (k, the (m k))) (sorted_list_of_set (dom m))"

definition mem_iters :: map_iters where
  "mem_iters = \<lparr>mi_chunks = sorted_iter, mi_files = sorted_iter, mi_dirs = sorted_iter\<rparr>"

lemma sorted_iter: "finite (dom m) \<Longrightarrow> visits (sorted_iter m) m"
  by (auto simp: visits_def sorted_iter_def comp_def map_of_map_restrict fun_eq_iff restrict_map_def dom_def)

lemma mem_copy_ok: "copy_ok mem_env mem_view mem_iters"
proof -
  have "map_iters_ok mem_iters"
    unfolding map_iters_ok_def mem_iters_def map_iters.simps by (intro conjI allI impI sorted_iter)
  moreover have "reencodes (e_file mem_env)" "reencodes (e_dir mem_env)"
    by (auto simp: reencodes_def mem_env_def name_manifest_def name_directory_def)
  moreover have "pebble_total (e_db mem_env)" using mem_pebble_ok by simp
  ultimately show ?thesis using mem_env_ok by (simp only: copy_ok_def)
qed

definition in_order :: schedule where
  "in_order = \<lparr>sc_maxWorkers = 2, sc_arrive = (\<lambda>rs. rs), sc_background = 0\<rparr>"

theorem sync_copies_the_chain_witness:
  "\<exists>ds bs i remote bc'. rpc_GetChainInfo mem_env ds = Inr i \<and> length bs = 2
     \<and> SyncChainFromGrpc mem_env mem_iters in_order (\<lambda>_ _. False) (Inr i) remote mem_node = Some (Inr (), bc')
     \<and> chain_repr toy_hash ChainIDMocha StartHeightMocha (content mem_view ds) bs
     \<and> chain_repr toy_hash ChainIDMocha StartHeightMocha (content mem_view (cs_db (bc_state bc'))) bs"
proof -
  obtain b0 bc0 where s0: "mem_serves bc0 [b0]" "prev_ok (Some b0) [b0]" by (rule mem_serves_first)
  obtain b bc where s: "mem_serves bc [b0, b]" by (rule mem_serves_step [OF s0])
  let ?ds = "cs_db (bc_state bc)" and ?bs = "[b0, b]"
  let ?remote = "\<lambda>a b. case StreamBlocks mem_env ?ds willing_client a b Map.empty of
      Some (r, st) \<Rightarrow> Inr (st_sent st, r) | None \<Rightarrow> Inl (Ext ''hangs'')"
  obtain i where i: "rpc_GetChainInfo mem_env ?ds = Inr i" using mem_serves_info [OF s] by blast
  have srv: "serves_chain mem_env mem_view mem_g ChainIDMocha StartHeightMocha ?ds ?bs"
    "indexed (e_B mem_env) (content mem_view ?ds) ?bs"
    using s by (simp_all add: mem_serves_def node_inv_def serves_chain_def servable_def)
  have cache: "cache_ok (e_B mem_env) Map.empty ?bs" by (simp add: cache_ok_def)
  have served: "served_by mem_env ?ds willing_client Map.empty ?remote" by (simp add: served_by_def)
  have client: "client_ok mem_env mem_view mem_g ChainIDMocha StartHeightMocha (take 0 ?bs) mem_node"
    using mem_node_fresh store_sound_chunks
    by (auto simp: client_ok_def fresh_node_def servable_def indexed_def cache_ok_def mem_node_def)
  have arrive: "in_batches batchSize (sc_arrive in_order rs) rs" for rs by (simp add: in_order_def)
  from sync_copies_the_chain [OF mem_copy_ok srv willing_client cache served i arrive client] obtain bc' where
    "SyncChainFromGrpc mem_env mem_iters in_order (\<lambda>_ _. False) (Inr i) ?remote mem_node = Some (Inr (), bc')"
    "client_ok mem_env mem_view mem_g ChainIDMocha StartHeightMocha ?bs bc'" by auto
  with i srv(1) show ?thesis
    by (intro exI [of _ ?ds] exI [of _ ?bs] exI [of _ i] exI [of _ ?remote] exI [of _ bc'])
       (simp add: client_ok_def serves_chain_def)
qed






end
