(* ===== verification/Uploading.thy ===== *)
theory Uploading
  imports Serving Upload_Proofs Submit
begin

text \<open>
  The properties of writing to Celestia, C35 to C37: the upload records stay right, a node accepts
  and serves what was uploaded, the submitter neither loses nor doubles an answer. The example
  uploads the one-byte file \<open>[42]\<close> in chunks of one byte.
\<close>

section \<open>An uploader\<close>

abbreviation chunk_id :: BlobIdentifier where "chunk_id \<equiv> \<lparr>bi_Height = 5, bi_Commitment = 7\<rparr>"
abbreviation man_id :: BlobIdentifier where "man_id \<equiv> \<lparr>bi_Height = 6, bi_Commitment = 8\<rparr>"
abbreviation dir_id :: BlobIdentifier where "dir_id \<equiv> \<lparr>bi_Height = 7, bi_Commitment = 9\<rparr>"

definition toy_json :: "UploadRecord codec" where
  "toy_json = \<lparr>marshal = (\<lambda>r. Inr (hash_Bytes (ur_Key r) @ [if ur_Completed r then 1 else 0] @ ur_ManifestID r)),
     unmarshal = (\<lambda>b. rbind (to_hash b) (\<lambda>k. Inr \<lparr>ur_Key = k, ur_Completed = b ! 32 = 1, ur_ManifestID = drop 33 b\<rparr>))\<rparr>"

definition toy_uploader :: "BlobIdentifier result option \<Rightarrow> uploader" where
  "toy_uploader answer = \<lparr>up_json = toy_json, up_base36 = id_base36, up_mime = (\<lambda>b. []),
     up_submit = (\<lambda>k b. if b = [1, 42] then Some (Inr chunk_id) else if b = [2] then answer else None)\<rparr>"

definition toy_placed :: "BlobIdentifier \<rightharpoonup> bytes" where
  "toy_placed = [chunk_id \<mapsto> [1, 42], man_id \<mapsto> [2], dir_id \<mapsto> [3]]"

definition the_chunk :: ChunkReference where
  "the_chunk = \<lparr>cr_Id = Some (bi_Proto chunk_id), cr_ChunkHash = hash_Bytes (toy_hash [42]), cr_ChunkSize = 0\<rparr>"

definition the_manifest :: FileManifest where
  "the_manifest = (file_manifest toy_hash (toy_uploader None) [97] [42])\<lparr>fm_Chunks := [the_chunk]\<rparr>"

text \<open>A directory \<open>d\<close> with the file under the name \<open>a\<close>.\<close>

definition the_root :: hash where
  "the_root = CalculateMerkleRoot toy_hash [hash_Bytes (toy_hash ([97] @ hash_Bytes (toy_hash [42])))]"

definition the_dir :: DirectoryManifest where
  "the_dir = \<lparr>dm_ManifestVersion = ascii ''1.0'', dm_DirectoryName = [100], dm_DirectoryHash = hash_Bytes the_root,
     dm_Files = [\<lparr>fr_Id = Some (bi_Proto man_id), fr_RelativePath = [97]\<rparr>]\<rparr>"

fun up_marshal :: "Envelope \<Rightarrow> bytes result" where
  "up_marshal (ChunkDataE cd) = (if cd_Version cd = ascii ''1.0'' then Inr (1 # cd_ChunkData cd) else Inl (Ext ''marshal''))"
| "up_marshal (FileManifestE m) = (if m = the_manifest then Inr [2] else Inl (Ext ''marshal''))"
| "up_marshal (DirectoryManifestE m) = (if m = the_dir then Inr [3] else Inl (Ext ''marshal''))"
| "up_marshal NoPayload = Inl (Ext ''marshal'')"

fun up_unmarshal :: "bytes \<Rightarrow> Envelope result" where
  "up_unmarshal [] = Inr NoPayload"
| "up_unmarshal (t # x) = (if t = 1 then Inr (ChunkDataE \<lparr>cd_Version = ascii ''1.0'', cd_ChunkData = x\<rparr>)
     else if t = 2 then Inr (FileManifestE the_manifest) else Inr (DirectoryManifestE the_dir))"

definition up_env :: "(mem, mem) env" where
  "up_env = mem_env\<lparr>e_envelope := \<lparr>marshal = up_marshal, unmarshal = up_unmarshal\<rparr>,
     e_file := \<lparr>marshal = (\<lambda>m. if m = the_manifest then Inr [] else Inl (Ext ''marshal'')), unmarshal = (\<lambda>b. Inr the_manifest)\<rparr>,
     e_dir := \<lparr>marshal = (\<lambda>m. if m = the_dir then Inr [] else Inl (Ext ''marshal'')), unmarshal = (\<lambda>b. Inr the_dir)\<rparr>\<rparr>"

lemma up_env_simps [simp]: "e_B up_env = toy_hash" "e_db up_env = mem_pebble"
  "e_envelope up_env = \<lparr>marshal = up_marshal, unmarshal = up_unmarshal\<rparr>"
  "marshal (e_file up_env) the_manifest = Inr []" "marshal (e_dir up_env) the_dir = Inr []"
  "unmarshal (e_file up_env) b = Inr the_manifest" "unmarshal (e_dir up_env) b = Inr the_dir"
  by (simp_all add: up_env_def)

lemma up_marshal_inverse: "up_marshal m = Inr b \<Longrightarrow> up_unmarshal b = Inr m"
  by (cases m rule: up_marshal.cases) (auto split: if_splits)

lemma up_env_ok: "env_ok up_env mem_view"
proof -
  have "codec_ok \<lparr>marshal = up_marshal, unmarshal = up_unmarshal\<rparr>"
    using up_marshal_inverse by (simp add: codec_ok_def)
  moreover have "codec_ok (e_file up_env)" "codec_ok (e_dir up_env)" by (simp_all add: codec_ok_def up_env_def)
  ultimately show ?thesis using mem_env_ok by (simp add: env_ok_def up_env_def)
qed

lemma toy_json_ok: "codec_ok toy_json"
  by (auto simp: codec_ok_def toy_json_def nth_append)

lemma toy_upload_ok: "answer = None \<or> answer = Some (Inr man_id) \<Longrightarrow> upload_ok up_env mem_view (toy_uploader answer) toy_placed"
  using mem_pebble_ok toy_json_ok
  by (auto simp: upload_ok_def submitter_ok_def toy_uploader_def toy_placed_def split: if_splits)

lemma toy_keys_differ: "keys_differ up_env {[42]} {[42]}"
proof -
  have "chunk_rec up_env [42] \<noteq> file_rec up_env [42]"
  proof
    assume "chunk_rec up_env [42] = file_rec up_env [42]"
    then have "unat (chunk_rec up_env [42]) = unat (file_rec up_env [42])" by simp
    then show False
      by (simp add: chunk_record_key_def ascii_def unat_toy_hash)
  qed
  then show ?thesis by (simp add: keys_differ_def)
qed

lemma toy_records_ok: "records_ok up_env (toy_uploader answer) placed fs vs []"
  by (simp add: records_ok_def record_ok_def GetUploadRecord_def up_env_def)

text \<open>The chunk's record after its submission.\<close>

definition chunk_record :: UploadRecord where
  "chunk_record = \<lparr>ur_Key = chunk_rec up_env [42], ur_Completed = True, ur_ManifestID = bi_ID id_base36 chunk_id\<rparr>"

lemma toy_get_empty: "GetUploadRecord up_env U [] k = Inr \<lparr>ur_Key = k, ur_Completed = False, ur_ManifestID = []\<rparr>"
  by (simp add: GetUploadRecord_def)

lemma toy_save: "\<exists>d'. SaveUploadRecord up_env (toy_uploader answer) d r = Inr d'"
  by (simp add: SaveUploadRecord_def toy_uploader_def toy_json_def)

lemma toy_chunk_saved:
  obtains d where "SaveUploadRecord up_env (toy_uploader answer) [] chunk_record = Inr d"
    "GetUploadRecord up_env (toy_uploader answer) d (chunk_rec up_env [42]) = Inr chunk_record"
proof -
  obtain d where d: "SaveUploadRecord up_env (toy_uploader answer) [] chunk_record = Inr d" using toy_save by blast
  have "(\<exists>V. pebble_ok (e_db up_env) V) \<and> pebble_total (e_db up_env) \<and> codec_ok (up_json (toy_uploader answer))"
    using mem_pebble_ok toy_json_ok by (auto simp: toy_uploader_def)
  from upload_records.get_save [OF this d] that [OF d] show thesis by (simp add: chunk_record_def)
qed

lemma toy_run:
  obtains d where "PutFileData up_env (toy_uploader answer) (Inr ()) [] 0 [97] [42] 1
    = submit_manifest up_env (toy_uploader answer) d 1 the_manifest \<lparr>ur_Key = toy_hash [42], ur_Completed = False, ur_ManifestID = []\<rparr>"
proof -
  let ?U = "toy_uploader answer"
  let ?job = "\<lparr>cj_chunk = [42], cj_hash = toy_hash [42], cj_key = chunk_rec up_env [42], cj_submitted = Some (0, [1, 42])\<rparr>"
  obtain d where d: "SaveUploadRecord up_env ?U [] chunk_record = Inr d"
    "GetUploadRecord up_env ?U d (chunk_rec up_env [42]) = Inr chunk_record" by (rule toy_chunk_saved)
  have split: "Split [42] 1 = Inr [[42]]" by (simp add: Split_def split_loop.simps)
  have prep: "prepare_chunks up_env ?U [] 0 [[42]] = (Inr [?job], 1)"
    by (simp add: toy_get_empty Let_def)
  have "complete_record up_env ?U [] (chunk_rec up_env [42]) chunk_id = (Inr (), d)"
    using d(1) by (simp add: complete_record_def toy_get_empty chunk_record_def toy_uploader_def)
  then have await: "await_chunks up_env ?U [] [?job] = (Inr (), d)" by (simp add: toy_uploader_def)
  have "BlobIdentifierFromString id_base36 (bi_ID id_base36 chunk_id) = Inr chunk_id"
    by (rule BlobIdentifierFromString_bi_ID) simp
  then have refs: "map_res (chunk_ref up_env ?U d) [?job] = Inr [the_chunk]"
    using d(2) by (simp add: chunk_ref_def chunk_record_def the_chunk_def toy_uploader_def)
  have "file_manifest toy_hash ?U [97] [42] = file_manifest toy_hash (toy_uploader None) [97] [42]"
    by (simp add: file_manifest_def toy_uploader_def)
  with split prep await refs that [of d] show thesis
    by (simp add: PutFileData_def toy_get_empty Let_def the_manifest_def del: prepare_chunks.simps await_chunks.simps map_res.simps)
qed

section \<open>Uploading a file\<close>



text \<open>
  C36: a file that was uploaded is accepted: a node whose transaction holds the chunks that are on
  Celestia takes the manifest of the returned identifier, and once the transaction is in the
  database \<open>GetFileData\<close> returns the bytes that were uploaded.
\<close>

theorem uploaded_file_is_served:
  assumes "upload_ok E V U placed" "keys_differ E fs vs" "records_ok E U placed fs vs d"
    and "f \<in> fs" "set (split_loop f (nat lim)) \<subseteq> vs" "PutFileData E U opened d n name f lim = (Inr i, d', n')"
    and "env_ok E V" "pebble_total (e_db E)" "tx_good E V g dn tx heap"
    and "\<And>v j. chunk_placed E placed v j \<Longrightarrow> tx_view V dn tx (chk_key (bi_Commitment j)) = Some v"
    and "\<forall>m data. marshal (e_envelope E) (FileManifestE m) = Inr data \<longrightarrow> (\<exists>b. marshal (e_file E) m = Inr b)"
    and "length f \<le> 2 ^ 48"
  shows "\<exists>data m tx'. placed i = Some data \<and> unmarshal (e_envelope E) data = Inr (FileManifestE m)
    \<and> SyncFileManifest E dn tx heap (bi_Height i) \<lparr>bl_Commitment = hash_Bytes (bi_Commitment i), bl_Data = data\<rparr> m
        = Inr (True, tx', heap + 1)
    \<and> (\<forall>dn'. content V dn' = tx_view V dn tx' \<longrightarrow> GetFileData E (Inr dn') i = Inr f)"
proof -
  have "file_placed E placed f i" using PutFileData_ok [OF assms(1-6)] by simp
  from uploaded_file_accepted [OF assms(7-9) this assms(10) assms(11) [rule_format] assms(12)] show ?thesis .
qed

text \<open>The node holds the chunk.\<close>

definition chunk_db :: mem where
  "chunk_db = [(chk_key 7, [42]), (chkh_key 7, hash_Bytes (toy_hash [42]))]"

lemma chunk_db_sound: "store_sound up_env (\<lambda>k. [1, 42]) (content mem_view chunk_db)"
proof -
  have keys: "chk_key k \<noteq> chkh_key j" "chkh_key j \<noteq> chk_key k" "fman_key i \<noteq> chk_key k" "fman_key i \<noteq> chkh_key k" "dman_key i \<noteq> chk_key k"
    "dman_key i \<noteq> chkh_key k" "chk_key k = chk_key j \<longleftrightarrow> k = j" "chkh_key k = chkh_key j \<longleftrightarrow> k = j" for k j i
    using encode_key_inj [of "KChunk k" "KChunkHash j"] encode_key_inj [of "KFile i" "KChunk k"]
      encode_key_inj [of "KFile i" "KChunkHash k"] encode_key_inj [of "KDir i" "KChunk k"]
      encode_key_inj [of "KDir i" "KChunkHash k"] encode_key_inj [of "KChunk k" "KChunk j"]
      encode_key_inj [of "KChunkHash k" "KChunkHash j"] by auto
  have "chunk_of up_env (\<lambda>k. [1, 42]) k = [42]" for k by (simp add: chunk_of_def)
  with keys show ?thesis by (simp add: store_sound_def chunk_db_def split: if_splits)
qed

theorem uploaded_file_is_served_witness:
  "\<exists>d'. PutFileData up_env (toy_uploader (Some (Inr man_id))) (Inr ()) [] 0 [97] [42] 1 = (Inr man_id, d', 2)
     \<and> (\<exists>m tx'. SyncFileManifest up_env chunk_db (NewChainStateTransaction up_env chunk_db) 0 6
           \<lparr>bl_Commitment = hash_Bytes 8, bl_Data = [2]\<rparr> m = Inr (True, tx', 1))"
proof -
  let ?U = "toy_uploader (Some (Inr man_id))" and ?tx = "NewChainStateTransaction up_env chunk_db"
  obtain d' where run: "PutFileData up_env ?U (Inr ()) [] 0 [97] [42] 1 = (Inr man_id, d', 2)"
  proof (rule toy_run [of "Some (Inr man_id)"])
    fix d assume "PutFileData up_env ?U (Inr ()) [] 0 [97] [42] 1 = submit_manifest up_env ?U d 1 the_manifest
        \<lparr>ur_Key = toy_hash [42], ur_Completed = False, ur_ManifestID = []\<rparr>"
    then show thesis
      using that toy_save [of "Some (Inr man_id)" d "\<lparr>ur_Key = toy_hash [42], ur_Completed = True, ur_ManifestID = bi_ID id_base36 man_id\<rparr>"]
      by (auto simp: submit_manifest_def sync_PutFileManifest_def toy_uploader_def)
  qed
  have sub: "set (split_loop [42] (nat 1)) \<subseteq> {[42]}" by (simp add: split_loop.simps)
  have good: "tx_good up_env mem_view (\<lambda>k. [1, 42]) chunk_db ?tx 0" by (rule tx_good_new [OF up_env_ok chunk_db_sound])
  have view: "tx_view mem_view chunk_db ?tx (chk_key 7) = Some [42]"
    using tx_view_new [OF env_okD(2) [OF up_env_ok], of chunk_db] by (simp add: chunk_db_def)
  have recorded: "tx_view mem_view chunk_db ?tx (chk_key (bi_Commitment j)) = Some v" if "chunk_placed up_env toy_placed v j" for v j
    using that view by (auto simp: chunk_placed_def toy_placed_def split: if_splits)
  have enc: "\<forall>m data. marshal (e_envelope up_env) (FileManifestE m) = Inr data \<longrightarrow> (\<exists>b. marshal (e_file up_env) m = Inr b)"
    by simp
  have total: "pebble_total (e_db up_env)" using mem_pebble_ok by simp
  from uploaded_file_is_served [OF toy_upload_ok toy_keys_differ toy_records_ok _ sub run up_env_ok total good recorded enc]
  obtain data m tx' where "toy_placed man_id = Some data"
    "SyncFileManifest up_env chunk_db ?tx 0 (bi_Height man_id) \<lparr>bl_Commitment = hash_Bytes (bi_Commitment man_id), bl_Data = data\<rparr> m
      = Inr (True, tx', 0 + 1)" by auto
  then have "SyncFileManifest up_env chunk_db ?tx 0 6 \<lparr>bl_Commitment = hash_Bytes 8, bl_Data = [2]\<rparr> m = Inr (True, tx', 1)"
    by (simp add: toy_placed_def)
  with run show ?thesis by blast
qed

section \<open>The submitter\<close>

text \<open>
  C37: in every state that the submitter reaches, a payload that was submitted either waits or has its
  answer, and not both; an identifier that is answered names the blob with the payload; a batch that was
  stored is within the transaction size unless it is a single item; no step changes an answer.
\<close>

theorem submitter_answers_each_payload:
  assumes "sm_reach M S s" "\<forall>store\<in>S. store_ok placed store"
  shows "(\<forall>j < sm_next s. (\<exists>item\<in>set (waiting s). it_id item = j \<and> it_Payload item = sm_submitted s ! j) \<longleftrightarrow> sm_results s j = None)
    \<and> (\<forall>j i. sm_results s j = Some (Inr i) \<longrightarrow> placed i = Some (sm_submitted s ! j))
    \<and> (\<forall>batch\<in>set (sm_stored s). batch_fits M batch)
    \<and> (\<forall>store\<in>S. \<forall>s'. sm_step M store s (Inr s') \<longrightarrow> sm_results s \<subseteq>\<^sub>m sm_results s')"
proof -
  have inv: "sm_inv M s" by (rule sm_reach_inv [OF assms(1)])
  have ans: "answers_ok placed s" by (rule sm_reach_answers [OF assms(1)]) (use assms(2) in blast)
  have ids: "it_id ` set (waiting s) \<inter> dom (sm_results s) = {}" "it_id ` set (waiting s) \<union> dom (sm_results s) = {0..<sm_next s}"
    using inv by (simp_all add: sm_inv_def ids_ok_def)
  have payload: "it_Payload item = sm_submitted s ! it_id item" if "item \<in> set (waiting s)" for item
    using ans that by (simp add: answers_ok_def payloads_ok_def)
  have one: "(\<exists>item\<in>set (waiting s). it_id item = j \<and> it_Payload item = sm_submitted s ! j) \<longleftrightarrow> sm_results s j = None"
    if j: "j < sm_next s" for j
  proof -
    from j ids(2) have "j \<in> it_id ` set (waiting s) \<union> dom (sm_results s)" by simp
    with ids(1) payload show ?thesis by blast
  qed
  have "\<forall>j i. sm_results s j = Some (Inr i) \<longrightarrow> placed i = Some (sm_submitted s ! j)"
    using ans by (simp add: answers_ok_def results_ok_def)
  moreover have "\<forall>batch\<in>set (sm_stored s). batch_fits M batch" using inv by (simp add: sm_inv_def batches_ok_def)
  moreover have "\<forall>store\<in>S. \<forall>s'. sm_step M store s (Inr s') \<longrightarrow> sm_results s \<subseteq>\<^sub>m sm_results s'"
    using sm_step_inv inv by blast
  ultimately show ?thesis using one by blast
qed

text \<open>One payload, taken and flushed by the timer.\<close>

definition one_store :: store_batch where
  "one_store msgs = (if msgs = [[1]] then Inr ([hash_Bytes 7], 5) else Inl (Ext ''store''))"

abbreviation one_item :: item where "one_item \<equiv> \<lparr>it_id = 0, it_Payload = [1]\<rparr>"

lemma one_payload_answered:
  "\<exists>s. sm_reach 200 {one_store} s \<and> sm_submitted s = [[1]] \<and> sm_results s 0 = Some (Inr chunk_id)"
proof -
  let ?s1 = "NewSubmitter\<lparr>sm_queue := [one_item], sm_submitted := [[1]]\<rparr>"
  let ?s2 = "NewSubmitter\<lparr>sm_submitted := [[1]], sm_batch := [one_item], sm_size := 101, sm_timer := True\<rparr>"
  let ?s3 = "NewSubmitter\<lparr>sm_submitted := [[1]], sm_stored := [[one_item]], sm_results := [0 \<mapsto> Inr chunk_id]\<rparr>"
  have "sm_step 200 one_store NewSubmitter (Inr ?s1)"
    using sm_step.Submit [of one_item NewSubmitter "[1]"] by (simp add: NewSubmitter_def chan_size_def)
  then have 1: "sm_reach 200 {one_store} ?s1" by (rule sm_reach.Step [OF sm_reach.Start, rotated]) simp
  have "sm_step 200 one_store ?s1 (Inr ?s2)"
    using sm_step.Take [of ?s1 one_item "[]" 200 one_store] by (simp add: NewSubmitter_def add_item_def estimatedItemSize_def)
  then have 2: "sm_reach 200 {one_store} ?s2" by (rule sm_reach.Step [OF 1, rotated]) simp
  have "sm_step 200 one_store ?s2 (Inr ?s3)"
    using sm_step.Tick [of ?s2 200 one_store]
    by (simp add: NewSubmitter_def flush_def submitBatch_def one_store_def index_of_def)
  then have "sm_reach 200 {one_store} ?s3" by (rule sm_reach.Step [OF 2, rotated]) simp
  then show ?thesis by (intro exI [of _ ?s3]) (simp add: NewSubmitter_def)
qed

theorem submitter_answers_each_payload_witness:
  "\<exists>s. sm_reach 200 {one_store} s \<and> sm_submitted s = [[1]] \<and> sm_results s 0 = Some (Inr chunk_id)
     \<and> waiting s = []"
proof -
  obtain s where s: "sm_reach 200 {one_store} s" "sm_submitted s = [[1]]" "sm_results s 0 = Some (Inr chunk_id)"
    using one_payload_answered by blast
  have "\<forall>store\<in>{one_store}. store_ok [chunk_id \<mapsto> [1]] store" by (simp add: store_ok_def one_store_def)
  from submitter_answers_each_payload [OF s(1) this] s have
    "\<forall>item\<in>set (waiting s). it_id item \<noteq> 0 \<or> it_Payload item \<noteq> [1]" by auto
  moreover have "sm_inv 200 s" by (rule sm_reach_inv [OF s(1)])
  ultimately have "waiting s = []" using s(2,3) by (cases "waiting s") (auto simp: sm_inv_def ids_ok_def)
  with s show ?thesis by blast
qed

text \<open>
  \<open>Close\<close> closes the first channel first; the goroutine can return then, whatever waits in the
  channel of priorities, and no step after it answers such a payload.
\<close>

lemma close_loses_a_priority_payload:
  "\<exists>s. sm_reach 200 {one_store} s \<and> \<not> sm_running s \<and> sm_priority s = [one_item] \<and> sm_results s 0 = None"
proof -
  let ?s1 = "NewSubmitter\<lparr>sm_priority := [one_item], sm_submitted := [[1]]\<rparr>"
  have "sm_step 200 one_store NewSubmitter (Inr ?s1)"
    using sm_step.SubmitWithPriority [of one_item NewSubmitter "[1]"] by (simp add: NewSubmitter_def chan_size_def)
  then have 1: "sm_reach 200 {one_store} ?s1" by (rule sm_reach.Step [OF sm_reach.Start, rotated]) simp
  have "sm_step 200 one_store ?s1 (Inr (?s1\<lparr>sm_queueClosed := True\<rparr>))"
    by (rule sm_step.CloseQueue) (simp add: NewSubmitter_def)
  then have 2: "sm_reach 200 {one_store} (?s1\<lparr>sm_queueClosed := True\<rparr>)" by (rule sm_reach.Step [OF 1, rotated]) simp
  have "sm_step 200 one_store (?s1\<lparr>sm_queueClosed := True\<rparr>) (Inr (?s1\<lparr>sm_queueClosed := True, sm_running := False\<rparr>))"
    using sm_step.QueueClosed [of "?s1\<lparr>sm_queueClosed := True\<rparr>" 200 one_store] by (simp add: NewSubmitter_def finish_def)
  then have "sm_reach 200 {one_store} (?s1\<lparr>sm_queueClosed := True, sm_running := False\<rparr>)"
    by (rule sm_reach.Step [OF 2, rotated]) simp
  then show ?thesis by (intro exI [of _ "?s1\<lparr>sm_queueClosed := True, sm_running := False\<rparr>"]) (simp add: NewSubmitter_def)
qed

lemma stopped_submitter_never_answers:
  assumes "sm_step M store s (Inr s')" "\<not> sm_running s" "item \<in> set (sm_priority s)"
  shows "\<not> sm_running s' \<and> item \<in> set (sm_priority s')"
  using assms by (cases rule: sm_step.cases) auto

end
