(* ===== verification/Sharing.thy ===== *)
theory Sharing
  imports Uploading Files_Proofs
begin

text \<open>
  The properties of directories, C38 and C39: an export writes only the files of the manifest, each
  as the node describes it; an uploaded directory is accepted. The example is the directory \<open>d\<close>
  with the one-byte file \<open>a\<close>, on a disk that is a list of writes.
\<close>

section \<open>A disk and a node with the directory\<close>








definition dir_db :: mem where
  "dir_db = chunk_db @ [(fman_key man_id, []), (dman_key dir_id, [])]"


lemma dir_db_keys [simp]:
  "map_of dir_db (chk_key k) = (if k = 7 then Some [42] else None)"
  "map_of dir_db (chkh_key k) = (if k = 7 then Some (hash_Bytes (toy_hash [42])) else None)"
  "map_of dir_db (fman_key i) = (if i = man_id then Some [] else None)"
  "map_of dir_db (dman_key i) = (if i = dir_id then Some [] else None)"
  by (simp_all add: dir_db_def chunk_db_def key_distinct)

lemma the_manifest_simps [simp]: "fm_FileSize the_manifest = 1" "fm_FileHash the_manifest = hash_Bytes (toy_hash [42])"
  "fm_Chunks the_manifest = [the_chunk]"
  by (simp_all add: the_manifest_def file_manifest_def)

lemma the_dir_simps [simp]: "dm_Files the_dir = [\<lparr>fr_Id = Some (bi_Proto man_id), fr_RelativePath = [97]\<rparr>]"
  "dm_DirectoryHash the_dir = hash_Bytes the_root"
  by (simp_all add: the_dir_def)



section \<open>Export\<close>


text \<open>An element \<open>..\<close> leaves the target.\<close>

lemma dotdot_leaves_the_target:
  "path_Join (ascii ''/out'') (ascii ''../x'') = ascii ''/x''" "\<not> below (ascii ''/out'') (ascii ''/x'')"
  by (simp_all add: path_Join_def path_Clean_def rebuild_def elements_def clean_words_def clean_step_def rooted_def
      ascii_def below_def)


section \<open>Upload\<close>











end
