(* ===== verification/Access.thy ===== *)
theory Access
  imports Sharing Celestia Gateway_Proofs
begin

text \<open>
  The properties of the outer interfaces, C24 and C40: what the gateway answers, and what the client of
  Celestia promises to the submitter and to the upload of a directory.
\<close>

section \<open>The gateway\<close>









lemma man_id_plain: "slash \<notin> set (bi_ID id_base36 man_id)" "\<not> HasPrefix (slash # bi_ID id_base36 man_id) (ascii ''/static/'')"
  by code_simp+


section \<open>The client of Celestia\<close>

text \<open>
  C40: the client of Celestia is a store as the submitter and the upload of a directory require it: when it
  returns commitments and a height, Celestia holds the messages under them. It submits a batch at most 250
  times, again only after a network error, and returns the height of the first submission that succeeds,
  if that comes before the context ends or another error, and is not zero.
\<close>

theorem celestia_client_stores:
  fixes R :: "('s, 'p, 'h) celestia_rpc"
  assumes "submit_binds R placed"
  shows "store_ok placed (\<lambda>msgs. fst (da_StoreBatch R C msgs s)) \<and> stores placed (\<lambda>data. fst (da_Store R C data s))
    \<and> (\<exists>n\<le>250. snd (da_StoreBatch R C msgs s) = after (cel_Submit R msgs) n s
         \<and> (\<forall>k. Suc k < n \<longrightarrow> (\<exists>e. attempt_result (cel_Submit R msgs) k s = Inl e \<and> IsNetworkError e)))
    \<and> (fst (da_StoreBatch R C msgs s) = Inr (cs, h) \<longleftrightarrow> msgs \<noteq> [] \<and> map_res (cel_NewBlobV0 R) msgs = Inr cs \<and> h \<noteq> 0
         \<and> (\<exists>n. succeeds C DefaultRetryConfig (cel_Submit R msgs) 0 s n h))"
  using da_StoreBatch_store_ok [OF assms, of C s] da_Store_stores [OF assms, of C s] da_StoreBatch_attempts [of R C msgs s]
    da_StoreBatch_success [of R C msgs s cs h] by simp

text \<open>A Celestia that is syncing at the first attempt.\<close>

definition slow_celestia :: "(nat, unit, unit) celestia_rpc" where
  "slow_celestia = \<lparr>cel_NewBlobV0 = (\<lambda>b. Inr (hash_Bytes (of_nat (length b)))),
     cel_Submit = (\<lambda>msgs s. if s = 0 then (Inl (Ext ''header: syncing in progress''), 1)
       else if msgs = [[1]] then (Inr 5, s + 1) else (Inl (Ext ''refused''), s)),
     cel_GetAll = (\<lambda>h s. (Inr [], s)), cel_Get = (\<lambda>h c s. (Inr [], s)), cel_GetProof = (\<lambda>h c s. (Inr (), s)),
     cel_Included = (\<lambda>h p c s. (Inr True, s)), cel_SyncState = (\<lambda>s. (Inr 0, s)), cel_GetByHeight = (\<lambda>h s. (Inr (), s))\<rparr>"

definition steady :: retry_ctx where
  "steady = \<lparr>ctx_cancelled = (\<lambda>n. False), ctx_ends_wait = (\<lambda>n. False)\<rparr>"

lemma syncing_is_retried: "IsNetworkError (Ext ''header: syncing in progress'')"
  by code_simp

theorem celestia_client_stores_witness:
  "fst (da_StoreBatch slow_celestia steady [[1]] 0) = Inr ([hash_Bytes 1], 5)
   \<and> (\<exists>n\<le>250. snd (da_StoreBatch slow_celestia steady [[1]] 0) = after (cel_Submit slow_celestia [[1]]) n 0)"
proof -
  let ?placed = "[\<lparr>bi_Height = 5, bi_Commitment = 1\<rparr> \<mapsto> [1]]"
  have binds: "submit_binds slow_celestia ?placed" by (auto simp: submit_binds_def slow_celestia_def split: if_splits)
  have "succeeds steady DefaultRetryConfig (cel_Submit slow_celestia [[1]]) 0 0 (Suc 0) 5"
    by (simp add: succeeds_Suc succeeds_0 retried_def DefaultRetryConfig_def steady_def slow_celestia_def syncing_is_retried)
  moreover have "map_res (cel_NewBlobV0 slow_celestia) [[1]] = Inr [hash_Bytes 1]" by (simp add: slow_celestia_def)
  ultimately show ?thesis
    using celestia_client_stores [OF binds, of steady 0 "[[1]]" "[hash_Bytes 1]" 5] by auto
qed

end
