(* ===== verification/Indexing.thy ===== *)
theory Indexing
  imports Index_Views Access
begin

text \<open>
  The properties of the index, of the explorer and of the REST API: C20, C21, C23, C25 and C26. A small
  node and an obliging server give their witnesses.
\<close>

section \<open>A node and a server for evaluation\<close>

definition toy_pg :: pg_env where
  "toy_pg = \<lparr>pg_answer = (\<lambda>n. Answered), pg_order = (\<lambda>n m. [0..<m]), pg_text = (\<lambda>s. True), pg_time = Some,
     pg_collate = (\<lambda>s. s), pg_tsmatch = (\<lambda>a b. False), pg_ilike = (\<lambda>a b. False), pg_average = (\<lambda>a b. 0)\<rparr>"

definition toy_ix :: index_env where
  "toy_ix = \<lparr>ie_base36 = id_base36, ie_file_size = (\<lambda>m. 7), ie_dir_size = (\<lambda>m. 9), ie_keys = (\<lambda>ks. ks), ie_lower = (\<lambda>s. s)\<rparr>"

definition ix_id :: "hash \<Rightarrow> BlobIdentifier" where
  "ix_id k = \<lparr>bi_Height = 5, bi_Commitment = k\<rparr>"

definition toy_ref :: ChunkReference where
  "toy_ref = \<lparr>cr_Id = Some (bi_Proto (ix_id 1)), cr_ChunkHash = [1], cr_ChunkSize = 3\<rparr>"

definition toy_man :: FileManifest where
  "toy_man = \<lparr>fm_ManifestVersion = [], fm_FileName = ascii ''a_b.txt'', fm_MimeType = ascii ''text/plain'', fm_FileSize = 3,
     fm_FileHash = [1], fm_Compression = NONE, fm_Chunks = [toy_ref]\<rparr>"

definition toy_dman :: DirectoryManifest where
  "toy_dman = \<lparr>dm_ManifestVersion = [], dm_DirectoryName = ascii ''d'', dm_DirectoryHash = [2],
     dm_Files = [\<lparr>fr_Id = Some (bi_Proto (ix_id 2)), fr_RelativePath = ascii ''a''\<rparr>]\<rparr>"

definition toy_header :: "u64 \<Rightarrow> BlockHeader" where
  "toy_header h = \<lparr>bh_Version = 1, bh_ChainID = [], bh_Height = h, bh_CelestiaBlockHeight = 5, bh_Timestamp = \<lparr>unix_sec = 1, nsec = 0\<rparr>,
     bh_ParentHash = 0, bh_DirsRoot = 0, bh_FilesRoot = 0, bh_ChunksRoot = 0, bh_StateRoot = 0\<rparr>"

definition toy_b :: Block where
  "toy_b = \<lparr>b_Header = toy_header 1, b_Body = \<lparr>bb_Dirs = [ix_id 3], bb_Files = [ix_id 2], bb_Chunks = [ix_id 1]\<rparr>\<rparr>"

definition toy_blocks :: "Block list" where
  "toy_blocks = [\<lparr>b_Header = toy_header 0, b_Body = \<lparr>bb_Dirs = [], bb_Files = [], bb_Chunks = []\<rparr>\<rparr>, toy_b]"

definition toy_contents :: contents where
  "toy_contents = \<lparr>ct_ref = (\<lambda>i. toy_ref), ct_file = (\<lambda>i. toy_man), ct_dir = (\<lambda>i. toy_dman)\<rparr>"

definition toy_layout :: layout where
  "toy_layout = \<lparr>ly_body = b_Body toy_b, ly_height = 1, ly_chunks = (\<lambda>i. [ix_id 1]), ly_files = (\<lambda>i. [ix_id 2])\<rparr>"

definition toy_message :: pbBlock where
  "toy_message = \<lparr>pb_Header = Some (bh_Proto (bh_canon (b_Header toy_b))), pb_Body = Some (bb_Proto (b_Body toy_b)),
     pb_Hash = hash_Bytes (header_hash toy_hash (b_Header toy_b))\<rparr>"

definition toy_client :: node_client where
  "toy_client = \<lparr>nc_storage = \<lparr>sc_GetFileManifest = (\<lambda>s. Inr (Some toy_man)), sc_GetFileData = (\<lambda>s. Inr []),
       sc_GetDirectoryManifest = (\<lambda>s. Inr (Some toy_dman))\<rparr>,
     nc_GetChunkReference = (\<lambda>s. Inr (Some toy_ref)),
     nc_GetBlockByHeight = (\<lambda>h. if h = 1 then Inr (Some toy_message) else Inl (Status NotFound ''block not found''))\<rparr>"

definition empty_pg :: pg where
  "empty_pg = \<lparr>pg_tables = no_tables, pg_calls = 0\<rparr>"

lemma toy_pg_ok [simp]: "pg_ok toy_pg" "answers_all toy_pg"
  by (simp_all add: pg_ok_def answers_all_def toy_pg_def)

lemma toy_ix_base36 [simp]: "base36_ok (ie_base36 toy_ix)"
  by (simp add: toy_ix_def)

lemma toy_blocks_1 [simp]: "toy_blocks ! Suc 0 = toy_b" "length toy_blocks = 2"
  by (simp_all add: toy_blocks_def)

lemma toy_block_simps [simp]: "b_Header toy_b = toy_header 1"
  "b_Body toy_b = \<lparr>bb_Dirs = [ix_id 3], bb_Files = [ix_id 2], bb_Chunks = [ix_id 1]\<rparr>"
  by (simp_all add: toy_b_def)

lemma toy_indexable: "indexable toy_pg toy_ix toy_contents toy_layout toy_client toy_hash toy_b"
proof -
  have "node_gives toy_ix toy_contents toy_layout toy_client"
    by (simp add: node_gives_def toy_contents_def toy_layout_def toy_client_def listed_def toy_man_def toy_ref_def toy_dman_def)
  moreover have "rows_fit toy_pg toy_ix toy_contents toy_layout"
    by (simp add: rows_fit_def toy_contents_def toy_layout_def chunk_columns_def chunk_row_def file_columns_def manifest_row_def
        Let_def file_chunk_columns_def fc_row_def directory_columns_def listing_row_def directory_file_columns_def df_row_def
        toy_pg_def as_text_def bigint_def integer_def toy_ref_def toy_man_def toy_dman_def)
  moreover have "nc_GetBlockByHeight toy_client (ly_height toy_layout) = Inr (Some toy_message)" "block_sent toy_hash toy_b toy_message"
    by (simp_all add: toy_client_def toy_layout_def block_sent_def toy_message_def)
  moreover have "checks (block_columns toy_pg (the_block_row toy_hash toy_b used)) = Inr ()"
    if "used \<in> {0, storage_used toy_ix toy_contents (b_Body toy_b)}" for used
    using that by (auto simp: block_columns_def block_index_def bh_Proto_def bb_Proto_def bh_canon_def toy_header_def toy_pg_def
        as_text_def bigint_def integer_def storage_used_def toy_ix_def toy_contents_def toy_ref_def)
  moreover have "pg_time toy_pg (bh_Timestamp (bh_canon (b_Header toy_b))) \<noteq> None" by (simp add: toy_pg_def)
  moreover have "ly_body toy_layout = b_Body toy_b" "ly_height toy_layout = bh_Height (b_Header toy_b)"
    by (simp_all add: toy_layout_def toy_header_def)
  ultimately show ?thesis unfolding indexable_def by blast
qed

lemma toy_items_known: "items_known toy_ix toy_layout t"
  by (simp add: items_known_def toy_layout_def)

lemma toy_heights_ok: "heights_ok toy_blocks"
  by (auto simp: heights_ok_def toy_blocks_def toy_b_def toy_header_def less_Suc_eq)

lemma toy_client_honest: "honest_node toy_hash toy_blocks toy_client"
proof -
  have "block_sent toy_hash toy_b toy_message" by (simp add: block_sent_def toy_message_def)
  then show ?thesis by (auto simp: honest_node_def toy_client_def toy_blocks_def split: if_splits)
qed

definition toy_events :: "ix_event list" where
  "toy_events = [SubscribeFails, WaitOver False, WaitOver True, SubscribeOk 1, RecvHeader (Some (bh_Proto (toy_header 1))) toy_client, RecvFails]"

lemma toy_index_run:
  "\<exists>s. ix_run toy_pg toy_ix (NewIndexerService toy_pg 0 empty_pg) toy_events = Some s \<and> ix_lastIndexed s = 1"
proof -
  have start: "NewIndexerService toy_pg 0 empty_pg = \<lparr>ix_phase = Subscribing, ix_lastIndexed = 0,
      ix_db = \<lparr>pg_tables = no_tables, pg_calls = 1\<rparr>\<rparr>"
    by (simp add: NewIndexerService_def GetLastIndexedHeight_def queryRow_def toy_pg_def empty_pg_def no_tables_def)
  let ?D = "\<lparr>pg_tables = no_tables, pg_calls = 1\<rparr>"
  obtain D' where "indexBlock toy_pg toy_ix toy_client (ly_height toy_layout) ?D = (Inr (), D')"
    using indexBlock_writes [OF toy_pg_ok(2,1) toy_ix_base36 toy_indexable toy_items_known, of ?D] by blast
  then have "indexBlock toy_pg toy_ix toy_client 1 ?D = (Inr (), D')" by (simp add: toy_layout_def)
  then show ?thesis unfolding toy_events_def start
    by (simp add: received_def bh_Proto_def toy_header_def first_wait_def max_wait_def)
qed

section \<open>The index\<close>

text \<open>
  C20: the indexer follows the chain of an honest node. Started on an empty index, after any headers,
  failures of the database or of a connection, and restarts, every block row describes the block of the
  chain at its height, and no height from 1 to the last indexed one lacks its row, as long as the headers
  of a subscription leave no height out.
\<close>

theorem indexer_follows_the_chain:
  assumes "pg_ok P" "heights_ok bs" "honest_events B bs evs" "gapless 1 evs"
    and "ix_run P I (NewIndexerService P 0 empty_pg) evs = Some s"
  shows "(\<forall>r\<in>set (tb_blocks (pg_tables (ix_db s))). unat (bx_Height r) < length bs \<and> row_describes B (bs ! unat (bx_Height r)) r)
    \<and> (\<forall>h. 1 \<le> h \<and> h \<le> unat (ix_lastIndexed s) \<longrightarrow>
         (\<exists>r. row_of bx_Height (of_nat h) (tb_blocks (pg_tables (ix_db s))) = Some r \<and> row_describes B (bs ! h) r))"
proof -
  have "schema_ok P (pg_tables empty_pg)" "rows_follow B bs (tb_blocks (pg_tables empty_pg))"
    by (simp_all add: empty_pg_def rows_follow_def) (simp_all add: no_tables_def indexed_heights_def)
  from ix_run_inv [OF assms(1-4) NewIndexerService_inv [OF this] assms(5)]
  have follow: "rows_follow B bs (tb_blocks (pg_tables (ix_db s)))"
    and all: "{1..unat (ix_lastIndexed s)} \<subseteq> indexed_heights (tb_blocks (pg_tables (ix_db s)))" by (auto simp: ix_inv_def)
  have "\<exists>r. row_of bx_Height (of_nat h) (tb_blocks (pg_tables (ix_db s))) = Some r \<and> row_describes B (bs ! h) r"
    if h: "1 \<le> h" "h \<le> unat (ix_lastIndexed s)" for h
  proof -
    from h all obtain r0 where "r0 \<in> set (tb_blocks (pg_tables (ix_db s)))" "unat (bx_Height r0) = h"
      unfolding indexed_heights_def by force
    then have "(of_nat h :: u64) \<in> bx_Height ` set (tb_blocks (pg_tables (ix_db s)))" by force
    then obtain r where r: "row_of bx_Height (of_nat h) (tb_blocks (pg_tables (ix_db s))) = Some r" using row_of_exists by metis
    have "unat (of_nat h :: u64) = h" using h unat_less_pow64 [of "ix_lastIndexed s"] by (intro unat_of_nat_u64) linarith
    with row_of_Some [OF r] follow r show ?thesis unfolding rows_follow_def by metis
  qed
  with follow show ?thesis unfolding rows_follow_def by blast
qed

theorem indexer_follows_the_chain_witness:
  "\<exists>s r. ix_run toy_pg toy_ix (NewIndexerService toy_pg 0 empty_pg) toy_events = Some s \<and> ix_lastIndexed s = 1
     \<and> row_of bx_Height 1 (tb_blocks (pg_tables (ix_db s))) = Some r \<and> row_describes toy_hash toy_b r"
proof -
  obtain s where s: "ix_run toy_pg toy_ix (NewIndexerService toy_pg 0 empty_pg) toy_events = Some s" "ix_lastIndexed s = 1"
    using toy_index_run by blast
  have "honest_events toy_hash toy_blocks toy_events" "gapless 1 toy_events"
    by (simp_all add: honest_events_def toy_events_def toy_client_honest bh_Proto_def toy_header_def)
  from conjunct2 [OF indexer_follows_the_chain [OF toy_pg_ok(1) toy_heights_ok this s(1)], rule_format, of 1] s(2)
  have "\<exists>r. row_of bx_Height (of_nat 1) (tb_blocks (pg_tables (ix_db s))) = Some r \<and> row_describes toy_hash (toy_blocks ! 1) r" by simp
  with s show ?thesis by auto
qed



section \<open>The explorer\<close>


definition toy_explorer :: explorer_env where
  "toy_explorer = \<lparr>ex_print = (\<lambda>b d u. []), ex_time = (\<lambda>l t. []), ex_gatewayUrl = []\<rparr>"


text \<open>
  C26: the pages of the list of blocks, from the first to the last that the links name, list every indexed
  block once, from the greatest height down, in whatever order the database visits the rows.
\<close>

theorem block_pages_list_every_block:
  assumes "answers_all P" "pg_ok P" "length (tb_blocks t) \<le> 2 ^ 60"
  shows "\<exists>pages. int pages = (int (length (tb_blocks t)) + 19) div 20
    \<and> (\<forall>p D. 1 \<le> p \<and> p \<le> pages \<and> pg_tables D = t \<longrightarrow> (\<exists>pg D'. handleBlocks P X (dec p) D = (Inr (BlocksR pg), D')
         \<and> map (\<lambda>b. unat (bd_Height b)) (lp_Items pg) = heights_on t p
         \<and> pg_CurrentPage (lp_Pagination pg) = int p \<and> pg_TotalPages (lp_Pagination pg) = int pages))
    \<and> concat (map (heights_on t) [1..<Suc pages]) = rev (sort (map (\<lambda>b. unat (bx_Height b)) (tb_blocks t)))"
proof -
  define pages where "pages = (length (tb_blocks t) + 19) div 20"
  have n: "int pages = (int (length (tb_blocks t)) + 19) div 20" by (simp add: pages_def zdiv_int)
  have "length (tb_blocks t) \<le> 20 * pages" unfolding pages_def by linarith
  note cover = heights_pages [OF this]
  have "pages \<le> 2 ^ 58" using assms(3) by (simp add: pages_def)
  then have "\<exists>pg D'. handleBlocks P X (dec p) D = (Inr (BlocksR pg), D')
       \<and> map (\<lambda>b. unat (bd_Height b)) (lp_Items pg) = heights_on t p
       \<and> pg_CurrentPage (lp_Pagination pg) = int p \<and> pg_TotalPages (lp_Pagination pg) = int pages"
    if "1 \<le> p" "p \<le> pages" "pg_tables D = t" for p D
    using blocks_page [OF assms(1,2), of p D X] that assms(3) n by force
  with n cover show ?thesis by blast
qed

theorem block_pages_list_every_block_witness:
  "\<exists>pg D'. handleBlocks toy_pg toy_explorer [49]
       \<lparr>pg_tables = no_tables\<lparr>tb_blocks := map (\<lambda>h. (block_index [] (bh_Proto (toy_header h)) (bb_Proto (b_Body toy_b)))) [2, 1]\<rparr>, pg_calls = 0\<rparr>
     = (Inr (BlocksR pg), D') \<and> map (\<lambda>b. unat (bd_Height b)) (lp_Items pg) = [2, 1]"
proof -
  let ?t = "no_tables\<lparr>tb_blocks := map (\<lambda>h. (block_index [] (bh_Proto (toy_header h)) (bb_Proto (b_Body toy_b)))) [2, 1]\<rparr>"
  have "length (tb_blocks ?t) \<le> 2 ^ 60" by simp
  from block_pages_list_every_block [OF toy_pg_ok(2,1) this, of toy_explorer]
  obtain pages where n: "int pages = (int (length (tb_blocks ?t)) + 19) div 20"
    and page: "\<forall>p D. 1 \<le> p \<and> p \<le> pages \<and> pg_tables D = ?t \<longrightarrow> (\<exists>pg D'. handleBlocks toy_pg toy_explorer (dec p) D = (Inr (BlocksR pg), D')
         \<and> map (\<lambda>b. unat (bd_Height b)) (lp_Items pg) = heights_on ?t p
         \<and> pg_CurrentPage (lp_Pagination pg) = int p \<and> pg_TotalPages (lp_Pagination pg) = int pages)" by blast
  have "pages = 1" using n by simp
  with page [rule_format, of 1 "\<lparr>pg_tables = ?t, pg_calls = 0\<rparr>"]
  obtain pg D' where "handleBlocks toy_pg toy_explorer (dec 1) \<lparr>pg_tables = ?t, pg_calls = 0\<rparr> = (Inr (BlocksR pg), D')"
    "map (\<lambda>b. unat (bd_Height b)) (lp_Items pg) = heights_on ?t 1" by auto
  moreover have "dec 1 = [49]" by (simp add: dec.simps)
  moreover have "heights_on ?t 1 = [2, 1]" by (simp add: heights_on_def block_index_def bh_Proto_def toy_header_def)
  ultimately show ?thesis by auto
qed

section \<open>REST\<close>

text \<open>
  C21: over a node that serves a chain, the REST API answers a request for a height in decimal digits, or for
  the hash of a block with or without its prefix, with the response that describes the block of the chain,
  its hash computed anew.
\<close>

theorem rest_serves_the_chain:
  assumes "pebble_ok (e_db E) V" "pebble_total (e_db E)" "chain_repr (e_B E) cid off (content V d) bs"
    and "indexed (e_B E) (content V d) bs" "cache_ok (e_B E) rcache bs"
    and "h < length bs" "length bs < 2 ^ 64" "rs_rollup R = rollup_of E d cache" "rs_B R = e_B E"
    and "s \<in> {dec h, hash_String (header_hash (e_B E) (b_Header (bs ! h))), hex_EncodeToString (hash_Bytes (header_hash (e_B E) (b_Header (bs ! h))))}"
  shows "\<exists>cache'. getBlockByHeightOrHash R s rcache = (Inr (BlockRespR (response_of (rs_base36 R) (e_B E) (bs ! h))), cache')
    \<and> cache_ok (e_B E) cache' bs"
  by (rule rest_block [OF assms])

theorem rest_serves_the_chain_witness:
  "\<exists>R (b :: Block) cache' cache''. getBlockByHeightOrHash R [49] Map.empty = (Inr (BlockRespR (response_of id_base36 toy_hash b)), cache')
     \<and> getBlockByHeightOrHash R (hash_String (header_hash toy_hash (b_Header b))) Map.empty
       = (Inr (BlockRespR (response_of id_base36 toy_hash b)), cache'')"
proof -
  obtain b0 bc0 where s0: "mem_serves bc0 [b0]" "prev_ok (Some b0) [b0]" by (rule mem_serves_first)
  obtain b bc where s: "mem_serves bc [b0, b]" by (rule mem_serves_step [OF s0])
  let ?d = "cs_db (bc_state bc)"
  have P: "pebble_ok (e_db mem_env) mem_view" "pebble_total (e_db mem_env)" using mem_pebble_ok by simp_all
  have repr: "chain_repr (e_B mem_env) ChainIDMocha StartHeightMocha (content mem_view ?d) [b0, b]"
    and ix: "indexed (e_B mem_env) (content mem_view ?d) [b0, b]"
    using s by (simp_all add: mem_serves_def node_inv_def servable_def)
  have cache: "cache_ok (e_B mem_env) Map.empty [b0, b]" by (simp add: cache_ok_def)
  define R where "R = \<lparr>rs_rollup = rollup_of mem_env ?d Map.empty, rs_storage = \<lparr>sc_GetFileManifest = (\<lambda>s. Inr None),
     sc_GetFileData = (\<lambda>s. Inr []), sc_GetDirectoryManifest = (\<lambda>s. Inr None)\<rparr>, rs_base36 = id_base36, rs_B = e_B mem_env\<rparr>"
  have R: "rs_rollup R = rollup_of mem_env ?d Map.empty" "rs_B R = e_B mem_env" by (simp_all add: R_def)
  note served = rest_serves_the_chain [OF P repr ix cache _ _ R, of 1]
  have "\<exists>cache'. getBlockByHeightOrHash R (dec 1) Map.empty = (Inr (BlockRespR (response_of (rs_base36 R) (e_B mem_env) ([b0, b] ! 1))), cache')"
    using served [of "dec 1"] by auto
  moreover have "\<exists>cache'. getBlockByHeightOrHash R (hash_String (header_hash (e_B mem_env) (b_Header ([b0, b] ! 1)))) Map.empty
      = (Inr (BlockRespR (response_of (rs_base36 R) (e_B mem_env) ([b0, b] ! 1))), cache')"
    using served [of "hash_String (header_hash (e_B mem_env) (b_Header ([b0, b] ! 1)))"] by auto
  ultimately show ?thesis by (auto simp: R_def dec.simps intro!: exI [of _ R])
qed

section \<open>What the index loses\<close>

text \<open>A file with the same chunk at two places has one row for both, which holds the later place.\<close>

lemma repeated_chunk_keeps_last:
  assumes "insert_file_chunk P \<lparr>fc_file_id = f, fc_chunk_id = k, fc_chunk_index = n\<rparr> t = Inr t1"
    and "insert_file_chunk P \<lparr>fc_file_id = f, fc_chunk_id = k, fc_chunk_index = m\<rparr> t1 = Inr t2" and "schema_ok P t"
  shows "r \<in> set (tb_file_chunks t2) \<and> fc_key r = (f, k) \<longleftrightarrow> r = \<lparr>fc_file_id = f, fc_chunk_id = k, fc_chunk_index = m\<rparr>"
proof -
  let ?r = "\<lparr>fc_file_id = f, fc_chunk_id = k, fc_chunk_index = m\<rparr>"
  have row: "row_of fc_key (f, k) (tb_file_chunks t2) = Some ?r"
    using file_chunks_table.row_after [OF assms(2), of "(f, k)"] by (simp add: fc_key_def)
  have "schema_ok P t2" using assms insert_file_chunk_typed by blast
  then have "distinct (map fc_key (tb_file_chunks t2))" by (simp add: schema_ok_def keys_unique_def)
  with row show ?thesis using row_of_Some [OF row] row_of_in_set by fastforce
qed

text \<open>
  The row of a block is written before its items: when the database fails for the rest of a block and the
  service starts again, the block counts as indexed and its chunk is never written.
\<close>

definition failing_pg :: pg_env where
  "failing_pg = toy_pg\<lparr>pg_answer := (\<lambda>n. if n \<in> {2..5} then Refused (Ext ''connection refused'') else Answered)\<rparr>"

lemma refused:
  assumes "n \<in> {2..5}"
  shows "exec failing_pg stmt \<lparr>pg_tables = t, pg_calls = n\<rparr> = (Inl (Ext ''connection refused''), \<lparr>pg_tables = t, pg_calls = n + 1\<rparr>)"
  using assms by (simp add: exec_def failing_pg_def Let_def)

definition toy_row :: BlockIndex where
  "toy_row = block_index (pb_Hash toy_message) (bh_Proto (bh_canon (b_Header toy_b))) (bb_Proto (b_Body toy_b))"

lemma toy_row_height [simp]: "bx_Height toy_row = 1"
  by (simp add: toy_row_def block_index_def bh_Proto_def bh_canon_def toy_header_def)

lemma failing_block:
  "indexBlock failing_pg toy_ix toy_client 1 \<lparr>pg_tables = no_tables, pg_calls = 1\<rparr>
    = (Inl (Ext ''connection refused''), \<lparr>pg_tables = no_tables\<lparr>tb_blocks := [toy_row]\<rparr>, pg_calls = 6\<rparr>)"
proof -
  have "PutBlockIndex failing_pg toy_row \<lparr>pg_tables = no_tables, pg_calls = 1\<rparr>
      = (Inr (), \<lparr>pg_tables = no_tables\<lparr>tb_blocks := [toy_row]\<rparr>, pg_calls = 2\<rparr>)"
    by (simp add: PutBlockIndex_def exec_def insert_block_def block_columns_def toy_row_def block_index_def bh_Proto_def bb_Proto_def
        bh_canon_def toy_header_def failing_pg_def toy_pg_def as_text_def bigint_def integer_def no_tables_def Let_def)
  moreover have "nc_GetBlockByHeight toy_client 1 = Inr (Some toy_message)"
    "pb_Header toy_message = Some (bh_Proto (bh_canon (b_Header toy_b)))" "pb_Body toy_message = Some (bb_Proto (b_Body toy_b))"
    by (simp_all add: toy_client_def toy_message_def)
  moreover have "indexChunk failing_pg toy_ix toy_client (bi_Proto (ix_id 1)) 0 h \<lparr>pg_tables = t, pg_calls = 2\<rparr>
      = (Inl (Ext ''connection refused''), \<lparr>pg_tables = t, pg_calls = 3\<rparr>)" for h t
    by (simp add: indexChunk_def sbind_def present_def Let_def toy_client_def PutChunkIndex_def refused)
  moreover have "indexFile failing_pg toy_ix toy_client (bi_Proto (ix_id 2)) h \<lparr>pg_tables = t, pg_calls = 3\<rparr>
      = (Inl (Ext ''connection refused''), \<lparr>pg_tables = t, pg_calls = 4\<rparr>)" for h t
    by (simp add: indexFile_def sbind_def present_def Let_def toy_client_def PutFileIndex_def refused)
  moreover have "indexDirectory failing_pg toy_ix toy_client (bi_Proto (ix_id 3)) h \<lparr>pg_tables = t, pg_calls = 4\<rparr>
      = (Inl (Ext ''connection refused''), \<lparr>pg_tables = t, pg_calls = 5\<rparr>)" for h t
    by (simp add: indexDirectory_def sbind_def present_def Let_def toy_client_def PutDirectoryIndex_def refused toy_dman_def)
  ultimately show ?thesis
    by (simp add: indexBlock_def sbind_def present_def wrap_def toy_row_def bb_Proto_def PutBlockIndex_def refused Let_def)
qed

lemma restart_skips_items:
  "\<exists>s. ix_run failing_pg toy_ix (NewIndexerService failing_pg 0 empty_pg)
      [SubscribeOk 1, RecvHeader (Some (bh_Proto (toy_header 1))) toy_client, StartedAgain 0, SubscribeOk 2] = Some s
    \<and> ix_lastIndexed s = 1 \<and> tb_chunks (pg_tables (ix_db s)) = []"
proof -
  have "NewIndexerService failing_pg 0 empty_pg = \<lparr>ix_phase = Subscribing, ix_lastIndexed = 0, ix_db = \<lparr>pg_tables = no_tables, pg_calls = 1\<rparr>\<rparr>"
    "NewIndexerService failing_pg 0 \<lparr>pg_tables = no_tables\<lparr>tb_blocks := [toy_row]\<rparr>, pg_calls = 6\<rparr>
     = \<lparr>ix_phase = Subscribing, ix_lastIndexed = 1, ix_db = \<lparr>pg_tables = no_tables\<lparr>tb_blocks := [toy_row]\<rparr>, pg_calls = 7\<rparr>\<rparr>"
    by (simp_all add: NewIndexerService_def GetLastIndexedHeight_def queryRow_def failing_pg_def toy_pg_def empty_pg_def no_tables_def)
  moreover have "pbh_Height (bh_Proto (toy_header 1)) = 1" by (simp add: bh_Proto_def toy_header_def)
  ultimately show ?thesis using failing_block by (simp add: received_def first_wait_def no_tables_def)
qed

end
