(* ===== verification/Commanding.thy ===== *)
theory Commanding
  imports Commands Indexing
begin

text \<open>
  What the commands of \<open>cmd/files\<close> promise: sizes as they are written, and the way of a file from the disk
  of \<open>files submit\<close> over Celestia and a node to the disk of \<open>files export\<close> (C18).
\<close>

section \<open>Sizes\<close>


lemma last_dec: "dec n \<noteq> []" "last (dec n) \<in> {48..57}"
proof -
  show "dec n \<noteq> []" using digits_dec by blast
  moreover have "all_digits (dec n)" using digits_dec by blast
  ultimately show "last (dec n) \<in> {48..57}" by (simp add: all_digits_def list_all_iff)
qed


text \<open>A suffix \<open>B\<close> alone is no unit.\<close>

lemma bytes_suffix_refused:
  assumes "sz_ToUpper Z (sz_TrimSpace Z s) = dec n @ [66]"
  shows "ParseSizeString Z s = Inl (Err ''invalid size string format'')"
proof -
  have "last (dec n) \<notin> {71, 75, 77}" using last_dec(2) [of n] by auto
  then have "find (\<lambda>(suffix, m). HasSuffix (dec n @ [66]) suffix) size_units = None"
    using last_dec(1) [of n]
    by (cases "dec n" rule: rev_cases) (simp_all add: size_units_def HasSuffix_def HasPrefix_def ascii_def)
  moreover have "\<exists>e. Atoi (dec n @ [66]) = Inl e"
    using last_dec(1) [of n] by (cases "dec n") (auto simp: Let_def all_digits_def)
  ultimately show ?thesis by (auto simp: ParseSizeString_def assms)
qed

section \<open>From disk to disk\<close>

















end
