(* ===== verification/Spec2Isabelle.thy ===== *)
theory Spec2Isabelle
  imports Commanding
begin

text \<open>
  A model of Blobcast (\<open>src/\<close>, Go): a node that reads the blobs of a namespace from Celestia,
  records chunks, file manifests and directory manifests in a Pebble database, and links them
  into a chain of blocks with a Merkle mountain range of everything recorded; services that
  serve the chain and its files; clients that copy a chain, upload and export files; and an
  indexer that writes the chain to PostgreSQL for an explorer.

  \<^bold>\<open>Theories and the code they model\<close>
    \<^item> \<open>Prelude\<close>: Go's integers, slices, errors, statuses and panics; \<open>Loops\<close>: counting loops.
    \<^item> \<open>Bytes\<close> (\<open>pkg/util\<close>), \<open>Crypto\<close> (\<open>pkg/crypto/crypto.go\<close>), \<open>Hex\<close>, \<open>Merkle\<close>
      (\<open>pkg/crypto/merkle\<close>), \<open>Blob\<close> and \<open>Block\<close> (\<open>pkg/types\<close>): encodings and hashes.
    \<^item> \<open>Mmr_Arith\<close>, \<open>Mmr\<close>, \<open>Mmr_Proofs\<close>, \<open>Mmr_Snapshot\<close> (\<open>pkg/crypto/mmr\<close>): positions, appending
      and the root, inclusion proofs, snapshots.
    \<^item> \<open>Store\<close>, \<open>Chain_State\<close> (\<open>pkg/state\<close>): the database's keys, reads and transactions.
    \<^item> \<open>Chain_Sync\<close> (\<open>pkg/sync/chain.go\<close>): recording blobs, blocks, the loops of \<open>SyncChain\<close>,
      subscribers. \<open>Storage_Proofs\<close>, \<open>Chain_Proofs\<close>, \<open>Sync_Run\<close>, \<open>Chain_Live\<close>, \<open>Bodies\<close>: what they
      keep and when they succeed.
    \<^item> \<open>Node\<close> (\<open>cmd/node\<close>, \<open>pkg/state/consts.go\<close>): the command and the life of a node process.
    \<^item> \<open>Storage_Api\<close> (\<open>pkg/api/node\<close>, \<open>pkg/grpc/storage\<close>), \<open>Rollup_Api\<close> (\<open>pkg/grpc/rollup\<close>): services.
    \<^item> \<open>Stream\<close>, \<open>Stream_Server\<close>, \<open>Stream_Client\<close>, \<open>Stream_Copy\<close>, \<open>Stream_Commit\<close>
      (\<open>pkg/grpc/sync\<close>, \<open>pkg/sync/grpc.go\<close>): streaming a chain and copying it; \<open>Serving\<close>: C30-C34.
    \<^item> \<open>Upload\<close>, \<open>Upload_Proofs\<close> (\<open>pkg/sync/sync.go\<close>, \<open>manifest.go\<close>, \<open>pkg/state/upload.go\<close>,
      \<open>pkg/fileutil\<close>), \<open>Submit\<close> (\<open>pkg/sync/submit.go\<close>): uploads and the submitter; \<open>Uploading\<close>: C35-C37.
    \<^item> \<open>Paths\<close>, \<open>Files\<close>, \<open>Files_Proofs\<close> (\<open>pkg/storage\<close>, \<open>pkg/encryption\<close>, \<open>pkg/sync/filesystem.go\<close>):
      export and upload of directories; \<open>Sharing\<close>: C38, C39.
    \<^item> \<open>Retry\<close> (\<open>pkg/util/retry.go\<close>), \<open>Celestia\<close> (\<open>pkg/celestia\<close>), \<open>Gateway\<close>, \<open>Gateway_Proofs\<close>
      (\<open>cmd/gateway\<close>): the client of Celestia and the gateway; \<open>Access\<close>: C24, C40.
    \<^item> \<open>Commands\<close> (\<open>cmd/files\<close>, \<open>pkg/util/string.go\<close>), \<open>Commanding\<close>: submitting and exporting from the
      command line; C18.
    \<^item> \<open>Index_Db\<close> (\<open>pkg/state/indexer.go\<close>): the tables of the index and the statements on them;
      \<open>Index_Tables\<close>: keys, types and references; \<open>Indexer\<close> (\<open>pkg/indexer/service.go\<close>): the service;
      \<open>Index_Runs\<close>: its runs; \<open>Index_Blocks\<close>: the rows of one block.
    \<^item> \<open>Explorer\<close>, \<open>Explorer_Proofs\<close> (\<open>pkg/explorer\<close>), \<open>Rest\<close> (\<open>pkg/api/rest\<close>): pages and JSON;
      \<open>Index_Views\<close>: what a page shows of an indexed block; \<open>Indexing\<close>: C20, C21, C23, C25, C26.
    \<^item> \<open>Instance\<close>, \<open>Examples\<close>: an in-memory database and concrete inputs for the witnesses.

  \<^bold>\<open>What is a parameter\<close>
  The hash BLAKE3, Pebble, the protobuf codecs, base36 and Go's order of visiting a map are fields
  of the record \<open>env\<close> or arguments, with their documented behaviour in \<open>env_ok\<close>, \<open>pebble_ok\<close>,
  \<open>codec_ok\<close> and \<open>base36_ok\<close>; Celestia is the record \<open>da\<close>, whose commitments determine the data
  (\<open>commitments_bind\<close>). PostgreSQL's order of rows, failures, texts, times and collation are \<open>pg_env\<close>
  (\<open>pg_ok\<close>). The file system, AES-GCM, the detector of mime types, the RPC interface of Celestia, JSON,
  the printing of sizes and times and Unicode lower case are arguments or fields as well. What happens over
  time (answers of Celestia, received heads, slow subscribers, the scheduler, the other end of a stream,
  broken connections) is an argument of the operation.

  \<^bold>\<open>What the lemmas show\<close>
  C1-C11 are about the chain: every reachable database holds one, steps append to it or change
  nothing, the loops end. C12-C17 are about the mountain range, against the list of its leaves.
  C19 and C22 are about encodings, C27 and C28 about the database, C29 about subscribers, C30-C34 about
  serving and copying a chain, C35-C39 about uploads, the submitter and directories, C18 about the
  way of a file from \<open>files submit\<close> over a node to \<open>files export\<close>, C24 about the gateway, C40 about Celestia. C20, C23, C25 and C26 are about the index: the table of blocks refines the
  chain, the tables stay well-typed, an indexed block is shown completely; C21 is about the REST API.

  \<^bold>\<open>Bounds\<close>
  Heights stay below \<open>2 ^ 38\<close> and leaves below \<open>2 ^ 40\<close>, where the arithmetic of the mountain range,
  which goes through \<open>float64\<close> logarithms in the code, is exact. Counts of a block body fit 32 bits, and
  the blocks of the explorer's list \<open>2 ^ 60\<close>, so that its offsets do not wrap around.
  The loops of \<open>SyncChain\<close> are partial functions, proved to return.

  \<^bold>\<open>Not modelled\<close>
  Logging, the declaration of flags and environment variables, sockets and routes, creating the schema of the index and its
  search triggers (they are PostgreSQL's), HTML templates, generated code.
\<close>

section \<open>The node\<close>





text \<open>
  C3: one iteration of the loops of \<open>SyncChain\<close> that succeeds implements appending a block to
  the abstract chain: in the database, in the header cache and in the node's position.
\<close>

theorem sync_step_appends:
  assumes "env_ok E V" "commitments_bind D g" "blobs_fit D" "node_inv E V g cid off bc bs" "bs \<noteq> []"
    and "prev_ok prev bs" "length bs < 2 ^ 38"
    and "sync_step E D slow (of_nat (length bs)) (of_nat (length bs) + off) prev bc = (Inr b, bc')"
  shows "node_inv E V g cid off bc' (bs @ [b])"
  by (rule sync_step_extends [OF assms])

theorem sync_step_appends_witness:
  "\<exists>b bc b' bc'. sync_step mem_env chunk_da (\<lambda>_. False) 1 (1 + StartHeightMocha) (Some b) bc = (Inr b', bc')
     \<and> node_inv mem_env mem_view (\<lambda>k. [1, 42]) ChainIDMocha StartHeightMocha bc' [b, b']"
proof -
  obtain b bc b' bc' where node: "node_inv mem_env mem_view (\<lambda>k. [1, 42]) ChainIDMocha StartHeightMocha bc [b]"
    "prev_ok (Some b) [b]"
    and run: "sync_step mem_env chunk_da (\<lambda>_. False) (of_nat (length [b])) (of_nat (length [b]) + StartHeightMocha)
      (Some b) bc = (Inr b', bc')" by (rule mem_node_produces)
  from sync_step_appends [OF mem_env_ok chunk_da_ok node(1) _ node(2) _ run] run show ?thesis by auto
qed

text \<open>
  C4: an iteration that fails leaves the database as it was: nothing of the block is written.
\<close>

theorem sync_step_failure_writes_nothing:
  assumes "sync_step E D slow h ch prev bc = (Inl e, bc')"
  shows "cs_db (bc_state bc') = cs_db (bc_state bc)"
  using assms
  by (auto simp: sync_step_def run_block_def BeginTransaction_def Let_def abort_with_def Abort_def Commit_def
      split: sum.splits prod.splits if_splits)

theorem sync_step_failure_writes_nothing_witness:
  "\<exists>e bc'. sync_step mem_env (chunk_da\<lparr>da_blobs := (\<lambda>h. Inl (Ext ''timeout''))\<rparr>) (\<lambda>_. False) 1 5 None mem_node = (Inl e, bc')
     \<and> cs_db (bc_state bc') = mem_fresh"
proof -
  let ?D = "chunk_da\<lparr>da_blobs := (\<lambda>h. Inl (Ext ''timeout''))\<rparr>"
  obtain e bc' where run: "sync_step mem_env ?D (\<lambda>_. False) 1 5 None mem_node = (Inl e, bc')"
    by (simp add: sync_step_def run_block_def BeginTransaction_def mem_node_def abort_with_def ProduceBlock_def
        ProduceBlockFromCelestiaHeight_def SyncCelestiaHeight_def Let_def)
  with sync_step_failure_writes_nothing [OF run] show ?thesis by (simp add: mem_node_def)
qed

text \<open>
  C5: an iteration succeeds when the store does and Celestia answers with blobs that
  \<open>SyncBlobs\<close> takes, unless the chain has two or more blocks and has recorded nothing.
\<close>

theorem sync_step_progresses:
  assumes "env_ok E V" "pebble_total (e_db E)" "node_inv E V g cid off bc bs" "bs \<noteq> []" "prev_ok prev bs"
    and "length bs < 2 ^ 38" "length bs = 1 \<or> chain_leaves bs \<noteq> []"
    and "da_header D ch = Inr time" "da_blobs D ch = Inr blobs"
    and "SyncBlobs E (cs_db (bc_state bc)) (NewChainStateTransaction E (cs_db (bc_state bc))) (bc_heap bc) ch blobs = Inr s"
  shows "\<exists>b bc'. sync_step E D slow (of_nat (length bs)) ch prev bc = (Inr b, bc')"
  by (rule sync_step_live [OF assms])

theorem sync_step_progresses_witness:
  "\<exists>b bc b' bc'. sync_step mem_env chunk_da (\<lambda>_. True) 1 7 (Some b) bc = (Inr b', bc')"
proof -
  obtain b bc where node: "node_inv mem_env mem_view (\<lambda>k. [1, 42]) ChainIDMocha StartHeightMocha bc [b]"
    "prev_ok (Some b) [b]" by (rule mem_node_started)
  obtain s where s: "SyncBlobs mem_env (cs_db (bc_state bc)) (NewChainStateTransaction mem_env (cs_db (bc_state bc)))
      (bc_heap bc) 7 [chunk_blob] = Inr s"
    using chunk_blob_taken by blast
  have total: "pebble_total (e_db mem_env)" using mem_pebble_ok by simp
  have "\<exists>b' bc'. sync_step mem_env chunk_da (\<lambda>_. True) (of_nat (length [b])) 7 (Some b) bc = (Inr b', bc')"
    by (rule sync_step_progresses [OF mem_env_ok total node(1) _ node(2) _ _ _ _ s]) simp_all
  then show ?thesis by auto
qed

text \<open>
  C6: a chain of two or more blocks that has recorded nothing is never extended again: below a
  height with no stored mountain range, the state lookup of the next block fails.
\<close>

theorem empty_chain_never_extended:
  assumes "env_ok E V" "node_inv E V g cid off bc bs" "2 \<le> length bs" "length bs < 2 ^ 38" "chain_leaves bs = []"
  shows "\<exists>e bc'. sync_step E D slow (of_nat (length bs)) ch prev bc = (Inl e, bc')"
  by (rule empty_chain_stuck [OF assms])

text \<open>An empty Celestia height after genesis leads to such a chain.\<close>

theorem empty_chain_never_extended_witness:
  "\<exists>b b' bc. node_inv mem_env mem_view (\<lambda>k. [1, 42]) ChainIDMocha StartHeightMocha bc [b, b']
     \<and> (\<forall>ch prev. \<exists>e bc'. sync_step mem_env chunk_da (\<lambda>_. False) 2 ch prev bc = (Inl e, bc'))"
proof -
  let ?D = "chunk_da\<lparr>da_blobs := (\<lambda>h. Inr [])\<rparr>"
  have D: "commitments_bind ?D (\<lambda>k. [1, 42])" "blobs_fit ?D" by (simp_all add: commitments_bind_def blobs_fit_def)
  obtain b bc where node: "node_inv mem_env mem_view (\<lambda>k. [1, 42]) ChainIDMocha StartHeightMocha bc [b]"
    "prev_ok (Some b) [b]" by (rule mem_node_started)
  let ?ch = "of_nat (length [b]) + StartHeightMocha"
  have total: "pebble_total (e_db mem_env)" using mem_pebble_ok by simp
  obtain b' bc' where run: "sync_step mem_env ?D (\<lambda>_. False) (of_nat (length [b])) ?ch (Some b) bc = (Inr b', bc')"
    using sync_step_live [OF mem_env_ok total node(1) _ node(2), where D = ?D and slow = "\<lambda>_. False" and ch = ?ch
        and blobs = "[]"] by (fastforce simp: SyncBlobs_def)
  have node': "node_inv mem_env mem_view (\<lambda>k. [1, 42]) ChainIDMocha StartHeightMocha bc' ([b] @ [b'])"
    by (rule sync_step_extends [OF mem_env_ok D node(1) _ node(2) _ run]) simp_all
  have "state_leaves b = []"
    using node(1) by (simp add: node_inv_def chain_repr_def block_ok_def Let_def)
  moreover have "state_leaves b' = []"
    by (rule empty_step_leaves [OF run]) simp
  ultimately have none: "chain_leaves ([b] @ [b']) = []" by (simp add: chain_leaves_def)
  have "\<exists>e bc2. sync_step mem_env chunk_da (\<lambda>_. False) (of_nat (length ([b] @ [b']))) ch prev bc' = (Inl e, bc2)" for ch prev
    using none by (intro empty_chain_never_extended [OF mem_env_ok node']) simp_all
  then have "\<forall>ch prev. \<exists>e bc2. sync_step mem_env chunk_da (\<lambda>_. False) 2 ch prev bc' = (Inl e, bc2)" by simp
  with node' show ?thesis by auto
qed

text \<open>
  C7: \<open>SyncChain\<close> returns for all answers of Celestia and all received heads, as long as no head
  is the largest height; each height is reached once.
\<close>

theorem SyncChain_terminates:
  assumes "\<And>hs. heads = Inr hs \<Longrightarrow> - 1 \<notin> set hs"
  shows "\<exists>p. SyncChain E D slow heights heads bc = Some p"
  using assms by (rule SyncChain_returns)

theorem SyncChain_terminates_witness:
  "\<exists>p. SyncChain mem_env chunk_da (\<lambda>_ _. False) [Inr 9, Inr 3] (Inr [5, 9]) mem_node = Some p"
  by (rule SyncChain_terminates) auto

text \<open>
  C8: recording the blobs of a height keeps the store sound: chunks are the data that their
  commitments name, with their hashes; the chunks of every file manifest are present and hash
  to its file hash; the files of every directory are present and hash to its Merkle root.
\<close>

theorem SyncBlobs_keeps_store_sound:
  assumes "env_ok E V" "store_sound E g (content V d)"
    and "SyncBlobs E d (NewChainStateTransaction E d) heap height blobs = Inr s"
    and "\<And>b k. b \<in> set blobs \<Longrightarrow> to_hash (bl_Commitment b) = Inr k \<Longrightarrow> bl_Data b = g k"
  shows "store_sound E g (tx_view V d (ss_tx s))"
  using SyncBlobs_good [OF assms(1) tx_good_new [OF assms(1,2)] assms(3,4)] by (simp add: tx_good_def)

theorem SyncBlobs_keeps_store_sound_witness:
  "\<exists>s. SyncBlobs mem_env [] (NewChainStateTransaction mem_env []) 0 7 [chunk_blob] = Inr s
     \<and> store_sound mem_env (\<lambda>k. [1, 42]) (tx_view mem_view [] (ss_tx s))"
proof -
  obtain s where s: "SyncBlobs mem_env [] (NewChainStateTransaction mem_env []) 0 7 [chunk_blob] = Inr s"
    using chunk_blob_taken by blast
  have sound: "store_sound mem_env (\<lambda>k. [1, 42]) (content mem_view [])" by (simp add: store_sound_def)
  have "store_sound mem_env (\<lambda>k. [1, 42]) (tx_view mem_view [] (ss_tx s))"
    by (rule SyncBlobs_keeps_store_sound [OF mem_env_ok sound s]) (simp add: chunk_blob_def)
  with s show ?thesis by blast
qed

text \<open>
  C9: a directory manifest is accepted only if every file it lists is in the committed
  database: a file manifest accepted earlier in the same transaction does not count.
\<close>

theorem directory_needs_committed_files:
  assumes "pebble_ok (e_db E) V" "\<forall>a. tx_pendingFileManifests tx a \<noteq> None \<longrightarrow> a < heap"
    and "SyncDirectoryManifest E d tx heap height blob manifest = Inr (True, tx', heap')"
    and "file \<in> set (dm_Files manifest)" "BlobIdentifierFromProto (fr_Id file) = Inr i"
  shows "content V d (fman_key i) \<noteq> None"
  by (rule accepted_directory_committed [OF assms])

text \<open>The manifest of an empty file, accepted at height 3, and a directory that lists it.\<close>

theorem directory_needs_committed_files_witness:
  "\<exists>tx i. SyncFileManifest (mem_env\<lparr>e_file := any_codec\<rparr>) [] (NewChainStateTransaction mem_env []) 0 3 chunk_blob empty_file
       = Inr (True, tx, 1)
     \<and> tx_view mem_view [] tx (fman_key i) \<noteq> None
     \<and> (\<exists>heap. SyncDirectoryManifest (mem_env\<lparr>e_file := any_codec\<rparr>) [] tx 1 3 chunk_blob (one_file_dir i) = Inr (False, tx, heap))"
proof -
  let ?E = "mem_env\<lparr>e_file := any_codec\<rparr>" and ?i = "\<lparr>bi_Height = 3, bi_Commitment = 7\<rparr>"
  have P: "pebble_ok (e_db ?E) mem_view" using mem_pebble_ok by simp
  obtain tx where accepted: "SyncFileManifest ?E [] (NewChainStateTransaction mem_env []) 0 3 chunk_blob empty_file = Inr (True, tx, 1)"
    and put: "PutFileManifest ?E (NewChainStateTransaction mem_env []) (0, ?i) empty_file = Inr tx"
    by (rule empty_file_accepted)
  have view: "tx_view mem_view [] tx (fman_key ?i) \<noteq> None" using PutFileManifest_effect(1) [OF P put, of "[]"] by auto
  have pend: "\<forall>a. tx_pendingFileManifests tx a \<noteq> None \<longrightarrow> a < 1"
    using PutFileManifest_effect(2) [OF P put] by (simp add: NewChainStateTransaction_def)
  have file_id: "BlobIdentifierFromProto (fr_Id (hd (dm_Files (one_file_dir ?i)))) = Inr ?i"
    by (simp add: one_file_dir_def)
  obtain acc tx' heap' where dir: "SyncDirectoryManifest ?E [] tx 1 3 chunk_blob (one_file_dir ?i) = Inr (acc, tx', heap')"
    using pend by (rule one_file_dir_runs [of tx ?i])
  have "acc = False"
  proof (rule ccontr)
    assume "acc \<noteq> False"
    with dir have run: "SyncDirectoryManifest ?E [] tx 1 3 chunk_blob (one_file_dir ?i) = Inr (True, tx', heap')" by simp
    from directory_needs_committed_files [OF P pend run _ file_id] show False by (simp add: one_file_dir_def)
  qed
  moreover have "acc = False \<Longrightarrow> tx' = tx"
    using dir by (auto simp: SyncDirectoryManifest_def Let_def rbind_eq_Inr split: option.splits if_splits)
  ultimately show ?thesis using accepted view dir by blast
qed



text \<open>
  C11: after a restart, when the parent is read from the database instead of passed on, a block
  is applied to the same result.
\<close>

theorem ApplyBlock_same_after_restart:
  assumes "env_ok E V" "chain_repr (e_B E) cid off (content V d) bs" "bs \<noteq> []"
    and "cache_ok (e_B E) cache bs" "cache_ok (e_B E) cache' bs" "b_canon p = b_canon (last bs)"
    and "length bs < 2 ^ 38" "b_Height b = of_nat (length bs)"
    and "ApplyBlock E d cache tx b (Some p) = (Inr (tx1, b1), cache1)"
      "ApplyBlock E d cache' tx b None = (Inr (tx2, b2), cache2)"
  shows "b1 = b2"
  by (rule ApplyBlock_restart [OF assms])

theorem ApplyBlock_same_after_restart_witness:
  "\<exists>d b1 c1 c2 tx1 tx2 g b. ApplyBlock mem_env d Map.empty (NewChainStateTransaction mem_env d) b (Some g) = (Inr (tx1, b1), c1)
     \<and> ApplyBlock mem_env d Map.empty (NewChainStateTransaction mem_env d) b None = (Inr (tx2, b1), c2)"
proof -
  obtain g bc where node: "node_inv mem_env mem_view (\<lambda>k. [1, 42]) ChainIDMocha StartHeightMocha bc [g]"
    "prev_ok (Some g) [g]" by (rule mem_node_started)
  let ?d = "cs_db (bc_state bc)" and ?b = "(NewBlock toy_hash [] [] [])\<lparr>b_Header := bh_zero\<lparr>bh_Height := 1\<rparr>\<rparr>"
  let ?tx = "NewChainStateTransaction mem_env ?d"
  have repr: "chain_repr (e_B mem_env) ChainIDMocha StartHeightMocha (content mem_view ?d) [g]"
    using node(1) by (simp add: node_inv_def)
  have total: "pebble_total (e_db mem_env)" using mem_pebble_ok by simp
  have cache: "cache_ok (e_B mem_env) Map.empty [g]" by (simp add: cache_ok_def)
  have h: "b_Height ?b = of_nat (length [g])" by (simp add: b_Height_def)
  have app: "\<exists>tx' b' cache'. ApplyBlock mem_env ?d Map.empty ?tx ?b prev = (Inr (tx', b'), cache')"
    if "prev_ok prev [g]" for prev
    by (rule ApplyBlock_total [OF mem_env_ok total repr _ that _ _ h]) simp_all
  obtain tx1 b1 c1 where 1: "ApplyBlock mem_env ?d Map.empty ?tx ?b (Some g) = (Inr (tx1, b1), c1)"
    using app [of "Some g"] node(2) by blast
  obtain tx2 b2 c2 where 2: "ApplyBlock mem_env ?d Map.empty ?tx ?b None = (Inr (tx2, b2), c2)"
    using app [of None] by (auto simp: prev_ok_def)
  have "b1 = b2"
    by (rule ApplyBlock_same_after_restart [OF mem_env_ok repr _ cache cache _ _ h 1 2]) simp_all
  with 1 2 show ?thesis by blast
qed

section \<open>The Merkle mountain range\<close>

text \<open>
  C12: \<open>AddLeaf\<close> implements appending a leaf to the list of leaves that the range represents, and
  returns the root of the longer list.
\<close>

theorem AddLeaf_appends:
  assumes "\<forall>x. B x \<noteq> 0" "mmr_repr B ls m" "length ls < 2 ^ 46"
  shows "mmr_repr B (ls @ [B leaf]) (snd (AddLeaf B leaf m))
    \<and> fst (AddLeaf B leaf m) = root_of B (ls @ [B leaf])"
proof -
  have "length ls < 2 ^ 62" "length (ls @ [B leaf]) < 2 ^ 62" using assms(3) by simp_all
  with AddLeaf_repr [OF assms(1,2)] Root_repr show ?thesis by (simp add: fst_AddLeaf)
qed

theorem AddLeaf_appends_witness:
  "mmr_repr toy_hash [toy_hash [1], toy_hash [2], toy_hash [3]] (snd (AddLeaf toy_hash [3] two_leaves))"
  using AddLeaf_appends [of toy_hash "[toy_hash [1], toy_hash [2]]" two_leaves "[3]"] two_leaves_repr by simp

text \<open>
  C13: \<open>GenerateInclusionProof\<close> returns a proof for every leaf of the range, and the proof verifies in
  the range and in every range that extends it.
\<close>

theorem inclusion_proofs_complete:
  assumes "\<forall>x. B x \<noteq> 0" "mmr_repr B ls m" "mmr_repr B (ls @ xs) m'" "length ls < 2 ^ 46" "unat i < length ls"
  shows "\<exists>proof. GenerateInclusionProof m i = Some (Inr proof) \<and> ip_LeafIndex proof = i
    \<and> ip_LeafHash proof = nodeh B ((!) ls) 0 (unat i) \<and> VerifyInclusionProof B m' proof"
  using assms(4) by (intro GenerateInclusionProof_complete [OF assms(1-3) _ assms(5)]) simp

theorem inclusion_proofs_complete_witness:
  "\<exists>proof. GenerateInclusionProof two_leaves 1 = Some (Inr proof)
     \<and> VerifyInclusionProof toy_hash (snd (AddLeaf toy_hash [3] two_leaves)) proof"
proof -
  have "mmr_repr toy_hash ([toy_hash [1], toy_hash [2]] @ [toy_hash [3]]) (snd (AddLeaf toy_hash [3] two_leaves))"
    using AddLeaf_repr [OF _ two_leaves_repr, of "[3]"] by simp
  with inclusion_proofs_complete [OF _ two_leaves_repr this, of 1] show ?thesis by auto
qed



text \<open>
  C15: without siblings the index is not checked: any peak of an accepted proof also passes as the leaf
  at any index, in the range or beyond it.
\<close>

theorem proof_without_path_ignores_index:
  assumes "VerifyInclusionProof B m proof" "x \<in> set (ip_Peaks proof)"
  shows "VerifyInclusionProof B m (proof\<lparr>ip_LeafIndex := i, ip_LeafHash := x, ip_Siblings := []\<rparr>)"
  by (rule VerifyInclusionProof_no_path [OF assms])

theorem proof_without_path_ignores_index_witness:
  "\<exists>x S P. VerifyInclusionProof toy_hash two_leaves
     \<lparr>ip_LeafIndex = 999, ip_LeafHash = x, ip_Siblings = S, ip_Peaks = P, ip_MMRSize = m_size two_leaves\<rparr>"
proof -
  obtain ipf where p: "VerifyInclusionProof toy_hash two_leaves ipf" "ip_MMRSize ipf = m_size two_leaves"
    by (rule two_leaves_proof)
  then have "ip_Peaks ipf \<noteq> []" by (auto simp: VerifyInclusionProof_def Let_def)
  then have "hd (ip_Peaks ipf) \<in> set (ip_Peaks ipf)" by simp
  from proof_without_path_ignores_index [OF p(1) this, of 999] p(2) show ?thesis
    by (cases ipf) auto
qed

text \<open>
  C16: two ranges with the same root hold the same leaf hashes, in the same order, when the hash does not
  collide on what the two roots are computed from.
\<close>

theorem root_commits_to_leaves:
  assumes "\<forall>x. B x \<noteq> 0" "mmr_repr B ls m" "mmr_repr B ks m'" "length ls < 2 ^ 46" "length ks < 2 ^ 46"
    and "ls \<noteq> []" "ks \<noteq> []" "inj_on B (root_inputs B ls \<union> root_inputs B ks)" "Root B m = Root B m'"
  shows "ls = ks"
proof (rule root_of_inj [OF assms(1) _ _ assms(8) _ assms(6,7)])
  show n: "length ls < 2 ^ 62" "length ks < 2 ^ 62" using assms(4,5) by simp_all
  show "root_of B ls = root_of B ks"
    using assms(9) Root_repr [OF assms(2) n(1)] Root_repr [OF assms(3) n(2)] by simp
qed

theorem root_commits_to_leaves_witness:
  "[toy_hash [1]] = [toy_hash [1]] \<and> Root toy_hash (snd (AddLeaf toy_hash [1] NewMMR)) \<noteq> 0"
proof -
  have repr: "mmr_repr toy_hash [toy_hash [1]] (snd (AddLeaf toy_hash [1] NewMMR))"
    using AddLeaf_repr [OF _ mmr_repr_NewMMR, of toy_hash "[1]"] by simp
  have "inj_on toy_hash (root_inputs toy_hash [toy_hash [1]] \<union> root_inputs toy_hash [toy_hash [1]])"
    using toy_hash_one_root by simp
  from root_commits_to_leaves [OF _ repr repr _ _ _ _ this refl]
  have "[toy_hash [1]] = [toy_hash [1]]" by simp
  moreover have "Root toy_hash (snd (AddLeaf toy_hash [1] NewMMR)) \<noteq> 0"
    using Root_repr [OF repr] root_of_nonzero [of "[toy_hash [1]]" toy_hash] by simp
  ultimately show ?thesis by simp
qed

text \<open>
  C17: restoring the snapshot of a range with distinct leaves gives the range back, whatever the order
  in which Go visits the map of leaf indexes.
\<close>

theorem snapshot_round_trip:
  assumes "\<forall>x. B x \<noteq> 0" "mmr_repr B ls m" "distinct ls" "length ls < 2 ^ 40" "iter_of iter m"
  shows "\<exists>s. Snapshot iter m = Inr s \<and> Restore m0 s = Inr m"
  by (rule Restore_Snapshot_repr [OF assms])

theorem snapshot_round_trip_witness:
  "\<exists>s. Snapshot [(toy_hash [2], 1), (toy_hash [1], 0)] two_leaves = Inr s \<and> NewMMRFromSnapshot s = Inr two_leaves"
proof -
  have ne: "toy_hash [1] \<noteq> toy_hash [2]" using toy_hash_eqD [of "[1]" "[2]"] by auto
  have "m_leafIndexes two_leaves = leaf_map [toy_hash [1], toy_hash [2]]" using two_leaves_repr by (simp add: mmr_repr_def)
  with ne have iter: "iter_of [(toy_hash [2], 1), (toy_hash [1], 0)] two_leaves"
    by (auto simp: iter_of_def leaf_map_def)
  from snapshot_round_trip [OF _ two_leaves_repr _ _ iter] ne show ?thesis
    by (simp add: NewMMRFromSnapshot_def)
qed

text \<open>
  A snapshot that ends before its leaf count makes \<open>Restore\<close> panic instead of returning an error,
  since that slice alone is not guarded.
\<close>

theorem Restore_panics_on_truncated_snapshot:
  assumes "length pks < 2 ^ 40" "length nds < 2 ^ 64" "pks \<noteq> [] \<or> nds \<noteq> []"
    and "s = BytesFromUint64 (of_nat (length pks)) @ concat (map hash_Bytes pks)
      @ BytesFromUint64 (of_nat (length nds)) @ concat (map hash_Bytes nds)"
  shows "Restore m s = Inl (Panic ''slice bounds out of range'')"
  using assms(1) by (intro Restore_truncated [OF _ assms(2-4)]) simp

theorem Restore_panics_on_truncated_snapshot_witness:
  "NewMMRFromSnapshot (BytesFromUint64 1 @ hash_Bytes 5 @ BytesFromUint64 1 @ hash_Bytes 5)
     = Inl (Panic ''slice bounds out of range'')"
  using Restore_panics_on_truncated_snapshot [of "[5]" "[5]" _ NewMMR] by (simp add: NewMMRFromSnapshot_def)

section \<open>Blocks and identifiers\<close>

text \<open>
  C19: a stored block reads back as it was written, up to what the header encoding drops: fractions
  of a second and chain id bytes beyond 255.
\<close>

theorem block_bytes_round_trip:
  assumes "bb_fits (b_Body b)"
  shows "BlockFromBytes (b_Bytes b) = Inr (b_canon b)"
  by (rule BlockFromBytes_b_Bytes [OF assms])

theorem block_bytes_round_trip_witness:
  "BlockFromBytes (b_Bytes (NewBlock toy_hash [bi_zero] [] [bi_zero, bi_zero]))
     = Inr (NewBlock toy_hash [bi_zero] [] [bi_zero, bi_zero])"
proof -
  let ?b = "NewBlock toy_hash [bi_zero] [] [bi_zero, bi_zero]"
  have "bb_fits (b_Body ?b)" by (simp add: NewBlock_def NewBlockFromHeader_def bb_fits_def)
  moreover have "b_canon ?b = ?b"
    by (simp add: NewBlock_def NewBlockFromHeader_def CopyBlockHeader_def bh_zero_def b_canon_def bh_canon_def
        gotime_zero_def)
  ultimately show ?thesis using block_bytes_round_trip [of ?b] by simp
qed

text \<open>
  A block sent as a protobuf message and read back is the same block; the conversion reads the
  header's hash, which fills the cache.
\<close>

theorem block_proto_round_trip: "BlockFromProto (fst (b_Proto B cache b)) = Inr b"
  by (rule BlockFromProto_b_Proto)

text \<open>
  Two headers with the same hash agree in every field the encoding keeps, when the hash does not
  collide on their two encodings: the fields are written without separators, but no other header has
  the same bytes.
\<close>

theorem header_hash_commits_to_fields:
  assumes "HashBytes B [bh_Bytes g] = HashBytes B [bh_Bytes h]" "inj_on B {bh_Bytes g, bh_Bytes h}"
  shows "bh_canon g = bh_canon h"
  using assms bh_Bytes_inj [of g h] by (auto dest: inj_onD)

theorem header_hash_commits_to_fields_witness:
  "bh_canon (bh_zero\<lparr>bh_ChainID := [1, 2], bh_Timestamp := \<lparr>unix_sec = 5, nsec = 3\<rparr>\<rparr>)
     = bh_canon (bh_zero\<lparr>bh_ChainID := [1, 2], bh_Timestamp := \<lparr>unix_sec = 5, nsec = 9\<rparr>\<rparr>)"
  by (rule header_hash_commits_to_fields [of toy_hash]) (simp_all add: bh_Bytes_def BytesFromTime_def)

text \<open>
  C22: a Merkle root of a block determines the list of identifiers it was computed from, their number
  and order included, when the hash does not collide on the inputs of the two trees.
\<close>

theorem merkle_root_commits_to_identifiers:
  assumes "inj_on B (set (merkle_inputs B (map bi_Bytes xs)) \<union> set (merkle_inputs B (map bi_Bytes ys)))"
    and "length xs < 2 ^ 64" "length ys < 2 ^ 64" "\<And>x. B x \<noteq> 0"
    and "BlobIdentifiersMerkleRoot B xs = BlobIdentifiersMerkleRoot B ys"
  shows "xs = ys"
  by (rule blob_root_binding [OF assms])

theorem merkle_root_commits_to_identifiers_witness:
  "[bi_zero] = [bi_zero] \<and> BlobIdentifiersMerkleRoot toy_hash [bi_zero] \<noteq> 0"
proof -
  have "inj_on toy_hash (set (merkle_inputs toy_hash (map bi_Bytes [bi_zero]))
      \<union> set (merkle_inputs toy_hash (map bi_Bytes [bi_zero])))"
    by (simp add: merkle_inputs_one)
  from merkle_root_commits_to_identifiers [OF this] have "[bi_zero] = [bi_zero]" by simp
  moreover have "BlobIdentifiersMerkleRoot toy_hash [bi_zero] \<noteq> 0"
    using CalculateMerkleRoot_nonzero [of "[bi_Bytes bi_zero]" toy_hash] by (simp add: BlobIdentifiersMerkleRoot_def)
  ultimately show ?thesis by blast
qed

text \<open>
  An identifier that is printed, as a string or as a URL, parses back to itself.
\<close>

theorem identifier_round_trip:
  assumes "base36_ok c"
  shows "BlobIdentifierFromString c (bi_ID c b) = Inr b \<and> BlobIdentifierFromURL c (bi_URL c b) = Inr b"
  using BlobIdentifierFromString_bi_ID [OF assms] BlobIdentifierFromURL_bi_URL [OF assms] by simp

theorem identifier_round_trip_witness:
  "BlobIdentifierFromURL id_base36 (bi_URL id_base36 \<lparr>bi_Height = 77, bi_Commitment = 5\<rparr>)
     = Inr \<lparr>bi_Height = 77, bi_Commitment = 5\<rparr>"
  using identifier_round_trip [OF id_base36_ok] by simp

text \<open>
  A string whose base36 data does not decode to 40 bytes is no error: it parses to the zero identifier.
\<close>

theorem short_identifier_is_zero:
  assumes "b36_decode c s = Inr d" "length d \<noteq> 40"
  shows "BlobIdentifierFromString c (ascii ''bc'' @ s) = Inr bi_zero"
  using assms by (simp add: BlobIdentifierFromString_def BlobIdentifierFromBytes_def)

theorem short_identifier_is_zero_witness:
  "BlobIdentifierFromString id_base36 (ascii ''bc'' @ [104, 101, 108, 108, 111]) = Inr bi_zero"
  by (rule short_identifier_is_zero [where d = "[104, 101, 108, 108, 111]"]) (simp_all add: id_base36_def eval_nat_numeral)

section \<open>The database\<close>

text \<open>
  The keys of the chain database are distinct for distinct entries, although \<open>blk:\<close> is a prefix
  of \<open>blk:h:\<close> and \<open>chk:\<close> of \<open>chk:h:\<close>, and those of one family of heights are ordered as the heights.
\<close>

theorem database_keys_distinct_and_ordered:
  "(encode_key a = encode_key b \<longleftrightarrow> a = b)
   \<and> (bytes_less (prefixHeightKey v p) (prefixHeightKey w p) \<longleftrightarrow> v < w)"
  by (simp add: prefixHeightKey_def prefixKey_def Uint64Key_less)

text \<open>
  In a transaction that has written chunks, a chunk reads as its last write, or from the
  database when there is none, which is what the database holds once the batch is committed.
\<close>

theorem transaction_reads_its_writes:
  fixes E :: "('d, 'b) env"
  assumes "pebble_ok (e_db E) V" "pebble_total (e_db E)"
    and "fold_res (\<lambda>tx (key, val). PutChunk E tx key val (HashBytes (e_B E) [val])) (NewChainStateTransaction E d) kvs
      = Inr tx"
  shows "tx_GetChunk E d tx k = Inr (case map_of (rev kvs) k of Some v \<Rightarrow> Some v | None \<Rightarrow> content V d (chk_key k))
    \<and> tx_GetChunk E d tx k = Inr (tx_view V d tx (chk_key k))"
proof -
  let ?tx0 = "NewChainStateTransaction E d"
  have run: "chunk_writes.puts TYPE('d) E (\<lambda>v. HashBytes (e_B E) [v]) ?tx0 kvs = Inr tx"
    using assms(3) by (simp add: chunk_writes.puts_def)
  have pend: "tx_pendingChunks tx = map_of (rev kvs)"
    using chunk_writes.pend_puts [OF run] by (simp add: NewChainStateTransaction_def)
  have "chunk_writes.agrees TYPE('d) V d ?tx0"
    by (rule chunk_writes.agrees_start) (simp_all add: NewChainStateTransaction_def tx_view_new [OF assms(1), symmetric])
  from chunk_writes.agrees_puts [OF assms(1) this run] have "chunk_writes.agrees TYPE('d) V d tx" .
  from chunk_writes.read_through [OF this, of k]
  have view: "(case tx_pendingChunks tx k of Some v \<Rightarrow> Some v | None \<Rightarrow> content V d (chk_key k)) = tx_view V d tx (chk_key k)" .
  have "tx_GetChunk E d tx k = Inr (case tx_pendingChunks tx k of Some v \<Rightarrow> Some v | None \<Rightarrow> content V d (chk_key k))"
    using db_get_total [OF assms(1,2)] by (simp add: tx_GetChunk_def cs_GetChunk_def split: option.splits flip: chk_key_def)
  with view pend show ?thesis by simp
qed

theorem transaction_reads_its_writes_witness:
  "\<exists>tx. fold_res (\<lambda>tx (key, val). PutChunk mem_env tx key val (HashBytes toy_hash [val]))
       (NewChainStateTransaction mem_env []) [(1, [5]), (2, [6]), (1, [7])] = Inr tx
     \<and> tx_GetChunk mem_env [] tx 1 = Inr (Some [7]) \<and> tx_GetChunk mem_env [] tx 3 = Inr None"
proof -
  obtain tx where run: "fold_res (\<lambda>tx (key, val). PutChunk mem_env tx key val (HashBytes (e_B mem_env) [val]))
       (NewChainStateTransaction mem_env []) [(1, [5]), (2, [6]), (1, [7])] = Inr tx"
    by (simp add: PutChunk_def nil_assign_def nil_maps_def NewChainStateTransaction_def Let_def)
  have P: "pebble_ok (e_db mem_env) mem_view" "pebble_total (e_db mem_env)" using mem_pebble_ok by simp_all
  from transaction_reads_its_writes [OF P run] run show ?thesis by auto
qed



text \<open>
  C28: \<open>GetStateMMR\<close> returns the snapshot of the greatest height at or below the one asked for, and
  an error when there is none; other keys never come between.
\<close>

theorem GetStateMMR_returns_latest:
  assumes "pebble_ok (e_db E) V" "pebble_total (e_db E)" "db_keys_ok (content V d)" "h \<noteq> 0" "h + 1 \<noteq> 0"
  shows "(\<forall>j s. serves (content V d) h j s \<longrightarrow> GetStateMMR E d h = NewMMRFromSnapshot s)
    \<and> ((\<forall>i\<le>h. content V d (mmr_key i) = None) \<longrightarrow>
        GetStateMMR E d h = Inl (Err ''no MMR found at or before height''))"
  using GetStateMMR_serves [OF assms] by blast

theorem GetStateMMR_returns_latest_witness:
  "GetStateMMR mem_env [(encode_key (KMMR 3), [7]), (encode_key (KMMR 9), [8])] 5 = NewMMRFromSnapshot [7]"
proof -
  let ?d = "[(encode_key (KMMR 3), [7]), (encode_key (KMMR 9), [8])] :: mem"
  have P: "pebble_ok (e_db mem_env) mem_view" "pebble_total (e_db mem_env)" using mem_pebble_ok by simp_all
  have keys: "db_keys_ok (content mem_view ?d)"
    by (auto simp: db_keys_ok_def split: if_splits simp del: encode_key.simps)
  have "serves (content mem_view ?d) 5 3 [7]"
    using encode_key_inj [of "KMMR i" "KMMR 3" for i] encode_key_inj [of "KMMR i" "KMMR 9" for i]
    by (auto simp: serves_def)
  with GetStateMMR_returns_latest [OF P keys, of 5] show ?thesis by auto
qed

text \<open>
  C29: while a subscriber stays subscribed no header is lost: what it has not received yet is a
  suffix of what was published, of at most 100 headers and all of it when no more fit.
\<close>

theorem published_headers_in_order:
  assumes "fold (\<lambda>(slow, header) subs. publishNewHeader slow header subs) published subs ident = Some buf'"
    and "subs ident = Some buf" "length buf \<le> 100"
  shows "\<exists>received. buf @ map snd published = received @ buf' \<and> length buf' \<le> 100
    \<and> (length buf + length published \<le> 100 \<longrightarrow> received = [])"
  by (rule publish_suffix [OF assms])

theorem published_headers_in_order_witness:
  "\<exists>buf'. fold (\<lambda>(slow, header) subs. publishNewHeader slow header subs)
       [(\<lambda>_. False, bh_zero), (\<lambda>_. False, bh_zero\<lparr>bh_Height := 1\<rparr>)] (SubscribeToNewHeaders 4 Map.empty) 4 = Some buf'
     \<and> [bh_zero, bh_zero\<lparr>bh_Height := 1\<rparr>] = buf'"
proof -
  let ?p = "[(\<lambda>_. False, bh_zero), (\<lambda>_. False, bh_zero\<lparr>bh_Height := 1\<rparr>)] :: ((nat \<Rightarrow> bool) \<times> BlockHeader) list"
  obtain buf' where run: "fold (\<lambda>(slow, header) subs. publishNewHeader slow header subs) ?p (SubscribeToNewHeaders 4 Map.empty) 4
      = Some buf'"
    by (simp add: publishNewHeader_def SubscribeToNewHeaders_def)
  have sub: "SubscribeToNewHeaders 4 Map.empty 4 = Some []" by (simp add: SubscribeToNewHeaders_def)
  from published_headers_in_order [OF run sub] run show ?thesis by auto
qed

end
